(* ===== verification/Prelude.thy ===== *)
theory Prelude
  imports Main "HOL-Library.Word"
begin

text \<open>
  Shared vocabulary of the development: the machine types the C code uses, the outcome of a
  C computation that may fault, memory regions as lists with checked stores, and the
  generic lemmas the component theories rely on.

  \<^item> a \<^verbatim>\<open>char[]\<close> region is a list; a store outside it is the value \<open>Inl OutOfBounds\<close>,
    never a silently ignored update;
  \<^item> a call that does not return is \<open>Inl Diverges\<close>;
  \<^item> \<^verbatim>\<open>abort()\<close> (the macros \<^verbatim>\<open>ABORT\<close> and \<^verbatim>\<open>ASSERT\<close> of \<^verbatim>\<open>lib/log.h\<close>) is \<open>Inl Aborted\<close>;
  \<^item> \<open>blit m p s\<close> is the region \<open>m\<close> with \<open>s\<close> written at position \<open>p\<close>; the
    collection \<open>blit_simps\<close> holds its algebra.
\<close>

unbundle bit_operations_syntax

named_theorems blit_simps
named_theorems cres_simps

section \<open>Machine types\<close>

type_synonym u8 = "8 word"
type_synonym u16 = "16 word"
type_synonym u32 = "32 word"
type_synonym u64 = "64 word"

text \<open>Conversion of an \<^verbatim>\<open>int\<close> expression to \<^verbatim>\<open>size_t\<close>, as in a call \<^verbatim>\<open>f(.., n - i, ..)\<close>.\<close>

definition size_t_of :: "int \<Rightarrow> nat" where
  "size_t_of x = nat (x mod 2 ^ 64)"

lemma size_t_of_nonneg [simp]: "0 \<le> x \<Longrightarrow> x < 2 ^ 64 \<Longrightarrow> size_t_of x = nat x"
  by (simp add: size_t_of_def)

section \<open>Faulting computations\<close>

datatype c_fault = OutOfBounds | Aborted | Exited | Diverges

type_synonym 'a cres = "c_fault + 'a"

definition bindE :: "'a cres \<Rightarrow> ('a \<Rightarrow> 'b cres) \<Rightarrow> 'b cres" where
  "bindE r f = (case r of Inl e \<Rightarrow> Inl e | Inr x \<Rightarrow> f x)"

lemma bindE_Inr [simp, cres_simps]: "bindE (Inr x) f = f x"
  by (simp add: bindE_def)

lemma bindE_Inl [simp, cres_simps]: "bindE (Inl e) f = Inl e"
  by (simp add: bindE_def)

lemma bindE_eq_Inr: "bindE r f = Inr y \<longleftrightarrow> (\<exists>x. r = Inr x \<and> f x = Inr y)"
  by (cases r) auto

lemma bindE_assoc: "bindE (bindE r f) g = bindE r (\<lambda>x. bindE (f x) g)"
  by (cases r) auto

section \<open>Memory regions\<close>

definition store :: "'a list \<Rightarrow> nat \<Rightarrow> 'a \<Rightarrow> 'a list cres" where
  "store m i c = (if i < length m then Inr (m[i := c]) else Inl OutOfBounds)"

definition blit :: "'a list \<Rightarrow> nat \<Rightarrow> 'a list \<Rightarrow> 'a list" where
  "blit m p s = take p m @ s @ drop (p + length s) m"

definition memcpy :: "'a list \<Rightarrow> nat \<Rightarrow> 'a list \<Rightarrow> 'a list cres" where
  "memcpy m p s = (if s = [] \<or> p + length s \<le> length m then Inr (blit m p s) else Inl OutOfBounds)"

lemma length_blit [simp, blit_simps]:
  "p + length s \<le> length m \<Longrightarrow> length (blit m p s) = length m"
  by (simp add: blit_def)

lemma blit_Nil [simp, blit_simps]: "blit m p [] = m"
  by (simp add: blit_def)

lemma blit_append [blit_simps]:
  "p + length s + length t \<le> length m \<Longrightarrow>
   blit (blit m p s) (p + length s) t = blit m p (s @ t)"
  by (simp add: blit_def ac_simps)

lemma blit_overwrite [blit_simps]:
  "length s = length t \<Longrightarrow> p + length s \<le> length m \<Longrightarrow> blit (blit m p s) p t = blit m p t"
  by (simp add: blit_def)

lemma blit_prepend:
  "p + length s + length t \<le> length m \<Longrightarrow>
   blit (blit m (p + length s) t) p s = blit m p (s @ t)"
  by (simp add: blit_def add.assoc min_def)

lemma list_update_blit: "i < length m \<Longrightarrow> m[i := c] = blit m i [c]"
  by (simp add: blit_def upd_conv_take_nth_drop)

lemma store_blit [simp]: "i < length m \<Longrightarrow> store m i c = Inr (blit m i [c])"
  by (simp add: store_def list_update_blit)

lemma store_fault: "length m \<le> i \<Longrightarrow> store m i c = Inl OutOfBounds"
  by (simp add: store_def)

lemma memcpy_blit [simp]: "p + length s \<le> length m \<Longrightarrow> memcpy m p s = Inr (blit m p s)"
  by (simp add: memcpy_def)

lemma memcpy_fault: "s \<noteq> [] \<Longrightarrow> length m < p + length s \<Longrightarrow> memcpy m p s = Inl OutOfBounds"
  by (simp add: memcpy_def)

lemma take_blit: "p + length s \<le> length m \<Longrightarrow> take (p + length s) (blit m p s) = take p m @ s"
  by (simp add: blit_def)

lemma take_blit_less: "p' \<le> p \<Longrightarrow> p \<le> length m \<Longrightarrow> take p' (blit m p s) = take p' m"
  by (simp add: blit_def min_def)

lemma drop_blit:
  "p + length s \<le> q \<Longrightarrow> p + length s \<le> length m \<Longrightarrow> drop q (blit m p s) = drop q m"
  by (simp add: blit_def min_def)

lemma nth_blit:
  "p + length s \<le> length m \<Longrightarrow> i < length m \<Longrightarrow>
   blit m p s ! i = (if i < p then m ! i else if i < p + length s then s ! (i - p) else m ! i)"
  by (auto simp: blit_def nth_append min_def)

section \<open>C strings\<close>

abbreviation NUL :: char where
  "NUL \<equiv> CHR 0x00"

definition cstr :: "string \<Rightarrow> string" where
  "cstr s = takeWhile (\<lambda>c. c \<noteq> NUL) s"

definition strlen :: "string \<Rightarrow> nat" where
  "strlen s = length (cstr s)"

lemma strlen_le: "strlen s \<le> length s"
  by (simp add: strlen_def cstr_def length_takeWhile_le)

lemma cstr_eq_take: "cstr s = take (strlen s) s"
  by (simp add: strlen_def cstr_def takeWhile_eq_take [symmetric])

lemma take_strlen: "n \<le> strlen s \<Longrightarrow> take n s = take n (cstr s)"
  by (subst cstr_eq_take) (simp add: min_def)

lemma cstr_id: "NUL \<notin> set s \<Longrightarrow> cstr s = s"
  by (auto simp: cstr_def takeWhile_eq_all_conv)

lemma cstr_append_NUL: "NUL \<notin> set s \<Longrightarrow> cstr (s @ NUL # t) = s"
  by (induction s) (auto simp: cstr_def)

lemma NUL_notin_cstr: "NUL \<notin> set (cstr s)"
  by (auto simp: cstr_def dest: set_takeWhileD)

section \<open>Sums over lists\<close>

lemma sum_list_replace:
  fixes f :: "'a \<Rightarrow> nat"
  assumes "i < length s"
  shows "(\<Sum>c\<leftarrow>s[i := x]. f c) + f (s ! i) = (\<Sum>c\<leftarrow>s. f c) + f x"
proof -
  have "s = take i s @ s ! i # drop (Suc i) s" using assms by (rule id_take_nth_drop)
  then have "(\<Sum>c\<leftarrow>s. f c) = (\<Sum>c\<leftarrow>take i s. f c) + (f (s ! i) + (\<Sum>c\<leftarrow>drop (Suc i) s. f c))"
    by (metis list.map(2) map_append sum_list.Cons sum_list_append)
  then show ?thesis using assms by (simp add: upd_conv_take_nth_drop)
qed

end
