(* ===== verification/Spsc_Ring.thy ===== *)
theory Spsc_Ring
  imports Prelude
begin

text \<open>
  The lock-free single-producer single-consumer ring of
  \<^verbatim>\<open>src/src/modules/packet_capture/pcap/lock_free_spsc_ring.h\<close> and \<^verbatim>\<open>.c\<close>, the channel between
  the packet reader and a worker thread.

  First the operations as the C functions, run without interruption; then the same code cut at
  its shared accesses into a step relation in which producer and consumer interleave
  (every shared access of the source is a full-barrier builtin or a volatile access ordered by
  one, so interleavings of single accesses are the behaviours). The invariant relates a state to
  the two histories: the values published by the producer and those consumed. The cursors are
  the history lengths modulo the ring size.
\<close>

section \<open>The ring and its operations\<close>

record ring =
  q_head :: nat
  q_tail :: nat
  cached_head :: nat
  cached_tail :: nat
  q_size :: nat
  q_data :: "nat list"

text \<open>\<^verbatim>\<open>(x) % q->_size\<close> where \<^verbatim>\<open>x\<close> is a \<^verbatim>\<open>uint32_t\<close> sum.\<close>

definition wrap :: "nat \<Rightarrow> nat \<Rightarrow> nat" where
  "wrap s x = x mod 2 ^ 32 mod s"

definition queue_init :: "nat \<Rightarrow> ring" where
  "queue_init sz = \<lparr>q_head = 0, q_tail = 0, cached_head = 0, cached_tail = 0, q_size = sz,
     q_data = replicate sz 0\<rparr>"

definition queue_full :: "ring \<Rightarrow> nat \<Rightarrow> bool" where
  "queue_full q h \<longleftrightarrow> wrap (q_size q) (h + 3) = cached_tail q"

text \<open>The return codes \<^verbatim>\<open>QUEUE_SUCCESS\<close>, \<^verbatim>\<open>QUEUE_FULL\<close>, \<^verbatim>\<open>QUEUE_EMPTY\<close>.\<close>

datatype queue_code = QUEUE_SUCCESS | QUEUE_FULL | QUEUE_EMPTY

definition queue_push :: "nat \<Rightarrow> ring \<Rightarrow> ring \<times> queue_code" where
  "queue_push val q =
     (let h = q_head q;
          q = (if queue_full q h then q\<lparr>cached_tail := q_tail q\<rparr> else q)
      in if queue_full q h then (q, QUEUE_FULL)
         else let q = q\<lparr>q_data := (q_data q)[h := val]\<rparr>
              in (q\<lparr>q_head := wrap (q_size q) (h + 1)\<rparr>, QUEUE_SUCCESS))"

definition queue_pop :: "ring \<Rightarrow> ring \<times> nat option" where
  "queue_pop q =
     (let t = q_tail q;
          q = (if cached_head q = t then q\<lparr>cached_head := q_head q\<rparr> else q)
      in if cached_head q = t then (q, None)
         else let val = q_data q ! t
              in (q\<lparr>q_tail := wrap (q_size q) (t + 1)\<rparr>, Some val))"

definition queue_pop_bulk :: "ring \<Rightarrow> ring \<times> (nat \<times> nat) option" where
  "queue_pop_bulk q =
     (let t = q_tail q;
          q = (if cached_head q = t then q\<lparr>cached_head := q_head q\<rparr> else q)
      in if cached_head q = t then (q, None)
         else if cached_head q > t then (q, Some (t, cached_head q - t))
         else (q, Some (t, q_size q - t)))"

definition queue_update_tail :: "nat \<Rightarrow> nat \<Rightarrow> ring \<Rightarrow> ring" where
  "queue_update_tail t n q = q\<lparr>q_tail := wrap (q_size q) (t + n)\<rparr>"

section \<open>The history invariant\<close>

text \<open>
  \<open>ct\<close> and \<open>ch\<close> are the history positions the cached cursors stand for: the producer's view
  of the tail is never ahead of the tail, the consumer's view of the head never ahead of the
  head.
\<close>

definition ring_inv :: "ring \<Rightarrow> nat list \<Rightarrow> nat list \<Rightarrow> nat \<Rightarrow> nat \<Rightarrow> bool" where
  "ring_inv q pushed popped ct ch \<longleftrightarrow>
     3 \<le> q_size q \<and> q_size q + 3 \<le> 2 ^ 32 \<and> length (q_data q) = q_size q \<and>
     q_head q = length pushed mod q_size q \<and> q_tail q = length popped mod q_size q \<and>
     cached_tail q = ct mod q_size q \<and> cached_head q = ch mod q_size q \<and>
     ct \<le> length popped \<and> length popped \<le> ch \<and> ch \<le> length pushed \<and>
     length pushed \<le> ct + (q_size q - 3) \<and>
     popped = take (length popped) pushed \<and>
     (\<forall>i. length popped \<le> i \<longrightarrow> i < length pushed \<longrightarrow> q_data q ! (i mod q_size q) = pushed ! i)"

lemma mod_inj_window:
  fixes a b s :: nat
  assumes "a \<le> b" "b < a + s"
  shows "a mod s = b mod s \<longleftrightarrow> a = b"
proof
  assume "a mod s = b mod s"
  then have "s dvd b - a" using mod_eq_dvd_iff_nat [OF assms(1), of s] by simp
  with assms show "a = b" by (auto dest: dvd_imp_le)
qed simp

lemma wrap_mod: "0 < s \<Longrightarrow> s + 3 \<le> 2 ^ 32 \<Longrightarrow> k \<le> 3 \<Longrightarrow> wrap s (n mod s + k) = (n + k) mod s"
proof -
  assume s: "0 < s" "s + 3 \<le> 2 ^ 32" "k \<le> 3"
  then have "n mod s + k < 2 ^ 32" using mod_less_divisor [of s n] by linarith
  then show ?thesis by (simp add: wrap_def mod_add_left_eq)
qed

lemma wrap_bulk: "t + n \<le> s \<Longrightarrow> s + 3 \<le> 2 ^ 32 \<Longrightarrow> wrap s (t + n) = (t + n) mod s"
  by (simp add: wrap_def)

lemma mod_slot_neq:
  fixes a b s :: nat
  shows "a < b \<Longrightarrow> b < a + s \<Longrightarrow> a mod s \<noteq> b mod s"
  using mod_inj_window [of a b s] by simp

lemma queue_full_iff:
  assumes "ring_inv q pushed popped ct ch"
  shows "queue_full q (q_head q) \<longleftrightarrow> length pushed = ct + (q_size q - 3)"
proof -
  have "wrap (q_size q) (q_head q + 3) = (length pushed + 3) mod q_size q"
    using assms by (simp add: ring_inv_def wrap_mod)
  also have "\<dots> = ct mod q_size q \<longleftrightarrow> length pushed + 3 = ct + q_size q"
    using assms mod_inj_window [of "length pushed + 3" "ct + q_size q" "q_size q"]
    by (auto simp: ring_inv_def)
  finally show ?thesis using assms by (auto simp: queue_full_def ring_inv_def)
qed

lemma cached_head_iff:
  assumes "ring_inv q pushed popped ct ch"
  shows "cached_head q = q_tail q \<longleftrightarrow> ch = length popped"
proof -
  have "length popped \<le> ch" "ch < length popped + q_size q"
    using assms unfolding ring_inv_def by linarith+
  then show ?thesis
    using assms mod_inj_window [of "length popped" ch "q_size q"] by (auto simp: ring_inv_def)
qed

lemma reload_tail_inv:
  "ring_inv q pushed popped ct ch \<Longrightarrow>
   ring_inv (q\<lparr>cached_tail := q_tail q\<rparr>) pushed popped (length popped) ch"
  by (auto simp: ring_inv_def)

lemma reload_head_inv:
  "ring_inv q pushed popped ct ch \<Longrightarrow>
   ring_inv (q\<lparr>cached_head := q_head q\<rparr>) pushed popped ct (length pushed)"
  by (auto simp: ring_inv_def)

lemma store_inv:
  assumes "ring_inv q pushed popped ct ch"
  shows "ring_inv (q\<lparr>q_data := (q_data q)[q_head q := v]\<rparr>) pushed popped ct ch"
  using assms
  by (auto simp: ring_inv_def nth_list_update_neq mod_slot_neq [symmetric] dest: mod_slot_neq)

lemma publish_inv:
  assumes "ring_inv q pushed popped ct ch" "q_data q ! q_head q = v"
    "length pushed < ct + (q_size q - 3)"
  shows "ring_inv (q\<lparr>q_head := wrap (q_size q) (q_head q + 1)\<rparr>) (pushed @ [v]) popped ct ch"
  using assms wrap_mod [of "q_size q" 1 "length pushed"]
  by (auto simp: ring_inv_def nth_append less_Suc_eq)

lemma tail_inv:
  assumes "ring_inv q pushed popped ct ch" "length popped + n \<le> ch"
    "wrap (q_size q) (q_tail q + n) = (length popped + n) mod q_size q"
    "got = take n (drop (length popped) pushed)"
  shows "ring_inv (queue_update_tail (q_tail q) n q) pushed (popped @ got) ct ch"
proof -
  have "length got = n" using assms by (auto simp: ring_inv_def)
  moreover have "popped @ got = take (length popped + n) pushed"
    using assms(1,4) by (auto simp: ring_inv_def take_add)
  ultimately show ?thesis
    using assms(1-3) by (auto simp: ring_inv_def queue_update_tail_def)
qed

section \<open>Bounded FIFO channels\<close>

datatype 'v fifo_op = Push 'v | Pop
datatype 'v fifo_out = Accepted bool | Popped "'v option"

text \<open>The specification: a list with a capacity.\<close>

fun spec_run :: "nat \<Rightarrow> 'v list \<Rightarrow> 'v fifo_op list \<Rightarrow> 'v fifo_out list" where
  "spec_run cap xs [] = []"
| "spec_run cap xs (Push v # ops) =
     (if length xs < cap then Accepted True # spec_run cap (xs @ [v]) ops
      else Accepted False # spec_run cap xs ops)"
| "spec_run cap xs (Pop # ops) =
     (case xs of [] \<Rightarrow> Popped None # spec_run cap [] ops
      | x # xs' \<Rightarrow> Popped (Some x) # spec_run cap xs' ops)"

fun fifo_run ::
  "('v \<Rightarrow> 'q \<Rightarrow> 'q \<times> bool) \<Rightarrow> ('q \<Rightarrow> 'q \<times> 'v option) \<Rightarrow> 'q \<Rightarrow> 'v fifo_op list \<Rightarrow> 'v fifo_out list" where
  "fifo_run push pop q [] = []"
| "fifo_run push pop q (Push v # ops) = (let (q', b) = push v q in Accepted b # fifo_run push pop q' ops)"
| "fifo_run push pop q (Pop # ops) = (let (q', r) = pop q in Popped r # fifo_run push pop q' ops)"

text \<open>A channel related to its histories: \<open>R q ps rs\<close> when \<open>ps\<close> was pushed and \<open>rs\<close> popped.\<close>

locale history_fifo =
  fixes R :: "'q \<Rightarrow> 'v list \<Rightarrow> 'v list \<Rightarrow> bool"
    and cap :: "'q \<Rightarrow> nat"
    and push :: "'v \<Rightarrow> 'q \<Rightarrow> 'q \<times> bool"
    and pop :: "'q \<Rightarrow> 'q \<times> 'v option"
  assumes R_bounds: "R q ps rs \<Longrightarrow> length rs \<le> length ps \<and> length ps \<le> length rs + cap q"
    and push_room: "R q ps rs \<Longrightarrow> length ps < length rs + cap q \<Longrightarrow>
          \<exists>q'. push v q = (q', True) \<and> R q' (ps @ [v]) rs \<and> cap q' = cap q"
    and push_full: "R q ps rs \<Longrightarrow> length ps = length rs + cap q \<Longrightarrow>
          \<exists>q'. push v q = (q', False) \<and> R q' ps rs \<and> cap q' = cap q"
    and pop_some: "R q ps rs \<Longrightarrow> length rs < length ps \<Longrightarrow>
          \<exists>q'. pop q = (q', Some (ps ! length rs)) \<and> R q' ps (rs @ [ps ! length rs]) \<and> cap q' = cap q"
    and pop_none: "R q ps rs \<Longrightarrow> length rs = length ps \<Longrightarrow>
          \<exists>q'. pop q = (q', None) \<and> R q' ps rs \<and> cap q' = cap q"
begin

lemma run_push:
  assumes "R q ps rs"
  shows "\<exists>q' b ps'. push v q = (q', b) \<and> b = (length (drop (length rs) ps) < cap q) \<and> R q' ps' rs \<and>
           cap q' = cap q \<and> drop (length rs) ps' = (if b then drop (length rs) ps @ [v] else drop (length rs) ps)"
proof (cases "length ps < length rs + cap q")
  case True
  with push_room [OF assms] R_bounds [OF assms] show ?thesis by fastforce
next
  case False
  with push_full [OF assms] R_bounds [OF assms] show ?thesis by fastforce
qed

lemma run_refines:
  "R q ps rs \<Longrightarrow> fifo_run push pop q ops = spec_run (cap q) (drop (length rs) ps) ops"
proof (induction ops arbitrary: q ps rs)
  case (Cons op ops)
  show ?case
  proof (cases op)
    case (Push v)
    obtain q' b ps' where p: "push v q = (q', b)" "b = (length (drop (length rs) ps) < cap q)" "R q' ps' rs"
      "cap q' = cap q" "drop (length rs) ps' = (if b then drop (length rs) ps @ [v] else drop (length rs) ps)"
      using run_push [OF Cons.prems] by blast
    show ?thesis using Cons.IH [OF p(3)] p(1,2,4,5) Push by simp
  next
    case Pop
    show ?thesis
    proof (cases "length rs < length ps")
      case True
      then obtain q' where q': "pop q = (q', Some (ps ! length rs))" "R q' ps (rs @ [ps ! length rs])"
        "cap q' = cap q" using pop_some [OF Cons.prems] by blast
      show ?thesis
        using Cons.IH [OF q'(2)] q'(1,3) True Pop by (simp add: Cons_nth_drop_Suc [symmetric])
    next
      case False
      then have "length rs = length ps" using R_bounds [OF Cons.prems] by simp
      then obtain q' where q': "pop q = (q', None)" "R q' ps rs" "cap q' = cap q"
        using pop_none [OF Cons.prems] by blast
      show ?thesis using Cons.IH [OF q'(2)] q'(1,3) False Pop by simp
    qed
  qed
qed simp

end

definition ring_hist :: "ring \<Rightarrow> nat list \<Rightarrow> nat list \<Rightarrow> bool" where
  "ring_hist q ps rs \<longleftrightarrow> (\<exists>ct ch. ring_inv q ps rs ct ch)"

definition ring_cap :: "ring \<Rightarrow> nat" where
  "ring_cap q = q_size q - 3"

definition ring_push :: "nat \<Rightarrow> ring \<Rightarrow> ring \<times> bool" where
  "ring_push v q = (let (q', c) = queue_push v q in (q', c = QUEUE_SUCCESS))"

lemma ring_inv_bounds:
  "ring_inv q ps rs ct ch \<Longrightarrow> length rs \<le> length ps \<and> length ps \<le> length rs + ring_cap q"
  by (auto simp: ring_inv_def ring_cap_def)

lemma q_head_lt: "ring_inv q ps rs ct ch \<Longrightarrow> q_head q < length (q_data q)"
  by (auto simp: ring_inv_def)

lemma push_commit:
  assumes "ring_inv q ps rs ct ch" "length ps < ct + (q_size q - 3)"
  shows "ring_inv (q\<lparr>q_data := (q_data q)[q_head q := v], q_head := wrap (q_size q) (q_head q + 1)\<rparr>)
           (ps @ [v]) rs ct ch"
  using publish_inv [OF store_inv [OF assms(1), of v], of v] assms(2) q_head_lt [OF assms(1)] by simp

lemma ring_push_room:
  assumes "ring_inv q ps rs ct ch" "length ps < length rs + ring_cap q"
  shows "\<exists>q'. ring_push v q = (q', True) \<and> ring_hist q' (ps @ [v]) rs \<and> ring_cap q' = ring_cap q"
proof (cases "queue_full q (q_head q)")
  case True
  let ?q = "q\<lparr>cached_tail := q_tail q\<rparr>"
  note i = reload_tail_inv [OF assms(1)]
  have "\<not> queue_full ?q (q_head q)" "length ps < length rs + (q_size ?q - 3)"
    using queue_full_iff [OF i] assms(2) by (simp_all add: ring_cap_def)
  then show ?thesis
    using push_commit [OF i, of v] True
    by (auto simp: ring_push_def queue_push_def Let_def ring_hist_def ring_cap_def)
next
  case False
  then have "length ps < ct + (q_size q - 3)"
    using queue_full_iff [OF assms(1)] assms(1) by (auto simp: ring_inv_def)
  then show ?thesis
    using push_commit [OF assms(1), of v] False
    by (auto simp: ring_push_def queue_push_def Let_def ring_hist_def ring_cap_def)
qed

lemma ring_push_full:
  assumes "ring_inv q ps rs ct ch" "length ps = length rs + ring_cap q"
  shows "\<exists>q'. ring_push v q = (q', False) \<and> ring_hist q' ps rs \<and> ring_cap q' = ring_cap q"
proof -
  note i = reload_tail_inv [OF assms(1)]
  have "ct = length rs" using assms by (auto simp: ring_inv_def ring_cap_def)
  then have "queue_full q (q_head q)" "queue_full (q\<lparr>cached_tail := q_tail q\<rparr>) (q_head q)"
    using queue_full_iff [OF assms(1)] queue_full_iff [OF i] assms(2) by (simp_all add: ring_cap_def)
  then show ?thesis
    using i by (auto simp: ring_push_def queue_push_def Let_def ring_hist_def ring_cap_def)
qed

lemma pop_commit:
  assumes "ring_inv q ps rs ct ch" "ch \<noteq> length rs"
  shows "q_data q ! q_tail q = ps ! length rs \<and>
         ring_inv (q\<lparr>q_tail := wrap (q_size q) (q_tail q + 1)\<rparr>) ps (rs @ [ps ! length rs]) ct ch"
proof -
  have "length rs < ch" "length rs < length ps" using assms by (auto simp: ring_inv_def)
  then show ?thesis
    using assms tail_inv [OF assms(1), of 1 "[ps ! length rs]"] wrap_mod [of "q_size q" 1 "length rs"]
    by (auto simp: ring_inv_def queue_update_tail_def take_Suc_conv_app_nth hd_drop_conv_nth take_Suc)
qed

lemma ring_pop_some:
  assumes "ring_inv q ps rs ct ch" "length rs < length ps"
  shows "\<exists>q'. queue_pop q = (q', Some (ps ! length rs)) \<and> ring_hist q' ps (rs @ [ps ! length rs]) \<and>
           ring_cap q' = ring_cap q"
proof (cases "cached_head q = q_tail q")
  case True
  note i = reload_head_inv [OF assms(1)]
  show ?thesis
    using pop_commit [OF i] cached_head_iff [OF i] assms(2) True
    by (auto simp: queue_pop_def Let_def ring_hist_def ring_cap_def)
next
  case False
  then show ?thesis
    using pop_commit [OF assms(1)] cached_head_iff [OF assms(1)]
    by (auto simp: queue_pop_def Let_def ring_hist_def ring_cap_def)
qed

lemma ring_pop_none:
  assumes "ring_inv q ps rs ct ch" "length rs = length ps"
  shows "\<exists>q'. queue_pop q = (q', None) \<and> ring_hist q' ps rs \<and> ring_cap q' = ring_cap q"
proof -
  note i = reload_head_inv [OF assms(1)]
  have "ch = length rs" using assms by (auto simp: ring_inv_def)
  then show ?thesis
    using i cached_head_iff [OF assms(1)] cached_head_iff [OF i] assms(2)
    by (auto simp: queue_pop_def Let_def ring_hist_def ring_cap_def)
qed

interpretation spsc: history_fifo ring_hist ring_cap ring_push queue_pop
proof unfold_locales
  fix q ps rs v
  assume "ring_hist q ps rs"
  then obtain ct ch where i: "ring_inv q ps rs ct ch" by (auto simp: ring_hist_def)
  show "length rs \<le> length ps \<and> length ps \<le> length rs + ring_cap q" by (rule ring_inv_bounds [OF i])
  show "length ps < length rs + ring_cap q \<Longrightarrow>
      \<exists>q'. ring_push v q = (q', True) \<and> ring_hist q' (ps @ [v]) rs \<and> ring_cap q' = ring_cap q"
    by (rule ring_push_room [OF i])
  show "length ps = length rs + ring_cap q \<Longrightarrow>
      \<exists>q'. ring_push v q = (q', False) \<and> ring_hist q' ps rs \<and> ring_cap q' = ring_cap q"
    by (rule ring_push_full [OF i])
  show "length rs < length ps \<Longrightarrow>
      \<exists>q'. queue_pop q = (q', Some (ps ! length rs)) \<and> ring_hist q' ps (rs @ [ps ! length rs]) \<and>
        ring_cap q' = ring_cap q"
    by (rule ring_pop_some [OF i])
  show "length rs = length ps \<Longrightarrow> \<exists>q'. queue_pop q = (q', None) \<and> ring_hist q' ps rs \<and> ring_cap q' = ring_cap q"
    by (rule ring_pop_none [OF i])
qed

lemma queue_init_inv: "3 \<le> sz \<Longrightarrow> sz + 3 \<le> 2 ^ 32 \<Longrightarrow> ring_inv (queue_init sz) [] [] 0 0"
  by (simp add: ring_inv_def queue_init_def)

section \<open>Producer and consumer interleaved\<close>

text \<open>
  Program counters between the shared accesses of \<^verbatim>\<open>queue_push\<close>, \<^verbatim>\<open>queue_pop\<close> and of the bulk
  protocol \<^verbatim>\<open>queue_pop_bulk\<close> / read entries / \<^verbatim>\<open>queue_update_tail\<close>, with the local
  variables live there.
\<close>

datatype ppc = P_idle | P_reload nat nat | P_store nat nat | P_publish nat nat
datatype cpc = C_idle | C_reload bool nat | C_read nat | C_publish nat nat | C_bulk nat nat "nat list"

record sys =
  ring :: ring
  pp :: ppc
  cp :: cpc
  pushed :: "nat list"
  popped :: "nat list"

definition sys_init :: "nat \<Rightarrow> sys" where
  "sys_init sz = \<lparr>ring = queue_init sz, pp = P_idle, cp = C_idle, pushed = [], popped = []\<rparr>"

text \<open>One step of the producer; \<open>v\<close> is the argument when the step starts a call.\<close>

fun producer :: "nat \<Rightarrow> sys \<Rightarrow> sys" where
  "producer v s =
     (let q = ring s in case pp s of
        P_idle \<Rightarrow> (let h = q_head q in s\<lparr>pp := if queue_full q h then P_reload v h else P_store v h\<rparr>)
      | P_reload v h \<Rightarrow>
          (let q = q\<lparr>cached_tail := q_tail q\<rparr>
           in s\<lparr>ring := q, pp := if queue_full q h then P_idle else P_store v h\<rparr>)
      | P_store v h \<Rightarrow> s\<lparr>ring := q\<lparr>q_data := (q_data q)[h := v]\<rparr>, pp := P_publish v h\<rparr>
      | P_publish v h \<Rightarrow>
          s\<lparr>ring := q\<lparr>q_head := wrap (q_size q) (h + 1)\<rparr>, pp := P_idle, pushed := pushed s @ [v]\<rparr>)"

text \<open>Where the consumer goes once the ring is known not to be empty.\<close>

definition c_ready :: "bool \<Rightarrow> ring \<Rightarrow> nat \<Rightarrow> cpc" where
  "c_ready bulk q t =
     (if bulk then C_bulk t (if cached_head q > t then cached_head q - t else q_size q - t) []
      else C_read t)"

text \<open>One step of the consumer; \<open>bulk\<close> selects the call that an idle consumer starts.\<close>

fun consumer :: "bool \<Rightarrow> sys \<Rightarrow> sys" where
  "consumer bulk s =
     (let q = ring s in case cp s of
        C_idle \<Rightarrow> (let t = q_tail q in s\<lparr>cp := if cached_head q = t then C_reload bulk t else c_ready bulk q t\<rparr>)
      | C_reload bulk t \<Rightarrow>
          (let q = q\<lparr>cached_head := q_head q\<rparr>
           in s\<lparr>ring := q, cp := if cached_head q = t then C_idle else c_ready bulk q t\<rparr>)
      | C_read t \<Rightarrow> s\<lparr>cp := C_publish t (q_data q ! t)\<rparr>
      | C_publish t v \<Rightarrow>
          s\<lparr>ring := q\<lparr>q_tail := wrap (q_size q) (t + 1)\<rparr>, cp := C_idle, popped := popped s @ [v]\<rparr>
      | C_bulk t n got \<Rightarrow>
          (if length got < n then s\<lparr>cp := C_bulk t n (got @ [q_data q ! (t + length got)])\<rparr>
           else s\<lparr>ring := queue_update_tail t n q, cp := C_idle, popped := popped s @ got\<rparr>))"

declare producer.simps [simp del] consumer.simps [simp del]

inductive step :: "sys \<Rightarrow> sys \<Rightarrow> bool" where
  step_producer: "step s (producer v s)"
| step_consumer: "step s (consumer bulk s)"

inductive_cases stepE: "step s s'"

definition prod_ok :: "ring \<Rightarrow> nat list \<Rightarrow> nat \<Rightarrow> ppc \<Rightarrow> bool" where
  "prod_ok q ps ct pc \<longleftrightarrow>
     (case pc of P_idle \<Rightarrow> True
      | P_reload v h \<Rightarrow> h = q_head q
      | P_store v h \<Rightarrow> h = q_head q \<and> length ps < ct + (q_size q - 3)
      | P_publish v h \<Rightarrow> h = q_head q \<and> length ps < ct + (q_size q - 3) \<and> q_data q ! h = v)"

definition cons_ok :: "ring \<Rightarrow> nat list \<Rightarrow> nat list \<Rightarrow> nat \<Rightarrow> cpc \<Rightarrow> bool" where
  "cons_ok q ps rs ch pc \<longleftrightarrow>
     (case pc of C_idle \<Rightarrow> True
      | C_reload b t \<Rightarrow> t = q_tail q
      | C_read t \<Rightarrow> t = q_tail q \<and> length rs < ch
      | C_publish t v \<Rightarrow> t = q_tail q \<and> length rs < ch \<and> v = ps ! length rs
      | C_bulk t n got \<Rightarrow> t = q_tail q \<and> 0 < n \<and> t + n \<le> q_size q \<and> length rs + n \<le> ch \<and>
          length got \<le> n \<and> got = take (length got) (drop (length rs) ps))"

definition sys_inv :: "sys \<Rightarrow> bool" where
  "sys_inv s \<longleftrightarrow> (\<exists>ct ch. ring_inv (ring s) (pushed s) (popped s) ct ch \<and>
     prod_ok (ring s) (pushed s) ct (pp s) \<and> cons_ok (ring s) (pushed s) (popped s) ch (cp s))"

lemma sys_invI:
  "ring_inv (ring s) (pushed s) (popped s) ct ch \<Longrightarrow> prod_ok (ring s) (pushed s) ct (pp s) \<Longrightarrow>
   cons_ok (ring s) (pushed s) (popped s) ch (cp s) \<Longrightarrow> sys_inv s"
  by (auto simp: sys_inv_def)

lemma c_ready_ok:
  assumes "ring_inv q ps rs ct ch" "ch \<noteq> length rs"
  shows "cons_ok q ps rs ch (c_ready b q (q_tail q))"
proof -
  let ?s = "q_size q"
  obtain d where ch: "ch = length rs + d"
    using assms by (auto simp: ring_inv_def le_iff_add)
  then have d: "0 < d" "d < ?s"
    using assms by (auto simp: ring_inv_def)
  have eq: "ch mod ?s = (q_tail q + d) mod ?s"
    using assms by (simp add: ring_inv_def mod_add_left_eq ch)
  have t: "q_tail q < ?s" "cached_head q = ch mod ?s" using assms by (auto simp: ring_inv_def)
  consider "q_tail q + d < ?s" | "?s \<le> q_tail q + d" by linarith
  then show ?thesis
  proof cases
    case 1
    then have "cached_head q = q_tail q + d" using eq t by simp
    then show ?thesis using 1 d ch by (simp add: cons_ok_def c_ready_def)
  next
    case 2
    then have "cached_head q = q_tail q + d - ?s"
      using eq t d by (simp add: le_mod_geq)
    then show ?thesis using 2 d t ch by (auto simp: cons_ok_def c_ready_def)
  qed
qed

lemma bulk_read:
  assumes "ring_inv q ps rs ct ch" "t = q_tail q" "t + n \<le> q_size q" "length rs + n \<le> ch" "k < n"
  shows "q_data q ! (t + k) = ps ! (length rs + k)"
proof -
  have "t + k = (length rs + k) mod q_size q"
    using assms by (simp add: ring_inv_def mod_add_left_eq [of "length rs", symmetric])
  moreover have "length rs + k < length ps" using assms by (auto simp: ring_inv_def)
  ultimately show ?thesis using assms(1) by (auto simp: ring_inv_def)
qed

lemma producer_inv: "sys_inv s \<Longrightarrow> sys_inv (producer v s)"
proof -
  assume "sys_inv s"
  then obtain ct ch where
    i: "ring_inv (ring s) (pushed s) (popped s) ct ch"
    and p: "prod_ok (ring s) (pushed s) ct (pp s)"
    and c: "cons_ok (ring s) (pushed s) (popped s) ch (cp s)"
    by (auto simp: sys_inv_def)
  show ?thesis
  proof (cases "pp s")
    case P_idle
    then show ?thesis
      using i c queue_full_iff [OF i]
      by (fastforce simp: producer.simps sys_inv_def prod_ok_def ring_inv_def Let_def)
  next
    case (P_reload v h)
    note i' = reload_tail_inv [OF i]
    have "cons_ok (ring s\<lparr>cached_tail := q_tail (ring s)\<rparr>) (pushed s) (popped s) ch (cp s)"
      using c by (auto simp: cons_ok_def split: cpc.splits)
    moreover have "\<not> queue_full (ring s\<lparr>cached_tail := q_tail (ring s)\<rparr>) h \<longrightarrow>
        length (pushed s) < length (popped s) + (q_size (ring s) - 3)"
      using queue_full_iff [OF i'] i' P_reload p by (auto simp: ring_inv_def prod_ok_def)
    ultimately show ?thesis
      using i' P_reload p
      by (auto simp: producer.simps prod_ok_def Let_def intro!: sys_invI [of _ "length (popped s)" ch])
  next
    case (P_store v h)
    have "cons_ok (ring s\<lparr>q_data := (q_data (ring s))[h := v]\<rparr>) (pushed s) (popped s) ch (cp s)"
      using c by (auto simp: cons_ok_def split: cpc.splits)
    then show ?thesis
      using store_inv [OF i, of v] P_store p q_head_lt [OF i]
      by (auto simp: producer.simps prod_ok_def Let_def intro!: sys_invI [of _ ct ch])
  next
    case (P_publish v h)
    have "cons_ok (ring s\<lparr>q_head := wrap (q_size (ring s)) (h + 1)\<rparr>) (pushed s @ [v]) (popped s) ch (cp s)"
      using c i by (auto simp: cons_ok_def ring_inv_def nth_append split: cpc.splits)
    then show ?thesis
      using publish_inv [OF i, of v] P_publish p
      by (auto simp: producer.simps sys_inv_def prod_ok_def Let_def)
  qed
qed

lemma consumer_inv: "sys_inv s \<Longrightarrow> sys_inv (consumer b s)"
proof -
  assume "sys_inv s"
  then obtain ct ch where
    i: "ring_inv (ring s) (pushed s) (popped s) ct ch"
    and p: "prod_ok (ring s) (pushed s) ct (pp s)"
    and c: "cons_ok (ring s) (pushed s) (popped s) ch (cp s)"
    by (auto simp: sys_inv_def)
  let ?q = "ring s"
  have keep: "prod_ok (?q\<lparr>cached_head := x\<rparr>) (pushed s) ct (pp s)"
    "prod_ok (?q\<lparr>q_tail := x\<rparr>) (pushed s) ct (pp s)" for x
    using p by (auto simp: prod_ok_def split: ppc.splits)
  show ?thesis
  proof (cases "cp s")
    case C_idle
    have "cached_head ?q \<noteq> q_tail ?q \<longrightarrow> cons_ok ?q (pushed s) (popped s) ch (c_ready b ?q (q_tail ?q))"
      using c_ready_ok [OF i] cached_head_iff [OF i] by simp
    then show ?thesis
      using i p C_idle
      by (auto simp: consumer.simps sys_inv_def Let_def cons_ok_def [of _ _ _ _ "C_reload _ _"])
  next
    case (C_reload bulk t)
    let ?q' = "?q\<lparr>cached_head := q_head ?q\<rparr>"
    note i' = reload_head_inv [OF i]
    have "cached_head ?q' \<noteq> t \<longrightarrow> cons_ok ?q' (pushed s) (popped s) (length (pushed s)) (c_ready bulk ?q' t)"
      using c_ready_ok [OF i', of bulk] cached_head_iff [OF i'] C_reload c by (simp add: cons_ok_def)
    then show ?thesis
      using i' keep C_reload
      by (auto simp: consumer.simps sys_inv_def Let_def cons_ok_def [of _ _ _ _ C_idle])
  next
    case (C_read t)
    then show ?thesis
      using i p c pop_commit [OF i]
      by (auto simp: consumer.simps sys_inv_def Let_def cons_ok_def)
  next
    case (C_publish t v)
    then show ?thesis
      using keep c pop_commit [OF i]
      by (auto simp: consumer.simps sys_inv_def Let_def cons_ok_def)
  next
    case (C_bulk t n got)
    with c have b: "t = q_tail ?q" "t + n \<le> q_size ?q" "length (popped s) + n \<le> ch" "length got \<le> n"
      "got = take (length got) (drop (length (popped s)) (pushed s))"
      by (auto simp: cons_ok_def)
    show ?thesis
    proof (cases "length got < n")
      case True
      have "length got < length (drop (length (popped s)) (pushed s))"
        using True i b(3) by (auto simp: ring_inv_def)
      then have "take (Suc (length got)) (drop (length (popped s)) (pushed s)) =
          got @ [pushed s ! (length (popped s) + length got)]"
        using b(5) by (simp add: take_Suc_conv_app_nth)
      then show ?thesis
        using True i p c C_bulk bulk_read [OF i b(1-3)]
        by (auto simp: consumer.simps Let_def cons_ok_def intro!: sys_invI [of _ ct ch])
    next
      case False
      then have n: "length got = n" using b by simp
      have "wrap (q_size ?q) (q_tail ?q + n) = (length (popped s) + n) mod q_size ?q"
        using i b wrap_bulk [of t n "q_size ?q"] by (simp add: ring_inv_def mod_add_left_eq)
      then have "ring_inv (queue_update_tail t n ?q) (pushed s) (popped s @ got) ct ch"
        using tail_inv [OF i b(3)] b(1,5) n by simp
      then show ?thesis
        using keep C_bulk False
        by (auto simp: consumer.simps Let_def cons_ok_def queue_update_tail_def intro!: sys_invI [of _ ct ch])
    qed
  qed
qed

lemma sys_inv_step: "step s s' \<Longrightarrow> sys_inv s \<Longrightarrow> sys_inv s'"
  by (auto elim!: stepE intro: producer_inv consumer_inv)

lemma sys_inv_reach: "step\<^sup>*\<^sup>* s s' \<Longrightarrow> sys_inv s \<Longrightarrow> sys_inv s'"
  by (induction rule: rtranclp_induct) (auto intro: sys_inv_step)

lemma sys_inv_init: "3 \<le> sz \<Longrightarrow> sz + 3 \<le> 2 ^ 32 \<Longrightarrow> sys_inv (sys_init sz)"
  using queue_init_inv [of sz]
  by (auto simp: sys_init_def prod_ok_def cons_ok_def intro!: sys_invI [of _ 0 0])

section \<open>Uninterrupted runs are the C functions\<close>

text \<open>A call runs until its thread is idle again: at most three further steps.\<close>

definition producer_call :: "nat \<Rightarrow> sys \<Rightarrow> sys" where
  "producer_call v s =
     (let s = producer v s;
          s = (case pp s of P_reload _ _ \<Rightarrow> producer v s | _ \<Rightarrow> s)
      in case pp s of P_store _ _ \<Rightarrow> producer v (producer v s) | _ \<Rightarrow> s)"

lemma producer_call_queue_push:
  assumes "pp s = P_idle"
  shows "producer_call v s =
     (case queue_push v (ring s) of
        (q, QUEUE_SUCCESS) \<Rightarrow> s\<lparr>ring := q, pushed := pushed s @ [v]\<rparr>
      | (q, _) \<Rightarrow> s\<lparr>ring := q\<rparr>)"
  using assms
  by (auto simp: producer_call_def producer.simps queue_push_def Let_def queue_full_def)

lemma producer_call_steps: "step\<^sup>*\<^sup>* s (producer_call v s)"
proof -
  have 1: "step\<^sup>*\<^sup>* s (producer v s)" for s by (auto intro: step_producer)
  have 2: "step\<^sup>*\<^sup>* s (producer v (producer v s))" for s
    by (rule rtranclp_trans [OF 1 1])
  have 3: "step\<^sup>*\<^sup>* s (case pp s of P_reload _ _ \<Rightarrow> producer v s | _ \<Rightarrow> s)" for s
    by (auto split: ppc.splits intro: 1)
  have 4: "step\<^sup>*\<^sup>* s (case pp s of P_store _ _ \<Rightarrow> producer v (producer v s) | _ \<Rightarrow> s)" for s
    by (auto split: ppc.splits intro: 2)
  show ?thesis
    unfolding producer_call_def Let_def by (rule rtranclp_trans [OF rtranclp_trans [OF 1 3] 4])
qed

section \<open>Properties\<close>

lemmas sys_eval = producer_call_def producer.simps consumer.simps sys_init_def queue_init_def
  queue_full_def wrap_def c_ready_def Let_def

lemma step_size: "step s s' \<Longrightarrow> q_size (ring s') = q_size (ring s)"
  by (auto elim!: stepE simp: producer.simps consumer.simps Let_def queue_update_tail_def
      split: ppc.splits cpc.splits)

lemma reach_size: "step\<^sup>*\<^sup>* s s' \<Longrightarrow> q_size (ring s') = q_size (ring s)"
  by (induction rule: rtranclp_induct) (auto dest: step_size)

text \<open>
  C1: under every interleaving of the producer's and the consumer's accesses (single pops and
  bulk pops mixed), what the consumer has taken is a prefix of what the producer has published:
  no value is lost, duplicated, reordered or torn; and the ring never holds more than its size
  minus three values.
\<close>

theorem spsc_fifo:
  assumes "3 \<le> sz" "sz + 3 \<le> 2 ^ 32" "step\<^sup>*\<^sup>* (sys_init sz) s"
  shows "popped s = take (length (popped s)) (pushed s) \<and> length (popped s) \<le> length (pushed s) \<and>
         length (pushed s) \<le> length (popped s) + (sz - 3)"
proof -
  have "q_size (ring s) = sz"
    using reach_size [OF assms(3)] by (simp add: sys_init_def queue_init_def)
  moreover have "sys_inv s" using sys_inv_reach [OF assms(3) sys_inv_init [OF assms(1,2)]] .
  ultimately show ?thesis by (auto simp: sys_inv_def ring_inv_def)
qed

theorem spsc_fifo_witness:
  "let s = consumer True (producer_call 7 (sys_init 5))
   in pushed s = [7] \<and> popped s = [] \<and> length (pushed s) \<le> length (popped s) + (5 - 3)"
proof -
  let ?s = "consumer True (producer_call 7 (sys_init 5))"
  have "step\<^sup>*\<^sup>* (sys_init 5) ?s"
    using producer_call_steps [of "sys_init 5" 7] step_consumer
    by (rule rtranclp.rtrancl_into_rtrancl)
  then have "length (pushed ?s) \<le> length (popped ?s) + (5 - 3)"
    using spsc_fifo [of 5 ?s] by simp
  moreover have "pushed ?s = [7]" "popped ?s = []" by (simp_all add: sys_eval)
  ultimately show ?thesis by simp
qed

text \<open>
  C2: no data race on a slot. In every reachable state the slot the producer fills (always the
  one at the head, also before \<^verbatim>\<open>queue_push\<close> is called) is not a slot the consumer is
  reading, neither in a single pop nor anywhere in the range of a bulk pop.
\<close>

theorem spsc_no_race:
  assumes "3 \<le> sz" "sz + 3 \<le> 2 ^ 32" "step\<^sup>*\<^sup>* (sys_init sz) s"
  shows "(case pp s of P_store v h \<Rightarrow> h = q_head (ring s) | _ \<Rightarrow> True) \<and>
         (case cp s of C_read t \<Rightarrow> t \<noteq> q_head (ring s)
          | C_bulk t n got \<Rightarrow> q_head (ring s) \<notin> {t..<t + n} \<and> t + n \<le> sz | _ \<Rightarrow> True)"
proof -
  have sz: "q_size (ring s) = sz"
    using reach_size [OF assms(3)] by (simp add: sys_init_def queue_init_def)
  have "sys_inv s" using sys_inv_reach [OF assms(3) sys_inv_init [OF assms(1,2)]] .
  then obtain ct ch where
    i: "ring_inv (ring s) (pushed s) (popped s) ct ch"
    and p: "prod_ok (ring s) (pushed s) ct (pp s)"
    and c: "cons_ok (ring s) (pushed s) (popped s) ch (cp s)"
    by (auto simp: sys_inv_def)
  have slot: "q_tail (ring s) + k \<noteq> q_head (ring s)" if "length (popped s) + k < ch" "q_tail (ring s) + k < sz" for k
  proof -
    have "q_tail (ring s) + k = (length (popped s) + k) mod sz"
      using that i sz by (simp add: ring_inv_def mod_add_left_eq [of "length (popped s)", symmetric])
    moreover have "length (popped s) + k < length (pushed s)" "length (pushed s) < length (popped s) + k + sz"
      using that i sz by (auto simp: ring_inv_def)
    ultimately show ?thesis
      using i sz mod_slot_neq [of "length (popped s) + k" "length (pushed s)" sz] by (simp add: ring_inv_def)
  qed
  have tl: "q_tail (ring s) < sz" using i sz by (auto simp: ring_inv_def)
  have "case cp s of C_read t \<Rightarrow> t \<noteq> q_head (ring s)
          | C_bulk t n got \<Rightarrow> q_head (ring s) \<notin> {t..<t + n} \<and> t + n \<le> sz | _ \<Rightarrow> True"
  proof (cases "cp s")
    case (C_read t)
    then show ?thesis using slot [of 0] c tl by (simp add: cons_ok_def)
  next
    case (C_bulk t n got)
    then have b: "t = q_tail (ring s)" "t + n \<le> sz" "length (popped s) + n \<le> ch"
      using c sz by (auto simp: cons_ok_def)
    then have "q_head (ring s) \<noteq> t + k" if "k < n" for k
      using slot [of k] that by simp
    then have "q_head (ring s) \<notin> {t..<t + n}"
      by (metis atLeastLessThan_iff le_add_diff_inverse less_diff_conv2 add.commute nat_add_left_cancel_less)
    then show ?thesis using C_bulk b by simp
  qed simp_all
  moreover have "case pp s of P_store v h \<Rightarrow> h = q_head (ring s) | _ \<Rightarrow> True"
    using p by (auto simp: prod_ok_def split: ppc.splits)
  ultimately show ?thesis by simp
qed

theorem spsc_no_race_witness:
  "cp (consumer True (consumer True (producer_call 7 (sys_init 5)))) = C_bulk 0 1 [] \<and>
   q_head (ring (consumer True (consumer True (producer_call 7 (sys_init 5))))) \<notin> {0..<0 + 1}"
proof -
  let ?s = "consumer True (consumer True (producer_call 7 (sys_init 5)))"
  have "step\<^sup>*\<^sup>* (sys_init 5) (consumer True (producer_call 7 (sys_init 5)))"
    using producer_call_steps [of "sys_init 5" 7] step_consumer
    by (rule rtranclp.rtrancl_into_rtrancl)
  then have r: "step\<^sup>*\<^sup>* (sys_init 5) ?s"
    using step_consumer by (rule rtranclp.rtrancl_into_rtrancl)
  have "cp ?s = C_bulk 0 1 []" by (simp add: sys_eval)
  then show ?thesis using spsc_no_race [OF _ _ r] by simp
qed

text \<open>
  C3: seen from one thread at a time, the ring is a bounded FIFO queue: any sequence of
  \<^verbatim>\<open>queue_push\<close> and \<^verbatim>\<open>queue_pop\<close> calls on a fresh ring of size \<open>sz\<close> returns what a list
  of capacity \<open>sz - 3\<close> returns; a push is refused exactly when that many values wait.
\<close>

theorem spsc_refines_queue:
  assumes "3 \<le> sz" "sz + 3 \<le> 2 ^ 32"
  shows "fifo_run ring_push queue_pop (queue_init sz) ops = spec_run (sz - 3) [] ops"
proof -
  have "ring_hist (queue_init sz) [] []"
    using queue_init_inv [OF assms] by (auto simp: ring_hist_def)
  from spsc.run_refines [OF this, of ops] show ?thesis
    by (simp add: ring_cap_def queue_init_def)
qed

theorem spsc_refines_queue_witness:
  "fifo_run ring_push queue_pop (queue_init 4) [Push 1, Push 2, Pop, Pop] =
   [Accepted True, Accepted False, Popped (Some 1), Popped None]"
  using spsc_refines_queue [of 4 "[Push 1, Push 2, Pop, Pop]"] by simp

end
