(* ===== verification/Dpdk_Ring.thy ===== *)
theory Dpdk_Ring
  imports Spsc_Ring
begin

text \<open>
  The bulk ring of \<^verbatim>\<open>src/src/modules/packet_capture/dpdk/spsc_ring.h\<close> between a DPDK reader and its
  worker. The producer caches the number of free slots, the consumer the number of waiting
  elements. The history relation mirrors the one of \<open>Spsc_Ring\<close>; it is kept by every call
  that leaves at least one slot free, and a call that fills the last slot makes the ring look
  empty to the consumer.
\<close>

record 'a bulk_ring =
  b_head :: nat
  cache_free :: nat
  b_tail :: nat
  cache_count :: nat
  b_size :: nat
  b_data :: "'a list"

definition ring_create :: "'a \<Rightarrow> nat \<Rightarrow> 'a bulk_ring" where
  "ring_create fresh sz = \<lparr>b_head = 0, cache_free = sz, b_tail = 0, cache_count = 0, b_size = sz,
     b_data = replicate sz fresh\<rparr>"

text \<open>The advance \<^verbatim>\<open>h += 1; if( h == q->_size ) h = 0;\<close> and the two copy loops.\<close>

definition advance :: "nat \<Rightarrow> nat \<Rightarrow> nat" where
  "advance s h = (if h + 1 = s then 0 else h + 1)"

fun enqueue_loop :: "nat \<Rightarrow> nat \<Rightarrow> 'a list \<Rightarrow> 'a list \<Rightarrow> nat \<times> 'a list" where
  "enqueue_loop s h [] data = (h, data)"
| "enqueue_loop s h (x # xs) data = enqueue_loop s (advance s h) xs (data[h := x])"

fun dequeue_loop :: "nat \<Rightarrow> nat \<Rightarrow> nat \<Rightarrow> 'a list \<Rightarrow> nat \<times> 'a list" where
  "dequeue_loop s t 0 data = (t, [])"
| "dequeue_loop s t (Suc n) data =
     (let (t', vs) = dequeue_loop s (advance s t) n data in (t', data ! t # vs))"

definition ring_enqueue_bulk :: "'a list \<Rightarrow> 'a bulk_ring \<Rightarrow> 'a bulk_ring \<times> nat" where
  "ring_enqueue_bulk xs q =
     (let len = length xs;
          h = b_head q;
          tail = b_tail q;
          q = (if cache_free q < len
               then q\<lparr>cache_free := if tail < h then tail + b_size q - h
                                    else if tail = h then b_size q else tail - h\<rparr>
               else q)
      in if cache_free q < len then (q, 0)
         else let (h, data) = enqueue_loop (b_size q) h xs (b_data q)
              in (q\<lparr>b_data := data, cache_free := cache_free q - len, b_head := h\<rparr>, len))"

definition ring_dequeue_burst :: "nat \<Rightarrow> 'a bulk_ring \<Rightarrow> 'a bulk_ring \<times> 'a list" where
  "ring_dequeue_burst len q =
     (let t = b_tail q;
          head = b_head q;
          q = (if cache_count q = 0
               then q\<lparr>cache_count := if head \<ge> t then head - t else head + b_size q - t\<rparr>
               else q)
      in if cache_count q = 0 then (q, [])
         else let len = (if len > cache_count q then cache_count q else len);
                  (t, vs) = dequeue_loop (b_size q) t len (b_data q)
              in (q\<lparr>cache_count := cache_count q - len, b_tail := t\<rparr>, vs))"

section \<open>Histories\<close>

definition bulk_hist :: "'a bulk_ring \<Rightarrow> 'a list \<Rightarrow> 'a list \<Rightarrow> bool" where
  "bulk_hist q ps rs \<longleftrightarrow>
     0 < b_size q \<and> length (b_data q) = b_size q \<and>
     b_head q = length ps mod b_size q \<and> b_tail q = length rs mod b_size q \<and>
     length rs \<le> length ps \<and> length ps < length rs + b_size q \<and>
     cache_free q + length ps \<le> length rs + b_size q \<and>
     length rs + cache_count q \<le> length ps \<and>
     rs = take (length rs) ps \<and>
     (\<forall>i. length rs \<le> i \<longrightarrow> i < length ps \<longrightarrow> b_data q ! (i mod b_size q) = ps ! i)"

lemma advance_mod: "0 < s \<Longrightarrow> advance s (n mod s) = Suc n mod s"
  by (simp add: advance_def mod_Suc)

lemma mod_window:
  fixes a b s :: nat
  assumes "a \<le> b" "b < a + s"
  shows "b mod s = (if a mod s + (b - a) < s then a mod s + (b - a) else a mod s + (b - a) - s)"
proof -
  obtain d where d: "b = a + d" using assms(1) by (auto simp: le_iff_add)
  have "b mod s = (a mod s + d) mod s" unfolding d by (simp add: mod_add_left_eq)
  moreover have "a mod s < s" using assms by (intro mod_less_divisor) linarith
  ultimately show ?thesis
    using assms d by (cases "a mod s + d < s") (simp_all add: le_mod_geq)
qed

lemma enqueue_loop_hist:
  assumes "0 < s" "length data = s" "length xs \<le> s"
  shows "enqueue_loop s (n mod s) xs data =
           ((n + length xs) mod s, snd (enqueue_loop s (n mod s) xs data)) \<and>
         length (snd (enqueue_loop s (n mod s) xs data)) = s \<and>
         (\<forall>i < length xs. snd (enqueue_loop s (n mod s) xs data) ! ((n + i) mod s) = xs ! i) \<and>
         (\<forall>j < s. (\<forall>i < length xs. j \<noteq> (n + i) mod s) \<longrightarrow> snd (enqueue_loop s (n mod s) xs data) ! j = data ! j)"
  using assms(2,3)
proof (induction xs arbitrary: n data)
  case (Cons x xs)
  let ?d = "data[n mod s := x]"
  let ?r = "snd (enqueue_loop s (Suc n mod s) xs ?d)"
  have IH: "enqueue_loop s (Suc n mod s) xs ?d = ((Suc n + length xs) mod s, ?r)" "length ?r = s"
    "\<And>i. i < length xs \<Longrightarrow> ?r ! ((Suc n + i) mod s) = xs ! i"
    "\<And>j. j < s \<Longrightarrow> (\<forall>i < length xs. j \<noteq> (Suc n + i) mod s) \<Longrightarrow> ?r ! j = ?d ! j"
    using Cons.IH [of ?d "Suc n"] Cons.prems by auto
  have eq: "enqueue_loop s (n mod s) (x # xs) data = enqueue_loop s (Suc n mod s) xs ?d"
    using assms(1) by (simp add: advance_mod)
  have first: "?r ! (n mod s) = x"
  proof -
    have "n mod s \<noteq> (Suc n + i) mod s" if "i < length xs" for i
      using that Cons.prems by (intro mod_slot_neq) auto
    then show ?thesis using IH(4) [of "n mod s"] assms(1) Cons.prems by simp
  qed
  have "?r ! ((n + i) mod s) = (x # xs) ! i" if "i < length (x # xs)" for i
    using that first IH(3) by (cases i) auto
  moreover have "?r ! j = data ! j" if "j < s" "\<forall>i < length (x # xs). j \<noteq> (n + i) mod s" for j
  proof -
    have "\<forall>i < length xs. j \<noteq> (Suc n + i) mod s"
    proof (intro allI impI)
      fix i assume "i < length xs"
      then show "j \<noteq> (Suc n + i) mod s" using that(2) [rule_format, of "Suc i"] by simp
    qed
    moreover have "j \<noteq> n mod s" using that(2) [rule_format, of 0] by simp
    ultimately show ?thesis using IH(4) that(1) by simp
  qed
  ultimately show ?case unfolding eq using IH(1,2) by simp
qed (simp add: assms)

lemma dequeue_loop_hist:
  assumes "0 < s"
  shows "dequeue_loop s (n mod s) k data = ((n + k) mod s, map (\<lambda>i. data ! ((n + i) mod s)) [0..<k])"
proof (induction k arbitrary: n)
  case (Suc k)
  have "map (\<lambda>i. data ! ((n + i) mod s)) [0..<Suc k] =
        data ! (n mod s) # map (\<lambda>i. data ! ((Suc n + i) mod s)) [0..<k]"
    by (simp add: map_upt_Suc del: upt_Suc)
  with Suc.IH [of "Suc n"] show ?case
    using assms by (simp add: advance_mod del: upt_Suc)
qed simp

lemma free_exact:
  assumes "bulk_hist q ps rs"
  shows "(if b_tail q < b_head q then b_tail q + b_size q - b_head q
          else if b_tail q = b_head q then b_size q else b_tail q - b_head q) =
         length rs + b_size q - length ps"
proof -
  have b: "length rs \<le> length ps" "length ps < length rs + b_size q"
    "b_head q = length ps mod b_size q" "b_tail q = length rs mod b_size q" "0 < b_size q"
    using assms unfolding bulk_hist_def by blast+
  have "length rs mod b_size q < b_size q" using b by simp
  then show ?thesis using b mod_window [OF b(1,2)] by auto
qed

lemma count_exact:
  assumes "bulk_hist q ps rs"
  shows "(if b_head q \<ge> b_tail q then b_head q - b_tail q else b_head q + b_size q - b_tail q) =
         length ps - length rs"
proof -
  have b: "length rs \<le> length ps" "length ps < length rs + b_size q"
    "b_head q = length ps mod b_size q" "b_tail q = length rs mod b_size q" "0 < b_size q"
    using assms unfolding bulk_hist_def by blast+
  have "length rs mod b_size q < b_size q" using b by simp
  then show ?thesis using b mod_window [OF b(1,2)] by auto
qed

lemma store_many_hist:
  assumes "bulk_hist q ps rs" "length ps + length xs < length rs + b_size q"
    "cache_free q \<ge> length xs"
    "enqueue_loop (b_size q) (b_head q) xs (b_data q) = (h, data)"
  shows "bulk_hist (q\<lparr>b_data := data, cache_free := cache_free q - length xs, b_head := h\<rparr>) (ps @ xs) rs"
proof -
  have b: "length rs \<le> length ps" "b_head q = length ps mod b_size q" "0 < b_size q"
    "length (b_data q) = b_size q"
    using assms unfolding bulk_hist_def by blast+
  note loop = enqueue_loop_hist [of "b_size q" "b_data q" xs "length ps"]
  have "length xs \<le> b_size q" using assms(2) b(1) by linarith
  with loop b assms(4) have l: "h = (length ps + length xs) mod b_size q" "length data = b_size q"
    "\<And>i. i < length xs \<Longrightarrow> data ! ((length ps + i) mod b_size q) = xs ! i"
    "\<And>j. j < b_size q \<Longrightarrow> (\<forall>i < length xs. j \<noteq> (length ps + i) mod b_size q) \<Longrightarrow> data ! j = b_data q ! j"
    by auto
  have new: "data ! (i mod b_size q) = (ps @ xs) ! i" if i: "length rs \<le> i" "i < length (ps @ xs)" for i
  proof (cases "i < length ps")
    case True
    have "i mod b_size q \<noteq> (length ps + k) mod b_size q" if "k < length xs" for k
      using True that i assms(2) by (intro mod_slot_neq) auto
    then have "data ! (i mod b_size q) = b_data q ! (i mod b_size q)" using l(4) b by simp
    then show ?thesis using True i assms(1) by (simp add: bulk_hist_def nth_append)
  next
    case False
    then show ?thesis using l(3) [of "i - length ps"] i by (simp add: nth_append)
  qed
  then show ?thesis
    using assms(1-3) l(1,2) unfolding bulk_hist_def by (auto simp: le_diff_conv)
qed

lemma take_many_hist:
  assumes "bulk_hist q ps rs" "k \<le> cache_count q"
    "dequeue_loop (b_size q) (b_tail q) k (b_data q) = (t, vs)"
  shows "vs = take k (drop (length rs) ps) \<and>
         bulk_hist (q\<lparr>cache_count := cache_count q - k, b_tail := t\<rparr>) ps (rs @ vs)"
proof -
  have b: "b_tail q = length rs mod b_size q" "0 < b_size q" "length rs + cache_count q \<le> length ps"
    "rs = take (length rs) ps"
    "\<And>i. length rs \<le> i \<Longrightarrow> i < length ps \<Longrightarrow> b_data q ! (i mod b_size q) = ps ! i"
    using assms(1) unfolding bulk_hist_def by blast+
  have l: "t = (length rs + k) mod b_size q" "vs = map (\<lambda>i. b_data q ! ((length rs + i) mod b_size q)) [0..<k]"
    using assms(3) b dequeue_loop_hist [of "b_size q" "length rs" k "b_data q"] by auto
  have vs: "vs = take k (drop (length rs) ps)"
    unfolding l(2) using b assms(2) by (intro nth_equalityI) auto
  have "length vs = k" using l(2) by simp
  moreover have "rs @ vs = take (length rs + k) ps" using vs b(4) by (simp add: take_add)
  ultimately show ?thesis
    using vs assms(1,2) l(1) unfolding bulk_hist_def by auto
qed

lemma reload_free_hist:
  "bulk_hist q ps rs \<Longrightarrow> bulk_hist (q\<lparr>cache_free := length rs + b_size q - length ps\<rparr>) ps rs"
  by (auto simp: bulk_hist_def)

lemma reload_count_hist:
  "bulk_hist q ps rs \<Longrightarrow> bulk_hist (q\<lparr>cache_count := length ps - length rs\<rparr>) ps rs"
  by (auto simp: bulk_hist_def)

section \<open>Properties\<close>

text \<open>
  A bulk enqueue is all or nothing. If it leaves a slot free it takes every element, in
  order, behind the waiting ones; if it does not fit it takes none.
\<close>

theorem ring_enqueue_bulk_hist:
  assumes "bulk_hist q ps rs" "ring_enqueue_bulk xs q = (q', n)"
  shows "(length ps + length xs < length rs + b_size q \<longrightarrow> n = length xs \<and> bulk_hist q' (ps @ xs) rs) \<and>
         (length ps + length xs > length rs + b_size q \<longrightarrow> n = 0 \<and> bulk_hist q' ps rs)"
proof -
  define q1 where "q1 = (if cache_free q < length xs
     then q\<lparr>cache_free := length rs + b_size q - length ps\<rparr> else q)"
  have h1: "bulk_hist q1 ps rs" and s: "b_size q1 = b_size q"
    using assms(1) reload_free_hist by (auto simp: q1_def)
  have f: "cache_free q1 \<ge> length xs \<longleftrightarrow> cache_free q \<ge> length xs \<or> length ps + length xs \<le> length rs + b_size q"
    using assms(1) by (auto simp: q1_def bulk_hist_def)
  have fits: "cache_free q \<ge> length xs \<Longrightarrow> length ps + length xs \<le> length rs + b_size q"
    using assms(1) by (auto simp: bulk_hist_def)
  have hd: "b_head q1 = b_head q" by (simp add: q1_def)
  obtain h data where loop: "enqueue_loop (b_size q1) (b_head q) xs (b_data q1) = (h, data)" by fastforce
  have "ring_enqueue_bulk xs q = (if cache_free q1 < length xs then (q1, 0)
      else (q1\<lparr>b_data := data, cache_free := cache_free q1 - length xs, b_head := h\<rparr>, length xs))"
    unfolding ring_enqueue_bulk_def Let_def free_exact [OF assms(1)] q1_def [symmetric]
    by (simp add: loop)
  then show ?thesis
    using assms(2) store_many_hist [OF h1 _ _ loop [folded hd]] h1 f fits s by (auto split: if_splits)
qed

theorem ring_enqueue_bulk_hist_witness:
  "bulk_hist (ring_create (0 :: nat) 4) [] [] \<and>
   snd (ring_enqueue_bulk [1, 2, 3 :: nat] (ring_create 0 4)) = 3 \<and>
   bulk_hist (fst (ring_enqueue_bulk [1, 2, 3] (ring_create 0 4))) [1, 2, 3 :: nat] []"
proof -
  have i: "bulk_hist (ring_create (0 :: nat) 4) [] []" by (simp add: bulk_hist_def ring_create_def)
  show ?thesis
    using ring_enqueue_bulk_hist [OF i surjective_pairing, of "[1, 2, 3]"] i by (simp add: ring_create_def)
qed

text \<open>
  A burst dequeue returns the oldest waiting elements in order, removes exactly those, and
  returns at least one whenever one waits and the caller has room.
\<close>

theorem ring_dequeue_burst_hist:
  assumes "bulk_hist q ps rs" "ring_dequeue_burst n q = (q', vs)"
  shows "vs = take (length vs) (drop (length rs) ps) \<and> length vs \<le> n \<and> bulk_hist q' ps (rs @ vs) \<and>
         (0 < n \<longrightarrow> length rs < length ps \<longrightarrow> vs \<noteq> [])"
proof -
  define q1 where "q1 = (if cache_count q = 0 then q\<lparr>cache_count := length ps - length rs\<rparr> else q)"
  have h1: "bulk_hist q1 ps rs" and s: "b_size q1 = b_size q"
    using assms(1) reload_count_hist by (auto simp: q1_def)
  define k where "k = (if n > cache_count q1 then cache_count q1 else n)"
  have le: "length rs + cache_count q1 \<le> length ps" using h1 unfolding bulk_hist_def by blast
  have z: "cache_count q1 = 0 \<longleftrightarrow> length rs = length ps"
    using le by (auto simp: q1_def split: if_splits)
  have tl: "b_tail q1 = b_tail q" by (simp add: q1_def)
  obtain t ws where loop: "dequeue_loop (b_size q1) (b_tail q) k (b_data q1) = (t, ws)" by fastforce
  have r: "ring_dequeue_burst n q = (if cache_count q1 = 0 then (q1, [])
      else (q1\<lparr>cache_count := cache_count q1 - k, b_tail := t\<rparr>, ws))"
    unfolding ring_dequeue_burst_def Let_def count_exact [OF assms(1)] q1_def [symmetric] k_def [symmetric]
    by (simp add: loop)
  have w: "ws = take k (drop (length rs) ps)"
    "bulk_hist (q1\<lparr>cache_count := cache_count q1 - k, b_tail := t\<rparr>) ps (rs @ ws)"
    using take_many_hist [OF h1 _ loop [folded tl]] by (auto simp: k_def)
  have "k \<le> cache_count q1" by (simp add: k_def)
  then have "length ws = k" using w(1) le by simp
  then show ?thesis
    using r assms(2) w h1 z by (auto simp: k_def split: if_splits)
qed

theorem ring_dequeue_burst_hist_witness:
  "let q = fst (ring_enqueue_bulk [1, 2, 3] (ring_create 0 4))
   in snd (ring_dequeue_burst 2 q) = [1, 2 :: nat]
    \<and> bulk_hist (fst (ring_dequeue_burst 2 q)) [1, 2, 3] [1, 2]"
proof -
  let ?q = "fst (ring_enqueue_bulk [1, 2, 3] (ring_create (0 :: nat) 4))"
  have "?q = \<lparr>b_head = 3, cache_free = 1, b_tail = 0, cache_count = 0, b_size = 4, b_data = [1, 2, 3, 0]\<rparr>"
    by code_simp
  then have q: "bulk_hist ?q [1, 2, 3] []"
    by (auto simp: bulk_hist_def less_Suc_eq)
  have v: "snd (ring_dequeue_burst 2 ?q) = [1, 2]"
    by code_simp
  show ?thesis
    using ring_dequeue_burst_hist [OF q surjective_pairing, of 2] v by simp
qed

text \<open>
  A bulk that fills a fresh ring completely is accepted and lost: the head meets the tail,
  so the consumer sees an empty ring.
\<close>

theorem full_ring_looks_empty:
  assumes "xs \<noteq> []"
  shows "case ring_enqueue_bulk xs (ring_create fresh (length xs)) of
           (q, n) \<Rightarrow> n = length xs \<and> snd (ring_dequeue_burst k q) = []"
proof -
  let ?s = "length xs"
  obtain data where "enqueue_loop ?s 0 xs (replicate ?s fresh) = (0, data)"
    using enqueue_loop_hist [of ?s "replicate ?s fresh" xs 0] assms by auto
  then show ?thesis
    by (simp add: ring_enqueue_bulk_def ring_create_def ring_dequeue_burst_def Let_def)
qed

theorem full_ring_looks_empty_witness:
  "snd (ring_dequeue_burst 8 (fst (ring_enqueue_bulk [1, 2 :: nat] (ring_create 0 2)))) = []"
  using full_ring_looks_empty [of "[1, 2 :: nat]" 8 0] by (simp add: split_def numeral_2_eq_2)

end
