(* ===== verification/Data_Ring.thy ===== *)
theory Data_Ring
  imports Spsc_Ring
begin

text \<open>
  The packet ring of \<^verbatim>\<open>pcap/data_spsc_ring.h\<close> and \<^verbatim>\<open>.c\<close>: preallocated element buffers addressed
  through the index ring of \<open>Spsc_Ring\<close>. The producer fills the buffer at the head in place
  (\<^verbatim>\<open>data_spsc_ring_get_tmp_element\<close>) and then tries to publish it
  (\<^verbatim>\<open>data_spsc_ring_push_tmp_element\<close>); the consumer reads elements through the published
  indices. The ring meets the same contract \<open>history_fifo\<close> as the index ring, now on elements.
\<close>

record 'a dring =
  d_data :: "'a list"
  d_size :: nat
  fifo_index :: ring

text \<open>
  \<^verbatim>\<open>alloc k\<close> tells whether the \<open>k\<close>-th \<^verbatim>\<open>malloc\<close> of the call succeeds: the index ring, its
  array (the result of this one is not tested), the pointer array, then one buffer per element.
  On success every buffer holds the unspecified content \<open>fresh\<close>.
\<close>

fun alloc_elements :: "(nat \<Rightarrow> bool) \<Rightarrow> nat \<Rightarrow> nat \<Rightarrow> bool" where
  "alloc_elements alloc k 0 = True"
| "alloc_elements alloc k (Suc n) = (alloc k \<and> alloc_elements alloc (k + 1) n)"

definition data_spsc_ring_init ::
  "(nat \<Rightarrow> bool) \<Rightarrow> 'a \<Rightarrow> nat \<Rightarrow> nat \<Rightarrow> nat \<times> 'a dring option" where
  "data_spsc_ring_init alloc fresh sz element_size =
     (if sz < 1 \<or> element_size = 0 then (1, None)
      else let sz2 = (sz + 2) mod 2 ^ 32 in
        if \<not> alloc 0 then (2, None)
        else if \<not> alloc 2 then (2, None)
        else if \<not> alloc_elements alloc 3 sz2 then (2, None)
        else (0, Some \<lparr>d_data = replicate sz2 fresh, d_size = sz2,
                fifo_index = (queue_init sz2)\<lparr>q_data := if alloc 1 then replicate sz2 0 else []\<rparr>\<rparr>))"

definition data_spsc_ring_get_tmp_element :: "'a dring \<Rightarrow> nat" where
  "data_spsc_ring_get_tmp_element r = q_head (fifo_index r)"

definition data_spsc_ring_push_tmp_element :: "'a dring \<Rightarrow> 'a dring \<times> queue_code" where
  "data_spsc_ring_push_tmp_element r =
     (let (f, c) = queue_push (q_head (fifo_index r)) (fifo_index r) in (r\<lparr>fifo_index := f\<rparr>, c))"

definition data_spsc_ring_pop :: "'a dring \<Rightarrow> 'a dring \<times> 'a option" where
  "data_spsc_ring_pop r =
     (case queue_pop (fifo_index r) of
        (f, None) \<Rightarrow> (r\<lparr>fifo_index := f\<rparr>, None)
      | (f, Some tail) \<Rightarrow> (r\<lparr>fifo_index := f\<rparr>, Some (d_data r ! tail)))"

definition data_spsc_ring_pop_bulk :: "'a dring \<Rightarrow> 'a dring \<times> (nat \<times> nat) option" where
  "data_spsc_ring_pop_bulk r =
     (let (f, x) = queue_pop_bulk (fifo_index r) in (r\<lparr>fifo_index := f\<rparr>, x))"

definition data_spsc_ring_get_data :: "'a dring \<Rightarrow> nat \<Rightarrow> 'a" where
  "data_spsc_ring_get_data r index = d_data r ! (q_data (fifo_index r) ! index)"

definition data_spsc_ring_update_tail :: "nat \<Rightarrow> nat \<Rightarrow> 'a dring \<Rightarrow> 'a dring" where
  "data_spsc_ring_update_tail tail n r = r\<lparr>fifo_index := queue_update_tail tail n (fifo_index r)\<rparr>"

text \<open>The producer's protocol: fill the buffer at the head, then try to publish it.\<close>

definition fill_tmp_element :: "'a \<Rightarrow> 'a dring \<Rightarrow> 'a dring" where
  "fill_tmp_element x r = r\<lparr>d_data := (d_data r)[data_spsc_ring_get_tmp_element r := x]\<rparr>"

definition dring_push :: "'a \<Rightarrow> 'a dring \<Rightarrow> 'a dring \<times> bool" where
  "dring_push x r =
     (let (r, c) = data_spsc_ring_push_tmp_element (fill_tmp_element x r) in (r, c = QUEUE_SUCCESS))"

section \<open>Elements behind the published indices\<close>

definition slots_of :: "nat \<Rightarrow> 'a list \<Rightarrow> nat list" where
  "slots_of s xs = map (\<lambda>i. i mod s) [0..<length xs]"

definition dring_hist :: "'a dring \<Rightarrow> 'a list \<Rightarrow> 'a list \<Rightarrow> bool" where
  "dring_hist r ps rs \<longleftrightarrow>
     ring_hist (fifo_index r) (slots_of (d_size r) ps) (slots_of (d_size r) rs) \<and>
     d_size r = q_size (fifo_index r) \<and> length (d_data r) = d_size r \<and>
     rs = take (length rs) ps \<and>
     (\<forall>i. length rs \<le> i \<longrightarrow> i < length ps \<longrightarrow> d_data r ! (i mod d_size r) = ps ! i)"

definition dring_cap :: "'a dring \<Rightarrow> nat" where
  "dring_cap r = ring_cap (fifo_index r)"

lemma length_slots_of [simp]: "length (slots_of s xs) = length xs"
  by (simp add: slots_of_def)

lemma slots_of_snoc: "slots_of s (xs @ [x]) = slots_of s xs @ [length xs mod s]"
  by (simp add: slots_of_def)

lemma nth_slots_of: "i < length xs \<Longrightarrow> slots_of s xs ! i = i mod s"
  by (simp add: slots_of_def)

lemma dring_histD:
  assumes "dring_hist r ps rs"
  obtains ct ch where "ring_inv (fifo_index r) (slots_of (d_size r) ps) (slots_of (d_size r) rs) ct ch"
    "d_size r = q_size (fifo_index r)" "length (d_data r) = d_size r"
    "length rs \<le> length ps" "length ps \<le> length rs + dring_cap r" "dring_cap r + 3 = d_size r"
    "q_head (fifo_index r) = length ps mod d_size r" "q_tail (fifo_index r) = length rs mod d_size r"
  using assms ring_inv_bounds [of "fifo_index r"]
  by (fastforce simp: dring_hist_def ring_hist_def dring_cap_def ring_inv_def ring_cap_def)

lemma fill_hist:
  assumes "dring_hist r ps rs"
  shows "dring_hist (fill_tmp_element x r) ps rs"
    and "d_data (fill_tmp_element x r) ! (length ps mod d_size r) = x"
proof -
  obtain ct ch where i: "d_size r = q_size (fifo_index r)" "length (d_data r) = d_size r"
    "length ps \<le> length rs + dring_cap r" "dring_cap r + 3 = d_size r"
    "q_head (fifo_index r) = length ps mod d_size r"
    by (rule dring_histD [OF assms])
  have "length ps mod d_size r \<noteq> j mod d_size r" if "length rs \<le> j" "j < length ps" for j
    using mod_slot_neq [of j "length ps" "d_size r"] that i by auto
  then show "dring_hist (fill_tmp_element x r) ps rs"
    using assms i
    by (auto simp: dring_hist_def fill_tmp_element_def data_spsc_ring_get_tmp_element_def)
  have "length ps mod d_size r < d_size r" using i by (intro mod_less_divisor) linarith
  then show "d_data (fill_tmp_element x r) ! (length ps mod d_size r) = x"
    using i by (simp add: fill_tmp_element_def data_spsc_ring_get_tmp_element_def)
qed

lemma push_tmp_hist:
  assumes "dring_hist r ps rs" "d_data r ! (length ps mod d_size r) = x"
  shows "case data_spsc_ring_push_tmp_element r of (r', c) \<Rightarrow>
     dring_cap r' = dring_cap r \<and>
     (if length ps < length rs + dring_cap r then c = QUEUE_SUCCESS \<and> dring_hist r' (ps @ [x]) rs
      else c \<noteq> QUEUE_SUCCESS \<and> dring_hist r' ps rs)"
proof -
  let ?f = "fifo_index r"
  have h: "ring_hist ?f (slots_of (d_size r) ps) (slots_of (d_size r) rs)"
    using assms(1) unfolding dring_hist_def by blast
  obtain ct ch where i: "length ps \<le> length rs + dring_cap r"
    "q_head ?f = length ps mod d_size r" "dring_cap r + 3 = d_size r" "length rs \<le> length ps"
    by (rule dring_histD [OF assms(1)])
  obtain f c where f: "queue_push (q_head ?f) ?f = (f, c)" by fastforce
  then have sz: "q_size f = q_size ?f"
    by (auto simp: queue_push_def Let_def split: if_splits)
  show ?thesis
  proof (cases "length ps < length rs + dring_cap r")
    case True
    then have "c = QUEUE_SUCCESS \<and> ring_hist f (slots_of (d_size r) (ps @ [x])) (slots_of (d_size r) rs)
        \<and> ring_cap f = ring_cap ?f"
      using spsc.push_room [OF h, of "q_head ?f"] f i
      by (simp add: ring_push_def dring_cap_def slots_of_snoc)
    then show ?thesis
      using True assms f sz i
      by (auto simp: data_spsc_ring_push_tmp_element_def dring_hist_def dring_cap_def nth_append less_Suc_eq)
  next
    case False
    then have "c \<noteq> QUEUE_SUCCESS \<and> ring_hist f (slots_of (d_size r) ps) (slots_of (d_size r) rs)
        \<and> ring_cap f = ring_cap ?f"
      using spsc.push_full [OF h, of "q_head ?f"] f i
      by (simp add: ring_push_def dring_cap_def)
    then show ?thesis
      using False assms f sz
      by (auto simp: data_spsc_ring_push_tmp_element_def dring_hist_def dring_cap_def)
  qed
qed

lemma dring_push_hist:
  assumes "dring_hist r ps rs"
  shows "\<exists>r' b. dring_push x r = (r', b) \<and> b = (length ps < length rs + dring_cap r) \<and>
           dring_cap r' = dring_cap r \<and> dring_hist r' (if b then ps @ [x] else ps) rs"
proof -
  have "dring_cap (fill_tmp_element x r) = dring_cap r" "d_size (fill_tmp_element x r) = d_size r"
    by (simp_all add: dring_cap_def fill_tmp_element_def)
  then show ?thesis
    using push_tmp_hist [OF fill_hist(1) [OF assms, of x], of x] fill_hist(2) [OF assms, of x]
    by (auto simp: dring_push_def split: prod.splits if_splits)
qed

lemma queue_pop_size: "queue_pop q = (q', x) \<Longrightarrow> q_size q' = q_size q"
  by (auto simp: queue_pop_def Let_def split: if_splits)

lemma dring_pop_hist:
  assumes "dring_hist r ps rs"
  shows "\<exists>r'. dring_cap r' = dring_cap r \<and>
     (if length rs < length ps
      then data_spsc_ring_pop r = (r', Some (ps ! length rs)) \<and> dring_hist r' ps (rs @ [ps ! length rs])
      else data_spsc_ring_pop r = (r', None) \<and> dring_hist r' ps rs)"
proof -
  have h: "ring_hist (fifo_index r) (slots_of (d_size r) ps) (slots_of (d_size r) rs)"
    using assms unfolding dring_hist_def by blast
  obtain ct ch where i: "length rs \<le> length ps"
    by (rule dring_histD [OF assms])
  show ?thesis
  proof (cases "length rs < length ps")
    case True
    then obtain f where f: "queue_pop (fifo_index r) = (f, Some (length rs mod d_size r))"
      "ring_hist f (slots_of (d_size r) ps) (slots_of (d_size r) (rs @ [ps ! length rs]))"
      "ring_cap f = ring_cap (fifo_index r)"
      using spsc.pop_some [OF h] by (auto simp: nth_slots_of slots_of_snoc)
    have "rs @ [ps ! length rs] = take (Suc (length rs)) ps"
      using assms True by (simp add: dring_hist_def take_Suc_conv_app_nth)
    then show ?thesis
      using True f assms queue_pop_size [OF f(1)]
      by (auto simp: data_spsc_ring_pop_def dring_hist_def dring_cap_def)
  next
    case False
    then obtain f where f: "queue_pop (fifo_index r) = (f, None)"
      "ring_hist f (slots_of (d_size r) ps) (slots_of (d_size r) rs)"
      "ring_cap f = ring_cap (fifo_index r)"
      using spsc.pop_none [OF h] i by auto
    then show ?thesis
      using False assms queue_pop_size [OF f(1)]
      by (auto simp: data_spsc_ring_pop_def dring_hist_def dring_cap_def)
  qed
qed

interpretation dring: history_fifo dring_hist dring_cap dring_push data_spsc_ring_pop
proof unfold_locales
  fix r :: "'a dring" and ps rs x
  assume h: "dring_hist r ps rs"
  show "length rs \<le> length ps \<and> length ps \<le> length rs + dring_cap r"
    by (rule dring_histD [OF h]) simp
  show "length ps < length rs + dring_cap r \<Longrightarrow>
      \<exists>r'. dring_push x r = (r', True) \<and> dring_hist r' (ps @ [x]) rs \<and> dring_cap r' = dring_cap r"
    using dring_push_hist [OF h, of x] by auto
  show "length ps = length rs + dring_cap r \<Longrightarrow>
      \<exists>r'. dring_push x r = (r', False) \<and> dring_hist r' ps rs \<and> dring_cap r' = dring_cap r"
    using dring_push_hist [OF h, of x] by auto
  show "length rs < length ps \<Longrightarrow>
      \<exists>r'. data_spsc_ring_pop r = (r', Some (ps ! length rs)) \<and> dring_hist r' ps (rs @ [ps ! length rs])
         \<and> dring_cap r' = dring_cap r"
    using dring_pop_hist [OF h] by auto
  show "length rs = length ps \<Longrightarrow>
      \<exists>r'. data_spsc_ring_pop r = (r', None) \<and> dring_hist r' ps rs \<and> dring_cap r' = dring_cap r"
    using dring_pop_hist [OF h] by auto
qed

section \<open>Bulk consumption\<close>

lemma queue_pop_bulk_inv:
  assumes "ring_inv q ps rs ct ch"
  shows "case queue_pop_bulk q of (q', x) \<Rightarrow> \<exists>ch'. ring_inv q' ps rs ct ch' \<and> q_size q' = q_size q \<and>
     (case x of None \<Rightarrow> length rs = length ps
      | Some (t, n) \<Rightarrow> cons_ok q' ps rs ch' (C_bulk t n []))"
proof (cases "cached_head q = q_tail q")
  case True
  note i = reload_head_inv [OF assms]
  show ?thesis
    using True i c_ready_ok [OF i, of True] cached_head_iff [OF i]
    by (auto simp: queue_pop_bulk_def Let_def c_ready_def split: if_splits)
next
  case False
  then show ?thesis
    using assms c_ready_ok [OF assms, of True] cached_head_iff [OF assms]
    by (auto simp: queue_pop_bulk_def Let_def c_ready_def split: if_splits)
qed

lemma bulk_values:
  assumes "dring_hist r ps rs" "ring_inv (fifo_index r) (slots_of (d_size r) ps) (slots_of (d_size r) rs) ct ch"
    "t = q_tail (fifo_index r)" "t + n \<le> d_size r" "length rs + n \<le> ch"
  shows "map (\<lambda>i. data_spsc_ring_get_data r (t + i)) [0..<n] = take n (drop (length rs) ps)"
proof (rule nth_equalityI)
  have len: "length rs + n \<le> length ps" using assms(2,5) by (auto simp: ring_inv_def)
  then show "length (map (\<lambda>i. data_spsc_ring_get_data r (t + i)) [0..<n]) = length (take n (drop (length rs) ps))"
    by simp
  fix i
  assume "i < length (map (\<lambda>i. data_spsc_ring_get_data r (t + i)) [0..<n])"
  then have i: "i < n" by simp
  have sz: "d_size r = q_size (fifo_index r)" using assms(1) unfolding dring_hist_def by blast
  have "q_data (fifo_index r) ! (t + i) = (length rs + i) mod d_size r"
    using bulk_read [OF assms(2,3), of n i] assms(4,5) i len sz by (simp add: nth_slots_of)
  then show "map (\<lambda>i. data_spsc_ring_get_data r (t + i)) [0..<n] ! i = take n (drop (length rs) ps) ! i"
    using assms(1) i len by (auto simp: data_spsc_ring_get_data_def dring_hist_def)
qed

lemma slots_of_take: "k \<le> length xs \<Longrightarrow> slots_of s (take k xs) = take k (slots_of s xs)"
  by (simp add: slots_of_def take_map take_upt)

lemma slots_of_append_take:
  assumes "rs = take (length rs) ps" "length rs + n \<le> length ps"
  shows "slots_of s (rs @ take n (drop (length rs) ps)) =
         slots_of s rs @ take n (drop (length rs) (slots_of s ps))"
proof -
  have rs: "rs @ take n (drop (length rs) ps) = take (length rs + n) ps"
    using assms(1) by (simp add: take_add)
  have "slots_of s rs = take (length rs) (slots_of s ps)"
    using assms slots_of_take [of "length rs" ps s] by simp
  then show ?thesis
    unfolding rs slots_of_take [OF assms(2)] by (simp add: take_add)
qed

lemma update_tail_hist:
  assumes "dring_hist r ps rs" "ring_inv (fifo_index r) (slots_of (d_size r) ps) (slots_of (d_size r) rs) ct ch"
    "t = q_tail (fifo_index r)" "t + n \<le> d_size r" "length rs + n \<le> ch"
  shows "dring_hist (data_spsc_ring_update_tail t n r) ps (rs @ take n (drop (length rs) ps))"
proof -
  let ?f = "fifo_index r"
  have sz: "d_size r = q_size ?f" and rs: "rs = take (length rs) ps"
    using assms(1) unfolding dring_hist_def by blast+
  have len: "length rs + n \<le> length ps" using assms(2,5) by (auto simp: ring_inv_def)
  have "wrap (q_size ?f) (q_tail ?f + n) = (length rs + n) mod q_size ?f"
    using assms sz wrap_bulk [of t n "q_size ?f"] by (simp add: ring_inv_def mod_add_left_eq)
  then have "ring_inv (queue_update_tail t n ?f) (slots_of (d_size r) ps)
      (slots_of (d_size r) (rs @ take n (drop (length rs) ps))) ct ch"
    using tail_inv [OF assms(2)] assms(3,5) slots_of_append_take [OF rs len] by simp
  moreover have "rs @ take n (drop (length rs) ps) = take (length rs + n) ps"
    using rs by (simp add: take_add)
  ultimately show ?thesis
    using assms(1) len
    by (auto simp: dring_hist_def ring_hist_def data_spsc_ring_update_tail_def queue_update_tail_def)
qed

lemma bulk_protocol:
  assumes "dring_hist r ps rs"
  shows "case data_spsc_ring_pop_bulk r of
     (r', None) \<Rightarrow> length rs = length ps \<and> dring_hist r' ps rs
   | (r', Some (t, n)) \<Rightarrow> 0 < n \<and> length rs + n \<le> length ps \<and>
       map (\<lambda>i. data_spsc_ring_get_data r' (t + i)) [0..<n] = take n (drop (length rs) ps) \<and>
       dring_hist (data_spsc_ring_update_tail t n r') ps (rs @ take n (drop (length rs) ps))"
proof -
  obtain ct ch where i: "ring_inv (fifo_index r) (slots_of (d_size r) ps) (slots_of (d_size r) rs) ct ch"
    "d_size r = q_size (fifo_index r)"
    by (rule dring_histD [OF assms])
  obtain f x where f: "queue_pop_bulk (fifo_index r) = (f, x)" by fastforce
  define r' where "r' = r\<lparr>fifo_index := f\<rparr>"
  obtain ch' where f': "ring_inv f (slots_of (d_size r) ps) (slots_of (d_size r) rs) ct ch'" "q_size f = d_size r"
    "case x of None \<Rightarrow> length (slots_of (d_size r) rs) = length (slots_of (d_size r) ps)
      | Some (t, n) \<Rightarrow> cons_ok f (slots_of (d_size r) ps) (slots_of (d_size r) rs) ch' (C_bulk t n [])"
    using queue_pop_bulk_inv [OF i(1)] unfolding f i(2) [symmetric] by auto
  have h: "dring_hist r' ps rs"
    using assms f' by (auto simp: dring_hist_def ring_hist_def r'_def)
  show ?thesis
  proof (cases x)
    case None
    then show ?thesis using f f' h by (simp add: data_spsc_ring_pop_bulk_def r'_def)
  next
    case (Some tn)
    obtain t n where tn: "tn = (t, n)" by fastforce
    have b: "t = q_tail (fifo_index r')" "0 < n" "t + n \<le> d_size r'" "length rs + n \<le> ch'"
      "ring_inv (fifo_index r') (slots_of (d_size r') ps) (slots_of (d_size r') rs) ct ch'"
      using f' Some tn by (auto simp: cons_ok_def r'_def)
    moreover have "length rs + n \<le> length ps" using b(4,5) by (auto simp: ring_inv_def)
    ultimately show ?thesis
      using bulk_values [OF h b(5,1,3,4)] update_tail_hist [OF h b(5,1,3,4)] Some tn f
      by (simp add: data_spsc_ring_pop_bulk_def r'_def)
  qed
qed

section \<open>Properties\<close>

lemma init_hist:
  assumes "\<forall>k. alloc k" "1 \<le> sz" "sz + 5 \<le> 2 ^ 32" "element_size \<noteq> 0"
  shows "\<exists>r. data_spsc_ring_init alloc fresh sz element_size = (0, Some r) \<and> dring_hist r [] [] \<and>
           dring_cap r = sz - 1"
proof -
  have "alloc_elements alloc k n" for k n
    using assms(1) by (induction n arbitrary: k) auto
  moreover have "ring_inv (queue_init (sz + 2)) [] [] 0 0" using assms by (intro queue_init_inv) auto
  moreover have "(queue_init (sz + 2))\<lparr>q_data := replicate (sz + 2) 0\<rparr> = queue_init (sz + 2)"
    by (simp add: queue_init_def)
  ultimately show ?thesis
    using assms
    by (auto simp: data_spsc_ring_init_def Let_def dring_hist_def ring_hist_def slots_of_def dring_cap_def
        ring_cap_def queue_init_def)
qed

text \<open>
  C4: a ring initialised with \<open>sz\<close> elements behaves, under any sequence of fill-and-push and
  pop calls, as a FIFO list of capacity \<open>sz - 1\<close> on the elements themselves: refused packets
  never disturb waiting ones although the buffer at the head is filled before the fullness test.
\<close>

theorem data_ring_refines_queue:
  assumes "\<forall>k. alloc k" "1 \<le> sz" "sz + 5 \<le> 2 ^ 32" "element_size \<noteq> 0"
    and "data_spsc_ring_init alloc fresh sz element_size = (code, Some r)"
  shows "fifo_run dring_push data_spsc_ring_pop r ops = spec_run (sz - 1) [] ops"
proof -
  have "dring_hist r [] []" "dring_cap r = sz - 1"
    using init_hist [OF assms(1-4), of fresh] assms(5) by auto
  then show ?thesis using dring.run_refines [of r "[]" "[]" ops] by simp
qed

theorem data_ring_refines_queue_witness:
  "\<exists>r. data_spsc_ring_init (\<lambda>_. True) ''-'' 2 64 = (0, Some r) \<and>
     fifo_run dring_push data_spsc_ring_pop r [Push ''a'', Push ''b'', Pop, Pop] =
       [Accepted True, Accepted False, Popped (Some ''a''), Popped None]"
proof -
  obtain r where r: "data_spsc_ring_init (\<lambda>_. True) ''-'' 2 64 = (0, Some r)"
    using init_hist [of "\<lambda>_. True" 2 64 "''-''"] by auto
  then show ?thesis
    using data_ring_refines_queue [OF _ _ _ _ r, of "[Push ''a'', Push ''b'', Pop, Pop]"] by simp
qed

text \<open>
  C6: the worker's bulk protocol. \<^verbatim>\<open>data_spsc_ring_pop_bulk\<close> reports an empty ring exactly when
  nothing waits; otherwise the announced range is non-empty, reading it with
  \<^verbatim>\<open>data_spsc_ring_get_data\<close> gives the oldest waiting elements in order, and
  \<^verbatim>\<open>data_spsc_ring_update_tail\<close> removes exactly those.
\<close>

theorem data_ring_bulk:
  assumes "dring_hist r ps rs"
  shows "case data_spsc_ring_pop_bulk r of
     (r', None) \<Rightarrow> length rs = length ps \<and> dring_hist r' ps rs
   | (r', Some (t, n)) \<Rightarrow> 0 < n \<and> length rs + n \<le> length ps \<and>
       map (\<lambda>i. data_spsc_ring_get_data r' (t + i)) [0..<n] = take n (drop (length rs) ps) \<and>
       dring_hist (data_spsc_ring_update_tail t n r') ps (rs @ take n (drop (length rs) ps))"
  by (rule bulk_protocol [OF assms])

theorem data_ring_bulk_witness:
  "\<exists>r. dring_hist r [''a''] [] \<and>
     (case data_spsc_ring_pop_bulk r of (r', None) \<Rightarrow> False
      | (r', Some (t, n)) \<Rightarrow> n = 1 \<and> data_spsc_ring_get_data r' t = ''a'')"
proof -
  obtain r0 :: "string dring" where r0: "dring_hist r0 [] []" "dring_cap r0 = 2"
    using init_hist [of "\<lambda>_. True" 3 64 "''-''"] by auto
  obtain r where r: "dring_hist r [''a''] []"
    using dring_push_hist [OF r0(1), of "''a''"] r0(2) by auto
  show ?thesis
    using data_ring_bulk [OF r] r
    by (auto simp: le_Suc_eq split: prod.splits option.splits intro!: exI [of _ r])
qed

text \<open>
  A thread queue of length 1 is accepted by \<^verbatim>\<open>data_spsc_ring_init\<close> but can never carry a
  packet: every push into it is refused.
\<close>

theorem data_ring_of_one_is_closed:
  "case data_spsc_ring_init (\<lambda>_. True) fresh 1 64 of
     (code, Some r) \<Rightarrow> code = 0 \<and> fifo_run dring_push data_spsc_ring_pop r (map Push xs) = map (\<lambda>_. Accepted False) xs
   | _ \<Rightarrow> False"
proof -
  obtain r where r: "data_spsc_ring_init (\<lambda>_. True) fresh 1 64 = (0, Some r)" "dring_hist r [] []" "dring_cap r = 0"
    using init_hist [of "\<lambda>_. True" 1 64 fresh] by auto
  have "spec_run 0 [] (map Push xs) = map (\<lambda>_. Accepted False) xs" for xs :: "'b list"
    by (induction xs) auto
  then show ?thesis using dring.run_refines [OF r(2), of "map Push xs"] r by simp
qed

end
