(* ===== verification/String_Builder.thy ===== *)
theory String_Builder
  imports Prelude
begin

text \<open>
  The report formatter of \<^verbatim>\<open>src/src/lib/string_builder.h\<close> (with the argument iterator
  \<^verbatim>\<open>APPLY\<close> of \<^verbatim>\<open>macro_apply.h\<close>): the \<^verbatim>\<open>append_*\<close> functions write one field at the
  position a report has reached, and the macros \<^verbatim>\<open>STRING_BUILDER\<close> and
  \<^verbatim>\<open>STRING_BUILDER_WITH_SEPARATOR\<close> chain them and close the string with a NUL.

  An operation \<open>append_x x m off sz\<close> is the call \<^verbatim>\<open>append_x(m + off, sz, x)\<close> on the array
  \<open>m\<close>; it returns the array and the number of characters written, or the fault of the first
  store outside \<open>m\<close>. The locale \<open>appender\<close> is the contract the macros rely on: the
  text \<open>text_of sz x\<close> lands at \<open>off\<close>, nothing else changes, and at most \<open>sz\<close> characters are used.
\<close>

section \<open>Data\<close>

record timeval =
  tv_sec :: int
  tv_usec :: int

text \<open>The arguments \<^verbatim>\<open>__ARR(x)\<close>, \<^verbatim>\<open>__STR(x)\<close>, \dots of the macros.\<close>

datatype item =
    F_ARR string | F_STR string | F_INT u64 | F_CHAR char | F_TIME timeval
  | F_HEX u8 | F_MAC "u8 list" | F_IPv4 u32

type_synonym append_res = "(string \<times> nat) cres"

section \<open>The append functions\<close>

definition append_char :: "char \<Rightarrow> string \<Rightarrow> nat \<Rightarrow> nat \<Rightarrow> append_res" where
  "append_char c m off sz =
     (if sz = 0 then Inr (m, 0)
      else bindE (store m off c) (\<lambda>m. Inr (m, 1)))"

definition append_string_without_quote :: "string \<Rightarrow> string \<Rightarrow> nat \<Rightarrow> nat \<Rightarrow> append_res" where
  "append_string_without_quote src m off sz =
     (if sz = 0 then Inr (m, 0)
      else let src_size = strlen src;
               src_size = (if src_size > sz then sz else src_size)
           in bindE (memcpy m off (take src_size src)) (\<lambda>m. Inr (m, src_size)))"

definition append_string :: "string \<Rightarrow> string \<Rightarrow> nat \<Rightarrow> nat \<Rightarrow> append_res" where
  "append_string src m off sz =
     (if sz < 2 then Inr (m, 0)
      else if sz = 2 then
        bindE (store m off CHR 0x22) (\<lambda>m.
        bindE (store m (off + 1) CHR 0x22) (\<lambda>m. Inr (m, 2)))
      else let src_size = strlen src;
               dst_size = sz - 2;
               src_size = (if src_size > dst_size then dst_size else src_size)
           in bindE (store m off CHR 0x22) (\<lambda>m.
              bindE (if src_size \<noteq> 0 then memcpy m (off + 1) (take src_size src) else Inr m) (\<lambda>m.
              bindE (store m (off + (src_size + 1)) CHR 0x22) (\<lambda>m.
              Inr (m, src_size + 2)))))"

definition hex_digits :: string where
  "hex_digits = ''0123456789ABCDEF''"

definition append_hex :: "u8 \<Rightarrow> string \<Rightarrow> nat \<Rightarrow> nat \<Rightarrow> append_res" where
  "append_hex val m off sz =
     (if sz < 2 then Inr (m, 0)
      else bindE (store m off (hex_digits ! unat (drop_bit 4 val))) (\<lambda>m.
           bindE (store m (off + 1) (hex_digits ! unat (val AND 0xF))) (\<lambda>m.
           Inr (m, 2))))"

text \<open>
  The statement pair \<^verbatim>\<open>offset += append_hex(dst + offset, 2, t[k]); dst[offset++] = c;\<close>
  that \<^verbatim>\<open>append_mac\<close> repeats for its six bytes.
\<close>

definition mac_byte :: "u8 list \<Rightarrow> string \<Rightarrow> nat \<Rightarrow> nat \<Rightarrow> char \<Rightarrow> nat \<Rightarrow> append_res" where
  "mac_byte t m off k c offset =
     (if k < length t
      then bindE (append_hex (t ! k) m (off + offset) 2) (\<lambda>(m, w).
           bindE (store m (off + (offset + w)) c) (\<lambda>m. Inr (m, offset + w + 1)))
      else Inl OutOfBounds)"

definition append_mac :: "u8 list \<Rightarrow> string \<Rightarrow> nat \<Rightarrow> nat \<Rightarrow> append_res" where
  "append_mac t m off sz =
     (if sz < 19 then Inr (m, 0)
      else bindE (store m off CHR 0x22) (\<lambda>m.
           bindE (mac_byte t m off 0 CHR '':'' 1) (\<lambda>(m, offset).
           bindE (mac_byte t m off 1 CHR '':'' offset) (\<lambda>(m, offset).
           bindE (mac_byte t m off 2 CHR '':'' offset) (\<lambda>(m, offset).
           bindE (mac_byte t m off 3 CHR '':'' offset) (\<lambda>(m, offset).
           bindE (mac_byte t m off 4 CHR '':'' offset) (\<lambda>(m, offset).
           mac_byte t m off 5 CHR 0x22 offset)))))))"

subsection \<open>Numbers\<close>

definition digit_pairs :: string where
  "digit_pairs =
     ''00010203040506070809'' @ ''10111213141516171819'' @ ''20212223242526272829'' @
     ''30313233343536373839'' @ ''40414243444546474849'' @ ''50515253545556575859'' @
     ''60616263646566676869'' @ ''70717273747576777879'' @ ''80818283848586878889'' @
     ''90919293949596979899''"

definition digit :: "nat \<Rightarrow> char" where
  "digit d = char_of (48 + d)"

text \<open>The decision tree that finds the number of digits.\<close>

definition number_size :: "u64 \<Rightarrow> nat" where
  "number_size val =
    (if val \<ge> 1000 then
       if val \<ge> 100000 then
         if val \<ge> 10000000 then
           if val \<ge> 1000000000 then
             if val \<ge> 100000000000 then
               if val \<ge> 10000000000000 then
                 if val \<ge> 1000000000000000 then
                   if val \<ge> 100000000000000000 then
                     if val \<ge> 10000000000000000000 then 20
                     else if val \<ge> 1000000000000000000 then 19 else 18
                   else if val \<ge> 10000000000000000 then 17 else 16
                 else if val \<ge> 100000000000000 then 15 else 14
               else if val \<ge> 1000000000000 then 13 else 12
             else if val \<ge> 10000000000 then 11 else 10
           else if val \<ge> 100000000 then 9 else 8
         else if val \<ge> 1000000 then 7 else 6
       else if val \<ge> 10000 then 5 else 4
     else if val \<ge> 100 then 3 else 2)"

text \<open>
  The two writing loops. The pointer \<^verbatim>\<open>c\<close> walks backwards and ends one before the first
  digit, so it is kept as an integer position; a store below the array is a fault.
\<close>

definition store_at :: "string \<Rightarrow> int \<Rightarrow> string \<Rightarrow> string cres" where
  "store_at m c s = (if 0 \<le> c then memcpy m (nat c) s else Inl OutOfBounds)"

function put_pairs :: "u64 \<Rightarrow> string \<Rightarrow> int \<Rightarrow> (u64 \<times> string \<times> int) cres" where
  "put_pairs val m c =
     (if val \<ge> 100 then
        let pos = unat (val mod 100)
        in bindE (store_at m (c - 1) (take 2 (drop (2 * pos) digit_pairs))) (\<lambda>m.
           put_pairs (val div 100) m (c - 2))
      else Inr (val, m, c))"
  by pat_completeness auto
termination
  by (relation "measure (\<lambda>(val, _, _). unat val)") (auto simp: word_le_nat_alt unat_div)

function put_digits :: "u64 \<Rightarrow> string \<Rightarrow> int \<Rightarrow> string cres" where
  "put_digits val m c =
     (if val > 0 then
        bindE (store_at m c [digit (unat (val mod 10))]) (\<lambda>m. put_digits (val div 10) m (c - 1))
      else Inr m)"
  by pat_completeness auto
termination
  by (relation "measure (\<lambda>(val, _, _). unat val)") (auto simp: word_less_nat_alt unat_div)

declare put_pairs.simps [simp del] put_digits.simps [simp del]

definition append_number :: "u64 \<Rightarrow> string \<Rightarrow> nat \<Rightarrow> nat \<Rightarrow> append_res" where
  "append_number val m off sz =
     (if val < 10 \<and> sz > 0
      then bindE (store m off (digit (unat val))) (\<lambda>m. Inr (m, 1))
      else let size = number_size val
           in if size > sz then Inr (m, 0)
              else bindE (put_pairs val m (int off + int size - 1)) (\<lambda>(val, m, c).
                   bindE (put_digits val m c) (\<lambda>m. Inr (m, size))))"

definition ip_byte :: "u32 \<Rightarrow> nat \<Rightarrow> u64" where
  "ip_byte ip k = ucast (drop_bit (8 * k) ip AND 0xFF)"

text \<open>
  \<^verbatim>\<open>p[k]\<close> reads the bytes of \<open>ip\<close> in memory order: the lowest byte first on the
  little-endian targets of the probe.
\<close>

definition append_ipv4 :: "u32 \<Rightarrow> string \<Rightarrow> nat \<Rightarrow> nat \<Rightarrow> append_res" where
  "append_ipv4 ip m off sz =
     (if sz < 16 then Inr (m, 0)
      else bindE (append_number (ip_byte ip 0) m off sz) (\<lambda>(m, valid).
           bindE (store m (off + valid) CHR ''.'') (\<lambda>m. let valid = valid + 1 in
           bindE (append_number (ip_byte ip 1) m (off + valid) (sz - valid)) (\<lambda>(m, w). let valid = valid + w in
           bindE (store m (off + valid) CHR ''.'') (\<lambda>m. let valid = valid + 1 in
           bindE (append_number (ip_byte ip 2) m (off + valid) (sz - valid)) (\<lambda>(m, w). let valid = valid + w in
           bindE (store m (off + valid) CHR ''.'') (\<lambda>m. let valid = valid + 1 in
           bindE (append_number (ip_byte ip 3) m (off + valid) (sz - valid)) (\<lambda>(m, w).
           Inr (m, valid + w)))))))))"

primrec copy_tmp :: "string \<Rightarrow> nat \<Rightarrow> nat \<Rightarrow> nat list \<Rightarrow> string \<Rightarrow> string cres" where
  "copy_tmp tmp len dst [] m = Inr m"
| "copy_tmp tmp len dst (i # is) m =
     bindE (store m (dst + (i + (6 - len))) (tmp ! i)) (\<lambda>m. copy_tmp tmp len dst is m)"

definition append_timeval :: "timeval \<Rightarrow> string \<Rightarrow> nat \<Rightarrow> nat \<Rightarrow> append_res" where
  "append_timeval t m off sz =
     (if sz < 12 then Inr (m, 0)
      else bindE (append_number (word_of_int (tv_sec t)) m off sz) (\<lambda>(m, offset).
        if \<not> offset \<le> 12 then Inl Aborted
        else if sz < offset + 7 then Inr (m, offset)
        else let dst = off + offset in
          bindE (store m dst CHR ''.'') (\<lambda>m. let dst = dst + 1 in
          bindE (append_number (word_of_int (tv_usec t)) (replicate 6 NUL) 0 6) (\<lambda>(tmp, len).
          bindE (store m dst CHR ''0'') (\<lambda>m.
          bindE (store m (dst + 1) CHR ''0'') (\<lambda>m.
          bindE (store m (dst + 2) CHR ''0'') (\<lambda>m.
          bindE (store m (dst + 3) CHR ''0'') (\<lambda>m.
          bindE (store m (dst + 4) CHR ''0'') (\<lambda>m.
          bindE (store m (dst + 5) CHR ''0'') (\<lambda>m.
          bindE (copy_tmp tmp len dst [0..<len] m) (\<lambda>m.
          Inr (m, offset + 1 + 6))))))))))))"

section \<open>The builder macros\<close>

fun append_item :: "item \<Rightarrow> string \<Rightarrow> nat \<Rightarrow> nat \<Rightarrow> append_res" where
  "append_item (F_ARR x) = append_string_without_quote x"
| "append_item (F_STR x) = append_string x"
| "append_item (F_INT x) = append_number x"
| "append_item (F_CHAR x) = append_char x"
| "append_item (F_TIME x) = append_timeval x"
| "append_item (F_HEX x) = append_hex x"
| "append_item (F_MAC x) = append_mac x"
| "append_item (F_IPv4 x) = append_ipv4 x"

text \<open>
  \<^verbatim>\<open>APPLY(SEPA, FUN, a1, .., ak)\<close> expands to \<^verbatim>\<open>FUN(a1) SEPA() FUN(a2) .. FUN(ak)\<close>, here a
  sequence of state transformers.
\<close>

fun APPLY :: "('s \<Rightarrow> 's cres) \<Rightarrow> ('a \<Rightarrow> 's \<Rightarrow> 's cres) \<Rightarrow> 'a list \<Rightarrow> 's \<Rightarrow> 's cres" where
  "APPLY sepa f [] s = Inr s"
| "APPLY sepa f [a] s = f a s"
| "APPLY sepa f (a # b # l) s =
     bindE (f a s) (\<lambda>s. bindE (sepa s) (\<lambda>s. APPLY sepa f (b # l) s))"

text \<open>
  State of an expansion: the array and \<^verbatim>\<open>__i\<close>; the room handed to a helper is
  \<^verbatim>\<open>__n-__i\<close> converted to \<^verbatim>\<open>size_t\<close>.
\<close>

definition BUILDER :: "int \<Rightarrow> item \<Rightarrow> string \<times> nat \<Rightarrow> append_res" where
  "BUILDER n X = (\<lambda>(m, i).
     if n > int i
     then bindE (append_item X m i (size_t_of (n - int i))) (\<lambda>(m, w). Inr (m, i + w))
     else Inr (m, i))"

definition SEPARATOR :: "string \<Rightarrow> int \<Rightarrow> string \<times> nat \<Rightarrow> append_res" where
  "SEPARATOR sepa n = (\<lambda>(m, i).
     bindE (append_string_without_quote sepa m i (size_t_of (n - int i))) (\<lambda>(m, w). Inr (m, i + w)))"

definition EMPTY :: "string \<times> nat \<Rightarrow> append_res" where
  "EMPTY s = Inr s"

definition STRING_BUILDER :: "nat \<Rightarrow> string \<Rightarrow> nat \<Rightarrow> item list \<Rightarrow> append_res" where
  "STRING_BUILDER valid dst dst_size args =
     bindE (APPLY EMPTY (BUILDER (int dst_size - 1)) args (dst, valid)) (\<lambda>(m, i).
     bindE (store m i NUL) (\<lambda>m. Inr (m, i)))"

definition STRING_BUILDER_WITH_SEPARATOR ::
  "nat \<Rightarrow> string \<Rightarrow> nat \<Rightarrow> string \<Rightarrow> item list \<Rightarrow> append_res" where
  "STRING_BUILDER_WITH_SEPARATOR valid dst dst_size separator args =
     bindE (APPLY (SEPARATOR separator (int dst_size - 1)) (BUILDER (int dst_size - 1)) args
              (dst, valid)) (\<lambda>(m, i).
     bindE (store m i NUL) (\<lambda>m. Inr (m, i)))"

section \<open>Reference text of each field\<close>

fun dec :: "nat \<Rightarrow> string" where
  "dec n = (if n < 10 then [digit n] else dec (n div 10) @ [digit (n mod 10)])"

declare dec.simps [simp del]

definition number_txt :: "nat \<Rightarrow> u64 \<Rightarrow> string" where
  "number_txt sz val = (if length (dec (unat val)) \<le> sz then dec (unat val) else [])"

definition hex2 :: "u8 \<Rightarrow> string" where
  "hex2 b = [hex_digits ! unat (drop_bit 4 b), hex_digits ! unat (b AND 0xF)]"

definition ipv4_text :: "u32 \<Rightarrow> string" where
  "ipv4_text ip =
     dec (unat (ip_byte ip 0)) @ ''.'' @ dec (unat (ip_byte ip 1)) @ ''.'' @
     dec (unat (ip_byte ip 2)) @ ''.'' @ dec (unat (ip_byte ip 3))"

definition usec_text :: "u64 \<Rightarrow> string" where
  "usec_text v = (let s = number_txt 6 v in replicate (6 - length s) CHR ''0'' @ s)"

definition timeval_txt :: "nat \<Rightarrow> timeval \<Rightarrow> string" where
  "timeval_txt sz t =
     (if sz < 12 then []
      else let s = number_txt sz (word_of_int (tv_sec t))
           in if sz < length s + 7 then s
              else s @ ''.'' @ usec_text (word_of_int (tv_usec t)))"

definition mac_text :: "u8 list \<Rightarrow> string" where
  "mac_text t = ''\"'' @ hex2 (t ! 0) @ '':'' @ hex2 (t ! 1) @ '':'' @ hex2 (t ! 2) @ '':'' @
     hex2 (t ! 3) @ '':'' @ hex2 (t ! 4) @ '':'' @ hex2 (t ! 5) @ ''\"''"

fun item_txt :: "nat \<Rightarrow> item \<Rightarrow> string" where
  "item_txt sz (F_ARR x) = take sz (cstr x)"
| "item_txt sz (F_STR x) = (if sz < 2 then [] else ''\"'' @ take (sz - 2) (cstr x) @ ''\"'')"
| "item_txt sz (F_INT x) = number_txt sz x"
| "item_txt sz (F_CHAR x) = take sz [x]"
| "item_txt sz (F_TIME x) = timeval_txt sz x"
| "item_txt sz (F_HEX x) = (if sz < 2 then [] else hex2 x)"
| "item_txt sz (F_MAC x) = (if sz < 19 then [] else mac_text x)"
| "item_txt sz (F_IPv4 x) = (if sz < 16 then [] else ipv4_text x)"

text \<open>What a field needs from its caller: six bytes behind a MAC pointer, and seconds of at
  most twelve digits (the assertion in \<^verbatim>\<open>append_timeval\<close>).\<close>

fun item_ok :: "item \<Rightarrow> bool" where
  "item_ok (F_TIME x) \<longleftrightarrow> unat (word_of_int (tv_sec x) :: u64) < 10 ^ 12"
| "item_ok (F_MAC x) \<longleftrightarrow> length x \<ge> 6"
| "item_ok _ \<longleftrightarrow> True"

section \<open>The contract of the append functions\<close>

locale appender =
  fixes app :: "'x \<Rightarrow> string \<Rightarrow> nat \<Rightarrow> nat \<Rightarrow> append_res"
    and text_of :: "nat \<Rightarrow> 'x \<Rightarrow> string"
    and ok :: "'x \<Rightarrow> bool"
  assumes app_writes: "ok x \<Longrightarrow> off + sz \<le> length m \<Longrightarrow>
            app x m off sz = Inr (blit m off (text_of sz x), length (text_of sz x))"
    and text_fits: "length (text_of sz x) \<le> sz"
begin

lemma app_keeps_length:
  "ok x \<Longrightarrow> off + sz \<le> length m \<Longrightarrow> app x m off sz = Inr (m', w) \<Longrightarrow> length m' = length m"
  using text_fits [of sz x] by (auto simp: app_writes)

lemma app_bounded:
  "ok x \<Longrightarrow> off + sz \<le> length m \<Longrightarrow> app x m off sz = Inr (m', w) \<Longrightarrow> w \<le> sz"
  using text_fits [of sz x] by (auto simp: app_writes)

lemma app_frame:
  "ok x \<Longrightarrow> off + sz \<le> length m \<Longrightarrow> app x m off sz = Inr (m', w) \<Longrightarrow>
   take off m' = take off m \<and> drop (off + w) m' = drop (off + w) m"
  using text_fits [of sz x] by (auto simp: app_writes take_blit_less drop_blit)

lemma app_seq:
  assumes "ok x" "ok y" "off + sz \<le> length m" "app x m off sz = Inr (m', w)"
  shows "app y m' (off + w) (sz - w) =
         Inr (blit m off (text_of sz x @ text_of (sz - w) y), length (text_of (sz - w) y))"
  using assms text_fits [of sz x] text_fits [of "sz - w" y]
  by (auto simp: app_writes blit_append)

end

section \<open>Decimal numbers\<close>

lemma dec_lt10: "n < 10 \<Longrightarrow> dec n = [digit n]"
  by (simp add: dec.simps)

lemma dec_ge10: "10 \<le> n \<Longrightarrow> dec n = dec (n div 10) @ [digit (n mod 10)]"
  by (simp add: dec.simps)

lemma dec_nonempty [simp]: "dec n \<noteq> []"
  by (subst dec.simps) simp

lemma length_dec: "10 ^ k \<le> n \<Longrightarrow> n < 10 ^ Suc k \<Longrightarrow> length (dec n) = Suc k"
proof (induction k arbitrary: n)
  case 0
  then show ?case by (simp add: dec_lt10)
next
  case (Suc k)
  have "10 \<le> n"
    using Suc.prems(1) by (rule order_trans [rotated]) simp
  moreover have "10 ^ k \<le> n div 10" "n div 10 < 10 ^ Suc k"
    using Suc.prems by (simp_all add: less_eq_div_iff_mult_less_eq div_less_iff_less_mult mult.commute)
  ultimately show ?case
    using Suc.IH [of "n div 10"] by (simp add: dec_ge10)
qed

lemma length_dec_pos: "0 < length (dec n)"
  by simp

lemma length_dec_bound: "n < 10 ^ k \<Longrightarrow> 0 < k \<Longrightarrow> length (dec n) \<le> k"
proof (induction k arbitrary: n)
  case (Suc k)
  show ?case
  proof (cases "n < 10")
    case False
    with Suc.prems have "0 < k" "n div 10 < 10 ^ k"
      by (auto simp: div_less_iff_less_mult mult.commute intro: gr0I)
    with Suc.IH [of "n div 10"] False show ?thesis
      by (simp add: dec_ge10)
  qed (simp add: dec_lt10)
qed simp

lemma digit_table:
  "digit 0 = CHR ''0''" "digit 1 = CHR ''1''" "digit 2 = CHR ''2''" "digit 3 = CHR ''3''"
  "digit 4 = CHR ''4''" "digit 5 = CHR ''5''" "digit 6 = CHR ''6''" "digit 7 = CHR ''7''"
  "digit 8 = CHR ''8''" "digit 9 = CHR ''9''" "digit (Suc 0) = CHR ''1''"  "digit (Suc (Suc 0)) = CHR ''2''"
  by code_simp+

lemma take_concat_pairs:
  "\<forall>x \<in> set xs. length (f x) = 2 \<Longrightarrow> p < length xs \<Longrightarrow>
   take 2 (drop (2 * p) (concat (map f xs))) = f (xs ! p)"
proof (induction xs arbitrary: p)
  case (Cons x xs)
  then show ?case by (cases p) simp_all
qed simp

lemma digit_pairs_table:
  "digit_pairs = concat (map (\<lambda>p. [digit (p div 10), digit (p mod 10)]) [0..<100])"
  by (simp add: digit_pairs_def digit_table upt_conv_Cons)

lemma digit_pairs_pos: "p < 100 \<Longrightarrow> take 2 (drop (2 * p) digit_pairs) = [digit (p div 10), digit (p mod 10)]"
  unfolding digit_pairs_table
  using take_concat_pairs [of "[0..<100]" "\<lambda>p. [digit (p div 10), digit (p mod 10)]" p] by simp

lemma dec_ge100:
  assumes "100 \<le> n"
  shows "dec n = dec (n div 100) @ [digit (n mod 100 div 10), digit (n mod 100 mod 10)]"
proof -
  have "n div 10 mod 10 = n mod 100 div 10" "n mod 100 mod 10 = n mod 10"
    by (simp_all add: div_mod_decomp mod_mult2_eq [of n 10 10, simplified])
  moreover have "dec (n div 10) = dec (n div 10 div 10) @ [digit (n div 10 mod 10)]"
    using assms by (intro dec_ge10) simp
  ultimately show ?thesis
    using assms by (simp add: dec_ge10 [of n] div_mult2_eq [of n 10 10, simplified])
qed

lemmas length_dec_table =
  length_dec [of 1, simplified] length_dec [of 2, simplified] length_dec [of 3,
  simplified] length_dec [of 4, simplified] length_dec [of 5, simplified] length_dec [of
  6, simplified] length_dec [of 7, simplified] length_dec [of 8, simplified] length_dec
  [of 9, simplified] length_dec [of 10, simplified] length_dec [of 11, simplified]
  length_dec [of 12, simplified] length_dec [of 13, simplified] length_dec [of 14,
  simplified] length_dec [of 15, simplified] length_dec [of 16, simplified] length_dec
  [of 17, simplified] length_dec [of 18, simplified] length_dec [of 19, simplified]

lemma number_size_dec:
  assumes "10 \<le> unat val"
  shows "number_size val = length (dec (unat val))"
proof (rule sym)
  have "unat val < 10 ^ 20"
    by (rule order_less_trans [OF unsigned_less]) simp
  with assms show "length (dec (unat val)) = number_size val"
    by (simp add: number_size_def word_le_nat_alt length_dec_table)
qed

lemma store_at_blit [simp]:
  "c = int p \<Longrightarrow> p + length s \<le> length m \<Longrightarrow> store_at m c s = Inr (blit m p s)"
  by (simp add: store_at_def)

lemma put_digits_dec:
  "0 < unat val \<Longrightarrow> p + length (dec (unat val)) \<le> length m \<Longrightarrow>
   c = int p + int (length (dec (unat val))) - 1 \<Longrightarrow>
   put_digits val m c = Inr (blit m p (dec (unat val)))"
proof (induction val m c arbitrary: p rule: put_digits.induct)
  case (1 val m c)
  let ?v = "unat val" and ?d = "digit (unat val mod 10)"
  have pos: "val > 0" using 1(2) by (simp add: word_less_nat_alt)
  have [simp]: "put_digits 0 m' c' = Inr m'" for m' c'
    by (subst put_digits.simps) simp
  show ?case
  proof (cases "?v < 10")
    case True
    then have "unat (val div 10) = 0" by (simp add: unat_div)
    then have "val div 10 = 0" by (simp only: unsigned_eq_0_iff)
    with True pos 1(3,4) show ?thesis
      by (subst put_digits.simps) (simp add: dec_lt10 unat_mod)
  next
    case False
    then have d: "dec ?v = dec (unat (val div 10)) @ [?d]"
      by (simp add: dec_ge10 unat_div)
    let ?q = "p + length (dec (unat (val div 10)))"
    have "store_at m c [?d] = Inr (blit m ?q [?d])"
      using 1(3,4) d by (intro store_at_blit) simp_all
    then have "put_digits val m c = put_digits (val div 10) (blit m ?q [?d]) (c - 1)"
      using pos by (subst put_digits.simps) (simp add: unat_mod)
    also have "\<dots> = Inr (blit (blit m ?q [?d]) p (dec (unat (val div 10))))"
      using pos 1(3,4) d False by (intro "1.IH") (simp_all add: unat_div)
    finally show ?thesis
      using 1(3) d by (simp add: blit_prepend)
  qed
qed

lemma put_pairs_dec:
  "0 < unat val \<Longrightarrow> p + length (dec (unat val)) \<le> length m \<Longrightarrow>
   c = int p + int (length (dec (unat val))) - 1 \<Longrightarrow>
   bindE (put_pairs val m c) (\<lambda>(val, m, c). put_digits val m c) = Inr (blit m p (dec (unat val)))"
proof (induction val m c arbitrary: p rule: put_pairs.induct)
  case (1 val m c)
  let ?v = "unat val"
  show ?case
  proof (cases "val \<ge> 100")
    case False
    then show ?thesis
      using 1(2-4) by (subst put_pairs.simps) (simp add: put_digits_dec)
  next
    case True
    let ?w = "unat (val div 100)"
    let ?s = "[digit (?v mod 100 div 10), digit (?v mod 100 mod 10)]"
    have v: "100 \<le> ?v" and w: "?w = ?v div 100"
      using True by (simp_all add: word_le_nat_alt unat_div)
    then have d: "dec ?v = dec ?w @ ?s" by (simp add: dec_ge100)
    let ?q = "p + length (dec ?w)"
    have "store_at m (c - 1) ?s = Inr (blit m ?q ?s)"
      using 1(3,4) d by (intro store_at_blit) simp_all
    then have "bindE (put_pairs val m c) (\<lambda>(val, m, c). put_digits val m c) =
          bindE (put_pairs (val div 100) (blit m ?q ?s) (c - 2)) (\<lambda>(val, m, c). put_digits val m c)"
      using True
      by (subst put_pairs.simps) (simp add: unat_mod digit_pairs_pos bindE_assoc)
    also have "\<dots> = Inr (blit (blit m ?q ?s) p (dec ?w))"
      using True 1(3,4) d v w by (intro "1.IH" [OF _ refl]) simp_all
    finally show ?thesis
      using 1(3) d by (simp add: blit_prepend)
  qed
qed

lemma append_number_writes:
  assumes "off + sz \<le> length m"
  shows "append_number val m off sz = Inr (blit m off (number_txt sz val), length (number_txt sz val))"
proof (cases "val < 10")
  case True
  then have v: "unat val < 10" by (simp add: word_less_nat_alt)
  have "number_size val = 2"
    using v by (simp add: number_size_def word_le_nat_alt)
  with True v assms show ?thesis
    by (auto simp: append_number_def number_txt_def dec_lt10)
next
  case False
  then have v: "10 \<le> unat val" by (simp add: word_less_nat_alt)
  have "bindE (put_pairs val m (int off + int (length (dec (unat val))) - 1))
          (\<lambda>(val, m, c). bindE (put_digits val m c) f) =
        f (blit m off (dec (unat val)))" if "length (dec (unat val)) \<le> sz" for f :: "string \<Rightarrow> append_res"
    using put_pairs_dec [of val off m] v that assms
    by (simp add: bindE_assoc [symmetric] split_def)
  then show ?thesis
    using False v by (simp add: append_number_def number_size_dec number_txt_def Let_def)
qed

lemma number_txt_fits: "length (number_txt sz val) \<le> sz"
  by (simp add: number_txt_def)

interpretation number: appender append_number number_txt "\<lambda>_. True"
  by unfold_locales (simp_all add: append_number_writes number_txt_fits)

section \<open>The other fields meet the contract\<close>

lemma blit_append1 [blit_simps]:
  "Suc (p + length s) \<le> length m \<Longrightarrow> blit (blit m p s) (p + length s) [c] = blit m p (s @ [c])"
  using blit_append [of p s "[c]" m] by simp

lemma length_hex2 [simp]: "length (hex2 b) = 2"
  by (simp add: hex2_def)

lemma append_hex_writes:
  "2 \<le> sz \<Longrightarrow> off + 2 \<le> length m \<Longrightarrow> append_hex b m off sz = Inr (blit m off (hex2 b), 2)"
  using blit_append [of off "[hex_digits ! unat (drop_bit 4 b)]" "[hex_digits ! unat (b AND 0xF)]" m]
  by (simp add: append_hex_def hex2_def)

lemma mac_byte_writes:
  assumes "k < length t" "offset = length s" "off + offset + 3 \<le> length m"
  shows "mac_byte t (blit m off s) off k c offset =
         Inr (blit m off (s @ hex2 (t ! k) @ [c]), length (s @ hex2 (t ! k) @ [c]))"
  using assms
    blit_append [of off s "hex2 (t ! k)" m] blit_append [of off "s @ hex2 (t ! k)" "[c]" m]
  by (simp add: mac_byte_def append_hex_writes ac_simps)

lemma append_mac_writes:
  assumes "6 \<le> length t" "off + sz \<le> length m" "19 \<le> sz"
  shows "append_mac t m off sz = Inr (blit m off (mac_text t), length (mac_text t))"
proof -
  have "t \<noteq> []" using assms(1) by auto
  with assms show ?thesis
    by (simp add: append_mac_def mac_byte_writes mac_text_def)
qed

lemma append_string_writes:
  assumes "off + sz \<le> length m"
  shows "append_string src m off sz =
         Inr (blit m off (item_txt sz (F_STR src)), length (item_txt sz (F_STR src)))"
proof -
  let ?s = "take (sz - 2) (cstr src)" and ?k = "min (strlen src) (sz - 2)"
  have k: "take ?k src = ?s" "length ?s = ?k"
    by (simp_all add: take_strlen strlen_def min_def)
  have eq: "(if strlen src > sz - 2 then sz - 2 else strlen src) = ?k" by simp
  consider "sz < 2" | "sz = 2" | "2 < sz" by linarith
  then show ?thesis
  proof cases
    case 3
    then show ?thesis
      using assms k blit_append [of off "[CHR 0x22]" ?s m]
        blit_append [of off "CHR 0x22 # ?s" "[CHR 0x22]" m]
      by (auto simp: append_string_def eq Let_def min_def split: if_splits)
  next
    case 2
    then show ?thesis
      using assms blit_append [of off "[CHR 0x22]" "[CHR 0x22]" m]
      by (simp add: append_string_def)
  qed (simp add: append_string_def)
qed

lemma append_arr_writes:
  "off + sz \<le> length m \<Longrightarrow>
   append_string_without_quote src m off sz = Inr (blit m off (take sz (cstr src)), min sz (strlen src))"
  by (auto simp: append_string_without_quote_def Let_def take_strlen min_def strlen_def)

lemma ip_byte_lt: "unat (ip_byte ip k) < 10 ^ 3"
proof -
  have "drop_bit (8 * k) ip AND 0xFF \<le> 0xFF" by (rule word_and_le1)
  then have "unat (drop_bit (8 * k) ip AND 0xFF) \<le> 255" by (simp add: word_le_nat_alt)
  then show ?thesis by (simp add: ip_byte_def unsigned_ucast_eq take_bit_nat_eq_self)
qed

lemma ip_byte_txt: "3 \<le> sz \<Longrightarrow> number_txt sz (ip_byte ip k) = dec (unat (ip_byte ip k))"
  using length_dec_bound [OF ip_byte_lt, of ip k] by (simp add: number_txt_def)

lemma append_ipv4_writes:
  assumes "off + sz \<le> length m" "16 \<le> sz"
  shows "append_ipv4 ip m off sz = Inr (blit m off (ipv4_text ip), length (ipv4_text ip))"
proof -
  let ?d = "\<lambda>k. dec (unat (ip_byte ip k))"
  have L: "length (?d k) \<le> 3" for k
    using length_dec_bound [OF ip_byte_lt, of ip k] by simp
  show ?thesis
    using assms L [of 0] L [of 1] L [of 2] L [of 3]
      blit_append [of off "?d 0" "''.''" m] blit_append [of off "?d 0 @ ''.''" "?d 1" m]
      blit_append [of off "?d 0 @ ''.'' @ ?d 1" "''.''" m]
      blit_append [of off "?d 0 @ ''.'' @ ?d 1 @ ''.''" "?d 2" m]
      blit_append [of off "?d 0 @ ''.'' @ ?d 1 @ ''.'' @ ?d 2" "''.''" m]
      blit_append [of off "?d 0 @ ''.'' @ ?d 1 @ ''.'' @ ?d 2 @ ''.''" "?d 3" m]
    by (simp add: append_ipv4_def append_number_writes ip_byte_txt ipv4_text_def Let_def add.assoc)
qed

lemma copy_tmp_blit:
  "i + n \<le> length tmp \<Longrightarrow> dst + (i + n + (6 - len)) \<le> length m \<Longrightarrow>
   copy_tmp tmp len dst [i..<i + n] m = Inr (blit m (dst + (i + (6 - len))) (take n (drop i tmp)))"
proof (induction n arbitrary: i m)
  case (Suc n)
  let ?p = "dst + (i + (6 - len))"
  have "take (Suc n) (drop i tmp) = [tmp ! i] @ take n (drop (Suc i) tmp)"
    using Suc.prems by (simp add: Cons_nth_drop_Suc [symmetric])
  with Suc.IH [of "Suc i" "blit m ?p [tmp ! i]"] Suc.prems
    blit_append [of ?p "[tmp ! i]" "take n (drop (Suc i) tmp)" m]
  moreover have "[i..<i + Suc n] = i # [Suc i..<Suc i + n]"
    by (subst upt_conv_Cons) simp_all
  ultimately show ?case
    by (simp del: upt_Suc)
qed simp

lemma length_usec_text [simp]: "length (usec_text v) = 6"
  by (simp add: usec_text_def Let_def number_txt_fits)

lemma zeros_blit:
  "dst + 6 \<le> length m \<Longrightarrow>
   blit (blit (blit (blit (blit (blit m dst [c]) (dst + 1) [c]) (dst + 2) [c]) (dst + 3) [c]) (dst + 4) [c])
     (dst + 5) [c] = blit m dst (replicate 6 c)"
  using blit_append [of dst "[c]" "[c]" m] blit_append [of dst "[c, c]" "[c]" m]
    blit_append [of dst "[c, c, c]" "[c]" m] blit_append [of dst "[c, c, c, c]" "[c]" m]
    blit_append [of dst "[c, c, c, c, c]" "[c]" m]
  by (simp add: numeral_eq_Suc)

lemma blit_suffix:
  "length s \<le> length z \<Longrightarrow> dst + length z \<le> length m \<Longrightarrow>
   blit (blit m dst z) (dst + (length z - length s)) s = blit m dst (take (length z - length s) z @ s)"
  by (simp add: blit_def)

lemma append_timeval_writes:
  assumes "item_ok (F_TIME t)" "off + sz \<le> length m"
  shows "append_timeval t m off sz = Inr (blit m off (timeval_txt sz t), length (timeval_txt sz t))"
proof (cases "sz < 12")
  case False
  let ?s = "number_txt sz (word_of_int (tv_sec t))" and ?v = "word_of_int (tv_usec t) :: u64"
  let ?u = "number_txt 6 ?v"
  have "length (dec (unat (word_of_int (tv_sec t) :: u64))) \<le> 12"
    using assms(1) by (intro length_dec_bound) simp_all
  then have s: "length ?s \<le> 12" using False by (simp add: number_txt_def)
  have u: "length ?u \<le> 6" by (rule number_txt_fits)
  have tmp: "take (length ?u) (blit (replicate 6 NUL) 0 ?u) = ?u"
    by (simp add: blit_def)
  show ?thesis
  proof (cases "sz < length ?s + 7")
    case True
    then show ?thesis
      using False s assms(2) by (simp add: append_timeval_def timeval_txt_def append_number_writes Let_def)
  next
    case big: False
    let ?m1 = "blit (blit m off ?s) (off + length ?s) ''.''"
    let ?dst = "off + length ?s + 1"
    have room: "?dst + 6 \<le> length m" using big assms(2) by linarith
    have loop: "copy_tmp (blit (replicate 6 NUL) 0 ?u) (length ?u) ?dst [0..<length ?u]
            (blit ?m1 ?dst (replicate 6 CHR ''0'')) = Inr (blit ?m1 ?dst (usec_text ?v))"
      using copy_tmp_blit [of 0 "length ?u" "blit (replicate 6 NUL) 0 ?u" ?dst "length ?u"] u room tmp
        blit_suffix [of ?u "replicate 6 CHR ''0''" ?dst ?m1]
      by (simp add: usec_text_def Let_def min_def)
    have "append_timeval t m off sz = Inr (blit ?m1 ?dst (usec_text ?v), length ?s + 1 + 6)"
      using False big s assms(2) u loop room zeros_blit [of ?dst ?m1 "CHR ''0''"]
      by (simp add: append_timeval_def append_number_writes Let_def)
    moreover have "blit ?m1 ?dst (usec_text ?v) = blit m off (?s @ ''.'' @ usec_text ?v)"
      using room blit_append [of off ?s "''.''" m] blit_append [of off "?s @ ''.''" "usec_text ?v" m]
      by simp
    ultimately show ?thesis
      using False big by (simp add: timeval_txt_def Let_def)
  qed
qed (simp add: append_timeval_def timeval_txt_def)

lemma append_char_writes:
  "off + sz \<le> length m \<Longrightarrow> append_char c m off sz = Inr (blit m off (take sz [c]), length (take sz [c]))"
  by (cases sz) (simp_all add: append_char_def)

lemma append_no_room:
  "sz < 2 \<Longrightarrow> append_hex b m off sz = Inr (m, 0)"
  "sz < 19 \<Longrightarrow> append_mac t m off sz = Inr (m, 0)"
  "sz < 16 \<Longrightarrow> append_ipv4 ip m off sz = Inr (m, 0)"
  by (simp_all add: append_hex_def append_mac_def append_ipv4_def)

lemma item_txt_fits: "length (item_txt sz X) \<le> sz"
proof (cases X)
  case (F_TIME x)
  then show ?thesis
    by (auto simp: timeval_txt_def Let_def number_txt_fits)
next
  case (F_IPv4 ip)
  then show ?thesis
    using length_dec_bound [OF ip_byte_lt, of ip 0] length_dec_bound [OF ip_byte_lt, of ip 1]
      length_dec_bound [OF ip_byte_lt, of ip 2] length_dec_bound [OF ip_byte_lt, of ip 3]
    by (simp add: ipv4_text_def)
qed (auto simp: number_txt_fits mac_text_def)

lemma append_item_writes:
  "item_ok X \<Longrightarrow> off + sz \<le> length m \<Longrightarrow>
   append_item X m off sz = Inr (blit m off (item_txt sz X), length (item_txt sz X))"
  by (cases X)
    (simp_all add: append_arr_writes append_string_writes append_number_writes append_char_writes
      append_timeval_writes append_hex_writes append_mac_writes append_ipv4_writes strlen_def
      append_no_room)

interpretation field: appender append_item item_txt item_ok
  by unfold_locales (simp_all add: append_item_writes item_txt_fits)

section \<open>The macros write the rendered fields\<close>

fun render :: "string \<Rightarrow> nat \<Rightarrow> item list \<Rightarrow> string" where
  "render sepa room [] = []"
| "render sepa room [a] = item_txt room a"
| "render sepa room (a # b # l) =
     (let s = item_txt room a;
          t = take (room - length s) (cstr sepa)
      in s @ t @ render sepa (room - length s - length t) (b # l))"

lemma render_fits: "length (render sepa room args) \<le> room"
proof (induction sepa room args rule: render.induct)
  case (3 sepa room a b l)
  define k where "k = length (item_txt room a)"
  define t where "t = take (room - k) (cstr sepa)"
  have "k \<le> room" "length t \<le> room - k"
    by (simp_all add: k_def t_def item_txt_fits)
  moreover have "length (render sepa (room - k - length t) (b # l)) \<le> room - k - length t"
    using 3 by (simp add: k_def t_def)
  moreover have "length (render sepa room (a # b # l)) =
      k + length t + length (render sepa (room - k - length t) (b # l))"
    by (simp only: render.simps Let_def k_def t_def length_append add.assoc)
  ultimately show ?case by linarith
qed (simp_all add: item_txt_fits)

lemma BUILDER_writes:
  assumes "item_ok X" "i + room \<le> length m" "n = int i + int room" "room < 2 ^ 31"
  shows "BUILDER n X (m, i) = Inr (blit m i (item_txt room X), i + length (item_txt room X))"
proof (cases "room = 0")
  case True
  then show ?thesis
    using assms item_txt_fits [of 0 X] by (simp add: BUILDER_def)
qed (use assms in \<open>simp add: BUILDER_def append_item_writes\<close>)

lemma SEPARATOR_writes:
  assumes "i + room \<le> length m" "n = int i + int room" "room < 2 ^ 31"
  shows "SEPARATOR sepa n (m, i) =
         Inr (blit m i (take room (cstr sepa)), i + min room (strlen sepa))"
  using assms by (simp add: SEPARATOR_def append_arr_writes)

lemma EMPTY_SEPARATOR: "EMPTY = SEPARATOR [] n"
  by (auto simp: fun_eq_iff EMPTY_def SEPARATOR_def append_string_without_quote_def strlen_def cstr_def
      memcpy_def store_def)

lemma APPLY_writes:
  "list_all item_ok args \<Longrightarrow> i + room \<le> length m \<Longrightarrow> n = int i + int room \<Longrightarrow> room < 2 ^ 31 \<Longrightarrow>
   APPLY (SEPARATOR sepa n) (BUILDER n) args (m, i) =
   Inr (blit m i (render sepa room args), i + length (render sepa room args))"
proof (induction sepa room args arbitrary: m i rule: render.induct)
  case (3 sepa room a b l)
  define s where "s = item_txt room a"
  define t where "t = take (room - length s) (cstr sepa)"
  define r where "r = render sepa (room - length s - length t) (b # l)"
  have s: "length s \<le> room" by (simp add: s_def item_txt_fits)
  have t: "length t \<le> room - length s" by (simp add: t_def)
  have r: "length r \<le> room - length s - length t" by (simp add: r_def render_fits)
  have 1: "BUILDER n a (m, i) = Inr (blit m i s, i + length s)"
    using "3.prems" by (simp add: s_def BUILDER_writes)
  have 2: "SEPARATOR sepa n (blit m i s, i + length s) = Inr (blit m i (s @ t), i + length s + length t)"
    using "3.prems" s blit_append [of i s t m] t
    by (subst SEPARATOR_writes [of _ "room - length s"]) (simp_all add: t_def strlen_def min.commute)
  have 3: "APPLY (SEPARATOR sepa n) (BUILDER n) (b # l) (blit m i (s @ t), i + length s + length t) =
           Inr (blit (blit m i (s @ t)) (i + length s + length t) r, i + length s + length t + length r)"
    unfolding r_def using "3.prems" s t
    by (intro "3.IH" [OF s_def t_def]) simp_all
  have "APPLY (SEPARATOR sepa n) (BUILDER n) (a # b # l) (m, i) =
        Inr (blit m i (s @ t @ r), i + length (s @ t @ r))"
    using 1 2 3 s t r "3.prems" blit_append [of i "s @ t" r m] by (simp add: add.assoc)
  moreover have "render sepa room (a # b # l) = s @ t @ r"
    by (simp only: render.simps Let_def s_def t_def r_def)
  ultimately show ?case by simp
qed (simp_all add: BUILDER_writes)

lemma builder_close:
  assumes "valid < dst_size" "dst_size \<le> length dst" "length r \<le> dst_size - 1 - valid"
  shows "store (blit dst valid r) (valid + length r) NUL = Inr (blit dst valid (r @ [NUL]))"
  using assms blit_append [of valid r "[NUL]" dst] by simp

lemma builder_separated:
  assumes "list_all item_ok args" "valid < dst_size" "dst_size \<le> length dst" "dst_size < 2 ^ 31"
    and r: "r = render sepa (dst_size - 1 - valid) args"
  shows "STRING_BUILDER_WITH_SEPARATOR valid dst dst_size sepa args =
           Inr (blit dst valid (r @ [NUL]), valid + length r)"
  using assms(1-4) builder_close [OF assms(2,3), of r] render_fits [of sepa "dst_size - 1 - valid" args]
    APPLY_writes [of args valid "dst_size - 1 - valid" dst "int dst_size - 1" sepa]
  by (auto simp: STRING_BUILDER_WITH_SEPARATOR_def r)

lemma builder_unseparated:
  "STRING_BUILDER valid dst dst_size args = STRING_BUILDER_WITH_SEPARATOR valid dst dst_size [] args"
  by (simp add: STRING_BUILDER_def STRING_BUILDER_WITH_SEPARATOR_def
      EMPTY_SEPARATOR [of "int dst_size - 1"])

section \<open>Complete reports\<close>

text \<open>The whole text of a field, and the room that is enough for it.\<close>

fun item_full :: "item \<Rightarrow> string" where
  "item_full (F_ARR x) = cstr x"
| "item_full (F_STR x) = ''\"'' @ cstr x @ ''\"''"
| "item_full (F_INT x) = dec (unat x)"
| "item_full (F_CHAR x) = [x]"
| "item_full (F_TIME x) =
     dec (unat (word_of_int (tv_sec x) :: u64)) @ ''.'' @ usec_text (word_of_int (tv_usec x))"
| "item_full (F_HEX x) = hex2 x"
| "item_full (F_MAC x) = mac_text x"
| "item_full (F_IPv4 x) = ipv4_text x"

fun item_need :: "item \<Rightarrow> nat" where
  "item_need (F_TIME x) = max 12 (length (item_full (F_TIME x)))"
| "item_need (F_IPv4 x) = 16"
| "item_need X = length (item_full X)"

lemma item_txt_full: "item_need X \<le> sz \<Longrightarrow> item_txt sz X = item_full X"
  by (cases X) (auto simp: number_txt_def timeval_txt_def Let_def mac_text_def)

lemma item_full_need: "length (item_full X) \<le> item_need X"
proof (cases X)
  case (F_IPv4 ip)
  then show ?thesis using item_txt_fits [of 16 X] by simp
qed simp_all

fun joined :: "string \<Rightarrow> item list \<Rightarrow> string" where
  "joined sepa [] = []"
| "joined sepa [a] = item_full a"
| "joined sepa (a # b # l) = item_full a @ cstr sepa @ joined sepa (b # l)"

lemma render_joined:
  "(\<Sum>X\<leftarrow>args. item_need X + strlen sepa) \<le> room \<Longrightarrow> render sepa room args = joined sepa args"
proof (induction sepa room args rule: render.induct)
  case (3 sepa room a b l)
  have "item_txt room a = item_full a" using "3.prems" by (intro item_txt_full) simp
  moreover have "take (room - length (item_full a)) (cstr sepa) = cstr sepa"
    using "3.prems" item_full_need [of a] by (simp add: strlen_def)
  moreover have "render sepa (room - length (item_full a) - length (cstr sepa)) (b # l) = joined sepa (b # l)"
    using "3.prems" item_full_need [of a] "3.IH" [OF refl refl] calculation
    by (simp add: strlen_def)
  ultimately show ?case by simp
qed (simp_all add: item_txt_full)

lemma joined_Nil: "joined [] args = concat (map item_full args)"
  by (induction "[] :: string" args rule: joined.induct) (simp_all add: cstr_def)

fun undec :: "string \<Rightarrow> nat" where
  "undec s = foldl (\<lambda>a c. 10 * a + (of_char c - 48)) 0 s"

declare undec.simps [simp del]

lemma of_char_digit [simp]: "d < 10 \<Longrightarrow> (of_char (digit d) :: nat) = 48 + d"
  by (simp add: digit_def)

lemma undec_dec: "undec (dec n) = n"
proof (induction n rule: dec.induct)
  case (1 n)
  show ?case
  proof (cases "n < 10")
    case False
    with 1 show ?thesis by (simp add: dec_ge10 undec.simps)
  qed (simp add: dec_lt10 undec.simps)
qed

lemma dec_digits: "c \<in> set (dec n) \<Longrightarrow> \<exists>d < 10. c = digit d"
proof (induction n rule: dec.induct)
  case (1 n)
  show ?case
  proof (cases "n < 10")
    case False
    with 1 show ?thesis by (auto simp: dec_ge10 intro: exI [of _ "n mod 10"])
  qed (use 1 in \<open>auto simp: dec_lt10\<close>)
qed

section \<open>Properties\<close>

text \<open>
  C14: \<^verbatim>\<open>STRING_BUILDER\<close>, called with its cursor inside the buffer, never faults; it writes
  exactly the rendered fields (each cut or dropped as its append function does when the room is
  short) followed by a NUL inside the buffer, leaves every other byte alone, and moves the
  cursor to that NUL.
\<close>

theorem STRING_BUILDER_writes:
  assumes "list_all item_ok args" "valid < dst_size" "dst_size \<le> length dst" "dst_size < 2 ^ 31"
  shows "let r = render [] (dst_size - 1 - valid) args
         in STRING_BUILDER valid dst dst_size args =
              Inr (blit dst valid (r @ [NUL]), valid + length r)
          \<and> valid + length r < dst_size"
  using assms render_fits [of "[]" "dst_size - 1 - valid" args]
  by (auto simp: builder_unseparated builder_separated Let_def)

theorem STRING_BUILDER_writes_witness:
  "STRING_BUILDER 1 (replicate 8 CHR ''x'') 7 [F_STR ''GET'', F_INT 12345] =
     Inr (''x\"GET\"'' @ [NUL] @ ''x'', 6)"
proof -
  have r: "render [] (7 - 1 - 1) [F_STR ''GET'', F_INT 12345] = ''\"GET\"''"
    by (simp add: number_txt_def cstr_def dec_lt10 dec_ge10)
  have b: "blit (replicate 8 CHR ''x'') 1 (''\"GET\"'' @ [NUL]) = ''x\"GET\"'' @ [NUL] @ ''x''" by code_simp
  show ?thesis
    using STRING_BUILDER_writes [of "[F_STR ''GET'', F_INT 12345]" 1 7 "replicate 8 CHR ''x''"]
    unfolding r Let_def b by simp
qed

text \<open>
  When the buffer has the room the fields need, the report of
  \<^verbatim>\<open>STRING_BUILDER_WITH_SEPARATOR\<close> is the complete text of every field, in order, joined by
  the separator: nothing is cut.
\<close>

theorem STRING_BUILDER_WITH_SEPARATOR_complete:
  assumes "list_all item_ok args" "dst_size \<le> length dst" "dst_size < 2 ^ 31"
    and "valid + (\<Sum>X\<leftarrow>args. item_need X + strlen sepa) < dst_size"
  shows "STRING_BUILDER_WITH_SEPARATOR valid dst dst_size sepa args =
           Inr (blit dst valid (joined sepa args @ [NUL]), valid + length (joined sepa args))"
  using assms render_joined [of sepa args "dst_size - 1 - valid"] by (simp add: builder_separated)

theorem STRING_BUILDER_WITH_SEPARATOR_complete_witness:
  "STRING_BUILDER_WITH_SEPARATOR 0 (replicate 10 CHR ''x'') 10 '','' [F_INT 7, F_HEX 0xAB] =
     Inr (''7,AB'' @ [NUL] @ ''xxxxx'', 4)"
proof -
  let ?a = "[F_INT 7, F_HEX 0xAB]"
  have j: "joined '','' ?a = ''7,AB''" by code_simp
  have n: "(\<Sum>X\<leftarrow>?a. item_need X + strlen '','') = 5" by code_simp
  have b: "blit (replicate 10 CHR ''x'') 0 (''7,AB'' @ [NUL]) = ''7,AB'' @ [NUL] @ ''xxxxx''" by code_simp
  show ?thesis
    using STRING_BUILDER_WITH_SEPARATOR_complete [of ?a 10 "replicate 10 CHR ''x''" 0 "'',''"]
    unfolding j n b by simp
qed

text \<open>
  C33: the optimised \<^verbatim>\<open>append_number\<close> (decision tree for the width, two digits per step from
  a table, written backwards) is the plain decimal printer: given room for the digits it
  writes them at the position, all of them digits, and they read back as the number; without
  the room it writes nothing and returns 0.
\<close>

theorem append_number_decimal:
  assumes "off + sz \<le> length m"
  shows "if length (dec (unat val)) \<le> sz
         then append_number val m off sz = Inr (blit m off (dec (unat val)), length (dec (unat val)))
            \<and> undec (dec (unat val)) = unat val
         else append_number val m off sz = Inr (m, 0)"
  using assms by (simp add: append_number_writes number_txt_def undec_dec)

theorem append_number_decimal_witness:
  "append_number 40213 (replicate 6 CHR ''x'') 1 5 = Inr (''x40213'', 5)"
proof -
  have d: "dec (unat (40213 :: u64)) = ''40213''" by (simp add: dec_lt10 dec_ge10 digit_table)
  have b: "blit (replicate 6 CHR ''x'') 1 ''40213'' = ''x40213''" by code_simp
  show ?thesis
    using append_number_decimal [of 1 5 "replicate 6 CHR ''x''" 40213] unfolding d b by simp
qed

end
