(* ===== verification/Tools.thy ===== *)
theory Tools
  imports String_Builder
begin

text \<open>
  The utility functions of \<^verbatim>\<open>src/src/lib/tools.h\<close>: bounded \<^verbatim>\<open>atoi\<close>, time arithmetic on
  \<^verbatim>\<open>struct timeval\<close>, string splitting and file-name cleaning, the power-of-two test, and the
  two file writers over an abstract file store. The libc functions they call (\<^verbatim>\<open>atoi\<close>,
  \<^verbatim>\<open>strtok_r\<close>, \<^verbatim>\<open>isalnum\<close>) are modelled with their documented behaviour in the C locale.
\<close>

section \<open>Numbers and strings of the C library\<close>

definition is_space :: "char \<Rightarrow> bool" where
  "is_space c \<longleftrightarrow> c \<in> set [CHR '' '', CHR 0x09, CHR 0x0A, CHR 0x0B, CHR 0x0C, CHR 0x0D]"

definition is_digit :: "char \<Rightarrow> bool" where
  "is_digit c \<longleftrightarrow> 48 \<le> (of_char c :: nat) \<and> (of_char c :: nat) \<le> 57"

definition isalnum :: "char \<Rightarrow> bool" where
  "isalnum c \<longleftrightarrow> (let k = of_char c :: nat
     in is_digit c \<or> (65 \<le> k \<and> k \<le> 90) \<or> (97 \<le> k \<and> k \<le> 122))"

text \<open>Reduction of a mathematical integer to a 32-bit \<^verbatim>\<open>int\<close>, and the clamping of \<^verbatim>\<open>strtol\<close>.\<close>

definition int32_of :: "int \<Rightarrow> int" where
  "int32_of x = (x + 2 ^ 31) mod 2 ^ 32 - 2 ^ 31"

definition clamp_long :: "int \<Rightarrow> int" where
  "clamp_long x = max (- (2 ^ 63)) (min (2 ^ 63 - 1) x)"

definition strtol10 :: "string \<Rightarrow> int" where
  "strtol10 s =
     (let s = dropWhile is_space (cstr s);
          neg = (s \<noteq> [] \<and> hd s = CHR ''-'');
          s = (if s \<noteq> [] \<and> (hd s = CHR ''-'' \<or> hd s = CHR ''+'') then tl s else s);
          v = int (undec (takeWhile is_digit s))
      in clamp_long (if neg then - v else v))"

definition atoi :: "string \<Rightarrow> int" where
  "atoi s = int32_of (strtol10 s)"

section \<open>The functions of tools.h\<close>

definition mmt_atoi :: "string \<Rightarrow> int \<Rightarrow> int \<Rightarrow> int \<Rightarrow> int" where
  "mmt_atoi string low high def =
     (let ret = atoi string in if ret > high \<or> ret < low then def else ret)"

definition u_second_diff :: "timeval \<Rightarrow> timeval \<Rightarrow> int" where
  "u_second_diff end_t start =
     (tv_sec end_t - tv_sec start) * 1000000 + (tv_usec end_t - tv_usec start)"

definition is_after :: "timeval \<Rightarrow> timeval \<Rightarrow> bool" where
  "is_after start end_t \<longleftrightarrow>
     tv_sec end_t > tv_sec start \<or> tv_sec end_t = tv_sec start \<and> tv_usec end_t > tv_usec start"

definition is_zero_timestamp :: "timeval \<Rightarrow> bool" where
  "is_zero_timestamp ts \<longleftrightarrow> tv_sec ts = 0 \<and> tv_usec ts = 0"

definition u_second :: "timeval \<Rightarrow> nat" where
  "u_second ts = size_t_of (tv_sec ts * 1000000 + tv_usec ts)"

definition m_second :: "timeval \<Rightarrow> nat" where
  "m_second ts = size_t_of (push_bit 10 (tv_sec ts) + drop_bit 10 (tv_usec ts))"

text \<open>The loop stops at the first difference; both arrays are read at the same index.\<close>

fun is_started_by :: "string \<Rightarrow> string \<Rightarrow> nat \<Rightarrow> bool cres" where
  "is_started_by str prefix 0 = Inr True"
| "is_started_by (c # str) (d # prefix) (Suc n) =
     (if c \<noteq> d then Inr False else is_started_by str prefix n)"
| "is_started_by _ _ (Suc n) = Inl OutOfBounds"

text \<open>
  Files: a path maps to its contents; \<^verbatim>\<open>open\<close> fails (the functions return \<open>None\<close>, the code's
  -1) when the caller's \<open>can_open\<close> says so.
\<close>

type_synonym files = "string \<rightharpoonup> string"

definition append_data_to_file ::
  "(string \<Rightarrow> bool) \<Rightarrow> string \<Rightarrow> string \<Rightarrow> files \<Rightarrow> files \<times> nat option" where
  "append_data_to_file can_open path content fs =
     (if \<not> can_open path then (fs, None)
      else (fs(path \<mapsto> case_option [] id (fs path) @ content), Some (length content)))"

definition write_data_to_file ::
  "(string \<Rightarrow> bool) \<Rightarrow> string \<Rightarrow> string \<Rightarrow> files \<Rightarrow> files \<times> nat option" where
  "write_data_to_file can_open path content fs =
     (if \<not> can_open path then (fs, None)
      else (fs(path \<mapsto> content @ drop (length content) (case_option [] id (fs path))), Some (length content)))"

text \<open>\<^verbatim>\<open>strtok_r\<close> on the remaining string: the token and what follows its separator.\<close>

definition strtok_r :: "string \<Rightarrow> string \<Rightarrow> (string \<times> string) option" where
  "strtok_r separator buffer =
     (let s = dropWhile (\<lambda>c. c \<in> set separator) buffer
      in if s = [] then None
         else Some (takeWhile (\<lambda>c. c \<notin> set separator) s, drop 1 (dropWhile (\<lambda>c. c \<notin> set separator) s)))"

text \<open>The result is the filled part of \<^verbatim>\<open>argv\<close>; its length is the returned count.\<close>

fun string_split :: "string \<Rightarrow> string \<Rightarrow> nat \<Rightarrow> string list" where
  "string_split buffer separator 0 = []"
| "string_split buffer separator (Suc argv_length) =
     (case strtok_r separator buffer of
        None \<Rightarrow> []
      | Some (tok, rest) \<Rightarrow> tok # string_split rest separator argv_length)"

definition format_char :: "char \<Rightarrow> char" where
  "format_char c =
     (if isalnum c then c
      else if c = CHR ''/'' \<or> c = CHR 0x5C then CHR ''=''
      else if c \<in> set (CHR 0x22 # ''=;?*&:|%>< '') then CHR ''_''
      else c)"

text \<open>A \<^verbatim>\<open>size\<close> of 0 means up to \<^verbatim>\<open>INT16_MAX\<close>; the loop also stops at the NUL.\<close>

definition string_format_file_name :: "string \<Rightarrow> nat \<Rightarrow> string \<times> nat" where
  "string_format_file_name file_name sz =
     (let sz = (if sz = 0 then 32767 else sz);
          n = min sz (strlen file_name)
      in (map format_char (take n file_name) @ drop n file_name, n))"

definition is_power_of_two :: "u64 \<Rightarrow> bool" where
  "is_power_of_two x \<longleftrightarrow> x \<noteq> 0 \<and> x AND (x - 1) = 0"

section \<open>Lemmas\<close>

lemma nat_and_pred: "0 < n \<Longrightarrow> (n :: nat) AND (n - 1) = 0 \<longleftrightarrow> (\<exists>k. n = 2 ^ k)"
proof (induction n rule: less_induct)
  case (less n)
  show ?case
  proof (cases "even n")
    case True
    then obtain y where y: "n = 2 * y" by (auto elim: evenE)
    then have y0: "0 < y" "y < n" using less.prems by auto
    have "(2 * y - 1) div 2 = y - 1" using y0 by arith
    then have "n AND (n - 1) = 2 * (y AND (y - 1))"
      using y y0 by (subst and_rec) simp
    moreover have "(\<exists>k. n = 2 ^ k) \<longleftrightarrow> (\<exists>k. y = 2 ^ k)"
    proof
      assume "\<exists>k. n = 2 ^ k"
      then obtain k where "n = 2 ^ k" ..
      with y y0 True show "\<exists>k. y = 2 ^ k" by (cases k) auto
    next
      assume "\<exists>k. y = 2 ^ k"
      then obtain k where "y = 2 ^ k" ..
      then show "\<exists>k. n = 2 ^ k" using y by (intro exI [of _ "Suc k"]) simp
    qed
    ultimately show ?thesis using less.IH [OF y0(2,1)] by simp
  next
    case False
    then obtain y where y: "n = 2 * y + 1" by (auto elim: oddE)
    have "n AND (n - 1) = 2 * y" using y by (subst and_rec) simp
    moreover have "(\<exists>k. n = 2 ^ k) \<longleftrightarrow> y = 0"
    proof
      assume "\<exists>k. n = 2 ^ k"
      then obtain k where "n = 2 ^ k" ..
      with y show "y = 0" by (cases k) (auto, presburger)
    qed (use y in \<open>auto intro: exI [of _ 0]\<close>)
    ultimately show ?thesis by simp
  qed
qed

lemma strtok_r_clean:
  "s \<noteq> [] \<Longrightarrow> set s \<inter> set separator = {} \<Longrightarrow> d \<in> set separator \<Longrightarrow>
   strtok_r separator (s @ d # t) = Some (s, t)"
  by (cases s) (auto simp: strtok_r_def dropWhile_append takeWhile_append)

lemma strtok_r_last:
  "s \<noteq> [] \<Longrightarrow> set s \<inter> set separator = {} \<Longrightarrow> strtok_r separator s = Some (s, [])"
proof -
  assume s: "s \<noteq> []" "set s \<inter> set separator = {}"
  then have "takeWhile (\<lambda>c. c \<notin> set separator) s = s" "dropWhile (\<lambda>c. c \<notin> set separator) s = []"
    by (auto simp: takeWhile_eq_all_conv)
  moreover have "dropWhile (\<lambda>c. c \<in> set separator) s = s"
    using s by (cases s) auto
  ultimately show ?thesis using s by (simp only: strtok_r_def Let_def) simp
qed

fun join :: "char \<Rightarrow> string list \<Rightarrow> string" where
  "join d [] = []"
| "join d [s] = s"
| "join d (s # t # l) = s @ d # join d (t # l)"

text \<open>Splitting what was joined by a separator gives the fields back (up to the capacity
  of \<^verbatim>\<open>argv\<close>).\<close>

theorem string_split_join:
  assumes "d \<in> set separator" "\<forall>s \<in> set l. s \<noteq> [] \<and> set s \<inter> set separator = {}"
  shows "string_split (join d l) separator n = take n l"
  using assms
proof (induction l arbitrary: n rule: join.induct)
  case (1 d)
  then show ?case by (cases n) (simp_all add: strtok_r_def)
next
  case (2 d s)
  then show ?case
    by (cases n; cases "n - 1") (simp_all add: strtok_r_last strtok_r_def [of _ "[]"])
next
  case (3 d s t l)
  then show ?case by (cases n) (simp_all add: strtok_r_clean)
qed

theorem string_split_join_witness:
  "string_split ''a,bc'' '','' 5 = [''a'', ''bc'']"
  using string_split_join [of "CHR '',''" "'',''" "[''a'', ''bc'']" 5] by simp

lemma format_char_safe: "format_char c \<noteq> CHR ''/'' \<and> format_char c \<noteq> CHR 0x5C"
proof -
  have "\<not> isalnum CHR ''/''" "\<not> isalnum CHR 0x5C" by code_simp+
  then show ?thesis by (auto simp: format_char_def)
qed

text \<open>A formatted file name has the same length, and its formatted part holds no
  path separator.\<close>

theorem string_format_file_name_safe:
  "case string_format_file_name s sz of (s', n) \<Rightarrow>
     length s' = length s \<and> CHR ''/'' \<notin> set (take n s') \<and> CHR 0x5C \<notin> set (take n s')
   \<and> drop n s' = drop n s"
  using strlen_le [of s] format_char_safe
  by (auto simp: string_format_file_name_def Let_def dest: sym)

text \<open>The bit trick decides exactly the powers of two.\<close>

theorem is_power_of_two_iff: "is_power_of_two x \<longleftrightarrow> (\<exists>k. unat x = 2 ^ k)"
proof (cases "x = 0")
  case False
  then have "unat (x - 1) = unat x - 1" by (simp add: unat_minus_one)
  then have "unat (x AND (x - 1)) = (unat x AND (unat x - 1))"
    by (simp add: unsigned_and_eq)
  moreover have "x AND (x - 1) = 0 \<longleftrightarrow> unat (x AND (x - 1)) = 0"
    by (simp only: unsigned_eq_0_iff)
  moreover have "0 < unat x" using False by (simp add: unat_gt_0)
  ultimately show ?thesis
    using False nat_and_pred by (simp only: is_power_of_two_def simp_thms)
qed (simp add: is_power_of_two_def)

text \<open>An earlier time never follows a later one: on normalised times, one moment is
  after another exactly when the difference in microseconds is positive.\<close>

theorem is_after_diff:
  assumes "tv_usec a \<in> {0..<1000000}" "tv_usec b \<in> {0..<1000000}"
  shows "is_after a b \<longleftrightarrow> u_second_diff b a > 0"
  using assms by (auto simp: is_after_def u_second_diff_def)

theorem is_after_diff_witness:
  "is_after \<lparr>tv_sec = 1, tv_usec = 999999\<rparr> \<lparr>tv_sec = 2, tv_usec = 0\<rparr> \<longleftrightarrow>
   u_second_diff \<lparr>tv_sec = 2, tv_usec = 0\<rparr> \<lparr>tv_sec = 1, tv_usec = 999999\<rparr> > 0"
  by (rule is_after_diff) simp_all

lemma mmt_atoi_range: "low \<le> def \<Longrightarrow> def \<le> high \<Longrightarrow> mmt_atoi s low high def \<in> {low..high}"
  by (auto simp: mmt_atoi_def Let_def)

lemma write_data_keeps_tail:
  "can_open p \<Longrightarrow> fs p = Some old \<Longrightarrow>
   fst (write_data_to_file can_open p content fs) p = Some (content @ drop (length content) old)"
  by (simp add: write_data_to_file_def)

end
