(* ===== verification/Pcap_Capture.thy ===== *)
theory Pcap_Capture
  imports Data_Ring Tools
begin

text \<open>
  The libpcap front end of \<^verbatim>\<open>src/src/modules/packet_capture/pcap/pcap_capture.c\<close>: the flow hash
  that picks a worker, the reader callback that hands a packet to the worker's ring (waiting
  offline, dropping online), the worker thread's loop over its ring with the two timers, the
  opening of the source and the dispatch loop, and the stop protocol.

  libpcap itself is a parameter: \<open>pcap_env\<close> holds the results of its calls.
\<close>

section \<open>The flow hash\<close>

definition hash :: "u32 \<Rightarrow> u32" where
  "hash x =
     (let x = (drop_bit 16 x XOR x) * 0x45d9f3b;
          x = (drop_bit 16 x XOR x) * 0x45d9f3b
      in drop_bit 16 x XOR x)"

definition rd8 :: "u8 list \<Rightarrow> nat \<Rightarrow> u8 cres" where
  "rd8 p i = (if i < length p then Inr (p ! i) else Inl OutOfBounds)"

text \<open>Unaligned little-endian loads of 16 and 32 bits.\<close>

definition rd16 :: "u8 list \<Rightarrow> nat \<Rightarrow> u16 cres" where
  "rd16 p i = (if i + 1 < length p then Inr (ucast (p ! i) OR push_bit 8 (ucast (p ! (i + 1)))) else Inl OutOfBounds)"

definition rd32 :: "u8 list \<Rightarrow> nat \<Rightarrow> u32 cres" where
  "rd32 p i = (if i + 3 < length p
     then Inr (ucast (p ! i) OR push_bit 8 (ucast (p ! (i + 1))) OR push_bit 16 (ucast (p ! (i + 2)))
            OR push_bit 24 (ucast (p ! (i + 3)))) else Inl OutOfBounds)"

definition get_packet_hash_number :: "u8 list \<Rightarrow> nat \<Rightarrow> u32 cres" where
  "get_packet_hash_number packet pkt_len =
     (if pkt_len < 38 then Inr 0
      else bindE (rd16 packet 12) (\<lambda>proto.
        if proto = 0x08 \<or> proto = 0x81 then
          let ip_offset = (if proto = 0x08 then 26 else 30) in
          bindE (rd32 packet ip_offset) (\<lambda>ip_src.
          bindE (rd32 packet (ip_offset + 4)) (\<lambda>ip_dst.
          bindE (rd8 packet (ip_offset - 3)) (\<lambda>proto_id.
          bindE (if proto_id = 6 \<or> proto_id = 17
                 then bindE (rd16 packet (ip_offset + 8)) (\<lambda>port_src.
                      bindE (rd16 packet (ip_offset + 8 + 2)) (\<lambda>port_dst. Inr (port_src, port_dst)))
                 else Inr (0, 0)) (\<lambda>(port_src, port_dst).
          Inr (hash ((ip_src OR ip_dst) OR ucast (port_src OR port_dst)))))))
        else Inr 0))"

section \<open>Packets, workers and timers\<close>

text \<open>\<^verbatim>\<open>pkthdr_t\<close> with the data placed behind it in the same ring element.\<close>

record packet =
  p_len :: nat
  p_caplen :: nat
  p_ts :: timeval
  p_data :: "u8 list"

datatype input_mode = ONLINE_ANALYSIS | OFFLINE_ANALYSIS

record capture_conf =
  mode :: input_mode
  stat_period :: int
  cache_period :: int
  is_sampled :: bool

record worker =
  fifo :: "packet dring"
  pkt_processed :: nat
  pkt_dropped :: nat

text \<open>What a worker or the reader does to the rest of the probe, in order.\<close>

datatype cap_event =
    Process packet | Stat_period | Sample_file_period | Traffic_statistics
  | On_start | On_stop

record timers =
  next_stat_ts :: int
  next_output_ts :: int
  now :: int

text \<open>The timer block at the end of the worker loop; \<open>clock\<close> is \<^verbatim>\<open>time(NULL)\<close>.\<close>

definition worker_timers :: "capture_conf \<Rightarrow> int \<Rightarrow> timers \<Rightarrow> timers \<times> cap_event list" where
  "worker_timers c clock tm =
     (let tm = (if mode c = ONLINE_ANALYSIS then tm\<lparr>now := clock\<rparr> else tm)
      in if next_output_ts tm = 0 \<and> now tm \<noteq> 0
         then (tm\<lparr>next_stat_ts := now tm + stat_period c, next_output_ts := now tm + cache_period c\<rparr>, [])
         else let (tm, e1) = (if now tm > next_stat_ts tm
                              then (tm\<lparr>next_stat_ts := next_stat_ts tm + stat_period c\<rparr>, [Stat_period])
                              else (tm, []));
                  (tm, e2) = (if is_sampled c \<and> now tm > next_output_ts tm
                              then (tm\<lparr>next_output_ts := next_output_ts tm + cache_period c\<rparr>, [Sample_file_period])
                              else (tm, []))
              in (tm, e1 @ e2))"

definition worker_process_a_packet :: "packet \<Rightarrow> worker \<Rightarrow> worker \<times> cap_event list" where
  "worker_process_a_packet p w = (w\<lparr>pkt_processed := pkt_processed w + 1\<rparr>, [Process p])"

fun process_all :: "packet list \<Rightarrow> worker \<Rightarrow> worker \<times> cap_event list" where
  "process_all [] w = (w, [])"
| "process_all (p # ps) w =
     (let (w, e) = worker_process_a_packet p w; (w, es) = process_all ps w in (w, e @ es))"

text \<open>
  One turn of \<^verbatim>\<open>while( true )\<close> in \<^verbatim>\<open>_worker_thread\<close>; the last component is \<open>False\<close> after the
  \<^verbatim>\<open>break\<close>. A packet of length \<^verbatim>\<open>BREAK_PCAP_NUMBER\<close> = 0 in the last place is the stop message.
\<close>

definition worker_turn ::
  "capture_conf \<Rightarrow> int \<Rightarrow> worker \<Rightarrow> timers \<Rightarrow> worker \<times> timers \<times> cap_event list \<times> bool" where
  "worker_turn c clock w tm =
     (case data_spsc_ring_pop_bulk (fifo w) of
        (r, None) \<Rightarrow>
          (let (tm, es) = worker_timers c clock tm in (w\<lparr>fifo := r\<rparr>, tm, es, True))
      | (r, Some (tail, avail)) \<Rightarrow>
          (let w = w\<lparr>fifo := r\<rparr>;
               n = avail - 1;
               (w, es1) = process_all (map (\<lambda>i. data_spsc_ring_get_data r (i + tail)) [0..<n]) w;
               last_pkt = data_spsc_ring_get_data r (n + tail)
           in if p_len last_pkt = 0 then (w, tm, es1, False)
              else let tm = tm\<lparr>now := tv_sec (p_ts last_pkt)\<rparr>;
                       (w, es2) = worker_process_a_packet last_pkt w;
                       w = w\<lparr>fifo := data_spsc_ring_update_tail tail (n + 1) r\<rparr>;
                       (tm, es3) = worker_timers c clock tm
                   in (w, tm, es1 @ es2 @ es3, True)))"

text \<open>The thread: start, turns until the break, stop. The clock readings are a list; running out
  of it means the thread is still looping.\<close>

fun worker_loop ::
  "capture_conf \<Rightarrow> int list \<Rightarrow> worker \<Rightarrow> timers \<Rightarrow> cap_event list \<times> worker \<times> bool" where
  "worker_loop c [] w tm = ([], w, False)"
| "worker_loop c (clock # clocks) w tm =
     (let (w, tm, es, go) = worker_turn c clock w tm
      in if go then let (es', w', stopped) = worker_loop c clocks w tm in (es @ es', w', stopped)
         else (es @ [On_stop], w, True))"

definition worker_thread :: "capture_conf \<Rightarrow> int list \<Rightarrow> worker \<Rightarrow> cap_event list \<times> worker \<times> bool" where
  "worker_thread c clocks w =
     (let (es, w, stopped) = worker_loop c clocks w \<lparr>next_stat_ts = 0, next_output_ts = 0, now = 0\<rparr>
      in (On_start # es, w, stopped))"

section \<open>The reader\<close>

text \<open>
  The loop \<^verbatim>\<open>while( data_spsc_ring_push_tmp_element(..) != QUEUE_SUCCESS )\<close>. Offline, the reader sleeps
  and retries; \<open>sleeps\<close> is what the worker does to the ring during each sleep, and \<open>None\<close> means
  the reader is still waiting when the list ends. Online, the packet is dropped.
\<close>

fun push_or_wait ::
  "input_mode \<Rightarrow> ('a dring \<Rightarrow> 'a dring) list \<Rightarrow> 'a dring \<Rightarrow> ('a dring \<times> bool) option" where
  "push_or_wait m sleeps r =
     (case data_spsc_ring_push_tmp_element r of (r, c) \<Rightarrow>
        if c = QUEUE_SUCCESS then Some (r, True)
        else if m = OFFLINE_ANALYSIS
             then (case sleeps of [] \<Rightarrow> None | s # sleeps \<Rightarrow> push_or_wait m sleeps (s r))
             else Some (r, False))"

declare push_or_wait.simps [simp del]

definition got_a_packet_smp ::
  "input_mode \<Rightarrow> (packet dring \<Rightarrow> packet dring) list \<Rightarrow> packet \<Rightarrow> worker list \<Rightarrow> worker list option cres" where
  "got_a_packet_smp m sleeps pkt smp =
     bindE (get_packet_hash_number (p_data pkt) (p_caplen pkt)) (\<lambda>h.
       let pkt_index = unat h mod length smp;
           w = smp ! pkt_index
       in Inr (case push_or_wait m sleeps (fill_tmp_element pkt (fifo w)) of
                 None \<Rightarrow> None
               | Some (r, True) \<Rightarrow> Some (smp[pkt_index := w\<lparr>fifo := r\<rparr>])
               | Some (r, False) \<Rightarrow> Some (smp[pkt_index := w\<lparr>fifo := r, pkt_dropped := pkt_dropped w + 1\<rparr>])))"

record reader =
  r_timers :: timers
  bytes_receive :: nat
  packets_receive :: nat
  smp :: "worker list"

text \<open>
  \<^verbatim>\<open>_got_a_packet\<close>: \<open>pkt = None\<close> is the call without data made when no packet arrived. In single-thread
  mode \<open>smp\<close> holds the only worker and the packet is processed at once.
\<close>

definition got_a_packet ::
  "capture_conf \<Rightarrow> bool \<Rightarrow> (packet dring \<Rightarrow> packet dring) list \<Rightarrow> int \<Rightarrow> packet option \<Rightarrow> reader
    \<Rightarrow> (reader \<times> cap_event list) option cres" where
  "got_a_packet c is_smp sleeps clock pkt s =
     bindE (case pkt of
        None \<Rightarrow> Inr (Some (s, []))
      | Some p \<Rightarrow>
          bindE (if is_smp
                 then bindE (got_a_packet_smp (mode c) sleeps p (smp s)) (\<lambda>r. Inr (map_option (\<lambda>ws. (ws, [])) r))
                 else (let (w, es) = worker_process_a_packet p (smp s ! 0) in Inr (Some ((smp s)[0 := w], es)))) (\<lambda>r.
          Inr (map_option (\<lambda>(ws, es).
             (s\<lparr>smp := ws, r_timers := (r_timers s)\<lparr>now := tv_sec (p_ts p)\<rparr>,
                bytes_receive := bytes_receive s + p_len p, packets_receive := packets_receive s + 1\<rparr>, es)) r)))
     (\<lambda>r. Inr (map_option (\<lambda>(s, es).
        let tm = r_timers s;
            tm = (if mode c = ONLINE_ANALYSIS then tm\<lparr>now := clock\<rparr> else tm);
            tm = (if next_output_ts tm = 0 \<and> now tm \<noteq> 0
                  then tm\<lparr>next_stat_ts := now tm + stat_period c, next_output_ts := now tm + cache_period c\<rparr>
                  else tm);
            (tm, e1) = (if now tm > next_stat_ts tm
                        then (tm\<lparr>next_stat_ts := next_stat_ts tm + stat_period c\<rparr>,
                              (if mode c = ONLINE_ANALYSIS then [Traffic_statistics] else [])
                              @ (if \<not> is_smp then [Stat_period] else []))
                        else (tm, []));
            (tm, e2) = (if \<not> is_smp \<and> is_sampled c \<and> now tm > next_output_ts tm
                        then (tm\<lparr>next_output_ts := next_output_ts tm + cache_period c\<rparr>, [Sample_file_period])
                        else (tm, []))
        in (s\<lparr>r_timers := tm\<rparr>, es @ e1 @ e2)) r))"

section \<open>Opening, dispatching and stopping\<close>

record pcap_env =
  open_offline :: bool
  create_ok :: bool
  set_snaplen :: int
  set_promisc :: int
  set_timeout :: int
  set_buffer_size :: int
  activate :: int
  datalink :: int
  setnonblock :: int

definition ASSERT :: "bool \<Rightarrow> unit cres" where
  "ASSERT b = (if b then Inr () else Inl Aborted)"

definition open_source :: "pcap_env \<Rightarrow> input_mode \<Rightarrow> int \<Rightarrow> unit cres" where
  "open_source e m stack_type =
     bindE (if m = OFFLINE_ANALYSIS then ASSERT (open_offline e)
            else bindE (ASSERT (create_ok e)) (\<lambda>_.
                 bindE (ASSERT (set_snaplen e = 0)) (\<lambda>_.
                 bindE (ASSERT (set_promisc e = 0)) (\<lambda>_.
                 bindE (ASSERT (set_timeout e = 0)) (\<lambda>_.
                 bindE (ASSERT (set_buffer_size e = 0)) (\<lambda>_.
                 bindE (ASSERT (activate e = 0)) (\<lambda>_.
                 ASSERT (datalink e = stack_type)))))))) (\<lambda>_.
     if m \<noteq> OFFLINE_ANALYSIS then (if setnonblock e = -1 then Inl Aborted else Inr ()) else Inr ())"

text \<open>
  The dispatch loop. One entry of \<open>turns\<close> per test of the loop condition: \<^verbatim>\<open>is_exiting\<close> and, if it is
  not set, the value \<^verbatim>\<open>pcap_dispatch\<close> returns. The result is the last \<^verbatim>\<open>ret\<close> and the number of
  idle calls \<^verbatim>\<open>_got_a_packet(context, NULL, NULL)\<close>; \<open>None\<close> when the list ends before the loop does.
\<close>

fun dispatch_loop :: "input_mode \<Rightarrow> (bool \<times> int) list \<Rightarrow> int \<Rightarrow> nat \<Rightarrow> (int \<times> nat) option" where
  "dispatch_loop m [] ret idle = None"
| "dispatch_loop m ((is_exiting, r) # turns) ret idle =
     (if is_exiting then Some (ret, idle)
      else if r = 0
           then (if m = OFFLINE_ANALYSIS then Some (r, idle) else dispatch_loop m turns r (idle + 1))
      else if r > 0 then dispatch_loop m turns r idle
      else Some (r, idle))"

text \<open>The empty message that stops a worker: the header of the buffer at the head gets length 0,
  the other fields keep what the buffer held.\<close>

definition send_break :: "(packet dring \<Rightarrow> packet dring) list \<Rightarrow> worker \<Rightarrow> worker option" where
  "send_break sleeps w =
     (let r = fifo w;
          p = (d_data r ! data_spsc_ring_get_tmp_element r)\<lparr>p_len := 0\<rparr>
      in case push_or_wait OFFLINE_ANALYSIS sleeps (fill_tmp_element p r) of
           Some (r, _) \<Rightarrow> Some (w\<lparr>fifo := r\<rparr>)
         | None \<Rightarrow> None)"

section \<open>Lemmas on the hash\<close>

definition reverse_flow :: "nat \<Rightarrow> u8 list \<Rightarrow> u8 list" where
  "reverse_flow off p =
     take off p @ take 4 (drop (off + 4) p) @ take 4 (drop off p) @ take 2 (drop (off + 10) p)
     @ take 2 (drop (off + 8) p) @ drop (off + 12) p"

lemma reverse_flow_length: "off + 12 \<le> length p \<Longrightarrow> length (reverse_flow off p) = length p"
  by (simp add: reverse_flow_def)

lemma reverse_flow_nth:
  assumes "off + 12 \<le> length p"
  shows "i < off \<Longrightarrow> reverse_flow off p ! i = p ! i"
    and "i < 4 \<Longrightarrow> reverse_flow off p ! (off + i) = p ! (off + 4 + i)"
    and "i < 4 \<Longrightarrow> reverse_flow off p ! (off + 4 + i) = p ! (off + i)"
    and "i < 2 \<Longrightarrow> reverse_flow off p ! (off + 8 + i) = p ! (off + 10 + i)"
    and "i < 2 \<Longrightarrow> reverse_flow off p ! (off + 10 + i) = p ! (off + 8 + i)"
  using assms by (simp_all add: reverse_flow_def nth_append min.absorb2 add.assoc)

lemma reverse_flow_reads:
  assumes "off + 12 \<le> length p"
  shows "i + 1 < off \<Longrightarrow> rd16 (reverse_flow off p) i = rd16 p i"
    and "i < off \<Longrightarrow> rd8 (reverse_flow off p) i = rd8 p i"
    and "rd32 (reverse_flow off p) off = rd32 p (off + 4)"
    and "rd32 (reverse_flow off p) (off + 4) = rd32 p off"
    and "rd16 (reverse_flow off p) (off + 8) = rd16 p (off + 10)"
    and "rd16 (reverse_flow off p) (off + 10) = rd16 p (off + 8)"
  using assms reverse_flow_length [OF assms] reverse_flow_nth(1) [OF assms]
    reverse_flow_nth(2-3) [OF assms, of 0] reverse_flow_nth(2-3) [OF assms, of 1]
    reverse_flow_nth(2-3) [OF assms, of 2] reverse_flow_nth(2-3) [OF assms, of 3]
    reverse_flow_nth(4-5) [OF assms, of 0] reverse_flow_nth(4-5) [OF assms, of 1]
  by (simp_all add: rd8_def rd16_def rd32_def add.assoc)

lemma get_packet_hash_number_ip:
  assumes "38 \<le> n" "rd16 p 12 = Inr proto" "proto = 0x08 \<and> off = 26 \<or> proto = 0x81 \<and> off = 30"
  shows "get_packet_hash_number p n =
     bindE (rd32 p off) (\<lambda>ip_src. bindE (rd32 p (off + 4)) (\<lambda>ip_dst. bindE (rd8 p (off - 3)) (\<lambda>proto_id.
     bindE (if proto_id = 6 \<or> proto_id = 17
            then bindE (rd16 p (off + 8)) (\<lambda>port_src. bindE (rd16 p (off + 8 + 2)) (\<lambda>port_dst. Inr (port_src, port_dst)))
            else Inr (0, 0)) (\<lambda>(port_src, port_dst).
     Inr (hash ((ip_src OR ip_dst) OR ucast (port_src OR port_dst)))))))"
  using assms by (auto simp: get_packet_hash_number_def)

lemma rd_total:
  "i < length p \<Longrightarrow> rd8 p i = Inr (p ! i)"
  "i + 1 < length p \<Longrightarrow> \<exists>x. rd16 p i = Inr x"
  "i + 3 < length p \<Longrightarrow> \<exists>x. rd32 p i = Inr x"
  by (simp_all add: rd8_def rd16_def rd32_def)

section \<open>Lemmas on the reader and the worker\<close>

lemma push_or_wait_room:
  assumes "dring_hist r ps rs" "d_data r ! (length ps mod d_size r) = x" "length ps < length rs + dring_cap r"
  shows "\<exists>r'. push_or_wait m sleeps r = Some (r', True) \<and> dring_hist r' (ps @ [x]) rs"
  using push_tmp_hist [OF assms(1,2)] assms(3)
  by (subst push_or_wait.simps) (auto split: prod.splits)

lemma push_tmp_keeps:
  "data_spsc_ring_push_tmp_element r = (r', c) \<Longrightarrow> d_data r' = d_data r \<and> d_size r' = d_size r"
  by (auto simp: data_spsc_ring_push_tmp_element_def split: prod.splits)

lemma push_tmp_full:
  assumes "dring_hist r ps rs" "length ps = length rs + dring_cap r"
  shows "\<exists>r' c. data_spsc_ring_push_tmp_element r = (r', c) \<and> c \<noteq> QUEUE_SUCCESS \<and> dring_hist r' ps rs \<and>
           d_data r' = d_data r \<and> d_size r' = d_size r \<and> dring_cap r' = dring_cap r"
proof -
  obtain r' c where p: "data_spsc_ring_push_tmp_element r = (r', c)" by fastforce
  then show ?thesis
    using push_tmp_hist [OF assms(1) refl] assms(2) push_tmp_keeps [OF p] by simp
qed

lemma push_or_wait_drop:
  assumes "dring_hist r ps rs" "length ps = length rs + dring_cap r"
  shows "\<exists>r'. push_or_wait ONLINE_ANALYSIS sleeps r = Some (r', False) \<and> dring_hist r' ps rs"
  using push_tmp_full [OF assms] by (subst push_or_wait.simps) auto

lemma push_or_wait_sleep:
  assumes "dring_hist r ps rs" "length ps = length rs + dring_cap r"
  shows "\<exists>r'. push_or_wait OFFLINE_ANALYSIS (s # sleeps) r = push_or_wait OFFLINE_ANALYSIS sleeps (s r') \<and>
           dring_hist r' ps rs \<and> d_data r' = d_data r \<and> d_size r' = d_size r \<and> dring_cap r' = dring_cap r"
  using push_tmp_full [OF assms] by (subst push_or_wait.simps) auto

lemma pop_keeps_data:
  "data_spsc_ring_pop r = (r', v) \<Longrightarrow> d_data r' = d_data r \<and> d_size r' = d_size r"
  by (auto simp: data_spsc_ring_pop_def split: prod.splits option.splits)

lemma push_or_wait_until_pop:
  assumes "dring_hist r ps rs" "d_data r ! (length ps mod d_size r) = x" "length ps = length rs + dring_cap r"
    "0 < dring_cap r"
  shows "\<exists>r'. push_or_wait OFFLINE_ANALYSIS (replicate k (\<lambda>r. r) @ [\<lambda>r. fst (data_spsc_ring_pop r)]) r = Some (r', True) \<and>
           dring_hist r' (ps @ [x]) (rs @ [ps ! length rs])"
  using assms
proof (induction k arbitrary: r)
  case 0
  obtain r1 where r1: "push_or_wait OFFLINE_ANALYSIS [\<lambda>r. fst (data_spsc_ring_pop r)] r =
      push_or_wait OFFLINE_ANALYSIS [] (fst (data_spsc_ring_pop r1))" "dring_hist r1 ps rs"
      "d_data r1 = d_data r" "d_size r1 = d_size r" "dring_cap r1 = dring_cap r"
    using push_or_wait_sleep [OF 0(1,3), of "\<lambda>r. fst (data_spsc_ring_pop r)" "[]"] by auto
  obtain r2 where r2: "data_spsc_ring_pop r1 = (r2, Some (ps ! length rs))"
      "dring_hist r2 ps (rs @ [ps ! length rs])" "dring_cap r2 = dring_cap r1"
    using dring.pop_some [OF r1(2)] 0(3,4) by auto
  have "d_data r2 ! (length ps mod d_size r2) = x" "length ps < length (rs @ [ps ! length rs]) + dring_cap r2"
    using pop_keeps_data [OF r2(1)] r1 r2(3) 0 by auto
  then show ?case using push_or_wait_room [OF r2(2)] r1(1) r2(1) by simp
next
  case (Suc k)
  obtain r1 where r1: "push_or_wait OFFLINE_ANALYSIS ((\<lambda>r. r) # replicate k (\<lambda>r. r) @ [\<lambda>r. fst (data_spsc_ring_pop r)]) r =
      push_or_wait OFFLINE_ANALYSIS (replicate k (\<lambda>r. r) @ [\<lambda>r. fst (data_spsc_ring_pop r)]) r1" "dring_hist r1 ps rs"
      "d_data r1 = d_data r" "d_size r1 = d_size r" "dring_cap r1 = dring_cap r"
    using push_or_wait_sleep [OF Suc.prems(1,3), of "\<lambda>r. r" "replicate k (\<lambda>r. r) @ [\<lambda>r. fst (data_spsc_ring_pop r)]"] by auto
  then show ?case using Suc.IH [OF r1(2)] Suc.prems by simp
qed

definition processed :: "cap_event list \<Rightarrow> packet list" where
  "processed es = concat (map (\<lambda>e. case e of Process p \<Rightarrow> [p] | _ \<Rightarrow> []) es)"

lemma processed_simps [simp]:
  "processed [] = []" "processed (Process p # es) = p # processed es"
  "processed (Stat_period # es) = processed es" "processed (Sample_file_period # es) = processed es"
  "processed (On_stop # es) = processed es" "processed (On_start # es) = processed es"
  "processed (es @ es') = processed es @ processed es'"
  by (simp_all add: processed_def)

lemma process_all_events:
  "process_all ps w = (w\<lparr>pkt_processed := pkt_processed w + length ps\<rparr>, map Process ps)"
  by (induction ps arbitrary: w) (simp_all add: worker_process_a_packet_def)

lemma processed_map [simp]: "processed (map Process ps) = ps"
  by (induction ps) simp_all

lemma worker_timers_processed: "worker_timers c clock tm = (tm', es) \<Longrightarrow> processed es = []"
  by (auto simp: worker_timers_def Let_def split: if_splits)

lemma processed_timers [simp]: "processed (snd (worker_timers c clock tm)) = []"
  by (cases "worker_timers c clock tm") (simp add: worker_timers_processed)

text \<open>One turn on a ring with waiting packets: it handles a non-empty run of the oldest ones, and
  breaks exactly when that run ends with the stop message.\<close>

lemma worker_turn_progress:
  assumes "dring_hist (fifo w) ps rs" "length rs < length ps"
  shows "\<exists>n es w' tm' go. worker_turn c clock w tm = (w', tm', es, go) \<and> 0 < n \<and> length rs + n \<le> length ps \<and>
     go = (p_len (ps ! (length rs + n - 1)) \<noteq> 0) \<and>
     processed es = (if go then take n (drop (length rs) ps) else take (n - 1) (drop (length rs) ps)) \<and>
     pkt_processed w' = pkt_processed w + length (processed es) \<and>
     (go \<longrightarrow> dring_hist (fifo w') ps (rs @ take n (drop (length rs) ps)))"
proof -
  obtain r x where b: "data_spsc_ring_pop_bulk (fifo w) = (r, x)" by fastforce
  with bulk_protocol [OF assms(1)] assms(2) obtain t n where
    x: "x = Some (t, n)" and n: "0 < n" "length rs + n \<le> length ps"
    and vals: "map (\<lambda>i. data_spsc_ring_get_data r (t + i)) [0..<n] = take n (drop (length rs) ps)"
    and h: "dring_hist (data_spsc_ring_update_tail t n r) ps (rs @ take n (drop (length rs) ps))"
    by (auto split: option.splits)
  have split: "map (\<lambda>i. data_spsc_ring_get_data r (t + i)) [0..<n] =
      map (\<lambda>i. data_spsc_ring_get_data r (i + t)) [0..<n - 1] @ [data_spsc_ring_get_data r (n - 1 + t)]"
    using n(1) upt_Suc_append [of 0 "n - 1"] by (simp add: add.commute del: upt_Suc)
  have tn: "take n (drop (length rs) ps) = take (n - 1) (drop (length rs) ps) @ [ps ! (length rs + n - 1)]"
    using n take_Suc_conv_app_nth [of "n - 1" "drop (length rs) ps"] by simp
  have xs: "map (\<lambda>i. data_spsc_ring_get_data r (i + t)) [0..<n - 1] = take (n - 1) (drop (length rs) ps)"
    and last: "data_spsc_ring_get_data r (n - 1 + t) = ps ! (length rs + n - 1)"
    using split tn vals by auto
  have len: "length (take (n - 1) (drop (length rs) ps)) = n - 1" using n by simp
  let ?xs = "take (n - 1) (drop (length rs) ps)" and ?lp = "ps ! (length rs + n - 1)"
  note eval = worker_turn_def b x xs last process_all_events worker_process_a_packet_def Let_def
  show ?thesis
  proof (cases "p_len ?lp = 0")
    case True
    then have "worker_turn c clock w tm =
        (w\<lparr>fifo := r, pkt_processed := pkt_processed w + (n - 1)\<rparr>, tm, map Process ?xs, False)"
      using len by (simp only: eval prod.case option.case) simp
    with True n len show ?thesis by (intro exI [of _ n]) auto
  next
    case False
    obtain tm' es3 where tm: "worker_timers c clock (tm\<lparr>now := tv_sec (p_ts ?lp)\<rparr>) = (tm', es3)" by fastforce
    have "worker_turn c clock w tm =
        (w\<lparr>fifo := data_spsc_ring_update_tail t (n - 1 + 1) r, pkt_processed := pkt_processed w + (n - 1) + 1\<rparr>,
         tm', map Process ?xs @ [Process ?lp] @ es3, True)"
      using False len by (simp only: eval prod.case option.case tm) (simp add: tm)
    with False n len h tn worker_timers_processed [OF tm] show ?thesis by (intro exI [of _ n]) auto
  qed
qed

lemma worker_loop_drains:
  "dring_hist (fifo w) ps rs \<Longrightarrow> length rs < length ps \<Longrightarrow>
   (\<forall>p \<in> set (drop (length rs) (butlast ps)). p_len p \<noteq> 0) \<Longrightarrow> p_len (last ps) = 0 \<Longrightarrow>
   length ps - length rs \<le> length clocks \<Longrightarrow>
   \<exists>es w'. worker_loop c clocks w tm = (es @ [On_stop], w', True) \<and>
     processed es = drop (length rs) (butlast ps) \<and>
     pkt_processed w' = pkt_processed w + length (drop (length rs) (butlast ps))"
proof (induction clocks arbitrary: w tm rs)
  case (Cons clock clocks)
  obtain n es w1 tm1 go where t: "worker_turn c clock w tm = (w1, tm1, es, go)" "0 < n" "length rs + n \<le> length ps"
    and go: "go = (p_len (ps ! (length rs + n - 1)) \<noteq> 0)"
    and es: "processed es = (if go then take n (drop (length rs) ps) else take (n - 1) (drop (length rs) ps))"
    and cnt: "pkt_processed w1 = pkt_processed w + length (processed es)"
    and h: "go \<longrightarrow> dring_hist (fifo w1) ps (rs @ take n (drop (length rs) ps))"
    using worker_turn_progress [OF Cons.prems(1,2), of c clock tm] by blast
  have ne: "ps \<noteq> []" using Cons.prems(2) by auto
  let ?rest = "drop (length rs) (butlast ps)"
  show ?case
  proof (cases "length rs + n = length ps")
    case True
    then have "\<not> go" using go Cons.prems(4) ne by (simp add: last_conv_nth)
    moreover have "take (n - 1) (drop (length rs) ps) = ?rest"
      using True [symmetric] by (simp add: butlast_conv_take drop_take)
    ultimately show ?thesis using t(1) es cnt by auto
  next
    case False
    with t have lt: "length rs + n < length ps" by simp
    then have "ps ! (length rs + n - 1) \<in> set ?rest"
      using t(2) by (auto simp: in_set_conv_nth nth_butlast intro!: exI [of _ "n - 1"])
    then have go': go using go Cons.prems(3) by auto
    let ?rs = "rs @ take n (drop (length rs) ps)"
    have len: "length ?rs = length rs + n" using lt by simp
    have dr: "drop (length ?rs) (butlast ps) = drop n ?rest" unfolding len by (simp add: add.commute)
    have tk: "take n (drop (length rs) ps) = take n ?rest" using lt by (simp add: take_drop take_butlast)
    obtain es' w' where r: "worker_loop c clocks w1 tm1 = (es' @ [On_stop], w', True)"
      "processed es' = drop n ?rest" "pkt_processed w' = pkt_processed w1 + length (drop n ?rest)"
    proof -
      have "\<forall>p \<in> set (drop (length ?rs) (butlast ps)). p_len p \<noteq> 0"
        unfolding dr using Cons.prems(3) by (meson in_set_dropD)
      moreover have "dring_hist (fifo w1) ps ?rs" "length ?rs < length ps"
        "length ps - length ?rs \<le> length clocks"
        using h go' Cons.prems(5) lt len t(2) by auto
      ultimately show ?thesis
        using Cons.IH [of w1 ?rs tm1] Cons.prems(4) that unfolding dr by blast
    qed
    have "processed (es @ es') = ?rest"
      using es go' tk r(2) append_take_drop_id [of n ?rest] by (simp del: append_take_drop_id)
    moreover have "pkt_processed w' = pkt_processed w + length ?rest"
      using cnt es go' tk r(3) by (simp add: min_def)
    ultimately show ?thesis using t(1) r(1) go' by auto
  qed
qed simp

section \<open>Properties\<close>

text \<open>
  C12: the flow hash is symmetric: exchanging source and destination addresses and ports of an
  IPv4 packet (or one behind a VLAN tag) does not change the hash, so both directions of a flow
  reach the same worker.
\<close>

theorem hash_symmetric:
  assumes "rd16 p 12 = Inr proto" "proto = 0x08 \<and> off = 26 \<or> proto = 0x81 \<and> off = 30" "off + 12 \<le> length p"
  shows "get_packet_hash_number (reverse_flow off p) n = get_packet_hash_number p n"
proof (cases "38 \<le> n")
  case True
  have "rd16 (reverse_flow off p) 12 = Inr proto" "rd8 (reverse_flow off p) (off - 3) = rd8 p (off - 3)"
    using reverse_flow_reads(1,2) [OF assms(3)] assms(1,2) by auto
  moreover have "off + 8 + 2 = off + 10" by simp
  moreover obtain a b where "rd32 p off = Inr a" "rd32 p (off + 4) = Inr b"
    using rd_total(3) [of off p] rd_total(3) [of "off + 4" p] assms(3) by auto
  moreover obtain s d where "rd16 p (off + 8) = Inr s" "rd16 p (off + 10) = Inr d"
    using rd_total(2) [of "off + 8" p] rd_total(2) [of "off + 10" p] assms(3) by auto
  moreover have "rd8 p (off - 3) = Inr (p ! (off - 3))" using rd_total(1) assms(2,3) by auto
  ultimately show ?thesis
    using reverse_flow_reads(3-6) [OF assms(3)]
    by (simp only: get_packet_hash_number_ip [OF True _ assms(2)] assms(1) bindE_Inr)
      (simp add: or.commute)
qed (simp add: get_packet_hash_number_def)

text \<open>
  The dispatch of an untagged packet never reads outside the captured bytes; a VLAN-tagged TCP or
  UDP packet captured with 38 to 41 bytes does: the length test does not account for the tag.
\<close>

theorem hash_reads_in_bounds:
  assumes "length p = n" "(0x81 :: u16) \<noteq> ucast (p ! 12) OR push_bit 8 (ucast (p ! 13)) \<or> 42 \<le> n \<or> n < 38"
  shows "\<exists>h. get_packet_hash_number p n = Inr (h :: u32)"
proof (cases "38 \<le> n")
  case True
  then obtain proto where proto: "rd16 p 12 = Inr proto" using assms(1) by (auto simp: rd16_def)
  show ?thesis
  proof (cases "proto = 0x08 \<or> proto = 0x81")
    case kind: True
    define off :: nat where "off = (if proto = 0x08 then 26 else 30)"
    have off: "proto = 0x08 \<and> off = 26 \<or> proto = 0x81 \<and> off = 30" "off + 12 \<le> n"
      using kind proto assms True by (auto simp: off_def rd16_def)
    obtain a b where "rd32 p off = Inr a" "rd32 p (off + 4) = Inr b"
      using rd_total(3) [of off p] rd_total(3) [of "off + 4" p] off assms(1) by auto
    moreover obtain s d where "rd16 p (off + 8) = Inr s" "rd16 p (off + 8 + 2) = Inr d"
      using rd_total(2) [of "off + 8" p] rd_total(2) [of "off + 8 + 2" p] off assms(1) by auto
    moreover have "rd8 p (off - 3) = Inr (p ! (off - 3))" using rd_total(1) off assms(1) by auto
    ultimately show ?thesis by (simp add: get_packet_hash_number_ip [OF True proto off(1)])
  qed (use True proto in \<open>simp add: get_packet_hash_number_def\<close>)
qed (simp add: get_packet_hash_number_def)

theorem hash_reads_in_bounds_witness:
  "\<exists>h. get_packet_hash_number (replicate 38 0) 38 = Inr (h :: u32)"
  by (rule hash_reads_in_bounds) simp_all

theorem hash_symmetric_witness:
  "let p = replicate 12 0 @ [8, 0] @ replicate 12 0 @ [10, 0, 0, 1, 10, 0, 0, 2, 0, 80, 4, 0]
   in get_packet_hash_number (reverse_flow 26 p) 38 = get_packet_hash_number p 38"
proof -
  have "rd16 (replicate 12 0 @ [8, 0] @ replicate 12 0 @ [10, 0, 0, 1, 10, 0, 0, 2, 0, 80, 4, 0]) 12 = Inr 0x08"
    by (simp add: rd16_def nth_append)
  from hash_symmetric [OF this, of 26 38] show ?thesis by simp
qed

text \<open>
  VLAN frames are hashed past their end: for a tagged TCP frame of 38 captured bytes the
  reader loads its ports outside the captured data.
\<close>

theorem hash_vlan_overread:
  "get_packet_hash_number (replicate 12 0 @ [0x81, 0] @ replicate 13 0 @ [6] @ replicate 10 0) 38 = Inl OutOfBounds"
  by (simp add: get_packet_hash_number_def rd16_def rd32_def rd8_def nth_append nth_Cons' Let_def)

text \<open>
  C10: online, a packet whose worker's ring has room is appended behind the packets waiting
  there, and with a full ring it is counted as dropped and nothing else changes; the other
  workers are untouched in both cases.
\<close>

theorem dispatch_online:
  assumes "get_packet_hash_number (p_data pkt) (p_caplen pkt) = Inr h" "ws \<noteq> []"
    and i: "i = unat h mod length ws" "dring_hist (fifo (ws ! i)) ps rs"
  shows "\<exists>r. dring_hist r (if length ps < length rs + dring_cap (fifo (ws ! i)) then ps @ [pkt] else ps) rs \<and>
     got_a_packet_smp ONLINE_ANALYSIS sleeps pkt ws =
       Inr (Some (ws[i := (ws ! i)\<lparr>fifo := r, pkt_dropped := pkt_dropped (ws ! i) +
         (if length ps < length rs + dring_cap (fifo (ws ! i)) then 0 else 1)\<rparr>]))"
proof -
  let ?r = "fill_tmp_element pkt (fifo (ws ! i))"
  note h = fill_hist [OF i(2), of pkt]
  have c: "dring_cap ?r = dring_cap (fifo (ws ! i))" "d_size ?r = d_size (fifo (ws ! i))"
    by (simp_all add: dring_cap_def fill_tmp_element_def)
  have d: "d_data ?r ! (length ps mod d_size ?r) = pkt" using h(2) c by simp
  show ?thesis
  proof (cases "length ps < length rs + dring_cap (fifo (ws ! i))")
    case True
    then obtain r' where "push_or_wait ONLINE_ANALYSIS sleeps ?r = Some (r', True)" "dring_hist r' (ps @ [pkt]) rs"
      using push_or_wait_room [OF h(1) d] c by auto
    with True assms(1) i(1) show ?thesis by (auto simp: got_a_packet_smp_def Let_def)
  next
    case False
    then have "length ps = length rs + dring_cap ?r"
      using dring.R_bounds [OF i(2)] c by simp
    then obtain r' where "push_or_wait ONLINE_ANALYSIS sleeps ?r = Some (r', False)" "dring_hist r' ps rs"
      using push_or_wait_drop [OF h(1)] by blast
    with False assms(1) i(1) show ?thesis by (auto simp: got_a_packet_smp_def Let_def)
  qed
qed

definition sample_packet :: packet where
  "sample_packet = \<lparr>p_len = 60, p_caplen = 20, p_ts = \<lparr>tv_sec = 1, tv_usec = 0\<rparr>, p_data = replicate 20 0\<rparr>"

definition break_packet :: packet where
  "break_packet = sample_packet\<lparr>p_len := 0\<rparr>"

lemma fresh_ring: "\<exists>r :: packet dring. dring_hist r [] [] \<and> dring_cap r = 3"
  using init_hist [of "\<lambda>_. True" 4 64 sample_packet] by auto

theorem dispatch_online_witness:
  "\<exists>r w. got_a_packet_smp ONLINE_ANALYSIS [] sample_packet [w] = Inr (Some [w\<lparr>fifo := r, pkt_dropped := pkt_dropped w\<rparr>]) \<and>
     dring_hist r [sample_packet] []"
proof -
  obtain r0 :: "packet dring" where r0: "dring_hist r0 [] []" "dring_cap r0 = 3" using fresh_ring by blast
  define w where "w = \<lparr>fifo = r0, pkt_processed = 0, pkt_dropped = 0\<rparr>"
  have h: "get_packet_hash_number (p_data sample_packet) (p_caplen sample_packet) = Inr 0"
    by (simp add: get_packet_hash_number_def sample_packet_def)
  obtain r where "dring_hist r [sample_packet] []"
    "got_a_packet_smp ONLINE_ANALYSIS [] sample_packet [w] = Inr (Some [w\<lparr>fifo := r, pkt_dropped := pkt_dropped w\<rparr>])"
    using dispatch_online [OF h, of "[w]" 0 "[]" "[]" "[]"] r0 by (auto simp: w_def)
  then show ?thesis by blast
qed

text \<open>
  C11: offline, no packet is dropped: a packet that finds the ring full waits, however long, and is
  appended as soon as the worker has taken one element.
\<close>

theorem dispatch_offline_waits:
  assumes "dring_hist r ps rs" "length ps = length rs + dring_cap r" "0 < dring_cap r"
  shows "\<exists>r'. push_or_wait OFFLINE_ANALYSIS (replicate k (\<lambda>r. r) @ [\<lambda>r. fst (data_spsc_ring_pop r)])
            (fill_tmp_element pkt r) = Some (r', True) \<and>
          dring_hist r' (ps @ [pkt]) (rs @ [ps ! length rs])"
proof -
  have "dring_cap (fill_tmp_element pkt r) = dring_cap r" "d_size (fill_tmp_element pkt r) = d_size r"
    by (simp_all add: dring_cap_def fill_tmp_element_def)
  then show ?thesis
    using push_or_wait_until_pop [OF fill_hist(1) [OF assms(1)]] fill_hist(2) [OF assms(1)] assms by simp
qed

theorem dispatch_offline_waits_witness:
  "\<exists>r r' :: string dring. dring_hist r [''a''] [] \<and> dring_cap r = 1 \<and>
     push_or_wait OFFLINE_ANALYSIS (replicate 2 (\<lambda>r. r) @ [\<lambda>r. fst (data_spsc_ring_pop r)])
       (fill_tmp_element ''b'' r) = Some (r', True) \<and> dring_hist r' [''a'', ''b''] [''a'']"
proof -
  obtain r0 :: "string dring" where r0: "dring_hist r0 [] []" "dring_cap r0 = 1"
    using init_hist [of "\<lambda>_. True" 2 64 "''-''"] by auto
  obtain r where r: "dring_hist r [''a''] []" "dring_cap r = 1"
    using dring_push_hist [OF r0(1), of "''a''"] r0(2) by auto
  show ?thesis
    using dispatch_offline_waits [OF r(1), of 2 "''b''"] r by auto
qed

text \<open>
  C8: the stop protocol. A worker whose ring ends with the stop message terminates, after at
  most as many turns as elements wait, having processed every packet queued before the message,
  once each and in order, whatever the clock and the timers do.
\<close>

theorem worker_stops_after_draining:
  assumes "dring_hist (fifo w) ps rs" "length rs < length ps"
    "\<forall>p \<in> set (drop (length rs) (butlast ps)). p_len p \<noteq> 0" "p_len (last ps) = 0"
    "length ps - length rs \<le> length clocks"
  shows "\<exists>es w'. worker_thread c clocks w = (On_start # es @ [On_stop], w', True) \<and>
     processed es = drop (length rs) (butlast ps) \<and>
     pkt_processed w' = pkt_processed w + length (processed es)"
  using worker_loop_drains [OF assms, of c "\<lparr>next_stat_ts = 0, next_output_ts = 0, now = 0\<rparr>"]
  by (auto simp: worker_thread_def)

theorem worker_stops_after_draining_witness:
  "\<exists>w es w'. worker_thread \<lparr>mode = OFFLINE_ANALYSIS, stat_period = 5, cache_period = 5, is_sampled = True\<rparr>
      [0, 0] w = (On_start # es @ [On_stop], w', True) \<and> processed es = [sample_packet]"
proof -
  obtain r0 :: "packet dring" where r0: "dring_hist r0 [] []" "dring_cap r0 = 3" using fresh_ring by blast
  obtain r1 where r1: "dring_hist r1 [sample_packet] []" "dring_cap r1 = 3"
    using dring_push_hist [OF r0(1), of sample_packet] r0(2) by auto
  obtain r2 where r2: "dring_hist r2 [sample_packet, break_packet] []"
    using dring_push_hist [OF r1(1), of break_packet] r1(2) by auto
  define w where "w = \<lparr>fifo = r2, pkt_processed = 0, pkt_dropped = 0\<rparr>"
  show ?thesis
    using worker_stops_after_draining [of w "[sample_packet, break_packet]" "[]" "[0, 0]"
        "\<lparr>mode = OFFLINE_ANALYSIS, stat_period = 5, cache_period = 5, is_sampled = True\<rparr>"] r2
    by (auto simp: w_def break_packet_def sample_packet_def)
qed



lemma open_source_ok:
  "open_source e m st = Inr () \<longleftrightarrow>
     (case m of OFFLINE_ANALYSIS \<Rightarrow> open_offline e
      | ONLINE_ANALYSIS \<Rightarrow> create_ok e \<and> set_snaplen e = 0 \<and> set_promisc e = 0 \<and> set_timeout e = 0 \<and>
          set_buffer_size e = 0 \<and> activate e = 0 \<and> datalink e = st \<and> setnonblock e \<noteq> -1)"
  by (auto simp: open_source_def ASSERT_def bindE_def split: input_mode.splits sum.splits if_splits)

lemma send_break_terminates:
  assumes "dring_hist (fifo w) ps rs" "length ps < length rs + dring_cap (fifo w)"
  shows "\<exists>w' b. send_break sleeps w = Some w' \<and> p_len b = 0 \<and> dring_hist (fifo w') (ps @ [b]) rs"
proof -
  let ?b = "(d_data (fifo w) ! data_spsc_ring_get_tmp_element (fifo w))\<lparr>p_len := 0\<rparr>"
  let ?r = "fill_tmp_element ?b (fifo w)"
  have "dring_cap ?r = dring_cap (fifo w)" "d_size ?r = d_size (fifo w)"
    by (simp_all add: dring_cap_def fill_tmp_element_def)
  then have "d_data ?r ! (length ps mod d_size ?r) = ?b" "length ps < length rs + dring_cap ?r"
    using fill_hist(2) [OF assms(1), of ?b] assms(2) by simp_all
  then obtain r' where "push_or_wait OFFLINE_ANALYSIS sleeps ?r = Some (r', True)" "dring_hist r' (ps @ [?b]) rs"
    using push_or_wait_room [OF fill_hist(1) [OF assms(1), of ?b]] by blast
  then show ?thesis
    by (intro exI [of _ "w\<lparr>fifo := r'\<rparr>"] exI [of _ ?b]) (simp add: send_break_def Let_def)
qed

end
