(* ===== verification/Dpdk_Capture.thy ===== *)
theory Dpdk_Capture
  imports Pcap_Capture "HOL-Library.Multiset" "HOL-Library.Sublist"
begin

text \<open>
  The DPDK front end, \<^verbatim>\<open>src/src/modules/packet_capture/dpdk/dpdk_capture.c\<close>: readers take bursts of packets from the queues of a
  network card into one buffer per worker and push the buffers to the rings of the workers; workers take bursts from their rings.

  DPDK is an input: what a queue delivers (\<open>rx\<close>), how many free places a ring has at a call (\<open>room1\<close>, \<open>room2\<close>), how many elements a worker finds,
  and the results of the calls that configure ports. As documented for the burst functions, a ring accepts
  as many of the offered pointers as it has room for, the first ones. The prefetches of the worker, which only warm the cache, are left out.
\<close>

section \<open>Constants and time stamps\<close>

definition NB_READERS_PER_PORT :: nat where "NB_READERS_PER_PORT = 2"

definition RX_DESCRIPTORS :: nat where "RX_DESCRIPTORS = 4096"

definition READER_BURST_SIZE :: nat where "READER_BURST_SIZE = 32"

definition READER_DRAIN_THRESH :: nat where "READER_DRAIN_THRESH = 256"

definition WORKER_BURST_SIZE :: nat where "WORKER_BURST_SIZE = 64"

record timespec =
  ts_sec :: int
  ts_nsec :: int

text \<open>\<^verbatim>\<open>struct timeval64\<close>: two 32-bit members over a 64-bit number, of which the first is the low half on a little-endian machine.\<close>

definition timeval64 :: "u32 \<Rightarrow> u32 \<Rightarrow> u64" where
  "timeval64 s n = ucast s OR push_bit 32 (ucast n)"

definition time_to_uint64 :: "timespec \<Rightarrow> u64" where
  "time_to_uint64 t = timeval64 (word_of_int (ts_sec t)) (word_of_int (ts_nsec t))"

definition tv_sec_from_uint64 :: "u64 \<Rightarrow> u32" where
  "tv_sec_from_uint64 val = ucast val"

definition uint64_to_timeval :: "u64 \<Rightarrow> timeval" where
  "uint64_to_timeval val =
     \<lparr>tv_sec = uint (ucast val :: u32), tv_usec = uint ((ucast (drop_bit 32 val) :: u32) div 1000)\<rparr>"

section \<open>Packets, buffers and rings\<close>

record mbuf =
  pkt_len :: nat
  data_len :: nat
  udata64 :: u64
  mbuf_data :: "u8 list"

text \<open>A pointer in a ring: to a packet, NULL, or eight bytes that are not one of the pointers of the buffer.\<close>

datatype mptr = Null | Mbuf mbuf | Torn

text \<open>
  What the reader keeps for a worker: \<^verbatim>\<open>buffers[worker_id]\<close> (the first \<^verbatim>\<open>packets_count\<close> pointers and \<^verbatim>\<open>bytes_count\<close>), \<^verbatim>\<open>pkts_dropped[worker_id]\<close>, and as
  history all pointers put into \<^verbatim>\<open>worker_rings[worker_id]\<close> and all packets given back to the pool.
\<close>

record lane =
  packets :: "mbuf list"
  bytes_count :: u32
  pkts_dropped :: u64
  ring :: "mptr list"
  freed :: "mbuf list"

record stat_pair =
  s_packets :: u64
  s_bytes :: u64

record reader_state =
  lanes :: "lane list"
  stat_received :: stat_pair
  stat_dropped :: stat_pair
  nb_full_nic :: u64

text \<open>What DPDK answers to the reader for one queue.\<close>

record rx_input =
  rx :: "mbuf list"
  room1 :: nat
  room2 :: nat

definition add_stat :: "stat_pair \<Rightarrow> nat \<Rightarrow> u64 \<Rightarrow> stat_pair" where
  "add_stat s n b = \<lparr>s_packets = s_packets s + of_nat n, s_bytes = s_bytes s + b\<rparr>"

section \<open>The reader\<close>

text \<open>\<^verbatim>\<open>rte_ring_sp_enqueue_burst\<close>: the pointers the ring accepts.\<close>

definition enqueue_burst :: "nat \<Rightarrow> mptr list \<Rightarrow> mptr list" where
  "enqueue_burst room objs = take room objs"

text \<open>
  The \<open>n\<close> pointers at \<^verbatim>\<open>(void *) packets + k\<close>: the addition is on \<^verbatim>\<open>void *\<close>, so \<open>k\<close> counts bytes and a pointer has eight of them.
\<close>

definition pointers_at :: "mbuf list \<Rightarrow> nat \<Rightarrow> nat \<Rightarrow> mptr list" where
  "pointers_at ps k n = map (\<lambda>i. if k mod 8 = 0 then Mbuf (ps ! (k div 8 + i)) else Torn) [0..<n]"

text \<open>The two attempts to push a buffer: the pointers that entered the ring and \<^verbatim>\<open>sent\<close>.\<close>

definition push_buffer :: "nat \<Rightarrow> nat \<Rightarrow> mbuf list \<Rightarrow> mptr list \<times> nat" where
  "push_buffer r1 r2 ps =
     (let nb_pkts = length ps;
          e1 = enqueue_burst r1 (map Mbuf ps);
          sent = length e1
      in if sent < nb_pkts
         then let e2 = enqueue_burst r2 (pointers_at ps sent (nb_pkts - sent)) in (e1 @ e2, sent + length e2)
         else (e1, sent))"

definition drain_buffer :: "nat \<Rightarrow> nat \<Rightarrow> lane \<Rightarrow> stat_pair \<Rightarrow> stat_pair \<Rightarrow> lane \<times> stat_pair \<times> stat_pair" where
  "drain_buffer r1 r2 l received dropped =
     (let ps = packets l;
          nb_pkts = length ps;
          (e, sent) = push_buffer r1 r2 ps;
          l = l\<lparr>ring := ring l @ e\<rparr>;
          (l, dropped) =
            (if sent < nb_pkts
             then let lost = drop sent ps
                  in (l\<lparr>freed := freed l @ lost, pkts_dropped := pkts_dropped l + of_nat (nb_pkts - sent)\<rparr>,
                      add_stat dropped (nb_pkts - sent) (\<Sum>p\<leftarrow>lost. of_nat (data_len p)))
             else (l, dropped))
      in (l\<lparr>packets := [], bytes_count := 0\<rparr>, add_stat received nb_pkts (ucast (bytes_count l)), dropped))"

text \<open>The body of the loop over the workers; the array of the buffer has room for 288 pointers.\<close>

definition reader_worker :: "timespec \<Rightarrow> rx_input \<Rightarrow> nat \<Rightarrow> reader_state \<Rightarrow> reader_state cres" where
  "reader_worker time_now inp w s =
     (let l = lanes s ! w; nb_rx = length (rx inp)
      in if READER_DRAIN_THRESH + READER_BURST_SIZE < length (packets l) + nb_rx then Inl OutOfBounds
         else if nb_rx = 0 \<and> packets l = [] then Inr s
         else let s = (if nb_rx = READER_BURST_SIZE then s\<lparr>nb_full_nic := nb_full_nic s + 1\<rparr> else s);
                  new = map (\<lambda>p. p\<lparr>udata64 := time_to_uint64 time_now\<rparr>) (rx inp);
                  l = l\<lparr>packets := packets l @ new, bytes_count := bytes_count l + (\<Sum>p\<leftarrow>new. of_nat (data_len p))\<rparr>
              in if READER_DRAIN_THRESH \<le> length (packets l) \<or> ts_sec time_now > uint (tv_sec_from_uint64 (udata64 (packets l ! 0)))
                 then let (l, received, dropped) = drain_buffer (room1 inp) (room2 inp) l (stat_received s) (stat_dropped s)
                      in Inr (s\<lparr>lanes := (lanes s)[w := l], stat_received := received, stat_dropped := dropped\<rparr>)
                 else Inr (s\<lparr>lanes := (lanes s)[w := l]\<rparr>))"

fun reader_workers :: "timespec \<Rightarrow> nat \<Rightarrow> rx_input list \<Rightarrow> reader_state \<Rightarrow> reader_state cres" where
  "reader_workers time_now w [] s = Inr s"
| "reader_workers time_now w (inp # inps) s =
     bindE (reader_worker time_now inp w s) (\<lambda>s. reader_workers time_now (w + 1) inps s)"

text \<open>The turns of the loop while \<^verbatim>\<open>is_continuous\<close> holds.\<close>

fun reader_loop :: "(timespec \<times> rx_input list) list \<Rightarrow> reader_state \<Rightarrow> reader_state cres" where
  "reader_loop [] s = Inr s"
| "reader_loop ((time_now, inps) # turns) s =
     bindE (reader_workers time_now 0 inps s) (\<lambda>s. reader_loop turns s)"

definition empty_lane :: lane where
  "empty_lane = \<lparr>packets = [], bytes_count = 0, pkts_dropped = 0, ring = [], freed = []\<rparr>"

text \<open>The zeroed buffers and statistics of a reader.\<close>

definition reader_init :: "nat \<Rightarrow> reader_state" where
  "reader_init nb_workers = \<lparr>lanes = replicate nb_workers empty_lane,
     stat_received = \<lparr>s_packets = 0, s_bytes = 0\<rparr>, stat_dropped = \<lparr>s_packets = 0, s_bytes = 0\<rparr>, nb_full_nic = 0\<rparr>"

text \<open>
  At the end a NULL is pushed to every ring, as often as needed; \<open>full\<close> tells for each ring how often it is found full, \<open>None\<close> if it stays so.
\<close>

fun send_nulls :: "nat option list \<Rightarrow> lane list \<Rightarrow> lane list cres" where
  "send_nulls full [] = Inr []"
| "send_nulls [] (l # ls) = Inl Diverges"
| "send_nulls (f # full) (l # ls) =
     (case f of None \<Rightarrow> Inl Diverges
      | Some _ \<Rightarrow> bindE (send_nulls full ls) (\<lambda>ls. Inr (l\<lparr>ring := ring l @ [Null]\<rparr> # ls)))"

definition reader_thread :: "nat \<Rightarrow> (timespec \<times> rx_input list) list \<Rightarrow> nat option list \<Rightarrow> reader_state cres" where
  "reader_thread nb_workers turns full =
     bindE (reader_loop turns (reader_init nb_workers)) (\<lambda>s.
     bindE (send_nulls full (lanes s)) (\<lambda>ls. Inr (s\<lparr>lanes := ls\<rparr>)))"

section \<open>The worker\<close>

definition packet_of :: "mbuf \<Rightarrow> packet" where
  "packet_of m = \<lparr>p_len = pkt_len m, p_caplen = data_len m, p_ts = uint64_to_timeval (udata64 m), p_data = mbuf_data m\<rparr>"

text \<open>The loop over a burst: a pointer that does not lead to a packet is a fault.\<close>

fun process_burst :: "mptr list \<Rightarrow> cap_event list cres" where
  "process_burst [] = Inr []"
| "process_burst (Mbuf m # ps) = bindE (process_burst ps) (\<lambda>es. Inr (Process (packet_of m) # es))"
| "process_burst (_ # ps) = Inl OutOfBounds"

definition dpdk_timers :: "capture_conf \<Rightarrow> int \<Rightarrow> timers \<Rightarrow> timers \<times> cap_event list" where
  "dpdk_timers c clock tm =
     (let tm = tm\<lparr>now := clock\<rparr>;
          (tm, e1) = (if now tm \<ge> next_stat_ts tm
                      then (tm\<lparr>next_stat_ts := next_stat_ts tm + stat_period c\<rparr>, [Stat_period]) else (tm, []));
          (tm, e2) = (if is_sampled c \<and> now tm \<ge> next_output_ts tm
                      then (tm\<lparr>next_output_ts := next_output_ts tm + cache_period c\<rparr>, [Sample_file_period]) else (tm, []))
      in (tm, e1 @ e2))"

text \<open>A burst: the events, and whether the loop goes on. NULL is expected in the last place only.\<close>

definition worker_burst :: "mptr list \<Rightarrow> (cap_event list \<times> bool) cres" where
  "worker_burst burst =
     (if burst = [] then Inr ([], True)
      else if last burst = Null then bindE (process_burst (butlast burst)) (\<lambda>es. Inr (es, False))
      else bindE (process_burst burst) (\<lambda>es. Inr (es, True)))"

text \<open>The loop over the ring \<open>q\<close>; each turn has the number of elements it finds there and the clock. The last component tells whether the loop ended.\<close>

fun dpdk_worker_loop :: "capture_conf \<Rightarrow> (nat \<times> int) list \<Rightarrow> mptr list \<Rightarrow> timers \<Rightarrow> (cap_event list \<times> mptr list \<times> bool) cres" where
  "dpdk_worker_loop c [] q tm = Inr ([], q, False)"
| "dpdk_worker_loop c ((k, clock) # turns) q tm =
     (let n = min k WORKER_BURST_SIZE
      in bindE (worker_burst (take n q)) (\<lambda>(es, go).
         let (tm, ts) = dpdk_timers c clock tm
         in if go then bindE (dpdk_worker_loop c turns (drop n q) tm) (\<lambda>(es', q, stopped). Inr (es @ ts @ es', q, stopped))
            else Inr (es @ ts, drop n q, True)))"

definition dpdk_worker_thread :: "capture_conf \<Rightarrow> int \<Rightarrow> (nat \<times> int) list \<Rightarrow> mptr list \<Rightarrow> (cap_event list \<times> mptr list \<times> bool) cres" where
  "dpdk_worker_thread c start turns q =
     bindE (dpdk_worker_loop c turns q \<lparr>next_stat_ts = start + stat_period c, next_output_ts = start + cache_period c, now = start\<rparr>)
       (\<lambda>(es, q, stopped). Inr (On_start # es @ (if stopped then [On_stop] else []), q, stopped))"

section \<open>Setting up\<close>

text \<open>What DPDK answers when a port is set up.\<close>

record port_env =
  dev_configure :: int
  adjust_nb_desc :: int
  pool_create_ok :: "nat \<Rightarrow> bool"
  rings_malloc_ok :: "nat \<Rightarrow> bool"
  queue_setup :: "nat \<Rightarrow> int"
  ring_create_ok :: "nat \<Rightarrow> nat \<Rightarrow> bool"
  dev_start :: int

definition exit_unless :: "bool \<Rightarrow> unit cres" where
  "exit_unless b = (if b then Inr () else Inl Exited)"

text \<open>The number of packets in the pool of a reader, an \<^verbatim>\<open>unsigned\<close>.\<close>

definition nb_pktmbuf :: "nat \<Rightarrow> nat \<Rightarrow> u32" where
  "nb_pktmbuf worker_ring_size nb_workers_per_reader =
     of_nat (nb_workers_per_reader * RX_DESCRIPTORS + READER_BURST_SIZE + READER_DRAIN_THRESH
             + (worker_ring_size + WORKER_BURST_SIZE) * nb_workers_per_reader) + 10"

text \<open>A ring is known by its port, its reader and its place.\<close>

type_synonym ring_id = "nat \<times> nat \<times> nat"

fun port_queues :: "port_env \<Rightarrow> nat \<Rightarrow> nat \<Rightarrow> nat list \<Rightarrow> unit cres" where
  "port_queues P n reader_id [] = Inr ()"
| "port_queues P n reader_id (i # is) =
     bindE (exit_unless (0 \<le> queue_setup P (n * reader_id + i))) (\<lambda>_.
     bindE (exit_unless (ring_create_ok P reader_id i)) (\<lambda>_. port_queues P n reader_id is))"

fun port_readers :: "port_env \<Rightarrow> nat \<Rightarrow> nat \<Rightarrow> nat list \<Rightarrow> ring_id list list cres" where
  "port_readers P port n [] = Inr []"
| "port_readers P port n (reader_id # rs) =
     bindE (exit_unless (pool_create_ok P reader_id)) (\<lambda>_.
     bindE (exit_unless (rings_malloc_ok P reader_id)) (\<lambda>_.
     bindE (port_queues P n reader_id [0..<n]) (\<lambda>_.
     bindE (port_readers P port n rs) (\<lambda>rss. Inr (map (\<lambda>i. (port, reader_id, i)) [0..<n] # rss)))))"

text \<open>\<^verbatim>\<open>_port_init\<close>: the rings of the two readers of the port. The number of workers of a reader is an 8-bit number.\<close>

definition port_init :: "port_env \<Rightarrow> nat \<Rightarrow> u64 \<Rightarrow> nat \<Rightarrow> ring_id list list cres" where
  "port_init P port worker_ring_size nb_workers =
     bindE (exit_unless (is_power_of_two worker_ring_size)) (\<lambda>_.
     bindE (exit_unless (dev_configure P = 0)) (\<lambda>_.
     bindE (exit_unless (0 \<le> adjust_nb_desc P)) (\<lambda>_.
     bindE (port_readers P port (nb_workers div NB_READERS_PER_PORT mod 256) [0..<NB_READERS_PER_PORT]) (\<lambda>rss.
     bindE (exit_unless (0 \<le> dev_start P)) (\<lambda>_. Inr rss)))))"

fun init_ports :: "(nat \<Rightarrow> port_env) \<Rightarrow> u64 \<Rightarrow> nat \<Rightarrow> nat list \<Rightarrow> ring_id list list list cres" where
  "init_ports P worker_ring_size nb_workers [] = Inr []"
| "init_ports P worker_ring_size nb_workers (port # ports) =
     bindE (port_init (P port) port worker_ring_size nb_workers) (\<lambda>rss.
     bindE (init_ports P worker_ring_size nb_workers ports) (\<lambda>rsss. Inr (rss # rsss)))"

text \<open>
  The checks at the beginning of \<^verbatim>\<open>packet_capture_start\<close> and the creation of the workers: worker \<open>k\<close> has the \<open>k\<close>-th ring. Dividing by the
  number of ports when there is none ends the process with a signal (\<open>Aborted\<close>); starting a worker that was not created uses an uninitialised pointer.
\<close>

definition dpdk_start :: "(nat \<Rightarrow> port_env) \<Rightarrow> nat \<Rightarrow> u64 \<Rightarrow> nat \<Rightarrow> nat list \<Rightarrow> ring_id list list list cres" where
  "dpdk_start P total_of_cores worker_ring_size total_nb_workers ports =
     (let nb_ports = length ports
      in if nb_ports = 0 then Inl Aborted
         else bindE (exit_unless (total_nb_workers mod (nb_ports * NB_READERS_PER_PORT) = 0)) (\<lambda>_.
              bindE (exit_unless (total_nb_workers \<noteq> 0)) (\<lambda>_.
              bindE (exit_unless (1 + nb_ports * NB_READERS_PER_PORT + total_nb_workers \<le> total_of_cores)) (\<lambda>_.
              bindE (init_ports P worker_ring_size (total_nb_workers div nb_ports mod 256) ports) (\<lambda>rsss.
              if length (concat (concat rsss)) < total_nb_workers then Inl OutOfBounds else Inr rsss)))))"

section \<open>Statistics\<close>

record nic_stats =
  ipackets :: u64
  imissed :: u64
  ierrors :: u64

record traffic_stat =
  nic_receive :: u64
  nic_drop :: u64
  mmt_receive :: stat_pair
  mmt_drop :: stat_pair

definition add_pair :: "stat_pair \<Rightarrow> stat_pair \<Rightarrow> stat_pair" where
  "add_pair a b = \<lparr>s_packets = s_packets a + s_packets b, s_bytes = s_bytes a + s_bytes b\<rparr>"

text \<open>A turn of the loop of the main thread: the counters of the ports, if DPDK gives them, and of their readers.\<close>

fun sum_ports :: "(nic_stats option \<times> (stat_pair \<times> stat_pair) list) list \<Rightarrow> traffic_stat \<Rightarrow> traffic_stat" where
  "sum_ports [] t = t"
| "sum_ports ((stat, readers) # ports) t =
     (let t = (case stat of None \<Rightarrow> t
               | Some n \<Rightarrow> t\<lparr>nic_drop := imissed n + ierrors n, nic_receive := ipackets n + imissed n + ierrors n\<rparr>);
          t = foldl (\<lambda>t (r, d). t\<lparr>mmt_receive := add_pair (mmt_receive t) r, mmt_drop := add_pair (mmt_drop t) d\<rparr>) t readers
      in sum_ports ports t)"

definition stat_turn :: "(nic_stats option \<times> (stat_pair \<times> stat_pair) list) list \<Rightarrow> traffic_stat \<Rightarrow> traffic_stat" where
  "stat_turn ports t =
     sum_ports ports (t\<lparr>mmt_receive := \<lparr>s_packets = 0, s_bytes = 0\<rparr>, mmt_drop := \<lparr>s_packets = 0, s_bytes = 0\<rparr>\<rparr>)"

text \<open>After the threads ended, the drops of each ring are given to the worker that has the ring: the first one found.\<close>

fun find_ring :: "ring_id \<Rightarrow> ring_id list \<Rightarrow> nat \<Rightarrow> nat option" where
  "find_ring r [] k = None"
| "find_ring r (x # xs) k = (if x = r then Some k else find_ring r xs (k + 1))"

fun attribute_drops :: "(ring_id \<times> u64) list \<Rightarrow> ring_id list \<Rightarrow> u64 list \<Rightarrow> u64 list" where
  "attribute_drops [] workers d = d"
| "attribute_drops ((r, n) # rs) workers d =
     attribute_drops rs workers (case find_ring r workers 0 of None \<Rightarrow> d | Some k \<Rightarrow> d[k := n])"

section \<open>Lemmas on the reader\<close>

text \<open>The packets the reader got for a worker, with their time stamps.\<close>

definition stamped :: "timespec \<Rightarrow> rx_input \<Rightarrow> mbuf list" where
  "stamped t inp = map (\<lambda>p. p\<lparr>udata64 := time_to_uint64 t\<rparr>) (rx inp)"

definition got_for :: "nat \<Rightarrow> (timespec \<times> rx_input list) list \<Rightarrow> mbuf list" where
  "got_for w turns = concat (map (\<lambda>(t, inps). stamped t (inps ! w)) turns)"

definition lane_ok :: "lane \<Rightarrow> mbuf list \<Rightarrow> bool" where
  "lane_ok l xs \<longleftrightarrow> length (packets l) < 256 \<and> length (ring l) + length (freed l) + length (packets l) = length xs
     \<and> pkts_dropped l = of_nat (length (freed l))"

text \<open>Every packet is in the ring, freed or still in the buffer, and the ring and the buffer have them in the order of arrival.\<close>

definition lane_clean :: "lane \<Rightarrow> mbuf list \<Rightarrow> bool" where
  "lane_clean l xs \<longleftrightarrow> (\<exists>rs. ring l = map Mbuf rs \<and> mset rs + mset (freed l) + mset (packets l) = mset xs \<and> subseq (rs @ packets l) xs)"

text \<open>A ring that is either full or has room for a whole buffer.\<close>

definition all_or_none :: "rx_input \<Rightarrow> bool" where
  "all_or_none inp \<longleftrightarrow> room1 inp = 0 \<or> READER_DRAIN_THRESH + READER_BURST_SIZE \<le> room1 inp"

lemma pointers_at_0: "n \<le> length ps \<Longrightarrow> pointers_at ps 0 n = map Mbuf (take n ps)"
  by (auto simp: pointers_at_def intro!: nth_equalityI)

lemma push_buffer_count:
  assumes "push_buffer r1 r2 ps = (e, sent)"
  shows "length e = sent" and "sent \<le> length ps"
  using assms by (auto simp: push_buffer_def enqueue_burst_def pointers_at_def Let_def split: if_splits)

lemma push_buffer_clean:
  assumes "push_buffer r1 r2 ps = (e, sent)" "r1 = 0 \<or> length ps \<le> r1"
  shows "e = map Mbuf (take sent ps)"
  using assms by (auto simp: push_buffer_def enqueue_burst_def pointers_at_0 Let_def take_map min_def split: if_splits)

lemma drain_buffer_parts:
  assumes "drain_buffer r1 r2 l received dropped = (l', received', dropped')"
  obtains e sent where "push_buffer r1 r2 (packets l) = (e, sent)" "packets l' = []" "ring l' = ring l @ e"
    "freed l' = freed l @ drop sent (packets l)" "pkts_dropped l' = pkts_dropped l + of_nat (length (packets l) - sent)"
    "s_packets received' = s_packets received + of_nat (length (packets l))"
    "s_packets dropped' = s_packets dropped + of_nat (length (packets l) - sent)"
proof -
  obtain e sent where e: "push_buffer r1 r2 (packets l) = (e, sent)" by fastforce
  have "sent \<le> length (packets l)" using push_buffer_count(2) [OF e] .
  then show ?thesis using assms that [OF e]
    by (cases "sent < length (packets l)") (auto simp: drain_buffer_def e Let_def add_stat_def)
qed

lemma drain_lane:
  assumes "drain_buffer r1 r2 l received dropped = (l', received', dropped')"
    and "length (ring l) + length (freed l) + length (packets l) = length xs" "pkts_dropped l = of_nat (length (freed l))"
  shows "lane_ok l' xs"
    and "length (ring l') + length (freed l') = length (ring l) + length (freed l) + length (packets l)"
    and "s_packets received' = s_packets received + of_nat (length (packets l))"
    and "\<exists>n. length (freed l') = length (freed l) + n \<and> s_packets dropped' = s_packets dropped + of_nat n"
    and "lane_clean l xs \<Longrightarrow> r1 = 0 \<or> length (packets l) \<le> r1 \<Longrightarrow> lane_clean l' xs"
proof -
  obtain e sent where d: "push_buffer r1 r2 (packets l) = (e, sent)" "packets l' = []" "ring l' = ring l @ e"
    "freed l' = freed l @ drop sent (packets l)" "pkts_dropped l' = pkts_dropped l + of_nat (length (packets l) - sent)"
    "s_packets received' = s_packets received + of_nat (length (packets l))"
    "s_packets dropped' = s_packets dropped + of_nat (length (packets l) - sent)"
    using drain_buffer_parts [OF assms(1)] by metis
  have n: "length e = sent" "sent \<le> length (packets l)" using push_buffer_count [OF d(1)] by simp_all
  show "lane_ok l' xs" using d(2-5) n assms(2,3) by (simp add: lane_ok_def)
  show "length (ring l') + length (freed l') = length (ring l) + length (freed l) + length (packets l)" using d(3,4) n by simp
  show "s_packets received' = s_packets received + of_nat (length (packets l))" by (rule d(6))
  show "\<exists>n. length (freed l') = length (freed l) + n \<and> s_packets dropped' = s_packets dropped + of_nat n"
    using d(4,7) by (intro exI [of _ "length (packets l) - sent"]) simp
  assume c: "lane_clean l xs" "r1 = 0 \<or> length (packets l) \<le> r1"
  obtain rs where r: "ring l = map Mbuf rs" "mset rs + mset (freed l) + mset (packets l) = mset xs" "subseq (rs @ packets l) xs"
    using c(1) by (auto simp: lane_clean_def)
  have e: "e = map Mbuf (take sent (packets l))" using push_buffer_clean [OF d(1) c(2)] .
  have "mset (packets l) = mset (take sent (packets l)) + mset (drop sent (packets l))" by (metis append_take_drop_id mset_append)
  moreover have "subseq (take sent (packets l)) (packets l)" by (simp add: prefix_imp_subseq take_is_prefix)
  then have "subseq (rs @ take sent (packets l)) xs"
    using r(3) by (meson list_emb_append_mono subseq_order.order_refl subseq_order.order_trans)
  ultimately show "lane_clean l' xs"
    unfolding lane_clean_def using d(2-4) e r(1,2) by (intro exI [of _ "rs @ take sent (packets l)"]) (simp add: ac_simps)
qed

definition in_ring_or_freed :: "lane \<Rightarrow> nat" where
  "in_ring_or_freed l = length (ring l) + length (freed l)"

definition reader_inv :: "reader_state \<Rightarrow> mbuf list list \<Rightarrow> bool" where
  "reader_inv s xss \<longleftrightarrow> length (lanes s) = length xss \<and> (\<forall>w < length xss. lane_ok (lanes s ! w) (xss ! w))
     \<and> s_packets (stat_received s) = of_nat (\<Sum>l\<leftarrow>lanes s. in_ring_or_freed l)
     \<and> s_packets (stat_dropped s) = of_nat (\<Sum>l\<leftarrow>lanes s. length (freed l))"

lemma lane_append:
  assumes "lane_ok l xs" "packets l' = packets l @ new" "ring l' = ring l" "freed l' = freed l" "pkts_dropped l' = pkts_dropped l"
  shows "length (ring l') + length (freed l') + length (packets l') = length (xs @ new)" "pkts_dropped l' = of_nat (length (freed l'))"
    and "lane_clean l xs \<Longrightarrow> lane_clean l' (xs @ new)"
proof -
  show "length (ring l') + length (freed l') + length (packets l') = length (xs @ new)" "pkts_dropped l' = of_nat (length (freed l'))"
    using assms by (simp_all add: lane_ok_def)
  assume "lane_clean l xs"
  then obtain rs where "ring l = map Mbuf rs" "mset rs + mset (freed l) + mset (packets l) = mset xs" "subseq (rs @ packets l) xs"
    by (auto simp: lane_clean_def)
  moreover from this(3) have "subseq ((rs @ packets l) @ new) (xs @ new)" by (intro list_emb_append_mono) auto
  ultimately show "lane_clean l' (xs @ new)"
    unfolding lane_clean_def using assms(2-4) by (intro exI [of _ rs]) (simp add: ac_simps)
qed

lemma reader_inv_update:
  assumes "reader_inv s xss" "w < length xss" "lane_ok l (xs')"
    and "in_ring_or_freed l = in_ring_or_freed (lanes s ! w) + m" "length (freed l) = length (freed (lanes s ! w)) + k"
    and "lanes s' = (lanes s)[w := l]"
    and "s_packets (stat_received s') = s_packets (stat_received s) + of_nat m" "s_packets (stat_dropped s') = s_packets (stat_dropped s) + of_nat k"
  shows "reader_inv s' (xss[w := xs'])"
proof -
  have w: "w < length (lanes s)" using assms(1,2) by (simp add: reader_inv_def)
  have "(\<Sum>l\<leftarrow>lanes s'. in_ring_or_freed l) = (\<Sum>l\<leftarrow>lanes s. in_ring_or_freed l) + m"
    using sum_list_replace [OF w, of in_ring_or_freed l] assms(4,6) by simp
  moreover have "(\<Sum>l\<leftarrow>lanes s'. length (freed l)) = (\<Sum>l\<leftarrow>lanes s. length (freed l)) + k"
    using sum_list_replace [OF w, of "\<lambda>l. length (freed l)" l] assms(5,6) by simp
  ultimately show ?thesis using assms(1-3,6-8) by (auto simp: reader_inv_def nth_list_update)
qed

lemma reader_worker_step:
  assumes "reader_inv s xss" "w < length xss" "length (rx inp) \<le> READER_BURST_SIZE"
  shows "\<exists>s'. reader_worker t inp w s = Inr s' \<and> reader_inv s' (xss[w := xss ! w @ stamped t inp])
    \<and> (\<forall>v. v \<noteq> w \<longrightarrow> lanes s' ! v = lanes s ! v)
    \<and> (all_or_none inp \<longrightarrow> lane_clean (lanes s ! w) (xss ! w) \<longrightarrow> lane_clean (lanes s' ! w) (xss ! w @ stamped t inp))"
proof -
  have w: "w < length (lanes s)" "lane_ok (lanes s ! w) (xss ! w)" using assms(1,2) by (simp_all add: reader_inv_def)
  have room: "\<not> READER_DRAIN_THRESH + READER_BURST_SIZE < length (packets (lanes s ! w)) + length (rx inp)"
    using w(2) assms(3) by (simp add: lane_ok_def READER_DRAIN_THRESH_def)
  show ?thesis
  proof (cases "rx inp = [] \<and> packets (lanes s ! w) = []")
    case True
    then have "reader_worker t inp w s = Inr s" using room by (simp add: reader_worker_def Let_def)
    moreover have "stamped t inp = []" using True by (simp add: stamped_def)
    ultimately show ?thesis using assms(1) by simp
  next
    case False
    define s1 where "s1 = (if length (rx inp) = READER_BURST_SIZE then s\<lparr>nb_full_nic := nb_full_nic s + 1\<rparr> else s)"
    have s1: "lanes s1 = lanes s" "stat_received s1 = stat_received s" "stat_dropped s1 = stat_dropped s" by (simp_all add: s1_def)
    define l where "l = (lanes s ! w)\<lparr>packets := packets (lanes s ! w) @ stamped t inp,
      bytes_count := bytes_count (lanes s ! w) + (\<Sum>p\<leftarrow>stamped t inp. of_nat (data_len p))\<rparr>"
    have ap: "length (ring l) + length (freed l) + length (packets l) = length (xss ! w @ stamped t inp)" "pkts_dropped l = of_nat (length (freed l))"
      "lane_clean (lanes s ! w) (xss ! w) \<Longrightarrow> lane_clean l (xss ! w @ stamped t inp)"
      using lane_append [OF w(2), of l "stamped t inp"] by (simp_all add: l_def)
    have len: "length (packets l) \<le> READER_DRAIN_THRESH + READER_BURST_SIZE" using room by (simp add: l_def stamped_def)
    have old: "ring l = ring (lanes s ! w)" "freed l = freed (lanes s ! w)" by (simp_all add: l_def)
    let ?drain = "READER_DRAIN_THRESH \<le> length (packets l) \<or> ts_sec t > uint (tv_sec_from_uint64 (udata64 (packets l ! 0)))"
    have step: "reader_worker t inp w s = (if ?drain
        then let (l, received, dropped) = drain_buffer (room1 inp) (room2 inp) l (stat_received s) (stat_dropped s)
             in Inr (s1\<lparr>lanes := (lanes s)[w := l], stat_received := received, stat_dropped := dropped\<rparr>)
        else Inr (s1\<lparr>lanes := (lanes s)[w := l]\<rparr>))"
      using room False by (auto simp: reader_worker_def Let_def s1 s1_def [symmetric] l_def stamped_def [symmetric])
    show ?thesis
    proof (cases ?drain)
      case True
      obtain l' received dropped where d: "drain_buffer (room1 inp) (room2 inp) l (stat_received s) (stat_dropped s) = (l', received, dropped)"
        using prod_cases3 by blast
      note dl = drain_lane [OF d ap(1,2)]
      obtain k where k: "length (freed l') = length (freed l) + k" "s_packets dropped = s_packets (stat_dropped s) + of_nat k" using dl(4) by blast
      define s' where "s' = s1\<lparr>lanes := (lanes s)[w := l'], stat_received := received, stat_dropped := dropped\<rparr>"
      have "reader_inv s' (xss[w := xss ! w @ stamped t inp])"
        using reader_inv_update [OF assms(1,2) dl(1), of "length (packets l)" k s'] dl(2,3) k old by (simp add: s'_def in_ring_or_freed_def)
      moreover have "all_or_none inp \<Longrightarrow> room1 inp = 0 \<or> length (packets l) \<le> room1 inp" using len by (auto simp: all_or_none_def)
      then have "all_or_none inp \<Longrightarrow> lane_clean (lanes s ! w) (xss ! w) \<Longrightarrow> lane_clean l' (xss ! w @ stamped t inp)" using ap(3) dl(5) by blast
      moreover have "reader_worker t inp w s = Inr s'" unfolding step using True by (simp add: d s'_def)
      ultimately show ?thesis using w(1) by (simp add: s'_def)
    next
      case False
      define s' where "s' = s1\<lparr>lanes := (lanes s)[w := l]\<rparr>"
      have "lane_ok l (xss ! w @ stamped t inp)" using ap False by (simp add: lane_ok_def READER_DRAIN_THRESH_def)
      then have "reader_inv s' (xss[w := xss ! w @ stamped t inp])"
        using reader_inv_update [OF assms(1,2), of l _ 0 0 s'] old s1 by (simp add: s'_def in_ring_or_freed_def)
      moreover have "reader_worker t inp w s = Inr s'" unfolding step using False by (simp add: s'_def)
      ultimately show ?thesis using w(1) ap(3) by (simp add: s'_def)
    qed
  qed
qed

definition all_clean :: "reader_state \<Rightarrow> mbuf list list \<Rightarrow> bool" where
  "all_clean s xss \<longleftrightarrow> (\<forall>v < length xss. lane_clean (lanes s ! v) (xss ! v))"

lemma reader_workers_step:
  "reader_inv s xss \<Longrightarrow> w + length inps = length xss \<Longrightarrow> list_all (\<lambda>inp. length (rx inp) \<le> READER_BURST_SIZE) inps \<Longrightarrow>
   \<exists>s' xss'. reader_workers t w inps s = Inr s' \<and> reader_inv s' xss' \<and> length xss' = length xss
     \<and> (\<forall>v < length xss. xss' ! v = (if w \<le> v then xss ! v @ stamped t (inps ! (v - w)) else xss ! v))
     \<and> (list_all all_or_none inps \<longrightarrow> all_clean s xss \<longrightarrow> all_clean s' xss')"
proof (induction inps arbitrary: s xss w)
  case Nil
  then show ?case by (intro exI [of _ s] exI [of _ xss]) simp
next
  case (Cons inp inps)
  have w: "w < length xss" and len: "length (rx inp) \<le> READER_BURST_SIZE" using Cons.prems by simp_all
  let ?x1 = "xss[w := xss ! w @ stamped t inp]"
  obtain s1 where s1: "reader_worker t inp w s = Inr s1" "reader_inv s1 ?x1" "\<forall>v. v \<noteq> w \<longrightarrow> lanes s1 ! v = lanes s ! v"
    "all_or_none inp \<longrightarrow> lane_clean (lanes s ! w) (xss ! w) \<longrightarrow> lane_clean (lanes s1 ! w) (xss ! w @ stamped t inp)"
    using reader_worker_step [OF Cons.prems(1) w len, of t] by blast
  obtain s' xss' where s': "reader_workers t (w + 1) inps s1 = Inr s'" "reader_inv s' xss'" "length xss' = length ?x1"
    "\<forall>v < length ?x1. xss' ! v = (if w + 1 \<le> v then ?x1 ! v @ stamped t (inps ! (v - (w + 1))) else ?x1 ! v)"
    "list_all all_or_none inps \<longrightarrow> all_clean s1 ?x1 \<longrightarrow> all_clean s' xss'"
    using Cons.IH [OF s1(2), of "w + 1"] Cons.prems(2,3) by auto
  have "xss' ! v = (if w \<le> v then xss ! v @ stamped t ((inp # inps) ! (v - w)) else xss ! v)" if "v < length xss" for v
    using s'(4) that by (cases "v = w") (auto simp: nth_Cons')
  moreover have "all_clean s1 ?x1" if "all_or_none inp" "all_clean s xss"
    using s1(3,4) that w by (auto simp: all_clean_def nth_list_update)
  ultimately show ?case using s1(1) s'(1-3,5) by (intro exI [of _ s'] exI [of _ xss']) auto
qed

definition turns_ok :: "nat \<Rightarrow> (timespec \<times> rx_input list) list \<Rightarrow> bool" where
  "turns_ok n turns \<longleftrightarrow> list_all (\<lambda>(t, inps). length inps = n \<and> list_all (\<lambda>inp. length (rx inp) \<le> READER_BURST_SIZE) inps) turns"

lemma reader_loop_step:
  "reader_inv s xss \<Longrightarrow> turns_ok (length xss) turns \<Longrightarrow>
   \<exists>s' xss'. reader_loop turns s = Inr s' \<and> reader_inv s' xss' \<and> length xss' = length xss
     \<and> (\<forall>v < length xss. xss' ! v = xss ! v @ got_for v turns)
     \<and> (list_all (\<lambda>(t, inps). list_all all_or_none inps) turns \<longrightarrow> all_clean s xss \<longrightarrow> all_clean s' xss')"
proof (induction turns arbitrary: s xss)
  case Nil
  then show ?case by (intro exI [of _ s] exI [of _ xss]) (simp add: got_for_def)
next
  case (Cons turn turns)
  obtain t inps where t: "turn = (t, inps)" by (cases turn)
  obtain s1 x1 where s1: "reader_workers t 0 inps s = Inr s1" "reader_inv s1 x1" "length x1 = length xss"
    "\<forall>v < length xss. x1 ! v = xss ! v @ stamped t (inps ! v)" "list_all all_or_none inps \<longrightarrow> all_clean s xss \<longrightarrow> all_clean s1 x1"
    using reader_workers_step [OF Cons.prems(1), of 0 inps t] Cons.prems(2) t by (auto simp: turns_ok_def)
  obtain s' x' where s': "reader_loop turns s1 = Inr s'" "reader_inv s' x'" "length x' = length x1"
    "\<forall>v < length x1. x' ! v = x1 ! v @ got_for v turns"
    "list_all (\<lambda>(t, inps). list_all all_or_none inps) turns \<longrightarrow> all_clean s1 x1 \<longrightarrow> all_clean s' x'"
    using Cons.IH [OF s1(2)] Cons.prems(2) s1(3) by (auto simp: turns_ok_def)
  have "x' ! v = xss ! v @ got_for v (turn # turns)" if "v < length xss" for v
    using s1(3,4) s'(4) that by (simp add: t got_for_def)
  then show ?case using s1 s' by (intro exI [of _ s'] exI [of _ x']) (auto simp: t)
qed

lemma reader_init_inv: "reader_inv (reader_init n) (replicate n [])" "all_clean (reader_init n) (replicate n [])"
proof -
  show "reader_inv (reader_init n) (replicate n [])"
    by (simp add: sum_list_replicate reader_inv_def reader_init_def lane_ok_def empty_lane_def in_ring_or_freed_def)
  show "all_clean (reader_init n) (replicate n [])"
    by (simp add: all_clean_def reader_init_def lane_clean_def empty_lane_def)
qed

section \<open>Lemmas on the worker\<close>

lemma process_burst_all: "process_burst (map Mbuf ms) = Inr (map (Process \<circ> packet_of) ms)"
  by (induction ms) simp_all

lemma worker_burst_all: "worker_burst (map Mbuf ms) = Inr (map (Process \<circ> packet_of) ms, True)"
  by (cases ms rule: rev_cases) (simp_all add: worker_burst_def process_burst_all del: map_append, simp_all add: process_burst_all [of "_ @ [_]", simplified])

lemma worker_burst_last: "worker_burst (map Mbuf ms @ [Null]) = Inr (map (Process \<circ> packet_of) ms, False)"
  by (simp add: worker_burst_def process_burst_all)

lemma processed_mbufs: "processed (map (Process \<circ> packet_of) ms) = map packet_of ms"
  by (induction ms) (simp_all add: processed_def)

lemma dpdk_timers_processed: "processed (snd (dpdk_timers c clock tm)) = []"
  by (simp add: dpdk_timers_def processed_def Let_def)

text \<open>A worker whose ring ends with NULL, and which looks at it often enough, processes everything in front of it, in order, and ends.\<close>

lemma dpdk_worker_loop_drains:
  "length ms < (\<Sum>(k, _)\<leftarrow>turns. min k WORKER_BURST_SIZE) \<Longrightarrow>
   \<exists>es. dpdk_worker_loop c turns (map Mbuf ms @ [Null]) tm = Inr (es, [], True) \<and> processed es = map packet_of ms"
proof (induction turns arbitrary: ms tm)
  case (Cons turn turns)
  obtain k clock where t: "turn = (k, clock)" by (cases turn)
  obtain tm' ts where tt: "dpdk_timers c clock tm = (tm', ts)" "processed ts = []"
    using dpdk_timers_processed [of c clock tm] by (cases "dpdk_timers c clock tm") simp
  define n where "n = min k WORKER_BURST_SIZE"
  show ?case
  proof (cases "n \<le> length ms")
    case True
    then have b: "take n (map Mbuf ms @ [Null]) = map Mbuf (take n ms)" "drop n (map Mbuf ms @ [Null]) = map Mbuf (drop n ms) @ [Null]"
      by (simp_all add: take_map drop_map)
    have "length (drop n ms) < (\<Sum>(k, _)\<leftarrow>turns. min k WORKER_BURST_SIZE)" using Cons.prems True by (simp add: t n_def)
    then obtain es where es: "dpdk_worker_loop c turns (map Mbuf (drop n ms) @ [Null]) tm' = Inr (es, [], True)" "processed es = map packet_of (drop n ms)"
      using Cons.IH by blast
    have "dpdk_worker_loop c (turn # turns) (map Mbuf ms @ [Null]) tm = Inr (map (Process \<circ> packet_of) (take n ms) @ ts @ es, [], True)"
      by (simp only: t dpdk_worker_loop.simps Let_def n_def [symmetric] b worker_burst_all bindE_Inr prod.case tt(1) if_True es(1))
    moreover have "map packet_of (take n ms) @ map packet_of (drop n ms) = map packet_of ms" by (simp only: map_append [symmetric] append_take_drop_id)
    ultimately show ?thesis using es(2) tt(2) by (simp add: processed_mbufs del: map_append)
  next
    case False
    then have b: "take n (map Mbuf ms @ [Null]) = map Mbuf ms @ [Null]" "drop n (map Mbuf ms @ [Null]) = []" by simp_all
    have "dpdk_worker_loop c (turn # turns) (map Mbuf ms @ [Null]) tm = Inr (map (Process \<circ> packet_of) ms @ ts, [], True)"
      by (simp only: t dpdk_worker_loop.simps Let_def n_def [symmetric] b worker_burst_last bindE_Inr prod.case tt(1) if_False)
    then show ?thesis using tt(2) by (simp add: processed_mbufs)
  qed
qed simp

lemma send_nulls_ok:
  "length full = length ls \<Longrightarrow> None \<notin> set full \<Longrightarrow> send_nulls full ls = Inr (map (\<lambda>l. l\<lparr>ring := ring l @ [Null]\<rparr>) ls)"
proof (induction full ls rule: send_nulls.induct)
  case (3 f full l ls)
  then show ?case by (cases f) auto
qed simp_all

text \<open>If the first attempt to push a buffer stored a part of it, the second one starts at the wrong place: eight packets of sixteen in the ring, and
  the second attempt offers the packets from index 1 on again; after nine, what it offers are no pointers.\<close>

lemma second_attempt_repeats:
  "length ps = 16 \<Longrightarrow> fst (push_buffer 8 1 ps) = map Mbuf (take 8 ps @ [ps ! 1])"
  by (simp add: push_buffer_def enqueue_burst_def pointers_at_def Let_def take_map upt_rec)

lemma second_attempt_torn:
  "length ps = 16 \<Longrightarrow> fst (push_buffer 9 1 ps) = map Mbuf (take 9 ps) @ [Torn]"
  by (simp add: push_buffer_def enqueue_burst_def pointers_at_def Let_def take_map upt_rec)

lemma torn_faults: "worker_burst (map Mbuf ms @ Torn # ps) = Inl OutOfBounds"
proof -
  have "process_burst (map Mbuf ms @ Torn # qs) = Inl OutOfBounds" for qs by (induction ms) simp_all
  then show ?thesis by (cases ps rule: rev_cases) (simp_all add: worker_burst_def butlast_append)
qed

lemma timeval64_parts:
  "ucast (timeval64 a b) = a" "ucast (drop_bit 32 (timeval64 a b)) = b"
proof -
  show "ucast (timeval64 a b) = a"
    by (rule bit_word_eqI) (auto simp: timeval64_def bit_simps)
  show "ucast (drop_bit 32 (timeval64 a b)) = b"
  proof (rule bit_word_eqI)
    fix n
    assume "n < LENGTH(32)"
    moreover have "\<not> bit a (32 + n)" using bit_imp_le_length [of a "32 + n"] by auto
    ultimately show "bit (ucast (drop_bit 32 (timeval64 a b)) :: u32) n = bit b n" by (simp add: timeval64_def bit_simps)
  qed
qed

section \<open>Lemmas on setting up\<close>

lemma exit_unless_Inr: "exit_unless b = Inr u \<longleftrightarrow> b"
  by (simp add: exit_unless_def)

lemma port_readers_rings:
  "port_readers P port n rs = Inr rss \<Longrightarrow> rss = map (\<lambda>r. map (\<lambda>i. (port, r, i)) [0..<n]) rs"
proof (induction rs arbitrary: rss)
  case (Cons r rs)
  then show ?case by (auto simp: bindE_eq_Inr exit_unless_Inr)
qed simp

definition port_rings :: "nat \<Rightarrow> nat \<Rightarrow> ring_id list" where
  "port_rings n port = map (\<lambda>i. (port, 0, i)) [0..<n] @ map (\<lambda>i. (port, 1, i)) [0..<n]"

lemma port_init_rings:
  "port_init P port sz nb = Inr rss \<Longrightarrow> concat rss = port_rings (nb div 2 mod 256) port"
proof -
  have u: "[0..<2 :: nat] = [0, 1]" by (simp add: upt_rec)
  assume "port_init P port sz nb = Inr rss"
  then have "port_readers P port (nb div 2 mod 256) [0, 1] = Inr rss"
    by (auto simp: port_init_def bindE_eq_Inr exit_unless_Inr NB_READERS_PER_PORT_def u)
  from port_readers_rings [OF this] show ?thesis by (simp add: port_rings_def)
qed

lemma init_ports_rings:
  "init_ports P sz nb ports = Inr rsss \<Longrightarrow> concat (concat rsss) = concat (map (port_rings (nb div 2 mod 256)) ports)"
proof (induction ports arbitrary: rsss)
  case (Cons port ports)
  then show ?case using port_init_rings by (auto simp: bindE_eq_Inr)
qed simp

lemma port_rings_distinct: "distinct ports \<Longrightarrow> distinct (concat (map (port_rings n) ports))"
proof (induction ports)
  case (Cons p ports)
  have "distinct (port_rings n p)" by (auto simp: port_rings_def distinct_map inj_on_def)
  moreover have "set (port_rings n p) \<inter> set (concat (map (port_rings n) ports)) = {}" using Cons.prems by (auto simp: port_rings_def)
  ultimately show ?case using Cons by simp
qed simp

lemma port_rings_length: "length (concat (map (port_rings n) ports)) = 2 * n * length ports"
  by (induction ports) (simp_all add: port_rings_def)

lemma find_ring_nth: "distinct xs \<Longrightarrow> i < length xs \<Longrightarrow> find_ring (xs ! i) xs k = Some (k + i)"
proof (induction xs arbitrary: i k)
  case (Cons x xs)
  then show ?case by (cases i) auto
qed simp

lemma attribute_drops_from:
  assumes "distinct workers" "length ns = length workers" "i + m = length workers" "length d = length workers" "take i d = take i ns"
  shows "attribute_drops (drop i (zip workers ns)) workers d = ns"
  using assms(3-5)
proof (induction m arbitrary: i d)
  case 0
  then show ?case using assms(2) by simp
next
  case (Suc m)
  have i: "i < length workers" using Suc.prems by simp
  then have "drop i (zip workers ns) = (workers ! i, ns ! i) # drop (Suc i) (zip workers ns)"
    using assms(2) by (simp add: Cons_nth_drop_Suc [symmetric])
  moreover have "take (Suc i) (d[i := ns ! i]) = take (Suc i) ns"
    using Suc.prems i assms(2) by (simp add: take_Suc_conv_app_nth)
  ultimately show ?case using Suc.IH [of "Suc i" "d[i := ns ! i]"] Suc.prems i find_ring_nth [OF assms(1) i, of 0] by simp
qed

text \<open>The pool of a reader with two workers or more is smaller than what its queues, buffers, rings and workers can hold together, since it counts one buffer only.\<close>

lemma pool_too_small:
  assumes "2 \<le> n" "1 \<le> sz" "n * (4096 + 287 + sz + 64) < 2 ^ 32"
  shows "unat (nb_pktmbuf sz n) < n * (RX_DESCRIPTORS + 287 + (sz - 1) + WORKER_BURST_SIZE)"
proof -
  define k where "k = n * 4096 + 288 + (sz + 64) * n + 10"
  have less: "k < n * (4096 + 287 + (sz - 1) + 64)" using assms(1,2) by (cases sz) (auto simp: k_def algebra_simps)
  moreover have "n * (4096 + 287 + (sz - 1) + 64) \<le> n * (4096 + 287 + sz + 64)" by simp
  ultimately have "k < 2 ^ 32" using assms(3) by linarith
  moreover have "nb_pktmbuf sz n = of_nat k"
    by (simp add: k_def nb_pktmbuf_def RX_DESCRIPTORS_def READER_BURST_SIZE_def READER_DRAIN_THRESH_def WORKER_BURST_SIZE_def)
  ultimately have "unat (nb_pktmbuf sz n) = k" by (simp add: unsigned_of_nat take_bit_nat_eq_self)
  then show ?thesis using less by (simp add: RX_DESCRIPTORS_def WORKER_BURST_SIZE_def)
qed

text \<open>The counters of the cards are not added: those of the last port remain.\<close>

lemma nic_statistics_of_last_port:
  "nic_receive (stat_turn (ports @ [(Some n, [])]) t) = ipackets n + imissed n + ierrors n"
proof -
  have "sum_ports (ports @ [(Some n, [])]) t = (sum_ports ports t)\<lparr>nic_drop := imissed n + ierrors n, nic_receive := ipackets n + imissed n + ierrors n\<rparr>" for t
    by (induction ports t rule: sum_ports.induct) (simp_all add: Let_def)
  then show ?thesis by (simp add: stat_turn_def)
qed

text \<open>Two workers; in the first turn both queues deliver, in the second, a second later, the ring of the second worker is full.\<close>

definition sample_mbuf :: "u8 \<Rightarrow> mbuf" where
  "sample_mbuf b = \<lparr>pkt_len = 60, data_len = 60, udata64 = 0, mbuf_data = [b]\<rparr>"

definition sample_turns :: "(timespec \<times> rx_input list) list" where
  "sample_turns =
     [(\<lparr>ts_sec = 100, ts_nsec = 5000\<rparr>, [\<lparr>rx = [sample_mbuf 1, sample_mbuf 2], room1 = 511, room2 = 511\<rparr>, \<lparr>rx = [sample_mbuf 3], room1 = 511, room2 = 511\<rparr>]),
      (\<lparr>ts_sec = 101, ts_nsec = 0\<rparr>, [\<lparr>rx = [sample_mbuf 4], room1 = 511, room2 = 511\<rparr>, \<lparr>rx = [], room1 = 0, room2 = 0\<rparr>]),
      (\<lparr>ts_sec = 101, ts_nsec = 9000\<rparr>, [\<lparr>rx = [sample_mbuf 5], room1 = 511, room2 = 511\<rparr>, \<lparr>rx = [], room1 = 511, room2 = 0\<rparr>])]"

definition sample_capture :: capture_conf where
  "sample_capture = \<lparr>mode = ONLINE_ANALYSIS, stat_period = 5, cache_period = 5, is_sampled = True\<rparr>"

definition sample_port :: port_env where
  "sample_port = \<lparr>dev_configure = 0, adjust_nb_desc = 0, pool_create_ok = (\<lambda>_. True), rings_malloc_ok = (\<lambda>_. True), queue_setup = (\<lambda>_. 0),
     ring_create_ok = (\<lambda>_ _. True), dev_start = 0\<rparr>"

section \<open>Properties\<close>



text \<open>
  C5: what the DPDK reader accepts is processed. If every ring, when a buffer is pushed, is full or has room for the whole buffer, then
  a worker that looks at its ring often enough ends after the reader, and it has processed, in the order of arrival and with the second of
  arrival as time stamp, exactly the packets received for it but those counted as dropped and those still in the buffer when the reader was stopped.
\<close>

theorem dpdk_packets_processed:
  assumes "turns_ok n turns" "list_all (\<lambda>(t, inps). list_all all_or_none inps) turns"
    and "length full = n" "None \<notin> set full" "w < n"
  shows "\<exists>s rs lost rest. reader_thread n turns full = Inr s \<and> mset rs + mset lost + mset rest = mset (got_for w turns) \<and> subseq (rs @ rest) (got_for w turns)
    \<and> pkts_dropped (lanes s ! w) = of_nat (length lost) \<and> length rest < 256
    \<and> (\<forall>looks. length rs < (\<Sum>(k, _)\<leftarrow>looks. min k WORKER_BURST_SIZE) \<longrightarrow>
         (\<exists>es. dpdk_worker_thread c start looks (ring (lanes s ! w)) = Inr (es, [], True) \<and> processed es = map packet_of rs))"
proof -
  obtain s xss where s: "reader_loop turns (reader_init n) = Inr s" "reader_inv s xss" "length xss = n" "all_clean s xss"
      "\<forall>v < n. xss ! v = got_for v turns"
    using reader_loop_step [OF reader_init_inv(1), of n turns] reader_init_inv(2) assms(1,2) by auto
  define l where "l = lanes s ! w"
  obtain rs where r: "ring l = map Mbuf rs" "mset rs + mset (freed l) + mset (packets l) = mset (got_for w turns)" "subseq (rs @ packets l) (got_for w turns)"
    using s(3-5) assms(5) by (auto simp: all_clean_def lane_clean_def l_def)
  have len: "length (lanes s) = n" using s(2,3) by (simp add: reader_inv_def)
  have ok: "pkts_dropped l = of_nat (length (freed l))" "length (packets l) < 256"
    using s(2,3,5) assms(5) by (auto simp: reader_inv_def lane_ok_def l_def)
  define s' where "s' = s\<lparr>lanes := map (\<lambda>l. l\<lparr>ring := ring l @ [Null]\<rparr>) (lanes s)\<rparr>"
  have t: "reader_thread n turns full = Inr s'" using s(1) send_nulls_ok [of full "lanes s"] assms(3,4) len by (simp add: reader_thread_def s'_def)
  have l': "lanes s' ! w = l\<lparr>ring := map Mbuf rs @ [Null]\<rparr>" using len assms(5) r(1) by (simp add: s'_def l_def)
  have "\<exists>es. dpdk_worker_thread c start looks (map Mbuf rs @ [Null]) = Inr (es, [], True) \<and> processed es = map packet_of rs"
    if "length rs < (\<Sum>(k, _)\<leftarrow>looks. min k WORKER_BURST_SIZE)" for looks
    using dpdk_worker_loop_drains [OF that, of c "\<lparr>next_stat_ts = start + stat_period c, next_output_ts = start + cache_period c, now = start\<rparr>"]
    by (auto simp: dpdk_worker_thread_def)
  then show ?thesis using t r(2,3) ok l' by (intro exI [of _ s'] exI [of _ rs] exI [of _ "freed l"] exI [of _ "packets l"]) simp
qed

theorem dpdk_packets_processed_witness:
  "\<exists>s rs lost rest es. reader_thread 2 sample_turns [Some 0, Some 3] = Inr s
    \<and> mset rs + mset lost + mset rest = mset (got_for 0 sample_turns)
    \<and> dpdk_worker_thread sample_capture 100 [(1, 101), (64, 102)] (ring (lanes s ! 0)) = Inr (es, [], True) \<and> processed es = map packet_of rs"
proof -
  have t: "turns_ok 2 sample_turns" by (simp add: turns_ok_def sample_turns_def READER_BURST_SIZE_def)
  have a: "list_all (\<lambda>(t, inps). list_all all_or_none inps) sample_turns"
    by (simp add: sample_turns_def all_or_none_def READER_BURST_SIZE_def READER_DRAIN_THRESH_def)
  obtain s rs lost rest where s: "reader_thread 2 sample_turns [Some 0, Some 3] = Inr s" "mset rs + mset lost + mset rest = mset (got_for 0 sample_turns)"
    "\<forall>looks. length rs < (\<Sum>(k, _)\<leftarrow>looks. min k WORKER_BURST_SIZE) \<longrightarrow>
       (\<exists>es. dpdk_worker_thread sample_capture 100 looks (ring (lanes s ! 0)) = Inr (es, [], True) \<and> processed es = map packet_of rs)"
    using dpdk_packets_processed [OF t a, of "[Some 0, Some 3]" 0 sample_capture 100] by auto
  have "length (got_for 0 sample_turns) = 4" by (simp add: got_for_def sample_turns_def stamped_def)
  then have "length rs \<le> 4" using arg_cong [OF s(2), of size] by simp
  then have "length rs < (\<Sum>(k, _)\<leftarrow>[(1, 101 :: int), (64, 102)]. min k WORKER_BURST_SIZE)" by (simp add: WORKER_BURST_SIZE_def)
  then show ?thesis using s by blast
qed

text \<open>
  When \<^verbatim>\<open>packet_capture_start\<close> gets through its checks with different ports, it has created exactly the configured number of workers, each with a ring of its own;
  and at the end the drops that the readers counted for the rings are recorded at the workers of these rings.
\<close>

theorem dpdk_drops_attributed:
  assumes "dpdk_start P cores sz total_nb_workers ports = Inr rsss" "distinct ports" "length ns = total_nb_workers"
  defines "workers \<equiv> concat (concat rsss)"
  shows "length workers = total_nb_workers \<and> distinct workers
    \<and> attribute_drops (zip workers ns) workers (replicate total_nb_workers 0) = ns"
proof -
  have p: "ports \<noteq> []" "total_nb_workers mod (length ports * 2) = 0" "total_nb_workers \<le> length workers"
      "init_ports P sz (total_nb_workers div length ports mod 256) ports = Inr rsss"
    using assms(1) by (auto simp: dpdk_start_def Let_def bindE_eq_Inr exit_unless_Inr NB_READERS_PER_PORT_def workers_def split: if_splits)
  define n where "n = total_nb_workers div length ports mod 256 div 2 mod 256"
  have w: "workers = concat (map (port_rings n) ports)" using init_ports_rings [OF p(4)] by (simp add: workers_def n_def)
  have "2 * n \<le> total_nb_workers div length ports"
  proof -
    have "n \<le> total_nb_workers div length ports mod 256 div 2" unfolding n_def by (rule mod_less_eq_dividend)
    also have "\<dots> \<le> total_nb_workers div length ports div 2" by (intro div_le_mono mod_less_eq_dividend)
    finally show ?thesis by simp
  qed
  then have "2 * n * length ports \<le> total_nb_workers" using div_times_less_eq_dividend [of total_nb_workers "length ports"] mult_le_mono1 [of "2 * n" "total_nb_workers div length ports" "length ports"] by linarith
  then have len: "length workers = total_nb_workers" using p(3) w port_rings_length [of n ports] by simp
  have d: "distinct workers" using port_rings_distinct [OF assms(2)] w by simp
  have "attribute_drops (zip workers ns) workers (replicate total_nb_workers 0) = ns"
    using attribute_drops_from [OF d, of ns 0 "length workers" "replicate total_nb_workers 0"] assms(3) len by simp
  then show ?thesis using len d by simp
qed

theorem dpdk_drops_attributed_witness:
  "\<exists>rsss. dpdk_start (\<lambda>_. sample_port) 16 512 4 [0, 1] = Inr rsss
    \<and> attribute_drops (zip (concat (concat rsss)) [7, 0, 3, 1]) (concat (concat rsss)) (replicate 4 0) = [7, 0, 3, 1]"
proof -
  have "\<not> isl (dpdk_start (\<lambda>_. sample_port) 16 512 4 [0, 1])" by code_simp
  then obtain rsss where "dpdk_start (\<lambda>_. sample_port) 16 512 4 [0, 1] = Inr rsss" by (cases "dpdk_start (\<lambda>_. sample_port) 16 512 4 [0, 1]") auto
  then show ?thesis using dpdk_drops_attributed [of "\<lambda>_. sample_port" 16 512 4 "[0, 1]" rsss "[7, 0, 3, 1]"] by simp
qed

text \<open>
  The time stamp that the reader stores in a packet as one 64-bit number is the one the worker reads, to the microsecond, for seconds below \<open>2 ^ 32\<close>.
\<close>

theorem dpdk_timestamp_roundtrip:
  assumes "0 \<le> ts_sec t" "ts_sec t < 2 ^ 32" "0 \<le> ts_nsec t" "ts_nsec t < 10 ^ 9"
  shows "uint64_to_timeval (time_to_uint64 t) = \<lparr>tv_sec = ts_sec t, tv_usec = ts_nsec t div 1000\<rparr>
    \<and> uint (tv_sec_from_uint64 (time_to_uint64 t)) = ts_sec t"
  using assms by (simp add: uint64_to_timeval_def time_to_uint64_def tv_sec_from_uint64_def timeval64_parts uint_div unsigned_of_int take_bit_int_eq_self)

theorem dpdk_timestamp_roundtrip_witness:
  "uint64_to_timeval (time_to_uint64 \<lparr>ts_sec = 1700000000, ts_nsec = 123456789\<rparr>) = \<lparr>tv_sec = 1700000000, tv_usec = 123456\<rparr>"
  using dpdk_timestamp_roundtrip [of "\<lparr>ts_sec = 1700000000, ts_nsec = 123456789\<rparr>"] by simp

end
