(* ===== verification/Stream_Capture.thy ===== *)
theory Stream_Capture
  imports Pcap_Capture
begin

text \<open>
  The front end that reads a file line by line, \<^verbatim>\<open>src/src/modules/packet_capture/stream/stream_capture.c\<close>. It runs in one thread and
  processes each line as a packet. \<^verbatim>\<open>getdelim\<close> and the clock are inputs: a line is given with the whole buffer that holds it, whose size is the \<^verbatim>\<open>len\<close> of the code.
\<close>

text \<open>What a call of \<^verbatim>\<open>getdelim\<close> gives: the buffer, and the number of characters read, not positive at the end.\<close>

record stream_line =
  line_buffer :: "u8 list"
  line_read :: int

record stream_state =
  st_timers :: timers
  st_processed :: nat
  st_bytes :: nat
  st_packets :: nat

text \<open>\<^verbatim>\<open>_got_a_line\<close>, always called with data; the static variables are \<open>st_timers\<close>. \<open>clock\<close> is \<^verbatim>\<open>time(NULL)\<close>.\<close>

definition line_packet :: "int \<Rightarrow> u8 list \<Rightarrow> packet" where
  "line_packet clock data = \<lparr>p_len = length data, p_caplen = length data, p_ts = \<lparr>tv_sec = clock, tv_usec = 0\<rparr>, p_data = data\<rparr>"

definition stream_timers :: "capture_conf \<Rightarrow> bool \<Rightarrow> timers \<Rightarrow> timers \<times> cap_event list" where
  "stream_timers c is_smp tm =
     (let tm = (if next_output_ts tm = 0 \<and> now tm \<noteq> 0
                then tm\<lparr>next_stat_ts := now tm + stat_period c, next_output_ts := now tm + cache_period c\<rparr> else tm);
          (tm, e1) = (if now tm > next_stat_ts tm
                      then (tm\<lparr>next_stat_ts := next_stat_ts tm + stat_period c\<rparr>,
                            (if mode c = ONLINE_ANALYSIS then [Traffic_statistics] else []) @ (if is_smp then [] else [Stat_period]))
                      else (tm, []));
          (tm, e2) = (if \<not> is_smp \<and> is_sampled c \<and> now tm > next_output_ts tm
                      then (tm\<lparr>next_output_ts := next_output_ts tm + cache_period c\<rparr>, [Sample_file_period]) else (tm, []))
      in (tm, e1 @ e2))"

definition got_a_line :: "capture_conf \<Rightarrow> bool \<Rightarrow> int \<Rightarrow> u8 list \<Rightarrow> stream_state \<Rightarrow> stream_state \<times> cap_event list" where
  "got_a_line c is_smp clock data s =
     (let tm = (st_timers s)\<lparr>now := clock\<rparr>;
          (tm, es) = stream_timers c is_smp tm
      in (s\<lparr>st_timers := tm, st_processed := st_processed s + 1, st_bytes := st_bytes s + length data, st_packets := st_packets s + 1\<rparr>,
          Process (line_packet clock data) # es))"

text \<open>The loop: each turn has the value of \<^verbatim>\<open>is_exiting\<close>, the line and the clock; the last component tells whether the loop ended.\<close>

fun stream_loop :: "capture_conf \<Rightarrow> (bool \<times> stream_line \<times> int) list \<Rightarrow> stream_state \<Rightarrow> stream_state \<times> cap_event list \<times> bool" where
  "stream_loop c [] s = (s, [], False)"
| "stream_loop c ((is_exiting, l, clock) # turns) s =
     (if is_exiting then (s, [], True)
      else if line_read l > 0
      then let (s, es) = got_a_line c False clock (line_buffer l) s; (s, es', stopped) = stream_loop c turns s in (s, es @ es', stopped)
      else (s, [], True))"

text \<open>\<^verbatim>\<open>packet_capture_start\<close>: several threads and online analysis are refused, after the worker was started.\<close>

definition stream_start :: "capture_conf \<Rightarrow> nat \<Rightarrow> bool \<Rightarrow> (bool \<times> stream_line \<times> int) list \<Rightarrow> (stream_state \<times> cap_event list) cres" where
  "stream_start c thread_count opened turns =
     (if thread_count \<noteq> 0 then Inl Aborted
      else if mode c \<noteq> OFFLINE_ANALYSIS \<or> \<not> opened then Inl Aborted
      else let (s, es, stopped) = stream_loop c turns
                 \<lparr>st_timers = \<lparr>next_stat_ts = 0, next_output_ts = 0, now = 0\<rparr>, st_processed = 0, st_bytes = 0, st_packets = 0\<rparr>
           in Inr (s, On_start # es @ (if stopped then [On_stop] else [])))"

section \<open>Lemmas\<close>

text \<open>The lines that are read before the end, with the time of their reading.\<close>

fun lines_of :: "(bool \<times> stream_line \<times> int) list \<Rightarrow> (int \<times> u8 list) list" where
  "lines_of [] = []"
| "lines_of ((is_exiting, l, clock) # turns) =
     (if is_exiting \<or> line_read l \<le> 0 then [] else (clock, line_buffer l) # lines_of turns)"

lemma stream_timers_processed: "processed (snd (stream_timers c is_smp tm)) = []"
  by (simp add: stream_timers_def processed_def Let_def)

lemma stream_loop_processes:
  assumes "stream_loop c turns s = (s', es, stopped)"
  shows "processed es = map (\<lambda>(t, d). line_packet t d) (lines_of turns)"
    and "st_processed s' = st_processed s + length (lines_of turns)" "st_packets s' = st_packets s + length (lines_of turns)"
    and "st_bytes s' = st_bytes s + (\<Sum>(t, d)\<leftarrow>lines_of turns. length d)"
proof -
  have "processed es = map (\<lambda>(t, d). line_packet t d) (lines_of turns) \<and> st_processed s' = st_processed s + length (lines_of turns)
    \<and> st_packets s' = st_packets s + length (lines_of turns) \<and> st_bytes s' = st_bytes s + (\<Sum>(t, d)\<leftarrow>lines_of turns. length d)"
    using assms
  proof (induction c turns s arbitrary: s' es rule: stream_loop.induct)
    case (2 c is_exiting l clock turns s)
    show ?case
    proof (cases "is_exiting \<or> line_read l \<le> 0")
      case True
      then show ?thesis using "2.prems" by (auto split: if_splits)
    next
      case False
      obtain tm ts where t: "stream_timers c False ((st_timers s)\<lparr>now := clock\<rparr>) = (tm, ts)" "processed ts = []"
        using stream_timers_processed [of c False "(st_timers s)\<lparr>now := clock\<rparr>"] by (cases "stream_timers c False ((st_timers s)\<lparr>now := clock\<rparr>)") simp
      obtain s1 es1 where g: "got_a_line c False clock (line_buffer l) s = (s1, es1)" by fastforce
      have g': "processed es1 = [line_packet clock (line_buffer l)]" "st_processed s1 = st_processed s + 1" "st_packets s1 = st_packets s + 1"
          "st_bytes s1 = st_bytes s + length (line_buffer l)"
        using g t by (auto simp: got_a_line_def Let_def)
      obtain s2 es2 st where r: "stream_loop c turns s1 = (s2, es2, st)" using prod_cases3 by blast
      have "s' = s2" "es = es1 @ es2" "st = stopped" using "2.prems" False g r by auto
      then show ?thesis using "2.IH" [of "(s1, es1)" s1 es1 s2 es2] r g g' False by (auto split: if_splits)
    qed
  qed simp
  then show "processed es = map (\<lambda>(t, d). line_packet t d) (lines_of turns)"
    "st_processed s' = st_processed s + length (lines_of turns)" "st_packets s' = st_packets s + length (lines_of turns)"
    "st_bytes s' = st_bytes s + (\<Sum>(t, d)\<leftarrow>lines_of turns. length d)" by simp_all
qed

text \<open>A line is processed with the size of its buffer instead of its own length.\<close>

lemma line_has_size_of_buffer:
  assumes "line_read l = 4" "length (line_buffer l) = 120"
  shows "processed (snd (got_a_line c False clock (line_buffer l) s)) = [line_packet clock (line_buffer l)] \<and> p_caplen (line_packet clock (line_buffer l)) = 120"
proof -
  have "processed (snd (got_a_line c False clock (line_buffer l) s)) = [line_packet clock (line_buffer l)]"
    using stream_timers_processed [of c False "(st_timers s)\<lparr>now := clock\<rparr>"] by (cases "stream_timers c False ((st_timers s)\<lparr>now := clock\<rparr>)") (simp add: got_a_line_def Let_def)
  then show ?thesis using assms(2) by (simp add: line_packet_def)
qed

text \<open>Each line in the file becomes one packet, in order, and is counted.\<close>

lemma stream_packets:
  assumes "stream_start c 0 True turns = Inr (s, es)"
  shows "processed es = map (\<lambda>(t, d). line_packet t d) (lines_of turns) \<and> st_processed s = length (lines_of turns) \<and> st_packets s = length (lines_of turns)"
proof -
  obtain s' es' stopped where r: "stream_loop c turns \<lparr>st_timers = \<lparr>next_stat_ts = 0, next_output_ts = 0, now = 0\<rparr>, st_processed = 0, st_bytes = 0, st_packets = 0\<rparr>
      = (s', es', stopped)" using prod_cases3 by blast
  have "s = s'" "processed es = processed es'" using assms r by (auto simp: stream_start_def split: if_splits)
  then show ?thesis using stream_loop_processes [OF r] by simp
qed

end
