(* ===== verification/Config.thy ===== *)
theory Config
  imports Tools
begin

text \<open>
  Loading and validation of the configuration, \<^verbatim>\<open>src/src/configure.c\<close> with the structures of
  \<^verbatim>\<open>configure.h\<close>. The parser library libconfuse is a parameter: a record \<open>cfg_api\<close> of its accessors
  over an abstract document type; the option tables handed to it are the lists
  \<open>*_opts\<close>. A pointer that may be NULL is an option value, dereferencing NULL is \<open>Inl OutOfBounds\<close>, and
  integers are cut to the width of the field that stores them.
\<close>

section \<open>Parsers of single values\<close>

datatype forward_action = ACTION_FORWARD | ACTION_DROP

definition conf_parse_forward_default_action :: "string \<Rightarrow> forward_action option" where
  "conf_parse_forward_default_action value =
     (if value = ''FORWARD'' then Some ACTION_FORWARD
      else if value = ''DROP'' then Some ACTION_DROP
      else None)"

text \<open>The enumerators are their numbers in the options and fields: \<^verbatim>\<open>ONLINE_ANALYSIS\<close> is 0.\<close>

definition conf_parse_input_mode :: "string \<Rightarrow> nat option" where
  "conf_parse_input_mode value =
     (if value = ''ONLINE'' then Some 0
      else if value = ''OFFLINE'' then Some 1
      else None)"

definition conf_parse_rtt_base :: "string \<Rightarrow> nat option" where
  "conf_parse_rtt_base value =
     (if value = ''PREFER_SENDER'' then Some 3
      else if value = ''SENDER'' then Some 1
      else if value = ''CAPTOR'' then Some 2
      else None)"

definition to_lower :: "char \<Rightarrow> char" where
  "to_lower c = (let k = of_char c :: nat in if 65 \<le> k \<and> k \<le> 90 then char_of (k + 32) else c)"

definition strcasecmp_eq :: "string \<Rightarrow> string \<Rightarrow> bool" where
  "strcasecmp_eq a b \<longleftrightarrow> map to_lower a = map to_lower b"

definition conf_parse_output_format :: "string option \<Rightarrow> nat option" where
  "conf_parse_output_format value =
     (case value of None \<Rightarrow> Some 0
      | Some v \<Rightarrow> if v = [] \<or> strcasecmp_eq v ''CSV'' then Some 0
                  else if strcasecmp_eq v ''JSON'' then Some 1
                  else None)"

definition conf_parse_socket_type :: "string \<Rightarrow> nat option" where
  "conf_parse_socket_type value =
     (if value = ''UNIX'' then Some 1
      else if value = ''INTERNET'' then Some 2
      else if value = ''BOTH'' then Some 0
      else None)"

definition conf_parse_ip_encapsulation_index :: "string \<Rightarrow> int option" where
  "conf_parse_ip_encapsulation_index value =
     (if value = ''FIRST'' then Some 1
      else if value = ''LAST'' then Some 16
      else let val = atoi value
           in if val \<ge> 1 then (if val \<le> 16 then Some val else Some 16) else None)"

section \<open>The option tables\<close>

datatype cfg_opt =
    CFG_BOOL string bool
  | CFG_INT string int
  | CFG_INT_CB string int
  | CFG_STR string "string option"
  | CFG_STR_LIST string
  | CFG_SEC string "cfg_opt list"
  | CFG_SEC_MULTI string "cfg_opt list"

definition micro_flows_opts :: "cfg_opt list" where
  "micro_flows_opts =
     [CFG_BOOL ''enable'' False, CFG_INT ''packet-threshold'' 10, CFG_INT ''byte-threshold'' 5,
      CFG_INT ''report-packet-count'' 10000, CFG_INT ''report-byte-count'' 5000,
      CFG_INT ''report-flow-count'' 1000, CFG_STR_LIST ''output-channel'']"

definition session_timeout_opts :: "cfg_opt list" where
  "session_timeout_opts =
     [CFG_INT ''default-session-timeout'' 60, CFG_INT ''long-session-timeout'' 600,
      CFG_INT ''short-session-timeout'' 15, CFG_INT ''live-session-timeout'' 1500]"

definition redis_output_opts :: "cfg_opt list" where
  "redis_output_opts =
     [CFG_STR ''hostname'' (Some ''localhost''), CFG_STR ''channel'' (Some ''report''),
      CFG_INT ''port'' 6379, CFG_BOOL ''enable'' False]"

definition kafka_output_opts :: "cfg_opt list" where
  "kafka_output_opts =
     [CFG_STR ''hostname'' (Some ''localhost''), CFG_STR ''topic'' (Some ''report''),
      CFG_INT ''port'' 9092, CFG_BOOL ''enable'' False]"

definition mongodb_output_opts :: "cfg_opt list" where
  "mongodb_output_opts =
     [CFG_STR ''hostname'' (Some ''localhost''), CFG_INT ''port'' 27017, CFG_BOOL ''enable'' False,
      CFG_STR ''database'' (Some ''mmt-data''), CFG_STR ''collection'' (Some ''reports''),
      CFG_INT ''limit-size'' 0]"

definition dynamic_conf_opts :: "cfg_opt list" where
  "dynamic_conf_opts = [CFG_STR ''descriptor'' (Some ''''), CFG_BOOL ''enable'' False]"

definition file_output_opts :: "cfg_opt list" where
  "file_output_opts =
     [CFG_BOOL ''enable'' False, CFG_STR ''output-file'' None, CFG_STR ''output-dir'' None,
      CFG_INT ''retain-files'' 0, CFG_BOOL ''sample-file'' True]"

definition dump_pcap_opts :: "cfg_opt list" where
  "dump_pcap_opts =
     [CFG_BOOL ''enable'' False, CFG_STR ''output-dir'' None, CFG_STR_LIST ''protocols'',
      CFG_INT ''period'' 0, CFG_INT ''retain-files'' 0, CFG_INT ''snap-len'' 0]"

definition forward_packet_opts :: "cfg_opt list" where
  "forward_packet_opts =
     [CFG_BOOL ''enable'' False, CFG_STR ''output-nic'' None, CFG_INT ''snap-len'' 0,
      CFG_INT ''nb-copies'' 1, CFG_INT ''promisc'' 0, CFG_INT_CB ''default'' 0,
      CFG_STR_LIST ''target-protocols'', CFG_STR_LIST ''target-hosts'', CFG_STR_LIST ''target-ports'']"

definition security2_opts :: "cfg_opt list" where
  "security2_opts =
     [CFG_BOOL ''enable'' False, CFG_BOOL ''report-rule-description'' True, CFG_INT ''thread-nb'' 0,
      CFG_STR ''rules-mask'' None, CFG_STR ''exclude-rules'' None, CFG_STR_LIST ''output-channel'',
      CFG_INT ''input.max-message-size'' 0, CFG_INT ''security.max-instances'' 0,
      CFG_INT ''security.smp.ring-size'' 0, CFG_BOOL ''ignore-remain-flow'' False,
      CFG_INT_CB ''ip-encapsulation-index'' 0]"

definition cpu_mem_report_opts :: "cfg_opt list" where
  "cpu_mem_report_opts = [CFG_BOOL ''enable'' False, CFG_INT ''period'' 0, CFG_STR_LIST ''output-channel'']"

definition reconstruct_data_opts :: "cfg_opt list" where
  "reconstruct_data_opts = [CFG_BOOL ''enable'' False, CFG_STR ''output-dir'' None, CFG_STR_LIST ''output-channel'']"

definition radius_output_opts :: "cfg_opt list" where
  "radius_output_opts = [CFG_BOOL ''enable'' False, CFG_INT ''message-id'' 0, CFG_STR_LIST ''output-channel'']"

definition data_output_opts :: "cfg_opt list" where
  "data_output_opts = [CFG_INT ''include-user-agent'' 32]"

definition event_report_opts :: "cfg_opt list" where
  "event_report_opts =
     [CFG_BOOL ''enable'' False, CFG_STR ''event'' (Some ''''), CFG_STR_LIST ''attributes'',
      CFG_STR_LIST ''output-channel'']"

definition socket_opts :: "cfg_opt list" where
  "socket_opts =
     [CFG_BOOL ''enable'' False, CFG_INT_CB ''type'' 0, CFG_INT ''port'' 0,
      CFG_STR ''hostname'' (Some ''localhost''), CFG_STR ''descriptor'' (Some ''/tmp/probe-output.sock'')]"

definition session_report_opts :: "cfg_opt list" where
  "session_report_opts =
     [CFG_BOOL ''enable'' False, CFG_BOOL ''ftp'' False, CFG_BOOL ''rtp'' False, CFG_BOOL ''http'' False,
      CFG_BOOL ''ssl'' False, CFG_BOOL ''gtp'' False, CFG_INT_CB ''rtt-base'' 1, CFG_STR_LIST ''output-channel'']"

definition input_opts :: "cfg_opt list" where
  "input_opts =
     [CFG_INT_CB ''mode'' 0, CFG_STR ''source'' (Some ''''), CFG_INT ''snap-len'' 65535,
      CFG_STR ''dpdk-option'' (Some '''')]"

definition output_opts :: "cfg_opt list" where
  "output_opts = [CFG_INT_CB ''format'' 0, CFG_INT ''cache-max'' 1000, CFG_INT ''cache-period'' 5]"

definition opts :: "cfg_opt list" where
  "opts =
     [CFG_SEC ''input'' input_opts, CFG_SEC ''micro-flows'' micro_flows_opts,
      CFG_SEC ''session-timeout'' session_timeout_opts, CFG_SEC ''output'' output_opts,
      CFG_SEC ''file-output'' file_output_opts, CFG_SEC ''redis-output'' redis_output_opts,
      CFG_SEC ''kafka-output'' kafka_output_opts, CFG_SEC ''data-output'' data_output_opts,
      CFG_SEC ''socket-output'' socket_opts, CFG_SEC ''security'' security2_opts,
      CFG_SEC ''system-report'' cpu_mem_report_opts, CFG_SEC ''behaviour'' file_output_opts,
      CFG_SEC_MULTI ''reconstruct-data'' reconstruct_data_opts, CFG_SEC ''mongodb-output'' mongodb_output_opts,
      CFG_SEC ''radius-report'' radius_output_opts, CFG_SEC ''dump-pcap'' dump_pcap_opts,
      CFG_SEC ''forward-packet'' forward_packet_opts, CFG_INT ''stats-period'' 5,
      CFG_BOOL ''enable-proto-without-session-report'' False, CFG_BOOL ''enable-ip-fragmentation-report'' False,
      CFG_BOOL ''enable-ip-defragmentation'' False, CFG_BOOL ''enable-tcp-reassembly'' False,
      CFG_INT ''thread-nb'' 1, CFG_INT ''thread-queue'' 0, CFG_INT ''probe-id'' 0, CFG_INT ''stack-type'' 1,
      CFG_STR ''logfile'' None, CFG_STR ''license'' None, CFG_INT ''loglevel'' 2, CFG_STR ''dpdk-option'' None,
      CFG_SEC_MULTI ''event-report'' event_report_opts, CFG_SEC ''session-report'' session_report_opts,
      CFG_SEC ''dynamic-config'' dynamic_conf_opts]"

section \<open>Access to the parsed document\<close>

text \<open>The libconfuse functions, over an abstract document \<open>'c\<close>. \<^verbatim>\<open>cfg_parse_buf\<close> is given the option
  name and the text between the braces.\<close>

record 'c cfg_api =
  cfg_getint :: "'c \<Rightarrow> string \<Rightarrow> int"
  cfg_getbool :: "'c \<Rightarrow> string \<Rightarrow> bool"
  cfg_getstr :: "'c \<Rightarrow> string \<Rightarrow> string option"
  cfg_size :: "'c \<Rightarrow> string \<Rightarrow> nat"
  cfg_getnstr :: "'c \<Rightarrow> string \<Rightarrow> nat \<Rightarrow> string"
  cfg_getnsec :: "'c \<Rightarrow> string \<Rightarrow> nat \<Rightarrow> 'c"
  cfg_title :: "'c \<Rightarrow> string"
  cfg_parse :: "cfg_opt list \<Rightarrow> string \<Rightarrow> 'c option"
  cfg_parse_buf :: "cfg_opt list \<Rightarrow> string \<Rightarrow> 'c option"

definition u16_of :: "int \<Rightarrow> nat" where "u16_of x = nat (x mod 2 ^ 16)"
definition u32_of :: "int \<Rightarrow> nat" where "u32_of x = nat (x mod 2 ^ 32)"

definition load_cfg_from_file :: "'c cfg_api \<Rightarrow> string \<Rightarrow> 'c option" where
  "load_cfg_from_file A filename = cfg_parse A opts filename"

definition cfg_get_str :: "'c cfg_api \<Rightarrow> 'c \<Rightarrow> string \<Rightarrow> string option" where
  "cfg_get_str A cfg header = cfg_getstr A cfg header"

text \<open>\<^verbatim>\<open>dir[len-1]\<close> with an empty string reads one byte before the buffer.\<close>

definition cfg_get_dir :: "'c cfg_api \<Rightarrow> 'c \<Rightarrow> string \<Rightarrow> string option cres" where
  "cfg_get_dir A cfg header =
     (case cfg_getstr A cfg header of None \<Rightarrow> Inr None
      | Some str \<Rightarrow>
          if str = [] then Inl OutOfBounds
          else if str ! (length str - 1) \<noteq> CHR ''/'' then Inr (Some (str @ ''/''))
          else Inr (Some str))"

definition get_first_cfg_block :: "'c cfg_api \<Rightarrow> 'c \<Rightarrow> string \<Rightarrow> 'c option" where
  "get_first_cfg_block A cfg block_name =
     (if cfg_size A cfg block_name = 0 then None else Some (cfg_getnsec A cfg block_name 0))"

definition cfg_getint_in :: "'c cfg_api \<Rightarrow> 'c \<Rightarrow> string \<Rightarrow> int \<Rightarrow> int \<Rightarrow> int \<Rightarrow> int \<Rightarrow> int" where
  "cfg_getint_in A cfg ident lo hi def_val replaced_val =
     (let val = cfg_getint A cfg ident
      in if val < lo \<or> val > hi then replaced_val
         else if val = def_val then replaced_val
         else val)"

section \<open>The configuration structures\<close>

record file_output_conf =
  fo_is_enable :: bool
  fo_directory :: "string option"
  fo_filename :: "string option"
  fo_is_sampled :: bool
  fo_retained_files_count :: nat

record host_conf =
  host_name :: "string option"
  port_number :: nat

record channel_output_conf =
  co_is_enable :: bool
  co_host :: host_conf
  co_channel :: "string option"

record mongodb_output_conf =
  mo_is_enable :: bool
  mo_host :: host_conf
  database_name :: "string option"
  collection_name :: "string option"
  limit_size :: nat

record input_source_conf =
  in_mode :: int
  in_source :: "string option"
  in_snap_len :: nat

record dynamic_config_conf =
  dc_is_enable :: bool
  dc_descriptor :: "string option"

record security_conf =
  sec_is_enable :: bool
  is_report_rule_description :: bool
  ignore_remain_flow :: bool
  threads_size :: nat
  excluded_rules :: "string option"
  rules_mask :: "string option"
  sec_output_channels :: nat
  input_max_message_size :: nat
  security_max_instances :: nat
  security_smp_ring_size :: nat
  ip_encapsulation_index :: int

record system_stats_conf =
  cm_is_enable :: bool
  cm_frequency :: nat
  cm_output_channels :: nat

record pcap_dump_conf =
  pd_is_enable :: bool
  pd_directory :: "string option"
  pd_frequency :: nat
  pd_protocols :: "string list"
  pd_retained_files_count :: nat
  pd_snap_len :: nat

datatype forward_proto = FORWARD_PACKET_PROTO_SCTP | FORWARD_PACKET_PROTO_UDP

record forward_packet_target_conf =
  t_protocol :: forward_proto
  t_host :: string
  t_port :: nat

record forward_packet_conf =
  fp_is_enable :: bool
  fp_output_nic :: "string option"
  fp_snap_len :: nat
  fp_promisc :: nat
  fp_nb_copies :: nat
  fp_default_action :: int
  fp_targets :: "forward_packet_target_conf list"

record reconstruct_data_conf =
  rd_is_enable :: bool
  rd_directory :: "string option"
  rd_output_channels :: nat

record dpi_protocol_attribute =
  proto_name :: string
  attribute_name :: string

record socket_output_conf =
  so_is_enable :: bool
  so_socket_type :: int
  so_unix_descriptor :: "string option"
  so_internet_socket :: host_conf

record micro_flow_conf =
  mf_is_enable :: bool
  packet_threshold :: nat
  byte_threshold :: nat
  report_packets_count :: nat
  report_bytes_count :: nat
  report_flows_count :: nat
  mf_output_channels :: nat

record session_timeout_conf =
  default_session_timeout :: nat
  long_session_timeout :: nat
  short_session_timeout :: nat
  live_session_timeout :: nat

record event_report_conf =
  ev_is_enable :: bool
  ev_title :: string
  ev_event :: dpi_protocol_attribute
  ev_attributes :: "dpi_protocol_attribute list"
  ev_output_channels :: nat

record session_report_conf =
  se_is_enable :: bool
  se_output_channels :: nat
  is_ftp :: bool
  is_http :: bool
  is_ssl :: bool
  is_rtp :: bool
  is_gtp :: bool
  rtt_base :: int

record radius_report_conf =
  ra_is_enable :: bool
  ra_message_code :: nat
  ra_output_channels :: nat

record multi_thread_conf =
  thread_count :: nat
  thread_queue_packet_threshold :: nat

record output_conf =
  out_is_enable :: bool
  out_cache_max :: nat
  out_cache_period :: nat
  out_file :: "file_output_conf option"
  out_redis :: "channel_output_conf option"
  out_kafka :: "channel_output_conf option"
  out_mongodb :: "mongodb_output_conf option"
  out_socket :: "socket_output_conf option"
  out_format :: int

record report_conf =
  security :: "security_conf option"
  cpu_mem :: "system_stats_conf option"
  behaviour :: "file_output_conf option"
  microflow :: "micro_flow_conf option"
  session :: "session_report_conf option"
  events :: "event_report_conf list"
  pcap_dump :: "pcap_dump_conf option"
  radius :: "radius_report_conf option"

record probe_flags =
  is_enable_ip_fragmentation_report :: bool
  is_enable_proto_no_session_report :: bool
  is_enable_ip_defragmentation :: bool
  is_enable_tcp_reassembly :: bool

record probe_conf =
  flags :: probe_flags
  stack_type :: nat
  probe_id :: nat
  outputs :: output_conf
  thread :: multi_thread_conf
  session_timeout :: "session_timeout_conf option"
  dynamic_conf :: "dynamic_config_conf option"
  forward_packet :: "forward_packet_conf option"
  reports :: report_conf
  http :: "reconstruct_data_conf option"
  ftp :: "reconstruct_data_conf option"
  conf_stat_period :: nat
  license_file :: "string option"
  input :: "input_source_conf option"
  dpdk_options :: "string option"

section \<open>The blocks\<close>

definition parse_input_source :: "'c cfg_api \<Rightarrow> 'c \<Rightarrow> input_source_conf option" where
  "parse_input_source A cfg =
     map_option (\<lambda>c.
        let snap = u16_of (cfg_getint A c ''snap-len'')
        in \<lparr>in_mode = int32_of (cfg_getint A c ''mode''), in_source = cfg_get_str A c ''source'',
            in_snap_len = if snap = 0 then 65535 else snap\<rparr>)
       (get_first_cfg_block A cfg ''input'')"

definition parse_output_to_file :: "'c cfg_api \<Rightarrow> 'c \<Rightarrow> file_output_conf option cres" where
  "parse_output_to_file A cfg =
     (case get_first_cfg_block A cfg ''file-output'' of None \<Rightarrow> Inr None
      | Some c \<Rightarrow> bindE (cfg_get_dir A c ''output-dir'') (\<lambda>dir.
          Inr (Some \<lparr>fo_is_enable = cfg_getbool A c ''enable'', fo_directory = dir,
            fo_filename = cfg_get_str A c ''output-file'', fo_is_sampled = cfg_getbool A c ''sample-file'',
            fo_retained_files_count = u16_of (cfg_getint A c ''retain-files'')\<rparr>)))"

definition get_str_list :: "'c cfg_api \<Rightarrow> 'c \<Rightarrow> string \<Rightarrow> nat \<Rightarrow> string list" where
  "get_str_list A c name n = map (cfg_getnstr A c name) [0..<n]"

definition parse_dump_to_file :: "'c cfg_api \<Rightarrow> 'c \<Rightarrow> pcap_dump_conf option cres" where
  "parse_dump_to_file A cfg =
     (case get_first_cfg_block A cfg ''dump-pcap'' of None \<Rightarrow> Inr None
      | Some c \<Rightarrow> bindE (cfg_get_dir A c ''output-dir'') (\<lambda>dir.
          let protocols_size = u16_of (int (cfg_size A c ''protocols''))
          in Inr (Some \<lparr>pd_is_enable = cfg_getbool A c ''enable'', pd_directory = dir,
               pd_frequency = u16_of (cfg_getint A c ''period''),
               pd_protocols = get_str_list A c ''protocols'' protocols_size,
               pd_retained_files_count = u16_of (cfg_getint A c ''retain-files''),
               pd_snap_len = u16_of (cfg_getint A c ''snap-len'')\<rparr>)))"

definition parse_target :: "'c cfg_api \<Rightarrow> 'c \<Rightarrow> nat \<Rightarrow> forward_packet_target_conf cres" where
  "parse_target A c i =
     (let proto = cfg_getnstr A c ''target-protocols'' i
      in bindE (if proto = ''SCTP'' then Inr FORWARD_PACKET_PROTO_SCTP
                else if proto = ''UDP'' then Inr FORWARD_PACKET_PROTO_UDP
                else Inl Aborted) (\<lambda>p.
         Inr \<lparr>t_protocol = p, t_host = cfg_getnstr A c ''target-hosts'' i,
              t_port = u16_of (atoi (cfg_getnstr A c ''target-ports'' i))\<rparr>))"

fun mapE :: "('a \<Rightarrow> 'b cres) \<Rightarrow> 'a list \<Rightarrow> 'b list cres" where
  "mapE f [] = Inr []"
| "mapE f (x # xs) = bindE (f x) (\<lambda>y. bindE (mapE f xs) (\<lambda>ys. Inr (y # ys)))"

definition parse_forward_packet :: "'c cfg_api \<Rightarrow> 'c \<Rightarrow> forward_packet_conf option cres" where
  "parse_forward_packet A cfg =
     (case get_first_cfg_block A cfg ''forward-packet'' of None \<Rightarrow> Inr None
      | Some c \<Rightarrow>
          let target_size = u16_of (int (cfg_size A c ''target-protocols''))
          in if target_size \<noteq> cfg_size A c ''target-hosts'' then Inl Aborted
             else if target_size \<noteq> cfg_size A c ''target-ports'' then Inl Aborted
             else bindE (mapE (parse_target A c) [0..<target_size]) (\<lambda>targets.
               Inr (Some \<lparr>fp_is_enable = cfg_getbool A c ''enable'', fp_output_nic = cfg_get_str A c ''output-nic'',
                 fp_snap_len = u16_of (cfg_getint A c ''snap-len''), fp_promisc = u16_of (cfg_getint A c ''promisc''),
                 fp_nb_copies = u32_of (cfg_getint A c ''nb-copies''),
                 fp_default_action = int32_of (cfg_getint A c ''default''), fp_targets = targets\<rparr>)))"

definition parse_host :: "'c cfg_api \<Rightarrow> 'c \<Rightarrow> host_conf" where
  "parse_host A c = \<lparr>host_name = cfg_get_str A c ''hostname'', port_number = u16_of (cfg_getint A c ''port'')\<rparr>"

definition parse_output_to_kafka :: "'c cfg_api \<Rightarrow> 'c \<Rightarrow> channel_output_conf option" where
  "parse_output_to_kafka A cfg =
     map_option (\<lambda>c. \<lparr>co_is_enable = cfg_getbool A c ''enable'', co_host = parse_host A c,
       co_channel = cfg_get_str A c ''topic''\<rparr>) (get_first_cfg_block A cfg ''kafka-output'')"

definition parse_output_to_mongodb :: "'c cfg_api \<Rightarrow> 'c \<Rightarrow> mongodb_output_conf option" where
  "parse_output_to_mongodb A cfg =
     map_option (\<lambda>c. \<lparr>mo_is_enable = cfg_getbool A c ''enable'', mo_host = parse_host A c,
       database_name = cfg_get_str A c ''database'', collection_name = cfg_get_str A c ''collection'',
       limit_size = u32_of (cfg_getint A c ''limit-size'')\<rparr>) (get_first_cfg_block A cfg ''mongodb-output'')"

definition parse_output_to_redis :: "'c cfg_api \<Rightarrow> 'c \<Rightarrow> channel_output_conf option" where
  "parse_output_to_redis A cfg =
     map_option (\<lambda>c. \<lparr>co_is_enable = cfg_getbool A c ''enable'', co_host = parse_host A c,
       co_channel = cfg_get_str A c ''channel''\<rparr>) (get_first_cfg_block A cfg ''redis-output'')"

definition parse_dynamic_config_block :: "'c cfg_api \<Rightarrow> 'c \<Rightarrow> dynamic_config_conf option" where
  "parse_dynamic_config_block A cfg =
     map_option (\<lambda>c. \<lparr>dc_is_enable = cfg_getbool A c ''enable'', dc_descriptor = cfg_get_str A c ''descriptor''\<rparr>)
       (get_first_cfg_block A cfg ''dynamic-config'')"

definition parse_thread :: "'c cfg_api \<Rightarrow> 'c \<Rightarrow> multi_thread_conf" where
  "parse_thread A cfg =
     \<lparr>thread_count = u16_of (cfg_getint A cfg ''thread-nb''),
      thread_queue_packet_threshold = u32_of (cfg_getint A cfg ''thread-queue'')\<rparr>"

definition parse_behaviour_block :: "'c cfg_api \<Rightarrow> 'c \<Rightarrow> file_output_conf option cres" where
  "parse_behaviour_block A cfg =
     (case get_first_cfg_block A cfg ''behaviour'' of None \<Rightarrow> Inr None
      | Some c \<Rightarrow> bindE (cfg_get_dir A c ''output-dir'') (\<lambda>dir.
          Inr (Some \<lparr>fo_is_enable = cfg_getbool A c ''enable'', fo_directory = dir,
            fo_filename = cfg_get_str A c ''output-file'', fo_is_sampled = True,
            fo_retained_files_count = u16_of (cfg_getint A c ''retain-files'')\<rparr>)))"

subsection \<open>Output channels\<close>

text \<open>A set of channels as the bits 1 file, 2 redis, 4 kafka, 8 mongodb, 16 socket.\<close>

definition strncmp_eq :: "nat \<Rightarrow> string \<Rightarrow> string \<Rightarrow> bool" where
  "strncmp_eq n a b \<longleftrightarrow> take n a = take n b"

definition channel_bit :: "string \<Rightarrow> nat" where
  "channel_bit name =
     (if strncmp_eq 4 name ''file'' then 1
      else if strncmp_eq 5 name ''kafka'' then 4
      else if strncmp_eq 5 name ''redis'' then 2
      else if strncmp_eq 5 name ''mongodb'' then 8
      else if strncmp_eq 5 name ''socket'' then 16
      else 0)"

definition parse_output_channel :: "'c cfg_api \<Rightarrow> 'c \<Rightarrow> nat" where
  "parse_output_channel A cfg =
     foldl (\<lambda>out name. out OR channel_bit name) 1
       (get_str_list A cfg ''output-channel'' (cfg_size A cfg ''output-channel''))"

definition conf_parse_output_channel :: "'c cfg_api \<Rightarrow> string \<Rightarrow> nat" where
  "conf_parse_output_channel A str =
     (case cfg_parse_buf A [CFG_STR_LIST ''output-channel''] (''output-channel={'' @ str @ ''}'') of
        None \<Rightarrow> 1 | Some cfg \<Rightarrow> parse_output_channel A cfg)"

definition conf_parse_list :: "'c cfg_api \<Rightarrow> string \<Rightarrow> string list option" where
  "conf_parse_list A str =
     map_option (\<lambda>cfg. get_str_list A cfg ''X'' (cfg_size A cfg ''X''))
       (cfg_parse_buf A [CFG_STR_LIST ''X''] (''X={'' @ str @ ''}''))"

definition parse_cpu_mem_block :: "'c cfg_api \<Rightarrow> 'c \<Rightarrow> system_stats_conf option" where
  "parse_cpu_mem_block A cfg =
     map_option (\<lambda>c. \<lparr>cm_is_enable = cfg_getbool A c ''enable'', cm_frequency = u16_of (cfg_getint A c ''period''),
       cm_output_channels = parse_output_channel A c\<rparr>) (get_first_cfg_block A cfg ''system-report'')"

subsection \<open>Events\<close>

text \<open>
  The search for the dot tests only \<^verbatim>\<open>str[index] != '.'\<close>: without a dot it runs past the terminating NUL
  and out of the string, so the test for NUL after the loop is never reached with a NUL.
\<close>

definition parse_dpi_protocol_attribute :: "string \<Rightarrow> dpi_protocol_attribute cres" where
  "parse_dpi_protocol_attribute str =
     (if CHR ''.'' \<in> set str
      then let index = length (takeWhile (\<lambda>c. c \<noteq> CHR ''.'') str)
           in Inr \<lparr>proto_name = take index str, attribute_name = drop (index + 1) str\<rparr>
      else Inl OutOfBounds)"

definition parse_attributes_helper :: "'c cfg_api \<Rightarrow> 'c \<Rightarrow> string \<Rightarrow> dpi_protocol_attribute list cres" where
  "parse_attributes_helper A cfg name =
     mapE parse_dpi_protocol_attribute (get_str_list A cfg name (u16_of (int (cfg_size A cfg name))))"

definition parse_event_block :: "'c cfg_api \<Rightarrow> 'c \<Rightarrow> event_report_conf cres" where
  "parse_event_block A cfg =
     (case cfg_getstr A cfg ''event'' of None \<Rightarrow> Inl OutOfBounds
      | Some ev \<Rightarrow> bindE (parse_dpi_protocol_attribute ev) (\<lambda>event.
          bindE (parse_attributes_helper A cfg ''attributes'') (\<lambda>atts.
          Inr \<lparr>ev_is_enable = cfg_getbool A cfg ''enable'', ev_title = cfg_title A cfg, ev_event = event,
               ev_attributes = atts, ev_output_channels = parse_output_channel A cfg\<rparr>)))"

subsection \<open>Remaining reports\<close>

definition parse_microflow_block :: "'c cfg_api \<Rightarrow> 'c \<Rightarrow> micro_flow_conf option" where
  "parse_microflow_block A cfg =
     map_option (\<lambda>c. \<lparr>mf_is_enable = cfg_getbool A c ''enable'',
       packet_threshold = u32_of (cfg_getint A c ''packet-threshold''),
       byte_threshold = u32_of (cfg_getint A c ''byte-threshold''),
       report_packets_count = u32_of (cfg_getint A c ''report-packet-count''),
       report_bytes_count = u32_of (cfg_getint A c ''report-byte-count''),
       report_flows_count = u32_of (cfg_getint A c ''report-flow-count''),
       mf_output_channels = parse_output_channel A c\<rparr>) (get_first_cfg_block A cfg ''micro-flows'')"

definition parse_security_block :: "'c cfg_api \<Rightarrow> 'c \<Rightarrow> security_conf option" where
  "parse_security_block A cfg =
     map_option (\<lambda>c. \<lparr>sec_is_enable = cfg_getbool A c ''enable'',
       is_report_rule_description = cfg_getbool A c ''report-rule-description'',
       ignore_remain_flow = cfg_getbool A c ''ignore-remain-flow'',
       threads_size = u16_of (cfg_getint A c ''thread-nb''),
       excluded_rules = cfg_get_str A c ''exclude-rules'', rules_mask = cfg_get_str A c ''rules-mask'',
       sec_output_channels = parse_output_channel A c,
       input_max_message_size = u32_of (cfg_getint A c ''input.max-message-size''),
       security_max_instances = u32_of (cfg_getint A c ''security.max-instances''),
       security_smp_ring_size = u32_of (cfg_getint A c ''security.smp.ring-size''),
       ip_encapsulation_index = int32_of (cfg_getint A c ''ip-encapsulation-index'')\<rparr>)
       (get_first_cfg_block A cfg ''security'')"

definition parse_radius_block :: "'c cfg_api \<Rightarrow> 'c \<Rightarrow> radius_report_conf option" where
  "parse_radius_block A cfg =
     map_option (\<lambda>c. \<lparr>ra_is_enable = cfg_getbool A c ''enable'', ra_message_code = u16_of (cfg_getint A c ''message-id''),
       ra_output_channels = parse_output_channel A c\<rparr>) (get_first_cfg_block A cfg ''radius-report'')"

definition parse_session_block :: "'c cfg_api \<Rightarrow> 'c \<Rightarrow> session_report_conf option" where
  "parse_session_block A cfg =
     map_option (\<lambda>c. \<lparr>se_is_enable = cfg_getbool A c ''enable'', se_output_channels = parse_output_channel A c,
       is_ftp = cfg_getbool A c ''ftp'', is_http = cfg_getbool A c ''http'', is_ssl = cfg_getbool A c ''ssl'',
       is_rtp = cfg_getbool A c ''rtp'', is_gtp = cfg_getbool A c ''gtp'',
       rtt_base = int32_of (cfg_getint A c ''rtt-base'')\<rparr>) (get_first_cfg_block A cfg ''session-report'')"

definition parse_session_timeout_block :: "'c cfg_api \<Rightarrow> 'c \<Rightarrow> session_timeout_conf option" where
  "parse_session_timeout_block A cfg =
     map_option (\<lambda>c. \<lparr>
       default_session_timeout = u32_of (cfg_getint_in A c ''default-session-timeout'' 0 60000 0 60),
       long_session_timeout = u32_of (cfg_getint_in A c ''long-session-timeout'' 0 60000 0 600),
       short_session_timeout = u32_of (cfg_getint_in A c ''short-session-timeout'' 0 60000 0 15),
       live_session_timeout = u32_of (cfg_getint_in A c ''live-session-timeout'' 0 60000 0 1500)\<rparr>)
       (get_first_cfg_block A cfg ''session-timeout'')"

definition parse_socket_block :: "'c cfg_api \<Rightarrow> 'c \<Rightarrow> socket_output_conf option" where
  "parse_socket_block A cfg =
     map_option (\<lambda>c. \<lparr>so_is_enable = cfg_getbool A c ''enable'', so_socket_type = int32_of (cfg_getint A c ''type''),
       so_unix_descriptor = cfg_get_str A c ''descriptor'', so_internet_socket = parse_host A c\<rparr>)
       (get_first_cfg_block A cfg ''socket-output'')"

fun find_reconstruct :: "'c cfg_api \<Rightarrow> string \<Rightarrow> 'c list \<Rightarrow> reconstruct_data_conf option cres" where
  "find_reconstruct A name [] = Inr None"
| "find_reconstruct A name (c # cs) =
     (if name \<noteq> cfg_title A c then find_reconstruct A name cs
      else bindE (cfg_get_dir A c ''output-dir'') (\<lambda>dir.
        Inr (Some \<lparr>rd_is_enable = cfg_getbool A c ''enable'', rd_directory = dir,
          rd_output_channels = parse_output_channel A c\<rparr>)))"

definition parse_reconstruct_data_block :: "'c cfg_api \<Rightarrow> 'c \<Rightarrow> string \<Rightarrow> reconstruct_data_conf option cres" where
  "parse_reconstruct_data_block A cfg name =
     (let sz = cfg_size A cfg ''reconstruct-data''
      in if sz = 0 then Inl Aborted
         else find_reconstruct A name (map (cfg_getnsec A cfg ''reconstruct-data'') [0..<sz]))"

text \<open>Cache size, cache period and format; without the block the fields keep the given content of the
  fresh memory.\<close>

definition parse_output_block :: "'c cfg_api \<Rightarrow> 'c \<Rightarrow> nat \<times> nat \<times> int \<Rightarrow> nat \<times> nat \<times> int" where
  "parse_output_block A cfg fresh =
     (case get_first_cfg_block A cfg ''output'' of None \<Rightarrow> fresh
      | Some c \<Rightarrow> (u32_of (cfg_getint A c ''cache-max''), u16_of (cfg_getint A c ''cache-period''),
                  int32_of (cfg_getint A c ''format'')))"

section \<open>Loading\<close>

definition is_some_and :: "('a \<Rightarrow> bool) \<Rightarrow> 'a option \<Rightarrow> bool" where
  "is_some_and P x = (case x of None \<Rightarrow> False | Some y \<Rightarrow> P y)"

text \<open>\<open>conf->reports.cpu_mem->frequency\<close> at the end dereferences the block unconditionally.\<close>

definition conf_load_from_file :: "'c cfg_api \<Rightarrow> nat \<times> nat \<times> int \<Rightarrow> string \<Rightarrow> probe_conf option cres" where
  "conf_load_from_file A fresh filename =
     (case load_cfg_from_file A filename of None \<Rightarrow> Inr None
      | Some cfg \<Rightarrow>
          bindE (parse_output_to_file A cfg) (\<lambda>file.
          bindE (parse_behaviour_block A cfg) (\<lambda>beh.
          bindE (mapE (parse_event_block A)
                   (map (cfg_getnsec A cfg ''event-report'') [0..<u16_of (int (cfg_size A cfg ''event-report''))])) (\<lambda>evs.
          bindE (parse_dump_to_file A cfg) (\<lambda>dump.
          bindE (parse_forward_packet A cfg) (\<lambda>fwd.
          bindE (parse_reconstruct_data_block A cfg ''ftp'') (\<lambda>ftp_c.
          bindE (parse_reconstruct_data_block A cfg ''http'') (\<lambda>http_c.
          let (cmax, cperiod, fmt) = parse_output_block A cfg fresh;
              kafka = parse_output_to_kafka A cfg;
              redis = parse_output_to_redis A cfg;
              mongo = parse_output_to_mongodb A cfg;
              sock = parse_socket_block A cfg
          in case parse_cpu_mem_block A cfg of None \<Rightarrow> Inl OutOfBounds
             | Some cm \<Rightarrow> Inr (Some \<lparr>
                 flags = \<lparr>
                   is_enable_ip_fragmentation_report = cfg_getbool A cfg ''enable-ip-fragmentation-report'',
                   is_enable_proto_no_session_report = cfg_getbool A cfg ''enable-proto-without-session-report'',
                   is_enable_ip_defragmentation = cfg_getbool A cfg ''enable-ip-defragmentation'',
                   is_enable_tcp_reassembly = cfg_getbool A cfg ''enable-tcp-reassembly''\<rparr>,
                 stack_type = u32_of (cfg_getint A cfg ''stack-type''),
                 probe_id = u32_of (cfg_getint A cfg ''probe-id''),
                 outputs = \<lparr>
                   out_is_enable = is_some_and fo_is_enable file \<or> is_some_and mo_is_enable mongo
                      \<or> is_some_and co_is_enable redis \<or> is_some_and co_is_enable kafka
                      \<or> is_some_and so_is_enable sock,
                   out_cache_max = cmax, out_cache_period = cperiod, out_file = file, out_redis = redis,
                   out_kafka = kafka, out_mongodb = mongo, out_socket = sock, out_format = fmt\<rparr>,
                 thread = parse_thread A cfg,
                 session_timeout = parse_session_timeout_block A cfg,
                 dynamic_conf = parse_dynamic_config_block A cfg,
                 forward_packet = fwd,
                 reports = \<lparr>
                   security = parse_security_block A cfg,
                   cpu_mem = Some (if cm_frequency cm = 0 then cm\<lparr>cm_frequency := 5\<rparr> else cm),
                   behaviour = beh, microflow = parse_microflow_block A cfg, session = parse_session_block A cfg,
                   events = evs, pcap_dump = dump, radius = parse_radius_block A cfg\<rparr>,
                 http = http_c, ftp = ftp_c,
                 conf_stat_period = u16_of (cfg_getint A cfg ''stats-period''),
                 license_file = cfg_get_str A cfg ''license'',
                 input = parse_input_source A cfg,
                 dpdk_options = cfg_get_str A cfg ''dpdk-option''\<rparr>)))))))))"

section \<open>Validation\<close>

text \<open>The modules compiled in.\<close>

record build =
  FORWARD_PACKET_MODULE :: bool
  SECURITY_MODULE :: bool
  TCP_REASSEMBLY_MODULE :: bool
  FTP_RECONSTRUCT_MODULE :: bool
  HTTP_RECONSTRUCT_MODULE :: bool
  DPDK_CAPTURE_MODULE :: bool

definition deref :: "'a option \<Rightarrow> 'a cres" where
  "deref p = (case p of None \<Rightarrow> Inl OutOfBounds | Some x \<Rightarrow> Inr x)"

definition validate_forward :: "build \<Rightarrow> probe_conf \<Rightarrow> unit cres" where
  "validate_forward B conf =
     (if FORWARD_PACKET_MODULE B then
        bindE (deref (forward_packet conf)) (\<lambda>fp.
        if fp_is_enable fp then
          bindE (if SECURITY_MODULE B then bindE (deref (security (reports conf))) (\<lambda>s. Inr (sec_is_enable s))
                 else Inr False) (\<lambda>is_enable_security.
          if \<not> is_enable_security then Inl Aborted
          else if \<not> fp_nb_copies fp > 0 then Inl Aborted
          else Inr ())
        else Inr ())
      else Inr ())"

definition fix_thresholds :: "probe_conf \<Rightarrow> probe_conf" where
  "fix_thresholds conf =
     conf\<lparr>reports := (reports conf)\<lparr>
       microflow := map_option (\<lambda>m.
          let m = (if report_bytes_count m = 0 then m\<lparr>report_bytes_count := 2147483647\<rparr> else m)
          in if byte_threshold m = 0 then m\<lparr>byte_threshold := 2147483647\<rparr> else m) (microflow (reports conf)),
       pcap_dump := map_option (\<lambda>d. if pd_frequency d = 0 then d\<lparr>pd_frequency := 3600\<rparr> else d)
          (pcap_dump (reports conf))\<rparr>\<rparr>"

definition count :: "bool \<Rightarrow> nat" where
  "count b = (if b then 1 else 0)"

definition conf_validate :: "build \<Rightarrow> probe_conf \<Rightarrow> (probe_conf \<times> nat) cres" where
  "conf_validate B conf =
     bindE (validate_forward B conf) (\<lambda>_.
     let conf = fix_thresholds conf; r = reports conf in
     bindE (deref (session r)) (\<lambda>se.
     let ret = count (se_is_enable se \<and> is_gtp se \<and> (is_http se \<or> is_ssl se \<or> is_ftp se \<or> is_rtp se)) in
     bindE (deref (behaviour r)) (\<lambda>beh.
     let ret = ret + count (fo_is_enable beh \<and> \<not> se_is_enable se);
         ret = ret + count (TCP_REASSEMBLY_MODULE B \<and> \<not> is_enable_ip_defragmentation (flags conf)
                 \<and> is_enable_tcp_reassembly (flags conf)) in
     bindE (if FTP_RECONSTRUCT_MODULE B \<and> \<not> is_enable_tcp_reassembly (flags conf)
            then bindE (deref (ftp conf)) (\<lambda>f. Inr (ret + count (rd_is_enable f))) else Inr ret) (\<lambda>ret.
     bindE (if HTTP_RECONSTRUCT_MODULE B \<and> \<not> is_enable_tcp_reassembly (flags conf)
            then bindE (deref (http conf)) (\<lambda>f. Inr (ret + count (rd_is_enable f))) else Inr ret) (\<lambda>ret.
     if DPDK_CAPTURE_MODULE B then
       bindE (deref (input conf)) (\<lambda>i.
       let ret = ret + count (in_mode i = 1);
           ret = ret + count (thread_count (thread conf) = 0);
           ret = ret + count (\<not> is_power_of_two (of_nat (thread_queue_packet_threshold (thread conf))))
       in Inr (conf, ret))
     else Inr (conf, ret))))))"

section \<open>Lemmas\<close>

lemma count_eq_0 [simp]: "count b = 0 \<longleftrightarrow> \<not> b"
  by (simp add: count_def)

lemma u32_of_id: "0 \<le> x \<Longrightarrow> x < 2 ^ 32 \<Longrightarrow> u32_of x = nat x"
  by (simp add: u32_of_def)

lemma cfg_getint_in_range:
  "0 < replaced \<Longrightarrow> replaced \<le> hi \<Longrightarrow> 0 < cfg_getint_in A c ident 0 hi 0 replaced \<and>
   cfg_getint_in A c ident 0 hi 0 replaced \<le> hi"
  by (auto simp: cfg_getint_in_def Let_def)

text \<open>A configuration with every block that the modules of the build use.\<close>

definition blocks_present :: "build \<Rightarrow> probe_conf \<Rightarrow> bool" where
  "blocks_present B conf \<longleftrightarrow>
     session (reports conf) \<noteq> None \<and> behaviour (reports conf) \<noteq> None \<and> ftp conf \<noteq> None \<and> http conf \<noteq> None \<and>
     input conf \<noteq> None \<and>
     (FORWARD_PACKET_MODULE B \<longrightarrow> forward_packet conf \<noteq> None \<and> security (reports conf) \<noteq> None)"

text \<open>The rules the documentation states between options.\<close>

definition consistent :: "build \<Rightarrow> probe_conf \<Rightarrow> bool" where
  "consistent B conf \<longleftrightarrow>
     (let se = the (session (reports conf)); fl = flags conf in
       (se_is_enable se \<and> is_gtp se \<longrightarrow> \<not> is_http se \<and> \<not> is_ssl se \<and> \<not> is_ftp se \<and> \<not> is_rtp se) \<and>
       (fo_is_enable (the (behaviour (reports conf))) \<longrightarrow> se_is_enable se) \<and>
       (TCP_REASSEMBLY_MODULE B \<and> is_enable_tcp_reassembly fl \<longrightarrow> is_enable_ip_defragmentation fl) \<and>
       (FTP_RECONSTRUCT_MODULE B \<and> rd_is_enable (the (ftp conf)) \<longrightarrow> is_enable_tcp_reassembly fl) \<and>
       (HTTP_RECONSTRUCT_MODULE B \<and> rd_is_enable (the (http conf)) \<longrightarrow> is_enable_tcp_reassembly fl) \<and>
       (DPDK_CAPTURE_MODULE B \<longrightarrow> in_mode (the (input conf)) \<noteq> 1 \<and> thread_count (thread conf) \<noteq> 0 \<and>
          is_power_of_two (of_nat (thread_queue_packet_threshold (thread conf)))))"

definition forward_ok :: "build \<Rightarrow> probe_conf \<Rightarrow> bool" where
  "forward_ok B conf \<longleftrightarrow>
     (FORWARD_PACKET_MODULE B \<and> fp_is_enable (the (forward_packet conf)) \<longrightarrow>
        SECURITY_MODULE B \<and> sec_is_enable (the (security (reports conf))) \<and> fp_nb_copies (the (forward_packet conf)) > 0)"

lemma validate_forward_ok:
  "blocks_present B conf \<Longrightarrow>
   validate_forward B conf = (if forward_ok B conf then Inr () else Inl Aborted)"
  by (auto simp: validate_forward_def blocks_present_def forward_ok_def deref_def)

lemma fix_thresholds_simps [simp]:
  "flags (fix_thresholds conf) = flags conf" "thread (fix_thresholds conf) = thread conf"
  "input (fix_thresholds conf) = input conf" "ftp (fix_thresholds conf) = ftp conf"
  "http (fix_thresholds conf) = http conf" "session (reports (fix_thresholds conf)) = session (reports conf)"
  "behaviour (reports (fix_thresholds conf)) = behaviour (reports conf)"
  by (simp_all add: fix_thresholds_def)

section \<open>Properties\<close>


definition sample_conf :: probe_conf where
  "sample_conf = \<lparr>
     flags = \<lparr>is_enable_ip_fragmentation_report = False, is_enable_proto_no_session_report = False,
       is_enable_ip_defragmentation = False, is_enable_tcp_reassembly = True\<rparr>,
     stack_type = 1, probe_id = 3,
     outputs = \<lparr>out_is_enable = False, out_cache_max = 1000, out_cache_period = 5, out_file = None, out_redis = None,
       out_kafka = None, out_mongodb = None, out_socket = None, out_format = 0\<rparr>,
     thread = \<lparr>thread_count = 1, thread_queue_packet_threshold = 1024\<rparr>,
     session_timeout = None, dynamic_conf = None, forward_packet = None,
     reports = \<lparr>security = None, cpu_mem = None,
       behaviour = Some \<lparr>fo_is_enable = False, fo_directory = None, fo_filename = None, fo_is_sampled = True,
         fo_retained_files_count = 0\<rparr>,
       microflow = None,
       session = Some \<lparr>se_is_enable = True, se_output_channels = 1, is_ftp = False, is_http = True, is_ssl = False,
         is_rtp = False, is_gtp = False, rtt_base = 1\<rparr>,
       events = [], pcap_dump = None, radius = None\<rparr>,
     http = Some \<lparr>rd_is_enable = True, rd_directory = None, rd_output_channels = 1\<rparr>,
     ftp = Some \<lparr>rd_is_enable = False, rd_directory = None, rd_output_channels = 1\<rparr>,
     conf_stat_period = 5, license_file = None,
     input = Some \<lparr>in_mode = 0, in_source = None, in_snap_len = 65535\<rparr>, dpdk_options = None\<rparr>"

definition sample_build :: build where
  "sample_build = \<lparr>FORWARD_PACKET_MODULE = False, SECURITY_MODULE = True, TCP_REASSEMBLY_MODULE = True,
     FTP_RECONSTRUCT_MODULE = True, HTTP_RECONSTRUCT_MODULE = True, DPDK_CAPTURE_MODULE = False\<rparr>"


text \<open>
  Whatever the configuration file says, a session timeout is between 1 and 60000 seconds: values
  out of range and 0 are replaced by the defaults.
\<close>

theorem session_timeouts_in_range:
  assumes "parse_session_timeout_block A cfg = Some t"
  shows "default_session_timeout t \<in> {1..60000} \<and> long_session_timeout t \<in> {1..60000} \<and>
         short_session_timeout t \<in> {1..60000} \<and> live_session_timeout t \<in> {1..60000}"
proof -
  have "u32_of (cfg_getint_in A c ident 0 60000 0 r) \<in> {1..60000}" if "0 < r" "r \<le> 60000" for c ident r
  proof -
    let ?x = "cfg_getint_in A c ident 0 60000 0 r"
    have "0 < ?x" "?x \<le> 60000" using cfg_getint_in_range [OF that, of A c ident] by simp_all
    then show ?thesis by (simp add: u32_of_id) arith
  qed
  then show ?thesis
    using assms by (fastforce simp: parse_session_timeout_block_def)
qed

definition constant_api :: "int \<Rightarrow> unit cfg_api" where
  "constant_api n = \<lparr>cfg_getint = (\<lambda>_ _. n), cfg_getbool = (\<lambda>_ _. False), cfg_getstr = (\<lambda>_ _. None),
     cfg_size = (\<lambda>_ _. 1), cfg_getnstr = (\<lambda>_ _ _. []), cfg_getnsec = (\<lambda>c _ _. c), cfg_title = (\<lambda>_. []),
     cfg_parse = (\<lambda>_ _. Some ()), cfg_parse_buf = (\<lambda>_ _. Some ())\<rparr>"

theorem session_timeouts_in_range_witness:
  "\<exists>t. parse_session_timeout_block (constant_api 70000) () = Some t \<and> default_session_timeout t \<in> {1..60000}"
proof -
  obtain t where "parse_session_timeout_block (constant_api 70000) () = Some t"
    by (simp add: parse_session_timeout_block_def get_first_cfg_block_def constant_api_def)
  then show ?thesis using session_timeouts_in_range [of "constant_api 70000" "()" t] by blast
qed

text \<open>
  A configured directory always ends with a slash, and nothing else is changed; an empty
  directory option is read before its first byte.
\<close>

theorem cfg_get_dir_slash:
  "case cfg_getstr A cfg header of
     None \<Rightarrow> cfg_get_dir A cfg header = Inr None
   | Some s \<Rightarrow> (if s = [] then cfg_get_dir A cfg header = Inl OutOfBounds
       else \<exists>d. cfg_get_dir A cfg header = Inr (Some d) \<and> last d = CHR ''/'' \<and> (d = s \<or> d = s @ ''/''))"
  by (auto simp: cfg_get_dir_def last_conv_nth split: option.splits)

text \<open>
  An attribute name is split at its first dot; a name without a dot is searched beyond its
  end instead of being rejected.
\<close>

theorem parse_dpi_protocol_attribute_split:
  "if CHR ''.'' \<in> set str
   then \<exists>a. parse_dpi_protocol_attribute str = Inr a \<and> CHR ''.'' \<notin> set (proto_name a) \<and>
          str = proto_name a @ ''.'' @ attribute_name a
   else parse_dpi_protocol_attribute str = Inl OutOfBounds"
proof (cases "CHR ''.'' \<in> set str")
  case True
  let ?p = "takeWhile (\<lambda>c. c \<noteq> CHR ''.'') str" and ?r = "dropWhile (\<lambda>c. c \<noteq> CHR ''.'') str"
  have split: "str = ?p @ ?r" by simp
  have "?r \<noteq> []" using True by auto
  then obtain a where r: "?r = CHR ''.'' # a" by (cases ?r) (auto simp: dropWhile_eq_Cons_conv)
  have k: "drop (length ?p) str = CHR ''.'' # a" using r by (simp only: dropWhile_eq_drop)
  have t: "take (length ?p) str = ?p" "drop (length ?p + 1) str = a"
    using drop_drop [of 1 "length ?p" str] by (simp_all only: takeWhile_eq_take [symmetric] k) (simp add: add.commute)
  have "CHR ''.'' \<notin> set ?p" by (auto dest: set_takeWhileD)
  moreover have "str = ?p @ ''.'' @ a" using split r by simp
  ultimately show ?thesis
    using True t by (simp add: parse_dpi_protocol_attribute_def)
qed (simp add: parse_dpi_protocol_attribute_def)

lemma or_fold_bit: "bit (foldl (\<lambda>out name. out OR channel_bit name) out names) 0 \<longleftrightarrow>
   bit out 0 \<or> (\<exists>n \<in> set names. bit (channel_bit n) 0)"
  by (induction names arbitrary: out) (auto simp: bit_or_iff)

text \<open>
  Every report goes at least to the file channel, whatever channels are configured.
\<close>

lemma parse_output_channel_file:
  "odd (parse_output_channel A cfg)"
  using or_fold_bit [of 1] by (auto simp: parse_output_channel_def bit_0)

end
