(* ===== verification/Config_Override.thy ===== *)
theory Config_Override
  imports Config
begin

text \<open>
  Overriding single parameters, \<^verbatim>\<open>src/src/configure_override.h\<close> and \<^verbatim>\<open>.c\<close>: the table of identities that
  \<^verbatim>\<open>DECLARE_CONF_ATT\<close> expands (here with every optional module but the
  license check and DPDK, which gives 89 entries, the most the argument counter of the macro can take), lookup by name
  and by number, validation of a textual value and its assignment to a field.

  The fields reachable through the table are a map from identity names (without the prefix
  \<^verbatim>\<open>CONF_ATT__\<close>) to typed memory cells; an access with the wrong type, or through a block that was not
  allocated, is a fault. \<^verbatim>\<open>output.cache-period\<close> is declared 32 bits wide in the table and is 16 bits with
  16 bits of padding in the structure, so its cell is 32 bits wide.
\<close>

datatype data_type = NO_SUPPORT | BOOL | UINT16_T | UINT32_T | CHAR_STAR | LIST

definition conf_atts :: "(string \<times> string \<times> data_type) list" where
  "conf_atts =
     [(''NONE'', ''no-support'', NO_SUPPORT), (''PROBE_ID'', ''probe-id'', UINT32_T),
      (''STACK_TYPE'', ''stack-type'', UINT32_T), (''STATS_PERIOD'', ''stats-period'', UINT16_T),
      (''ENABLE_PROTO_WITHOUT_SESSION_REPORT'', ''enable-proto-without-session-report'', BOOL),
      (''ENABLE_IP_FRAGEMENTATION_REPORT'', ''enable-ip-fragmentation-report'', BOOL),
      (''ENABLE_IP_DEFRAGEMENTATION'', ''enable-ip-defragmentation'', BOOL),
      (''ENABLE_TCP_REASSEMBLY'', ''enable-tcp-reassembly'', BOOL),
      (''DYN_CONF__ENABLE'', ''dynamic-config.enable'', BOOL),
      (''DYN_CONF__DESCRIPTOR'', ''dynamic-config.descriptor'', CHAR_STAR),
      (''THREAD_NB'', ''thread-nb'', UINT16_T), (''THREAD_QUEUE'', ''thread-queue'', UINT32_T),
      (''INPUT__MODE'', ''input.mode'', UINT16_T), (''INPUT__SOURCE'', ''input.source'', CHAR_STAR),
      (''INPUT__SNAP_LEN'', ''input.snap-len'', UINT16_T),
      (''OUTPUT__FORMAT'', ''output.format'', UINT16_T),
      (''OUTPUT__CACHE_MAX'', ''output.cache-max'', UINT32_T),
      (''OUTPUT__CACHE_PERIOD'', ''output.cache-period'', UINT32_T),
      (''FILE_OUTPUT__ENABLE'', ''file-output.enable'', BOOL),
      (''FILE_OUTPUT__OUTPUT_FILE'', ''file-output.output-file'', CHAR_STAR),
      (''FILE_OUTPUT__OUTPUT_DIR'', ''file-output.output-dir'', CHAR_STAR),
      (''FILE_OUTPUT__RETAIN_FILES'', ''file-output.sample-file'', BOOL),
      (''FILE_OUTPUT__SAMPLE_FILE'', ''file-output.retain-files'', UINT16_T),
      (''MONGODB_OUTPUT__ENABLE'', ''mongodb-output.enable'', BOOL),
      (''MONGODB_OUTPUT__HOSTNAME'', ''mongodb-output.hostnam'', CHAR_STAR),
      (''MONGODB_OUTPUT__PORT'', ''mongodb-output.port'', UINT16_T),
      (''MONGODB_OUTPUT__COLLECTION'', ''mongodb-output.collection'', CHAR_STAR),
      (''MONGODB_OUTPUT__DATABASE'', ''mongodb-output.database'', CHAR_STAR),
      (''MONGODB_OUTPUT__LIMIT_SIZE'', ''mongodb-output.limit-size'', UINT32_T),
      (''KAFKA_OUTPUT__ENABLE'', ''kafka-output.enable'', BOOL),
      (''KAFKA_OUTPUT__HOSTNAME'', ''kafka-output.hostname'', CHAR_STAR),
      (''KAFKA_OUTPUT__PORT'', ''kafka-output.port'', UINT16_T),
      (''KAFKA_OUTPUT__TOPICNAME'', ''kafka-output.topic'', CHAR_STAR),
      (''REDIS_OUTPUT__ENABLE'', ''redis-output.enable'', BOOL),
      (''REDIS_OUTPUT__HOSTNAME'', ''redis-output.hostname'', CHAR_STAR),
      (''REDIS_OUTPUT__CHANNEL_NAME'', ''redis-output.channel'', CHAR_STAR),
      (''REDIS_OUTPUT__PORT'', ''redis-output.port'', UINT16_T),
      (''SOCKET_OUTPUT__ENABLE'', ''socket-output.enable'', BOOL),
      (''SOCKET_OUTPUT__TYPE'', ''socket-output.type'', UINT16_T),
      (''SOCKET_OUTPUT__HOSTNAME'', ''socket-output.hostname'', CHAR_STAR),
      (''SOCKET_OUTPUT__PORT'', ''socket-output.port'', UINT16_T),
      (''SOCKET_OUTPUT__DESCRIPTOR'', ''socket-output.descriptor'', CHAR_STAR),
      (''DUMP_PCAP__ENABLE'', ''dump-pcap.enable'', BOOL),
      (''DUMP_PCAP__OUTPUT_DIR'', ''dump-pcap.output-dir'', CHAR_STAR),
      (''DUMP_PCAP__PROTOCOLS'', ''dump-pcap.protocols'', LIST),
      (''DUMP_PCAP__PERIOD'', ''dump-pcap.period'', UINT16_T),
      (''DUMP_PCAP__RETAIN_FILES'', ''dump-pcap.retain-files'', UINT16_T),
      (''DUMP_PCAP__SNAP_LEN'', ''dump-pcap.snap-len'', UINT16_T),
      (''FORWARD_PACKET__ENABLE'', ''forward-packet.enable'', BOOL),
      (''FORWARD_PACKET__OUTPUT_NIC'', ''forward-packet.output-nic'', CHAR_STAR),
      (''FORWARD_PACKET__SNAP_LEN'', ''forward-packet.snap-len'', UINT16_T),
      (''FORWARD_PACKET__NB_COPIES'', ''forward-packet.nb-copies'', UINT32_T),
      (''FORWARD_PACKET__PROMISC'', ''forward-packet.promisc'', UINT16_T),
      (''SYSTEM_REPORT__ENABLE'', ''system-report.enable'', BOOL),
      (''SYSTEM_REPORT__PERIOD'', ''system-report.period'', UINT16_T),
      (''SYSTEM_REPORT__OUTPUT_CHANNEL'', ''system-report.output-channel'', CHAR_STAR),
      (''BEHAVIOUR__ENABLE'', ''behaviour.enable'', BOOL),
      (''BEHAVIOUR__OUTPUT_DIR'', ''behaviour.output-dir'', CHAR_STAR),
      (''BEHAVIOUR__OUTPUT_FILE'', ''behaviour.output-file'', CHAR_STAR),
      (''BEHAVIOUR__RETAIN_FILES'', ''behaviour.retain-files'', UINT16_T),
      (''SECURITY__ENABLE'', ''security.enable'', BOOL),
      (''SECURITY__THREAD_NB'', ''security.thread-nb'', UINT16_T),
      (''SECURITY__EXCLUDE_RULES'', ''security.exclude-rules'', CHAR_STAR),
      (''SECURITY__RULES_MASK'', ''security.rules-mask'', CHAR_STAR),
      (''SECURITY__OUTPUT_CHANNEL'', ''security.output-channel'', LIST),
      (''SECURITY__REPORT_RULE_DESCRIPTION'', ''security.report-rule-description'', BOOL),
      (''SECURITY__INGORE_REMAIN_FLOW'', ''security.ignore-remain-flow'', BOOL),
      (''RECONSTRUCT_DATA__FTP__ENABLE'', ''reconstruct-data.ftp.enable'', BOOL),
      (''RECONSTRUCT_DATA__FTP__OUTPUT_DIR'', ''reconstruct-data.ftp.output-dir'', CHAR_STAR),
      (''RECONSTRUCT_DATA__HTTP__ENABLE'', ''reconstruct-data.http.enable'', BOOL),
      (''RECONSTRUCT_DATA__HTTP__OUTPUT_DIR'', ''reconstruct-data.http.output-dir'', CHAR_STAR),
      (''MICRO_FLOWS__ENABLE'', ''micro-flows.enable'', BOOL),
      (''MICRO_FLOWS__PACKET_THRESHOLD'', ''micro-flows.packet-threshold'', UINT32_T),
      (''MICRO_FLOWS__BYTE_THRESHOLD'', ''micro-flows.byte-threshold'', UINT32_T),
      (''MICRO_FLOWS__REPORT_PACKET_COUNT'', ''micro-flows.report-packet-count'', UINT32_T),
      (''MICRO_FLOWS__REPORT_BYTE_COUNT'', ''micro-flows.report-bytes-count'', UINT32_T),
      (''MICRO_FLOWS__REPORT_FLOWSCOUNT'', ''micro-flows.report-flows-count'', UINT32_T),
      (''MICRO_FLOWS__OUTPUT_CHANNEL'', ''micro-flows.output-channel'', LIST),
      (''SESSION_REPORT__ENABLE'', ''session-report.enable'', BOOL),
      (''SESSION_REPORT__FTP'', ''session-report.ftp'', BOOL),
      (''SESSION_REPORT__HTTP'', ''session-report.http'', BOOL),
      (''SESSION_REPORT__RTP'', ''session-report.rtp'', BOOL),
      (''SESSION_REPORT__GTP'', ''session-report.gtp'', BOOL),
      (''SESSION_REPORT__SSL'', ''session-report.ssl'', BOOL),
      (''SESSION_REPORT__RTT_BASE'', ''session-report.rtt-base'', UINT16_T),
      (''SESSION_REPORT__OUTPUT_CHANNEL'', ''session-report.output-channel'', LIST),
      (''RADIUS_REPORT__ENABLE'', ''radius-report.enable'', BOOL),
      (''RADIUS_REPORT__MESSAGE_ID'', ''radius-report.message-id'', UINT16_T),
      (''RADIUS_REPORT__OUTPUT_CHANNEL'', ''radius-report.output-channel'', LIST)]"

record identity =
  i_val :: nat
  i_att :: string
  i_type :: data_type
  i_ident :: string

definition conf_get_identities :: "identity list" where
  "conf_get_identities =
     map (\<lambda>(n, att, ident, ty). \<lparr>i_val = n, i_att = att, i_type = ty, i_ident = ident\<rparr>)
       (zip [0..<length conf_atts] conf_atts)"

definition conf_get_identity_from_id :: "int \<Rightarrow> identity option" where
  "conf_get_identity_from_id n =
     (if n < 0 \<or> n \<ge> int (length conf_get_identities) then None else Some (conf_get_identities ! nat n))"

definition conf_get_identity_from_string :: "string \<Rightarrow> identity option" where
  "conf_get_identity_from_string ident_str = find (\<lambda>i. ident_str = i_ident i) conf_get_identities"

section \<open>Validation of a value\<close>

text \<open>\<^verbatim>\<open>None\<close> is the NULL of the code (the value is suitable), \<open>Some\<close> the reason. The reason for a number
  with a non-digit is composed but the function returns 0, that is NULL.\<close>

datatype reason = Unexpected_value | Expect_bool

definition conf_validate_data_value :: "identity \<Rightarrow> string \<Rightarrow> reason option" where
  "conf_validate_data_value ident data_value =
     (if i_att ident = ''INPUT__MODE''
      then (if conf_parse_input_mode data_value \<noteq> None then None else Some Unexpected_value)
      else case i_type ident of
        BOOL \<Rightarrow> if data_value = ''true'' then None else if data_value = ''false'' then None else Some Expect_bool
      | UINT16_T \<Rightarrow> (if \<exists>c \<in> set data_value. \<not> is_digit c then None else None)
      | UINT32_T \<Rightarrow> (if \<exists>c \<in> set data_value. \<not> is_digit c then None else None)
      | _ \<Rightarrow> None)"

section \<open>Assignment\<close>

datatype conf_value =
    V_bool bool | V_u16 nat | V_u32 nat | V_str "string option" | V_enum nat | V_list "string list"

type_synonym conf_fields = "string \<rightharpoonup> conf_value"

definition parse_bool :: "string \<Rightarrow> bool" where
  "parse_bool value = (if value = ''true'' then True else if value = ''false'' then False else False)"

text \<open>16-bit and 32-bit accesses to a cell.\<close>

definition rd_u16 :: "conf_value \<Rightarrow> nat cres" where
  "rd_u16 v = (case v of V_u16 n \<Rightarrow> Inr n | V_u32 n \<Rightarrow> Inr (n mod 2 ^ 16) | V_enum n \<Rightarrow> Inr (n mod 2 ^ 16)
     | _ \<Rightarrow> Inl OutOfBounds)"

definition wr_u16 :: "conf_value \<Rightarrow> nat \<Rightarrow> conf_value" where
  "wr_u16 v x = (let x = x mod 2 ^ 16 in
     case v of V_u32 n \<Rightarrow> V_u32 (n div 2 ^ 16 * 2 ^ 16 + x) | V_enum n \<Rightarrow> V_enum (n div 2 ^ 16 * 2 ^ 16 + x)
     | _ \<Rightarrow> V_u16 x)"

definition rd_u32 :: "conf_value \<Rightarrow> nat cres" where
  "rd_u32 v = (case v of V_u32 n \<Rightarrow> Inr n | V_enum n \<Rightarrow> Inr n | _ \<Rightarrow> Inl OutOfBounds)"

definition wr_u32 :: "conf_value \<Rightarrow> nat \<Rightarrow> conf_value" where
  "wr_u32 v x = (case v of V_enum _ \<Rightarrow> V_enum x | _ \<Rightarrow> V_u32 x)"

definition atol :: "string \<Rightarrow> int" where
  "atol s = strtol10 s"

definition override_element_by_ident ::
  "'c cfg_api \<Rightarrow> identity \<Rightarrow> string \<Rightarrow> conf_fields \<Rightarrow> (conf_fields \<times> bool) cres" where
  "override_element_by_ident A ident value_str conf =
     (if i_att ident = ''NONE'' then Inr (conf, False)
      else case conf (i_att ident) of None \<Rightarrow> Inl OutOfBounds
      | Some field \<Rightarrow>
          if i_att ident = ''INPUT__MODE'' then
            (case conf_parse_input_mode value_str of
               Some e \<Rightarrow> Inr (conf(i_att ident \<mapsto> V_enum e), True) | None \<Rightarrow> Inr (conf, False))
          else if i_att ident = ''SESSION_REPORT__RTT_BASE'' then
            (case conf_parse_rtt_base value_str of
               Some e \<Rightarrow> Inr (conf(i_att ident \<mapsto> V_enum e), True) | None \<Rightarrow> Inr (conf, False))
          else case i_type ident of
            NO_SUPPORT \<Rightarrow> Inr (conf, False)
          | CHAR_STAR \<Rightarrow>
              (case field of
                 V_str (Some s) \<Rightarrow> if s = value_str then Inr (conf, False)
                                   else Inr (conf(i_att ident \<mapsto> V_str (Some value_str)), True)
               | _ \<Rightarrow> Inl OutOfBounds)
          | LIST \<Rightarrow>
              if i_att ident \<in> {''SECURITY__OUTPUT_CHANNEL'', ''SESSION_REPORT__OUTPUT_CHANNEL'',
                   ''SYSTEM_REPORT__OUTPUT_CHANNEL'', ''MICRO_FLOWS__OUTPUT_CHANNEL'', ''RADIUS_REPORT__OUTPUT_CHANNEL''}
              then (let v = conf_parse_output_channel A value_str
                    in bindE (rd_u32 field) (\<lambda>old.
                       if v = old then Inr (conf, False) else Inr (conf(i_att ident \<mapsto> V_enum v), True)))
              else if i_att ident = ''DUMP_PCAP__ENABLE''
              then Inr (conf(''DUMP_PCAP__PROTOCOLS'' \<mapsto> V_list (case_option [] id (conf_parse_list A value_str))), True)
              else Inr (conf, False)
          | BOOL \<Rightarrow>
              (case field of
                 V_bool b \<Rightarrow> if parse_bool value_str = b then Inr (conf, False)
                             else Inr (conf(i_att ident \<mapsto> V_bool (parse_bool value_str)), True)
               | _ \<Rightarrow> Inl OutOfBounds)
          | UINT16_T \<Rightarrow>
              (let v = u32_of (atoi value_str)
               in bindE (rd_u16 field) (\<lambda>old. if v = old then Inr (conf, False)
                    else Inr (conf(i_att ident \<mapsto> wr_u16 field v), True)))
          | UINT32_T \<Rightarrow>
              (let v = u32_of (atol value_str)
               in bindE (rd_u32 field) (\<lambda>old. if v = old then Inr (conf, False)
                    else Inr (conf(i_att ident \<mapsto> wr_u32 field v), True))))"

text \<open>The result codes of \<^verbatim>\<open>conf_override_element\<close>: -1 unknown name, 0 overridden, 1 unchanged.\<close>

definition conf_override_element ::
  "'c cfg_api \<Rightarrow> string \<Rightarrow> string \<Rightarrow> conf_fields \<Rightarrow> (conf_fields \<times> int) cres" where
  "conf_override_element A ident_str value_str conf =
     (case conf_get_identity_from_string ident_str of None \<Rightarrow> Inr (conf, -1)
      | Some ident \<Rightarrow> bindE (override_element_by_ident A ident value_str conf) (\<lambda>(conf, ok).
          Inr (conf, if ok then 0 else 1)))"

definition conf_override_element_by_id ::
  "'c cfg_api \<Rightarrow> int \<Rightarrow> string \<Rightarrow> conf_fields \<Rightarrow> (conf_fields \<times> bool) cres" where
  "conf_override_element_by_id A ident_val value_str conf =
     (case conf_get_identity_from_id ident_val of None \<Rightarrow> Inr (conf, False)
      | Some ident \<Rightarrow> override_element_by_ident A ident value_str conf)"

text \<open>
  The third column of the table: for each entry, in the same order, the member of the configuration it points to;
  \<open>None\<close> where the block was not allocated.
\<close>

definition block :: "('a \<Rightarrow> conf_value) list \<Rightarrow> 'a option \<Rightarrow> conf_value option list" where
  "block fs x = map (\<lambda>f. map_option f x) fs"

definition conf_cells :: "probe_conf \<Rightarrow> conf_value option list" where
  "conf_cells c =
     [None,
      Some (V_u32 (probe_id c)),
      Some (V_u32 (stack_type c)),
      Some (V_u16 (conf_stat_period c)),
      Some (V_bool (is_enable_proto_no_session_report (flags c))),
      Some (V_bool (is_enable_ip_fragmentation_report (flags c))),
      Some (V_bool (is_enable_ip_defragmentation (flags c))),
      Some (V_bool (is_enable_tcp_reassembly (flags c)))]
     @ block [\<lambda>x. V_bool (dc_is_enable x), \<lambda>x. V_str (dc_descriptor x)] (dynamic_conf c)
     @ (let x = thread c in map Some [V_u16 (thread_count x), V_u32 (thread_queue_packet_threshold x)])
     @ block [\<lambda>x. V_enum (u32_of (in_mode x)), \<lambda>x. V_str (in_source x), \<lambda>x. V_u16 (in_snap_len x)] (input c)
     @ (let x = outputs c in map Some [V_enum (u32_of (out_format x)), V_u32 (out_cache_max x), V_u32 (out_cache_period x)])
     @ block [\<lambda>x. V_bool (fo_is_enable x), \<lambda>x. V_str (fo_filename x), \<lambda>x. V_str (fo_directory x), \<lambda>x. V_bool (fo_is_sampled x), \<lambda>x. V_u16 (fo_retained_files_count x)] (out_file (outputs c))
     @ block [\<lambda>x. V_bool (mo_is_enable x), \<lambda>x. V_str (host_name (mo_host x)), \<lambda>x. V_u16 (port_number (mo_host x)), \<lambda>x. V_str (collection_name x), \<lambda>x. V_str (database_name x), \<lambda>x. V_u32 (limit_size x)] (out_mongodb (outputs c))
     @ block [\<lambda>x. V_bool (co_is_enable x), \<lambda>x. V_str (host_name (co_host x)), \<lambda>x. V_u16 (port_number (co_host x)), \<lambda>x. V_str (co_channel x)] (out_kafka (outputs c))
     @ block [\<lambda>x. V_bool (co_is_enable x), \<lambda>x. V_str (host_name (co_host x)), \<lambda>x. V_str (co_channel x), \<lambda>x. V_u16 (port_number (co_host x))] (out_redis (outputs c))
     @ block [\<lambda>x. V_bool (so_is_enable x), \<lambda>x. V_enum (u32_of (so_socket_type x)), \<lambda>x. V_str (host_name (so_internet_socket x)), \<lambda>x. V_u16 (port_number (so_internet_socket x)), \<lambda>x. V_str (so_unix_descriptor x)] (out_socket (outputs c))
     @ block [\<lambda>x. V_bool (pd_is_enable x), \<lambda>x. V_str (pd_directory x), \<lambda>x. V_list (pd_protocols x), \<lambda>x. V_u16 (pd_frequency x), \<lambda>x. V_u16 (pd_retained_files_count x), \<lambda>x. V_u16 (pd_snap_len x)] (pcap_dump (reports c))
     @ block [\<lambda>x. V_bool (fp_is_enable x), \<lambda>x. V_str (fp_output_nic x), \<lambda>x. V_u16 (fp_snap_len x), \<lambda>x. V_u32 (fp_nb_copies x), \<lambda>x. V_u16 (fp_promisc x)] (forward_packet c)
     @ block [\<lambda>x. V_bool (cm_is_enable x), \<lambda>x. V_u16 (cm_frequency x), \<lambda>x. V_enum (cm_output_channels x)] (cpu_mem (reports c))
     @ block [\<lambda>x. V_bool (fo_is_enable x), \<lambda>x. V_str (fo_directory x), \<lambda>x. V_str (fo_filename x), \<lambda>x. V_u16 (fo_retained_files_count x)] (behaviour (reports c))
     @ block [\<lambda>x. V_bool (sec_is_enable x), \<lambda>x. V_u16 (threads_size x), \<lambda>x. V_str (excluded_rules x), \<lambda>x. V_str (rules_mask x), \<lambda>x. V_enum (sec_output_channels x), \<lambda>x. V_bool (is_report_rule_description x), \<lambda>x. V_bool (ignore_remain_flow x)] (security (reports c))
     @ block [\<lambda>x. V_bool (rd_is_enable x), \<lambda>x. V_str (rd_directory x)] (ftp c)
     @ block [\<lambda>x. V_bool (rd_is_enable x), \<lambda>x. V_str (rd_directory x)] (http c)
     @ block [\<lambda>x. V_bool (mf_is_enable x), \<lambda>x. V_u32 (packet_threshold x), \<lambda>x. V_u32 (byte_threshold x), \<lambda>x. V_u32 (report_packets_count x), \<lambda>x. V_u32 (report_bytes_count x), \<lambda>x. V_u32 (report_flows_count x), \<lambda>x. V_enum (mf_output_channels x)] (microflow (reports c))
     @ block [\<lambda>x. V_bool (se_is_enable x), \<lambda>x. V_bool (is_ftp x), \<lambda>x. V_bool (is_http x), \<lambda>x. V_bool (is_rtp x), \<lambda>x. V_bool (is_gtp x), \<lambda>x. V_bool (is_ssl x), \<lambda>x. V_enum (u32_of (rtt_base x)), \<lambda>x. V_enum (se_output_channels x)] (session (reports c))
     @ block [\<lambda>x. V_bool (ra_is_enable x), \<lambda>x. V_u16 (ra_message_code x), \<lambda>x. V_enum (ra_output_channels x)] (radius (reports c))"

definition conf_fields_of :: "probe_conf \<Rightarrow> conf_fields" where
  "conf_fields_of c att = Option.bind (map_of (zip (map fst conf_atts) (conf_cells c)) att) id"

text \<open>Which cell fits which entry of the table. The channel set of the system report is declared as a string.\<close>

definition fits :: "string \<Rightarrow> data_type \<Rightarrow> conf_value \<Rightarrow> bool" where
  "fits att ty v =
     (if att = ''SYSTEM_REPORT__OUTPUT_CHANNEL'' then (case v of V_enum _ \<Rightarrow> True | _ \<Rightarrow> False)
      else if att = ''DUMP_PCAP__PROTOCOLS'' then (case v of V_list _ \<Rightarrow> True | _ \<Rightarrow> False)
      else if att = ''INPUT__MODE'' \<or> att = ''SESSION_REPORT__RTT_BASE'' then (case v of V_enum _ \<Rightarrow> True | _ \<Rightarrow> False)
      else case ty of
        NO_SUPPORT \<Rightarrow> False
      | BOOL \<Rightarrow> (case v of V_bool _ \<Rightarrow> True | _ \<Rightarrow> False)
      | UINT16_T \<Rightarrow> (case v of V_u16 _ \<Rightarrow> True | V_enum _ \<Rightarrow> True | _ \<Rightarrow> False)
      | UINT32_T \<Rightarrow> (case v of V_u32 _ \<Rightarrow> True | _ \<Rightarrow> False)
      | CHAR_STAR \<Rightarrow> (case v of V_str _ \<Rightarrow> True | _ \<Rightarrow> False)
      | LIST \<Rightarrow> (case v of V_enum _ \<Rightarrow> True | _ \<Rightarrow> False))"

definition conf_typed :: "conf_fields \<Rightarrow> bool" where
  "conf_typed conf \<longleftrightarrow> (\<forall>(att, _, ty) \<in> set conf_atts. \<forall>v. conf att = Some v \<longrightarrow> fits att ty v)"

section \<open>Lemmas\<close>

lemma conf_get_identities_nth:
  "n < length conf_atts \<Longrightarrow> conf_get_identities ! n =
     \<lparr>i_val = n, i_att = fst (conf_atts ! n), i_type = snd (snd (conf_atts ! n)), i_ident = fst (snd (conf_atts ! n))\<rparr>"
  by (simp add: conf_get_identities_def split_def)

lemma length_conf_get_identities [simp]: "length conf_get_identities = length conf_atts"
  by (simp add: conf_get_identities_def)

lemma conf_atts_distinct: "distinct (map (\<lambda>(a, i, t). i) conf_atts)"
  by code_simp

text \<open>The two lookups agree: the number found for a name leads back to the same identity.\<close>

lemma identity_from_string_id:
  assumes "conf_get_identity_from_string s = Some i"
  shows "conf_get_identity_from_id (int (i_val i)) = Some i \<and> i_ident i = s"
proof -
  obtain n where n: "n < length conf_get_identities" "i = conf_get_identities ! n" "s = i_ident i"
    using assms by (auto simp: conf_get_identity_from_string_def find_Some_iff)
  then have "i_val i = n" by (simp add: conf_get_identities_nth)
  with n show ?thesis by (simp add: conf_get_identity_from_id_def)
qed

lemma conf_atts_length: "length conf_atts = 89"
  by (simp add: conf_atts_def)

text \<open>Each override touches at most the field of its identity.\<close>

lemma override_frame:
  assumes "override_element_by_ident A ident v conf = Inr (conf', ok)" "att \<noteq> i_att ident"
    "i_type ident = LIST \<longrightarrow> i_att ident \<noteq> ''DUMP_PCAP__ENABLE''"
  shows "conf' att = conf att"
  using assms
  by (auto simp: override_element_by_ident_def Let_def bindE_eq_Inr
      split: if_splits option.splits data_type.splits conf_value.splits)

lemma digit_cases: "d < 10 \<Longrightarrow> digit d \<in> set ''0123456789''"
proof -
  assume "d < 10"
  then have "d \<in> {0, 1, 2, 3, 4, 5, 6, 7, 8, 9}" by auto
  then show ?thesis by (auto simp: digit_table)
qed

lemma dec_chars: "c \<in> set (dec n) \<Longrightarrow> is_digit c \<and> \<not> is_space c \<and> c \<noteq> NUL \<and> c \<noteq> CHR ''-'' \<and> c \<noteq> CHR ''+''"
proof -
  have ok: "\<forall>c \<in> set ''0123456789''. is_digit c \<and> \<not> is_space c \<and> c \<noteq> NUL \<and> c \<noteq> CHR ''-'' \<and> c \<noteq> CHR ''+''"
    by code_simp
  assume "c \<in> set (dec n)"
  then obtain d where "d < 10" "c = digit d" using dec_digits by blast
  then have "c \<in> set ''0123456789''" using digit_cases by simp
  with ok show ?thesis by blast
qed

lemma strtol10_dec: "int n < 2 ^ 63 \<Longrightarrow> strtol10 (dec n) = int n"
proof -
  assume n: "int n < 2 ^ 63"
  have c: "cstr (dec n) = dec n" using dec_chars [of NUL n] by (auto intro: cstr_id)
  obtain a l where al: "dec n = a # l" by (cases "dec n") auto
  have a: "\<not> is_space a" "a \<noteq> CHR ''-''" "a \<noteq> CHR ''+''" using dec_chars [of a n] al by auto
  have t: "takeWhile is_digit (dec n) = dec n" using dec_chars by (auto simp: takeWhile_eq_all_conv)
  have d: "dropWhile is_space (dec n) = dec n" using a al by simp
  have h: "hd (dec n) = a" using al by simp
  show ?thesis
    using n a by (simp add: strtol10_def c d t h Let_def undec_dec clamp_long_def)
qed

lemma atoi_dec: "int n < 2 ^ 31 \<Longrightarrow> atoi (dec n) = int n"
  by (simp add: atoi_def strtol10_dec int32_of_def)

text \<open>The configuration that was loaded fits the table.\<close>

lemma all_ex_eq: "(\<forall>v. (\<exists>z. P z \<and> f z = v) \<longrightarrow> Q v) \<longleftrightarrow> (\<forall>z. P z \<longrightarrow> Q (f z))"
  by auto

lemma conf_cells_fit:
  "list_all2 (\<lambda>(att, _, ty) cell. \<forall>v. cell = Some v \<longrightarrow> fits att ty v) conf_atts (conf_cells c)"
  unfolding conf_atts_def conf_cells_def block_def
  by (simp add: fits_def Let_def all_ex_eq)

lemma conf_atts_distinct_att: "distinct (map fst conf_atts)"
  by code_simp

lemma conf_fields_of_typed: "conf_typed (conf_fields_of c)"
proof -
  have len: "length (conf_cells c) = length conf_atts"
    using conf_cells_fit [of c] by (simp add: list_all2_lengthD)
  have "fits att ty v" if e: "(att, i, ty) \<in> set conf_atts" and v: "conf_fields_of c att = Some v" for att i ty v
  proof -
    obtain n where n: "n < length conf_atts" "conf_atts ! n = (att, i, ty)" using e by (auto simp: in_set_conv_nth)
    have "map_of (zip (map fst conf_atts) (conf_cells c)) (map fst conf_atts ! n) = Some (conf_cells c ! n)"
      using n len conf_atts_distinct_att by (intro map_of_zip_nth) auto
    then have "conf_cells c ! n = Some v" using v n by (simp add: conf_fields_of_def)
    then show ?thesis using list_all2_nthD [OF conf_cells_fit n(1), of c] n by simp
  qed
  then show ?thesis by (auto simp: conf_typed_def)
qed

lemma identity_in_table:
  "i \<in> set conf_get_identities \<Longrightarrow> (i_att i, i_ident i, i_type i) \<in> set conf_atts"
  by (auto simp: in_set_conv_nth conf_get_identities_nth)

section \<open>Properties\<close>



text \<open>
  Overriding a numeric option with the decimal text of a number that fits its field stores
  exactly that number, in 16-bit and in 32-bit fields, and leaves every other option alone.
\<close>

theorem override_number:
  assumes "i_type ident = UINT16_T \<and> field = V_u16 old \<and> n < 2 ^ 16 \<and> new = V_u16 n
     \<or> i_type ident = UINT32_T \<and> field = V_u32 old \<and> n < 2 ^ 32 \<and> new = V_u32 n"
    and "conf (i_att ident) = Some field"
    and "i_att ident \<notin> {''NONE'', ''INPUT__MODE'', ''SESSION_REPORT__RTT_BASE''}"
  shows "\<exists>ok. override_element_by_ident A ident (dec n) conf = Inr (conf(i_att ident \<mapsto> new), ok)"
  using assms
proof (elim disjE conjE)
  assume a: "i_type ident = UINT16_T" "field = V_u16 old" "n < 2 ^ 16" "new = V_u16 n"
  then have "u32_of (atoi (dec n)) = n" by (simp add: atoi_dec u32_of_def)
  with a assms(2,3) show ?thesis
    by (cases "n = old") (auto simp: override_element_by_ident_def Let_def rd_u16_def wr_u16_def)
next
  assume a: "i_type ident = UINT32_T" "field = V_u32 old" "n < 2 ^ 32" "new = V_u32 n"
  then have "u32_of (atol (dec n)) = n" by (simp add: atol_def strtol10_dec u32_of_def)
  with a assms(2,3) show ?thesis
    by (cases "n = old") (auto simp: override_element_by_ident_def Let_def rd_u32_def wr_u32_def)
qed

theorem override_number_witness:
  "\<exists>ok. override_element_by_ident (constant_api 0)
     \<lparr>i_val = 11, i_att = ''THREAD_QUEUE'', i_type = UINT32_T, i_ident = ''thread-queue''\<rparr> (dec 4096)
     [''THREAD_QUEUE'' \<mapsto> V_u32 0] = Inr ([''THREAD_QUEUE'' \<mapsto> V_u32 4096], ok)"
  using override_number [of "\<lparr>i_val = 11, i_att = ''THREAD_QUEUE'', i_type = UINT32_T, i_ident = ''thread-queue''\<rparr>"
      "V_u32 0" 0 4096 "V_u32 4096" "[''THREAD_QUEUE'' \<mapsto> V_u32 0]" "constant_api 0"] by simp

text \<open>
  A value that is not a number is not rejected for numeric options: every text passes the
  validation.
\<close>

theorem numeric_value_not_checked:
  assumes "i_type ident \<in> {UINT16_T, UINT32_T}" "i_att ident \<noteq> ''INPUT__MODE''"
  shows "conf_validate_data_value ident v = None"
  using assms by (auto simp: conf_validate_data_value_def)

theorem numeric_value_not_checked_witness:
  "conf_validate_data_value \<lparr>i_val = 10, i_att = ''THREAD_NB'', i_type = UINT16_T, i_ident = ''thread-nb''\<rparr> ''abc'' = None
   \<and> strtol10 ''abc'' = 0"
proof -
  have "strtol10 ''abc'' = 0" by code_simp
  then show ?thesis
    using numeric_value_not_checked [of "\<lparr>i_val = 10, i_att = ''THREAD_NB'', i_type = UINT16_T, i_ident = ''thread-nb''\<rparr>" "''abc''"]
    by simp
qed

text \<open>
  The option \<^verbatim>\<open>system-report.output-channel\<close> is declared as a string although its field is a set
  of channels, so every attempt to override it follows an integer as a pointer.
\<close>

theorem override_system_report_channel_faults:
  assumes "conf ''SYSTEM_REPORT__OUTPUT_CHANNEL'' = Some (V_enum n)"
  shows "conf_override_element A ''system-report.output-channel'' v conf = Inl OutOfBounds"
proof -
  obtain ident where "conf_get_identity_from_string ''system-report.output-channel'' = Some ident"
    "i_att ident = ''SYSTEM_REPORT__OUTPUT_CHANNEL''" "i_type ident = CHAR_STAR"
    by (auto simp: conf_get_identity_from_string_def conf_get_identities_def conf_atts_def)
  with assms show ?thesis
    by (simp add: conf_override_element_def override_element_by_ident_def)
qed

theorem override_system_report_channel_faults_witness:
  "conf_override_element (constant_api 0) ''system-report.output-channel'' ''{kafka}''
     [''SYSTEM_REPORT__OUTPUT_CHANNEL'' \<mapsto> V_enum 1] = Inl OutOfBounds"
  by (rule override_system_report_channel_faults) simp

end
