(* ===== verification/Mmt_Bus.thy ===== *)
theory Mmt_Bus
  imports Prelude
begin

text \<open>
  The shared-memory message bus of \<^verbatim>\<open>src/src/modules/dynamic_conf/mmt_bus.c\<close> between the control
  server (publisher) and the processes that obey its commands (subscribers). One message is
  held at a time; it counts as consumed once a subscriber answered with a code other than
  \<^verbatim>\<open>DYN_CONF_CMD_REPLY_DO_NOTHING\<close>.

  Every function is one or two critical sections under the bus mutex. The operations below are these
  sections; \<open>bus_step\<close> lets publisher and subscribers interleave between them, in particular
  while a callback runs, which happens without the mutex.
\<close>

section \<open>The bus\<close>

abbreviation DO_NOTHING :: int where
  "DO_NOTHING \<equiv> 1000"

definition MMT_BUS_MAX_SUBSCRIBERS :: nat where
  "MMT_BUS_MAX_SUBSCRIBERS = 3"

text \<open>\<^verbatim>\<open>sizeof(command_t)\<close>: two 16-bit fields and the parameter array.\<close>

definition MMT_BUS_MAX_MESSAGE_SIZE :: nat where
  "MMT_BUS_MAX_MESSAGE_SIZE = 10004"

datatype bus_code =
    MMT_BUS_SUCCESS | MMT_BUS_LOCK_ERROR | MMT_BUS_OVER_MSG_SIZE | MMT_BUS_NO_INIT
  | MSG_BUS_OLD_MSG_NO_CONSUME

record 'cb subscriber =
  s_pid :: int
  is_consumed :: bool
  callback :: "'cb option"

record 'cb mmt_bus =
  nb_subscribers :: nat
  sub_lst :: "'cb subscriber list"
  message :: string
  reply_code :: int

definition mmt_bus_create :: "'cb mmt_bus option \<Rightarrow> 'cb mmt_bus option \<times> bool" where
  "mmt_bus_create bus =
     (case bus of Some b \<Rightarrow> (Some b, False)
      | None \<Rightarrow> (Some \<lparr>nb_subscribers = 0,
                  sub_lst = replicate MMT_BUS_MAX_SUBSCRIBERS \<lparr>s_pid = 0, is_consumed = False, callback = None\<rparr>,
                  message = [], reply_code = 0\<rparr>, True))"

text \<open>\<^verbatim>\<open>mmt_bus_publish\<close> up to the point where a caller without \<^verbatim>\<open>reply_code\<close> returns; \<open>lock\<close> is the
  success of \<^verbatim>\<open>pthread_mutex_lock\<close>.\<close>

definition mmt_bus_publish :: "bool \<Rightarrow> string \<Rightarrow> 'cb mmt_bus option \<Rightarrow> 'cb mmt_bus option \<times> bus_code" where
  "mmt_bus_publish lock msg bus =
     (case bus of None \<Rightarrow> (bus, MMT_BUS_NO_INIT)
      | Some b \<Rightarrow>
          if length msg > MMT_BUS_MAX_MESSAGE_SIZE then (bus, MMT_BUS_OVER_MSG_SIZE)
          else if \<not> lock then (bus, MMT_BUS_LOCK_ERROR)
          else if reply_code b \<noteq> DO_NOTHING
          then (Some (b\<lparr>message := msg, reply_code := DO_NOTHING,
                  sub_lst := map (\<lambda>s. s\<lparr>is_consumed := False\<rparr>) (sub_lst b)\<rparr>), MMT_BUS_SUCCESS)
          else (bus, MSG_BUS_OLD_MSG_NO_CONSUME))"

text \<open>The waiting loop of a publisher that asked for the reply: one poll per observed bus state.\<close>

fun publish_wait :: "'cb mmt_bus list \<Rightarrow> int option" where
  "publish_wait [] = None"
| "publish_wait (b # bs) = (if reply_code b \<noteq> DO_NOTHING then Some (reply_code b) else publish_wait bs)"

text \<open>The slot of the calling thread: the first whose \<^verbatim>\<open>pid\<close> matches.\<close>

fun find_pid :: "int \<Rightarrow> 'cb subscriber list \<Rightarrow> nat option" where
  "find_pid pid [] = None"
| "find_pid pid (s # l) = (if s_pid s = pid then Some 0 else map_option Suc (find_pid pid l))"

text \<open>
  \<^verbatim>\<open>mmt_bus_subcriber_check\<close>, first section: what callback to fire on which message, if any. The second
  section, after the callback returned \<open>ret\<close>, marks the slot and sets the reply if none was set.
\<close>

definition check_read :: "int \<Rightarrow> 'cb mmt_bus \<Rightarrow> (nat \<times> 'cb \<times> string) option" where
  "check_read pid b =
     (case find_pid pid (sub_lst b) of None \<Rightarrow> None
      | Some i \<Rightarrow> (case callback (sub_lst b ! i) of None \<Rightarrow> None
          | Some cb \<Rightarrow> if is_consumed (sub_lst b ! i) then None else Some (i, cb, message b)))"

definition check_done :: "nat \<Rightarrow> int \<Rightarrow> 'cb mmt_bus \<Rightarrow> 'cb mmt_bus" where
  "check_done i ret b =
     b\<lparr>sub_lst := (sub_lst b)[i := (sub_lst b ! i)\<lparr>is_consumed := True\<rparr>],
       reply_code := if reply_code b = DO_NOTHING then ret else reply_code b\<rparr>"

definition mmt_bus_subscriber_check :: "('cb \<Rightarrow> string \<Rightarrow> int) \<Rightarrow> int \<Rightarrow> 'cb mmt_bus \<Rightarrow> 'cb mmt_bus" where
  "mmt_bus_subscriber_check fire pid b =
     (case check_read pid b of None \<Rightarrow> b
      | Some (i, cb, msg) \<Rightarrow> check_done i (fire cb msg) b)"

text \<open>\<^verbatim>\<open>MY_MISTAKE\<close> ends the process (\<open>Exited\<close>), with the mutex still held.\<close>

fun subscribe_slots :: "int \<Rightarrow> 'cb \<Rightarrow> 'cb subscriber list \<Rightarrow> ('cb subscriber list \<times> bool) cres" where
  "subscribe_slots pid cb [] = Inr ([], False)"
| "subscribe_slots pid cb (s # l) =
     (if s_pid s = pid then Inl Exited
      else if s_pid s = 0 then Inr (s\<lparr>s_pid := pid, callback := Some cb, is_consumed := True\<rparr> # l, True)
      else bindE (subscribe_slots pid cb l) (\<lambda>(l, ok). Inr (s # l, ok)))"

definition mmt_bus_subscribe :: "int \<Rightarrow> 'cb \<Rightarrow> 'cb mmt_bus option \<Rightarrow> ('cb mmt_bus option \<times> bool) cres" where
  "mmt_bus_subscribe pid cb bus =
     (case bus of None \<Rightarrow> Inr (None, False)
      | Some b \<Rightarrow> bindE (subscribe_slots pid cb (sub_lst b)) (\<lambda>(l, ok).
          Inr (Some (b\<lparr>sub_lst := l, nb_subscribers := nb_subscribers b + (if ok then 1 else 0)\<rparr>), ok)))"

definition mmt_bus_unsubscribe :: "int \<Rightarrow> 'cb mmt_bus option \<Rightarrow> 'cb mmt_bus option \<times> bool" where
  "mmt_bus_unsubscribe pid bus =
     (case bus of None \<Rightarrow> (None, False)
      | Some b \<Rightarrow> (case find_pid pid (sub_lst b) of None \<Rightarrow> (Some b, False)
          | Some i \<Rightarrow> (Some (b\<lparr>sub_lst := (sub_lst b)[i := (sub_lst b ! i)\<lparr>s_pid := 0\<rparr>],
                             nb_subscribers := nb_subscribers b - 1\<rparr>), True)))"

definition mmt_bus_release :: "'cb mmt_bus option \<Rightarrow> 'cb mmt_bus option" where
  "mmt_bus_release bus = None"

section \<open>Interleaving\<close>

text \<open>
  The bus, what each subscriber's callback is working on, and two histories: the messages the
  bus accepted, and for each process the messages its callback handled.
\<close>

record 'cb bus_sys =
  bus :: "'cb mmt_bus"
  running :: "int \<Rightarrow> (nat \<times> 'cb \<times> string) option"
  accepted :: "string list"
  handled :: "int \<Rightarrow> string list"

text \<open>\<open>fire cb msg\<close> is the value the callback returns.\<close>

inductive bus_step :: "('cb \<Rightarrow> string \<Rightarrow> int) \<Rightarrow> 'cb bus_sys \<Rightarrow> 'cb bus_sys \<Rightarrow> bool" for fire where
  publish: "mmt_bus_publish True msg (Some (bus s)) = (Some b, c) \<Longrightarrow>
     bus_step fire s (s\<lparr>bus := b, accepted := accepted s @ (if c = MMT_BUS_SUCCESS then [msg] else [])\<rparr>)"
| check_start: "running s pid = None \<Longrightarrow>
     bus_step fire s (s\<lparr>running := (running s)(pid := check_read pid (bus s))\<rparr>)"
| check_end: "running s pid = Some (i, cb, msg) \<Longrightarrow>
     bus_step fire s (s\<lparr>bus := check_done i (fire cb msg) (bus s), running := (running s)(pid := None),
       handled := (handled s)(pid := handled s pid @ [msg])\<rparr>)"

inductive_cases bus_stepE: "bus_step fire s s'"

section \<open>Lemmas\<close>

lemma mmt_bus_publish_Some:
  "mmt_bus_publish True msg (Some b) = (Some b', c) \<longleftrightarrow>
     (length msg > MMT_BUS_MAX_MESSAGE_SIZE \<and> b' = b \<and> c = MMT_BUS_OVER_MSG_SIZE) \<or>
     (length msg \<le> MMT_BUS_MAX_MESSAGE_SIZE \<and> reply_code b = DO_NOTHING \<and> b' = b \<and> c = MSG_BUS_OLD_MSG_NO_CONSUME) \<or>
     (length msg \<le> MMT_BUS_MAX_MESSAGE_SIZE \<and> reply_code b \<noteq> DO_NOTHING \<and> c = MMT_BUS_SUCCESS \<and>
      b' = b\<lparr>message := msg, reply_code := DO_NOTHING, sub_lst := map (\<lambda>s. s\<lparr>is_consumed := False\<rparr>) (sub_lst b)\<rparr>)"
  by (auto simp: mmt_bus_publish_def)

lemma find_pid_Some: "find_pid pid l = Some i \<Longrightarrow> i < length l \<and> s_pid (l ! i) = pid"
  by (induction l arbitrary: i) (auto split: if_splits)

lemma find_pid_None: "find_pid pid l = None \<longleftrightarrow> (\<forall>s \<in> set l. s_pid s \<noteq> pid)"
  by (induction l) auto

text \<open>One subscriber, in slot 0, that answers every message.\<close>

definition one_subscriber :: "('cb \<Rightarrow> string \<Rightarrow> int) \<Rightarrow> int \<Rightarrow> 'cb \<Rightarrow> 'cb bus_sys \<Rightarrow> bool" where
  "one_subscriber fire pid cb s \<longleftrightarrow>
     sub_lst (bus s) \<noteq> [] \<and> s_pid (sub_lst (bus s) ! 0) = pid \<and> callback (sub_lst (bus s) ! 0) = Some cb \<and>
     (\<forall>r \<in> set (tl (sub_lst (bus s))). callback r = None) \<and>
     (\<forall>p. p \<noteq> pid \<longrightarrow> running s p = None) \<and>
     (case running s pid of
        None \<Rightarrow> (if is_consumed (sub_lst (bus s) ! 0)
                 then accepted s = handled s pid \<and> reply_code (bus s) \<noteq> DO_NOTHING
                 else accepted s = handled s pid @ [message (bus s)] \<and> reply_code (bus s) = DO_NOTHING)
      | Some (i, cb', msg) \<Rightarrow> i = 0 \<and> cb' = cb \<and> msg = message (bus s) \<and> \<not> is_consumed (sub_lst (bus s) ! 0) \<and>
          accepted s = handled s pid @ [msg] \<and> reply_code (bus s) = DO_NOTHING)"

lemma check_read_other:
  assumes "sub_lst b \<noteq> []" "s_pid (sub_lst b ! 0) = pid" "\<forall>r \<in> set (tl (sub_lst b)). callback r = None" "p \<noteq> pid"
  shows "check_read p b = None"
proof (cases "find_pid p (sub_lst b)")
  case (Some i)
  with find_pid_Some [OF Some] assms have "sub_lst b ! i \<in> set (tl (sub_lst b))"
    by (cases "sub_lst b"; cases i) auto
  with Some assms(3) show ?thesis by (simp add: check_read_def)
qed (simp add: check_read_def)

lemma check_read_own:
  assumes "sub_lst b \<noteq> []" "s_pid (sub_lst b ! 0) = pid" "callback (sub_lst b ! 0) = Some cb"
  shows "check_read pid b = (if is_consumed (sub_lst b ! 0) then None else Some (0, cb, message b))"
  using assms by (cases "sub_lst b") (simp_all add: check_read_def)

lemma one_subscriber_publish:
  assumes "one_subscriber fire pid cb s" "mmt_bus_publish True msg (Some (bus s)) = (Some b, c)"
  shows "one_subscriber fire pid cb
     (s\<lparr>bus := b, accepted := accepted s @ (if c = MMT_BUS_SUCCESS then [msg] else [])\<rparr>)"
proof (cases "reply_code (bus s) = DO_NOTHING \<or> length msg > MMT_BUS_MAX_MESSAGE_SIZE")
  case True
  then have "b = bus s" "c \<noteq> MMT_BUS_SUCCESS" using assms(2) by (auto simp: mmt_bus_publish_Some)
  with assms(1) show ?thesis by (simp add: one_subscriber_def)
next
  case False
  then have b: "b = (bus s)\<lparr>message := msg, reply_code := DO_NOTHING,
      sub_lst := map (\<lambda>s. s\<lparr>is_consumed := False\<rparr>) (sub_lst (bus s))\<rparr>" "c = MMT_BUS_SUCCESS"
    using assms(2) by (auto simp: mmt_bus_publish_Some)
  have "running s pid = None"
    using assms(1) False by (cases "running s pid") (auto simp: one_subscriber_def)
  with b assms(1) False show ?thesis
    by (auto simp: one_subscriber_def map_tl [symmetric] split: if_splits)
qed

lemma one_subscriber_start:
  assumes "one_subscriber fire pid cb s" "running s p = None"
  shows "one_subscriber fire pid cb (s\<lparr>running := (running s)(p := check_read p (bus s))\<rparr>)"
proof (cases "p = pid")
  case True
  then show ?thesis
    using assms check_read_own [of "bus s" pid cb] by (auto simp: one_subscriber_def)
next
  case False
  then have "(running s)(p := check_read p (bus s)) = running s"
    using assms check_read_other [of "bus s" pid p] by (auto simp: one_subscriber_def fun_eq_iff)
  then show ?thesis using assms(1) by (simp add: one_subscriber_def)
qed

lemma one_subscriber_end:
  assumes "one_subscriber fire pid cb s" "running s p = Some (i, cb', msg)" "fire cb' msg \<noteq> DO_NOTHING"
  shows "one_subscriber fire pid cb
     (s\<lparr>bus := check_done i (fire cb' msg) (bus s), running := (running s)(p := None),
        handled := (handled s)(p := handled s p @ [msg])\<rparr>)"
proof -
  have "p = pid" using assms(1,2) by (auto simp: one_subscriber_def)
  then show ?thesis
    using assms by (cases "sub_lst (bus s)") (auto simp: one_subscriber_def check_done_def)
qed

lemma one_subscriber_step:
  assumes "bus_step fire s s'" "one_subscriber fire pid cb s" "\<And>msg. fire cb msg \<noteq> DO_NOTHING"
  shows "one_subscriber fire pid cb s'"
  using assms(1)
proof cases
  case (check_end p i cb' msg)
  then have "cb' = cb" using assms(2) by (cases "p = pid") (auto simp: one_subscriber_def)
  then show ?thesis using check_end one_subscriber_end [OF assms(2)] assms(3) by simp
qed (simp_all add: one_subscriber_publish [OF assms(2)] one_subscriber_start [OF assms(2)])

lemma one_subscriber_reach:
  "(bus_step fire)\<^sup>*\<^sup>* s s' \<Longrightarrow> one_subscriber fire pid cb s \<Longrightarrow> (\<And>msg. fire cb msg \<noteq> DO_NOTHING) \<Longrightarrow>
   one_subscriber fire pid cb s'"
  by (induction rule: rtranclp_induct) (auto intro: one_subscriber_step)

definition bus_sys_init :: "int \<Rightarrow> 'cb \<Rightarrow> 'cb bus_sys option" where
  "bus_sys_init pid cb =
     (case mmt_bus_subscribe pid cb (fst (mmt_bus_create None)) of
        Inr (Some b, True) \<Rightarrow> Some \<lparr>bus = b, running = (\<lambda>_. None), accepted = [], handled = (\<lambda>_. [])\<rparr>
      | _ \<Rightarrow> None)"

lemma bus_sys_init_one:
  assumes "bus_sys_init pid cb = Some s" "pid \<noteq> 0"
  shows "one_subscriber fire pid cb s"
  using assms
  by (auto simp: bus_sys_init_def mmt_bus_create_def mmt_bus_subscribe_def MMT_BUS_MAX_SUBSCRIBERS_def
      one_subscriber_def numeral_3_eq_3)

text \<open>Two processes that have not read the message yet.\<close>

definition two_subscribers :: "string mmt_bus" where
  "two_subscribers = \<lparr>nb_subscribers = 2,
     sub_lst = [\<lparr>s_pid = 1, is_consumed = False, callback = Some ''a''\<rparr>,
                \<lparr>s_pid = 2, is_consumed = False, callback = Some ''b''\<rparr>],
     message = ''m1'', reply_code = DO_NOTHING\<rparr>"

section \<open>Properties\<close>



text \<open>
  A message no subscriber takes in charge blocks the bus for ever: once a message is
  pending and every callback answers \<^verbatim>\<open>DO_NOTHING\<close>, no later publication is accepted.
\<close>

theorem bus_blocks_after_do_nothing:
  assumes "reply_code (bus s) = DO_NOTHING" "\<And>cb msg. fire cb msg = DO_NOTHING" "(bus_step fire)\<^sup>*\<^sup>* s s'"
  shows "reply_code (bus s') = DO_NOTHING \<and> accepted s' = accepted s"
  using assms(3)
proof (induction rule: rtranclp_induct)
  case (step s1 s2)
  from step(2) show ?case
  proof cases
    case (publish msg b c)
    then show ?thesis using step(3) by (auto simp: mmt_bus_publish_Some)
  next
    case (check_end pid i cb msg)
    then show ?thesis using step(3) assms(2) by (simp add: check_done_def)
  qed (use step(3) in simp)
qed (use assms(1) in simp)

theorem bus_blocks_after_do_nothing_witness:
  "let s = \<lparr>bus = \<lparr>nb_subscribers = 0, sub_lst = [], message = ''x'', reply_code = DO_NOTHING\<rparr>,
            running = (\<lambda>_. None), accepted = [''x''], handled = (\<lambda>_. [])\<rparr> :: unit bus_sys
   in accepted (s\<lparr>running := (running s)(1 := check_read 1 (bus s))\<rparr>) = [''x'']"
proof -
  let ?s = "\<lparr>bus = \<lparr>nb_subscribers = 0, sub_lst = [], message = ''x'', reply_code = DO_NOTHING\<rparr>,
            running = (\<lambda>_. None), accepted = [''x''], handled = (\<lambda>_. [])\<rparr> :: unit bus_sys"
  have "(bus_step (\<lambda>_ _. DO_NOTHING))\<^sup>*\<^sup>* ?s (?s\<lparr>running := (running ?s)(1 := check_read 1 (bus ?s))\<rparr>)"
    by (intro r_into_rtranclp bus_step.check_start) simp
  then show ?thesis using bus_blocks_after_do_nothing [of ?s "\<lambda>_ _. DO_NOTHING"] by simp
qed

text \<open>
  With two subscribers a message can be lost: a slow callback that ends after the next
  publication marks the new message as consumed and answers it with the old reply, although
  its process never saw it.
\<close>

theorem bus_late_reply_loses_message:
  "\<exists>b. check_read 1 two_subscribers = Some (0, ''a'', ''m1'') \<and>
     mmt_bus_publish True ''m2'' (Some (check_done 1 0 two_subscribers)) = (Some b, MMT_BUS_SUCCESS) \<and>
     check_read 1 (check_done 0 5 b) = None \<and> reply_code (check_done 0 5 b) = 5"
  by (simp add: two_subscribers_def check_read_def check_done_def mmt_bus_publish_def
      MMT_BUS_MAX_MESSAGE_SIZE_def)

lemma subscribe_unsubscribe:
  assumes "mmt_bus_subscribe pid cb (Some b) = Inr (Some b', True)" "pid \<noteq> 0"
  shows "find_pid pid (sub_lst b') \<noteq> None \<and> snd (mmt_bus_unsubscribe pid (Some b'))"
proof -
  have "subscribe_slots pid cb l = Inr (l', True) \<Longrightarrow> find_pid pid l' \<noteq> None" for l l'
    by (induction l arbitrary: l') (auto simp: bindE_eq_Inr split: if_splits)
  then have "find_pid pid (sub_lst b') \<noteq> None"
    using assms(1) by (auto simp: mmt_bus_subscribe_def bindE_eq_Inr)
  then show ?thesis by (auto simp: mmt_bus_unsubscribe_def)
qed

text \<open>A new subscriber does not receive the message that was pending when it subscribed.\<close>

lemma subscribe_sees_only_later:
  assumes "subscribe_slots pid cb l = Inr (l', True)" "find_pid pid l' = Some i"
  shows "is_consumed (l' ! i)"
  using assms by (induction l arbitrary: l' i) (auto simp: bindE_eq_Inr split: if_splits)

end
