(* ===== verification/Dyn_Server.thy ===== *)
theory Dyn_Server
  imports Config_Override Mmt_Bus
begin

text \<open>
  The control server of \<^verbatim>\<open>src/src/modules/dynamic_conf/server.c\<close>: reading a command from its socket, parsing the
  parameters of an \<^verbatim>\<open>update\<close>, encoding them into the binary form of \<^verbatim>\<open>command_t\<close> and publishing the
  command on the bus; and \<^verbatim>\<open>parse_command_parameters\<close>, the decoder the subscribers use.

  Bytes are characters; 16-bit fields are stored lowest byte first, as the targets do.
\<close>

section \<open>The binary form of parameters\<close>

definition u16_bytes :: "nat \<Rightarrow> string" where
  "u16_bytes n = [char_of (n mod 256), char_of (n div 256 mod 256)]"

definition bytes_u16 :: "string \<Rightarrow> nat cres" where
  "bytes_u16 s = (case s of a # b # _ \<Rightarrow> Inr (of_char a + 256 * of_char b) | _ \<Rightarrow> Inl OutOfBounds)"

text \<open>\<open>p_data\<close> is a pointer into the message: the bytes of the message from there on.\<close>

record command_param =
  p_ident :: nat
  p_data_len :: nat
  p_data :: string

text \<open>
  \<open>buffer\<close> is the remaining parameter bytes (\<^verbatim>\<open>buffer_size - offset\<close> of them); \<open>n\<close> the free places in the
  result list. The length field is not compared with the bytes that are left; a parameter cut before its value
  makes the two 16-bit reads leave the message.
\<close>

fun parse_command_parameters :: "string \<Rightarrow> nat \<Rightarrow> command_param list cres" where
  "parse_command_parameters buffer 0 = Inr []"
| "parse_command_parameters buffer (Suc n) =
     (if buffer = [] then Inr []
      else bindE (bytes_u16 buffer) (\<lambda>ident.
           bindE (bytes_u16 (drop 2 buffer)) (\<lambda>data_len.
           bindE (parse_command_parameters (drop (4 + data_len) buffer) n) (\<lambda>rest.
             Inr (\<lparr>p_ident = ident, p_data_len = data_len, p_data = drop 4 buffer\<rparr> # rest)))))"

text \<open>The C string at a pointer into a message: a string that is not ended within the message is a fault.\<close>

definition c_string :: "string \<Rightarrow> string cres" where
  "c_string s = (if NUL \<in> set s then Inr (cstr s) else Inl OutOfBounds)"

section \<open>Parsing the text of an update\<close>

datatype syntax_error =
    No_parameter | Not_in_braces | Last_not_ended | No_equal | Not_supported | No_value | Bad_value | Huge_value

text \<open>The error that was replied, or the bytes to send; the fault is a scan that leaves the received text.\<close>

type_synonym 'a parsed = "(syntax_error + 'a) cres"

abbreviation NEW_LINE :: char where
  "NEW_LINE \<equiv> CHR 0x0A"

definition is_stop :: "char \<Rightarrow> bool" where
  "is_stop c \<longleftrightarrow> c = NEW_LINE \<or> c = CHR ''=''"

text \<open>One turn of the \<^verbatim>\<open>do .. while\<close> loop: \<open>t\<close> is the text from \<^verbatim>\<open>ident_str\<close> on; result: the bytes of the
  parameter and the text that follows. The functions called on a name or value see it up to its first NUL.\<close>

definition parse_one :: "string \<Rightarrow> nat \<Rightarrow> (string \<times> string) parsed" where
  "parse_one t room =
     (let ident_str = takeWhile (\<lambda>c. \<not> is_stop c) t
      in case drop (length ident_str) t of
           [] \<Rightarrow> Inl OutOfBounds
         | c # rest \<Rightarrow>
             if c = NEW_LINE then Inr (Inl No_equal)
             else (case conf_get_identity_from_string (cstr ident_str) of
                 None \<Rightarrow> Inr (Inl Not_supported)
               | Some ident \<Rightarrow>
                   if i_type ident = NO_SUPPORT then Inr (Inl Not_supported)
                   else let val_str = takeWhile (\<lambda>c. c \<noteq> NEW_LINE) rest
                        in if length val_str = length rest then Inl OutOfBounds
                           else if val_str = [] then Inr (Inl No_value)
                           else if conf_validate_data_value ident (cstr val_str) \<noteq> None then Inr (Inl Bad_value)
                           else let val_len = length val_str + 1
                                in if 2 + 2 + val_len > room then Inr (Inl Huge_value)
                                   else Inr (Inr (u16_bytes (i_val ident) @ u16_bytes val_len @ val_str @ [NUL],
                                          drop (length val_str + 1) rest))))"

text \<open>The text ends where the closing brace was replaced by NUL, or at an earlier NUL. The result is the
  content of \<^verbatim>\<open>parameter[0 .. offset-1]\<close>; \<open>room\<close> is \<^verbatim>\<open>param_size - offset\<close>.\<close>

fun parse_loop :: "nat \<Rightarrow> string \<Rightarrow> nat \<Rightarrow> string parsed" where
  "parse_loop 0 t room = Inl Aborted"
| "parse_loop (Suc fuel) t room =
     bindE (parse_one t room) (\<lambda>r. case r of
        Inl e \<Rightarrow> Inr (Inl e)
      | Inr (bytes, rest) \<Rightarrow>
          if cstr rest = [] then Inr (Inr bytes)
          else bindE (parse_loop fuel rest (room - length bytes)) (\<lambda>r'. case r' of
             Inl e \<Rightarrow> Inr (Inl e) | Inr bytes' \<Rightarrow> Inr (Inr (bytes @ bytes'))))"

text \<open>
  \<^verbatim>\<open>_parse_update_parameters\<close>. After the braces are removed one more character is skipped without a test,
  and the byte tested for the final newline is the one before the closing brace, also when the skipped
  character was the only one. Every turn consumes text, so its length is enough fuel.
\<close>

definition parse_update_parameters :: "string \<Rightarrow> nat \<Rightarrow> string parsed" where
  "parse_update_parameters buffer param_size =
     (if buffer = [] then Inr (Inl No_parameter)
      else let buffer = (if last buffer = NUL then butlast buffer else buffer)
           in if length buffer < 2 \<or> hd buffer \<noteq> CHR 0x7B \<or> last buffer \<noteq> CHR 0x7D then Inr (Inl Not_in_braces)
              else if buffer ! (length buffer - 2) \<noteq> NEW_LINE then Inr (Inl Last_not_ended)
              else let t = drop 2 (butlast buffer)
                   in parse_loop (length t + 1) t param_size)"

section \<open>Commands\<close>

datatype reply = Reply nat string | Syntax_error syntax_error | Parameter_list "string list"

definition IS_CMD :: "string \<Rightarrow> string \<Rightarrow> bool" where
  "IS_CMD buf cmd \<longleftrightarrow> take (length cmd) buf = cmd"

definition MMT_CMD_PARAM_MAX_LENGTH :: nat where
  "MMT_CMD_PARAM_MAX_LENGTH = 10000"

definition BUFFER_SIZE :: nat where
  "BUFFER_SIZE = 10004"

text \<open>The identifiers of commands and the codes of replies.\<close>

definition CMD_STOP :: nat where "CMD_STOP = 1"

definition CMD_START :: nat where "CMD_START = 2"

definition CMD_UPDATE :: nat where "CMD_UPDATE = 3"

definition CMD_SUCCESS :: nat where "CMD_SUCCESS = 0"

definition CMD_SYNTAX_ERROR :: nat where "CMD_SYNTAX_ERROR = 1"

text \<open>The answer to \<^verbatim>\<open>ls\<close>: the count and one line per supported parameter.\<close>

definition data_type_string :: "data_type \<Rightarrow> string" where
  "data_type_string t = (case t of NO_SUPPORT \<Rightarrow> [] | BOOL \<Rightarrow> ''boolean'' | UINT16_T \<Rightarrow> ''uint16_t''
     | UINT32_T \<Rightarrow> ''uint32_t'' | CHAR_STAR \<Rightarrow> ''string'' | LIST \<Rightarrow> ''string'')"

definition reply_list_of_update_parameters :: "string list" where
  "reply_list_of_update_parameters =
     (dec (length conf_get_identities - 1) @ [NEW_LINE])
     # map (\<lambda>i. i_ident i @ '' ('' @ data_type_string (i_type i) @ '')'' @ [NEW_LINE])
         (filter (\<lambda>i. i_type i \<noteq> NO_SUPPORT) conf_get_identities)"

text \<open>
  The reading loop over the results of \<^verbatim>\<open>read\<close>: \<open>None\<close> an error, \<open>Some d\<close> the bytes (none when nothing is
  available). \<open>Inl ()\<close>: give up; \<open>Inr None\<close>: still waiting.
\<close>

fun read_command :: "string option list \<Rightarrow> string \<Rightarrow> unit + string option" where
  "read_command [] buffer = Inr None"
| "read_command (None # rs) buffer = Inl ()"
| "read_command (Some d # rs) buffer =
     (if d = [] then (if buffer = [] then read_command rs buffer else Inr (Some buffer))
      else let buffer = buffer @ take (BUFFER_SIZE - length buffer) d
           in if length buffer \<ge> BUFFER_SIZE then Inr (Some buffer)
              else if NUL \<in> set d then Inr (Some (cstr buffer @ [NUL]))
              else read_command rs buffer)"

text \<open>The message of a command: id, length of the parameters, parameters.\<close>

definition command_bytes :: "nat \<Rightarrow> string \<Rightarrow> string" where
  "command_bytes cid params = u16_bytes cid @ u16_bytes (length params) @ params"

definition publish_command ::
  "bool \<Rightarrow> nat \<Rightarrow> string \<Rightarrow> string \<Rightarrow> 'cb mmt_bus option \<Rightarrow> reply list \<times> 'cb mmt_bus option" where
  "publish_command lock cid cmd_str params mb =
     (let (mb, ret) = mmt_bus_publish lock (command_bytes cid params) mb
      in (case ret of
            MSG_BUS_OLD_MSG_NO_CONSUME \<Rightarrow> [Reply 4 ''Old message is not consumed. Need to wait then resend again.'']
          | MMT_BUS_SUCCESS \<Rightarrow> [Reply CMD_SUCCESS (''Successfully processed the command: '' @ cmd_str @ [NEW_LINE])]
          | _ \<Rightarrow> [], mb))"

text \<open>\<^verbatim>\<open>_processing\<close> from the label \<^verbatim>\<open>_process_command\<close> on: the replies and the new bus.\<close>

definition process_command :: "bool \<Rightarrow> string \<Rightarrow> 'cb mmt_bus option \<Rightarrow> (reply list \<times> 'cb mmt_bus option) cres" where
  "process_command lock buffer mb =
     (if buffer = [] then Inr ([Reply CMD_SYNTAX_ERROR (''Does not support the command: '' @ [NEW_LINE])], mb)
      else let buffer = butlast buffer @ [NUL]
           in if IS_CMD buffer ''ls'' then Inr ([Parameter_list reply_list_of_update_parameters], mb)
              else if IS_CMD buffer ''start'' then Inr (publish_command lock CMD_START ''start'' [] mb)
              else if IS_CMD buffer ''stop'' then Inr (publish_command lock CMD_STOP ''stop'' [] mb)
              else if IS_CMD buffer ''update'' then
                bindE (parse_update_parameters (drop 6 buffer) MMT_CMD_PARAM_MAX_LENGTH) (\<lambda>r. case r of
                   Inl e \<Rightarrow> Inr ([Syntax_error e], mb)
                 | Inr params \<Rightarrow> Inr (publish_command lock CMD_UPDATE ''update'' params mb))
              else Inr ([Reply CMD_SYNTAX_ERROR (''Does not support the command: '' @ cstr buffer @ [NEW_LINE])], mb))"

definition processing ::
  "bool \<Rightarrow> string option list \<Rightarrow> 'cb mmt_bus option \<Rightarrow> (reply list \<times> 'cb mmt_bus option) option cres" where
  "processing lock reads mb =
     (case read_command reads [] of
        Inl _ \<Rightarrow> Inr (Some ([], mb))
      | Inr None \<Rightarrow> Inr None
      | Inr (Some buffer) \<Rightarrow> bindE (process_command lock buffer mb) (\<lambda>r. Inr (Some r)))"

section \<open>Lemmas on the binary form\<close>

lemma bytes_u16_u16_bytes [simp]: "n < 65536 \<Longrightarrow> bytes_u16 (u16_bytes n @ s) = Inr n"
  by (simp add: bytes_u16_def u16_bytes_def less_mult_imp_div_less)

lemma length_u16_bytes [simp]: "length (u16_bytes n) = 2"
  by (simp add: u16_bytes_def)

text \<open>What the server stores for a parameter, and what the decoder gives back for it.\<close>

definition enc_param :: "identity \<times> string \<Rightarrow> string" where
  "enc_param p = u16_bytes (i_val (fst p)) @ u16_bytes (length (snd p) + 1) @ snd p @ [NUL]"

fun dec_params :: "(identity \<times> string) list \<Rightarrow> command_param list" where
  "dec_params [] = []"
| "dec_params (p # ps) =
     \<lparr>p_ident = i_val (fst p), p_data_len = length (snd p) + 1, p_data = snd p @ [NUL] @ concat (map enc_param ps)\<rparr>
     # dec_params ps"

lemma length_enc_param [simp]: "length (enc_param p) = length (snd p) + 5"
  by (simp add: enc_param_def)

lemma enc_param_ne [simp]: "enc_param p \<noteq> []"
  by (simp add: enc_param_def)

lemma parse_command_parameters_enc:
  assumes "\<forall>p \<in> set ps. i_val (fst p) < 65536 \<and> length (snd p) + 1 < 65536" "length ps \<le> n"
  shows "parse_command_parameters (concat (map enc_param ps)) n = Inr (dec_params ps)"
  using assms
proof (induction ps arbitrary: n)
  case Nil
  then show ?case by (cases n) auto
next
  case (Cons p ps)
  then obtain m where n: "n = Suc m" by (cases n) auto
  let ?rest = "concat (map enc_param ps)"
  have d2: "drop 2 (enc_param p @ ?rest) = u16_bytes (length (snd p) + 1) @ snd p @ [NUL] @ ?rest"
    by (simp add: enc_param_def)
  have d4: "drop 4 (enc_param p @ ?rest) = snd p @ [NUL] @ ?rest"
    by (simp add: enc_param_def)
  have d: "drop (4 + (length (snd p) + 1)) (enc_param p @ ?rest) = ?rest" by simp
  have b: "bytes_u16 (enc_param p @ ?rest) = Inr (i_val (fst p))"
    using Cons.prems by (simp add: enc_param_def)
  have b2: "bytes_u16 (drop 2 (enc_param p @ ?rest)) = Inr (length (snd p) + 1)"
    unfolding d2 using Cons.prems by (intro bytes_u16_u16_bytes) simp
  have "parse_command_parameters ?rest m = Inr (dec_params ps)"
    using Cons n by simp
  then show ?case
    by (simp only: n parse_command_parameters.simps b b2 d d4 bindE_Inr append_is_Nil_conv enc_param_ne simp_thms
        if_False list.map concat.simps dec_params.simps)
qed

text \<open>What a subscriber reads: number, length, and the string at the data pointer.\<close>

definition param_view :: "command_param \<Rightarrow> nat \<times> nat \<times> string cres" where
  "param_view c = (p_ident c, p_data_len c, c_string (p_data c))"

lemma dec_params_view:
  assumes "\<forall>p \<in> set ps. NUL \<notin> set (snd p)"
  shows "map param_view (dec_params ps) = map (\<lambda>p. (i_val (fst p), length (snd p) + 1, Inr (snd p))) ps"
  using assms
proof (induction ps)
  case (Cons p ps)
  then show ?case
    using cstr_append_NUL [of "snd p" "concat (map enc_param ps)"]
    by (simp add: param_view_def c_string_def)
qed simp

section \<open>Lemmas on the text form\<close>

text \<open>The text a client writes for a parameter, and when the server accepts it.\<close>

definition text_param :: "identity \<times> string \<Rightarrow> string" where
  "text_param p = i_ident (fst p) @ ''='' @ snd p @ [NEW_LINE]"

definition good_param :: "identity \<times> string \<Rightarrow> bool" where
  "good_param p \<longleftrightarrow>
     fst p \<in> set conf_get_identities \<and> i_type (fst p) \<noteq> NO_SUPPORT \<and> snd p \<noteq> []
     \<and> NUL \<notin> set (snd p) \<and> NEW_LINE \<notin> set (snd p) \<and> conf_validate_data_value (fst p) (snd p) = None"

text \<open>No name of the table has a character the parser gives a meaning to.\<close>

lemma idents_plain: "\<forall>(a, i, ty) \<in> set conf_atts. \<forall>c \<in> set i. \<not> is_stop c \<and> c \<noteq> NUL"
  by code_simp

lemma ident_plain:
  assumes "i \<in> set conf_get_identities"
  shows "\<forall>c \<in> set (i_ident i). \<not> is_stop c" "NUL \<notin> set (i_ident i)" "i_val i < 65536"
proof -
  obtain n where n: "n < length conf_atts" "i = conf_get_identities ! n"
    using assms by (auto simp: in_set_conv_nth)
  then have i: "i_ident i = fst (snd (conf_atts ! n))" "i_val i = n" by (simp_all add: conf_get_identities_nth)
  have "conf_atts ! n \<in> set conf_atts" using n by simp
  with idents_plain i show "\<forall>c \<in> set (i_ident i). \<not> is_stop c" "NUL \<notin> set (i_ident i)"
    by (fastforce simp: split_def)+
  show "i_val i < 65536" using i n conf_atts_length by simp
qed

lemma identity_found:
  assumes "i \<in> set conf_get_identities"
  shows "conf_get_identity_from_string (i_ident i) = Some i"
proof -
  have d: "distinct (map i_ident conf_get_identities)"
  proof -
    have "map i_ident conf_get_identities = map (\<lambda>(a, i, ty). i) conf_atts"
      by (rule nth_equalityI) (auto simp: conf_get_identities_nth split_def)
    then show ?thesis using conf_atts_distinct by simp
  qed
  obtain j where j: "conf_get_identity_from_string (i_ident i) = Some j"
    using assms by (cases "conf_get_identity_from_string (i_ident i)")
      (auto simp: conf_get_identity_from_string_def find_None_iff)
  then have "j \<in> set conf_get_identities" "i_ident j = i_ident i"
    by (auto simp: conf_get_identity_from_string_def find_Some_iff)
  with d assms j show ?thesis by (auto simp: distinct_map inj_on_def)
qed

lemma parse_one_good:
  assumes "good_param p" "length (snd p) + 5 \<le> room"
  shows "parse_one (text_param p @ t) room = Inr (Inr (enc_param p, t))"
proof -
  note g = assms(1) [unfolded good_param_def]
  have tw: "takeWhile (\<lambda>c. \<not> is_stop c) (text_param p @ t) = i_ident (fst p)"
    using g ident_plain(1) [of "fst p"] by (simp add: text_param_def is_stop_def)
  have dr: "drop (length (i_ident (fst p))) (text_param p @ t) = CHR ''='' # snd p @ NEW_LINE # t"
    by (simp add: text_param_def)
  have tv: "takeWhile (\<lambda>c. c \<noteq> NEW_LINE) (snd p @ NEW_LINE # t) = snd p"
    using g by (subst takeWhile_append2) auto
  have id: "conf_get_identity_from_string (cstr (i_ident (fst p))) = Some (fst p)"
    using g ident_plain(2) [of "fst p"] by (simp add: cstr_id identity_found)
  have cv: "cstr (snd p) = snd p" using g by (simp add: cstr_id)
  show ?thesis
    using g assms(2) by (simp add: parse_one_def tw dr tv id cv Let_def enc_param_def del: drop_append) simp
qed

lemma cstr_text_param [simp]: "good_param p \<Longrightarrow> cstr (text_param p @ t) \<noteq> []"
  using ident_plain(2) [of "fst p"]
  by (cases "i_ident (fst p)") (auto simp: text_param_def cstr_def good_param_def)

lemma parse_loop_good:
  assumes "\<forall>p \<in> set ps. good_param p" "ps \<noteq> []" "length (concat (map enc_param ps)) \<le> room" "length ps \<le> fuel"
  shows "parse_loop fuel (concat (map text_param ps)) room = Inr (Inr (concat (map enc_param ps)))"
  using assms
proof (induction ps arbitrary: room fuel)
  case (Cons p ps)
  then obtain f where f: "fuel = Suc f" by (cases fuel) auto
  have one: "parse_one (text_param p @ concat (map text_param ps)) room
      = Inr (Inr (enc_param p, concat (map text_param ps)))"
    using Cons.prems by (intro parse_one_good) auto
  show ?case
  proof (cases ps)
    case Nil
    then show ?thesis using one f by (simp add: cstr_def)
  next
    case (Cons q qs)
    have ne: "cstr (concat (map text_param ps)) \<noteq> []" using Cons Cons.prems by simp
    have "parse_loop f (concat (map text_param ps)) (room - length (enc_param p))
        = Inr (Inr (concat (map enc_param ps)))"
      using Cons.prems Cons f by (intro Cons.IH) auto
    then show ?thesis using one f ne by simp
  qed
qed simp

text \<open>A text that ends with a newline is never left by the two scans, and every turn consumes some.\<close>

lemma dropWhile_last:
  assumes "t \<noteq> []" "\<not> P (last t)"
  shows "\<exists>c r. drop (length (takeWhile P t)) t = c # r \<and> \<not> P c \<and> (r \<noteq> [] \<longrightarrow> last r = last t) \<and> length r < length t"
proof -
  have "dropWhile P t \<noteq> []" using assms last_in_set [of t] by (auto simp: dropWhile_eq_Nil_conv)
  then obtain c r where cr: "dropWhile P t = c # r" by (cases "dropWhile P t") auto
  have t: "t = takeWhile P t @ c # r" using cr by (metis takeWhile_dropWhile_id)
  then have "last t = last (c # r)" "length t = length (takeWhile P t) + length (c # r)"
    by (metis last_appendR list.distinct(1), metis length_append)
  moreover have "\<not> P c" using cr hd_dropWhile [of P t] by simp
  ultimately show ?thesis using cr by (auto simp: dropWhile_eq_drop)
qed

lemma parse_one_safe:
  assumes "t \<noteq> []" "last t = NEW_LINE"
  shows "(\<exists>e. parse_one t room = Inr (Inl e)) \<or>
     (\<exists>b r. parse_one t room = Inr (Inr (b, r)) \<and> length r < length t \<and> (r \<noteq> [] \<longrightarrow> last r = NEW_LINE)
        \<and> length b \<le> room \<and> 5 < length b)"
proof -
  obtain c r where cr: "drop (length (takeWhile (\<lambda>c. \<not> is_stop c) t)) t = c # r" "is_stop c"
    "r \<noteq> [] \<longrightarrow> last r = NEW_LINE" "length r < length t"
    using dropWhile_last [of t "\<lambda>c. \<not> is_stop c"] assms by (auto simp: is_stop_def)
  show ?thesis
  proof (cases "c = NEW_LINE")
    case True
    then show ?thesis using cr by (simp add: parse_one_def Let_def)
  next
    case False
    have "r \<noteq> []"
    proof
      assume "r = []"
      then have "last t = c" using cr(1) by (metis append_take_drop_id last_snoc)
      with False assms show False by simp
    qed
    let ?v = "takeWhile (\<lambda>c. c \<noteq> NEW_LINE) r"
    obtain c' r' where r': "drop (length ?v) r = c' # r'" "r' \<noteq> [] \<longrightarrow> last r' = NEW_LINE" "length r' < length r"
      using dropWhile_last [of r "\<lambda>c. c \<noteq> NEW_LINE"] cr(3) \<open>r \<noteq> []\<close> by auto
    have "length ?v \<noteq> length r" using r'(1) by auto
    moreover have "drop (length ?v + 1) r = r'" using r'(1) by (metis drop_Suc_Cons drop_0 drop_drop add.commute plus_1_eq_Suc)
    ultimately show ?thesis
      using cr False r'
      by (auto simp: parse_one_def Let_def split: option.split)
  qed
qed

lemma parse_loop_safe:
  assumes "t \<noteq> []" "last t = NEW_LINE" "length t < fuel"
  shows "(\<exists>e. parse_loop fuel t room = Inr (Inl e)) \<or>
     (\<exists>b. parse_loop fuel t room = Inr (Inr b) \<and> b \<noteq> [] \<and> length b \<le> room)"
  using assms
proof (induction fuel arbitrary: t room)
  case (Suc fuel)
  from parse_one_safe [OF Suc.prems(1,2), of room] show ?case
  proof (elim disjE exE conjE)
    fix b r
    assume one: "parse_one t room = Inr (Inr (b, r))" "length r < length t" "r \<noteq> [] \<longrightarrow> last r = NEW_LINE"
      "length b \<le> room" "5 < length b"
    show ?thesis
    proof (cases "cstr r = []")
      case True
      then show ?thesis using one by auto
    next
      case False
      then have "r \<noteq> []" by (auto simp: cstr_def)
      then show ?thesis using Suc.IH [of r "room - length b"] Suc.prems one False by auto
    qed
  qed simp
qed simp

section \<open>Properties\<close>

lemma strip_NUL:
  "tail = [] \<or> tail = [NUL] \<Longrightarrow> parse_update_parameters (x # y @ [CHR 0x7D] @ tail) n
     = (if x \<noteq> CHR 0x7B then Inr (Inl Not_in_braces)
        else if last (x # y) \<noteq> NEW_LINE then Inr (Inl Last_not_ended)
        else parse_loop (length (tl y) + 1) (tl y) n)"
proof -
  assume tail: "tail = [] \<or> tail = [NUL]"
  let ?b = "x # y @ [CHR 0x7D]"
  have b: "(if last (?b @ tail) = NUL then butlast (?b @ tail) else ?b @ tail) = ?b"
    using tail by (auto simp: butlast_append)
  have nl: "?b ! (length ?b - 2) = last (x # y)" by (cases y rule: rev_cases) (auto simp: nth_append)
  have t: "drop 2 (butlast ?b) = tl y" by (simp add: butlast_append numeral_2_eq_2 drop_Suc)
  have "parse_update_parameters (?b @ tail) n
     = (if length ?b < 2 \<or> hd ?b \<noteq> CHR 0x7B \<or> last ?b \<noteq> CHR 0x7D then Inr (Inl Not_in_braces)
        else if ?b ! (length ?b - 2) \<noteq> NEW_LINE then Inr (Inl Last_not_ended)
        else parse_loop (length (drop 2 (butlast ?b)) + 1) (drop 2 (butlast ?b)) n)"
    unfolding parse_update_parameters_def Let_def b by simp
  also have "\<dots> = (if x \<noteq> CHR 0x7B then Inr (Inl Not_in_braces)
        else if last (x # y) \<noteq> NEW_LINE then Inr (Inl Last_not_ended)
        else parse_loop (length (tl y) + 1) (tl y) n)"
    unfolding nl t by (simp del: parse_loop.simps)
  finally show ?thesis by simp
qed

lemma length_concat_mem: "x \<in> set xs \<Longrightarrow> length (f x) \<le> length (concat (map f xs))"
  by (induction xs) auto

lemma parse_update_good:
  assumes "\<forall>p \<in> set ps. good_param p" "ps \<noteq> []" "length (concat (map enc_param ps)) \<le> n"
    and "tail = [] \<or> tail = [NUL]"
  shows "parse_update_parameters (CHR 0x7B # (NEW_LINE # concat (map text_param ps)) @ [CHR 0x7D] @ tail) n
     = Inr (Inr (concat (map enc_param ps)))"
proof -
  let ?t = "concat (map text_param ps)"
  obtain qs q where ps: "ps = qs @ [q]" using assms(2) by (cases ps rule: rev_cases) auto
  have lt: "last (CHR 0x7B # NEW_LINE # ?t) = NEW_LINE" by (simp add: ps text_param_def)
  have len: "length ps \<le> length ?t" by (induction ps) (auto simp: text_param_def)
  have "parse_loop (length ?t + 1) ?t n = Inr (Inr (concat (map enc_param ps)))"
    using assms len by (intro parse_loop_good) auto
  then show ?thesis
    using strip_NUL [OF assms(4), of "CHR 0x7B" "NEW_LINE # ?t"] lt by (simp del: parse_loop.simps)
qed

lemma good_params_fit:
  assumes "\<forall>p \<in> set ps. good_param p" "length (concat (map enc_param ps)) \<le> MMT_CMD_PARAM_MAX_LENGTH"
  shows "\<forall>p \<in> set ps. i_val (fst p) < 65536 \<and> length (snd p) + 1 < 65536"
proof
  fix p assume p: "p \<in> set ps"
  then show "i_val (fst p) < 65536 \<and> length (snd p) + 1 < 65536"
    using assms length_concat_mem [OF p, of enc_param] ident_plain(3) [of "fst p"]
    by (auto simp: good_param_def MMT_CMD_PARAM_MAX_LENGTH_def)
qed

lemma sample_params_good:
  "\<forall>p \<in> set [(conf_get_identities ! 10, ''16''), (conf_get_identities ! 18, ''true'')]. good_param p"
proof -
  have "conf_atts ! 10 = (''THREAD_NB'', ''thread-nb'', UINT16_T)"
    "conf_atts ! 18 = (''FILE_OUTPUT__ENABLE'', ''file-output.enable'', BOOL)" by code_simp+
  then have "conf_get_identities ! 10 = \<lparr>i_val = 10, i_att = ''THREAD_NB'', i_type = UINT16_T, i_ident = ''thread-nb''\<rparr>"
    "conf_get_identities ! 18
      = \<lparr>i_val = 18, i_att = ''FILE_OUTPUT__ENABLE'', i_type = BOOL, i_ident = ''file-output.enable''\<rparr>"
    by (simp_all add: conf_get_identities_nth conf_atts_length)
  moreover have "conf_get_identities ! 10 \<in> set conf_get_identities"
    "conf_get_identities ! 18 \<in> set conf_get_identities"
    by (auto intro!: nth_mem simp: conf_atts_length)
  ultimately show ?thesis
    by (simp add: good_param_def conf_validate_data_value_def)
qed

text \<open>
  C18: the update protocol round-trips. A list of accepted parameters, written line by line between
  the braces, is parsed by the server into bytes from which the decoder of the subscribers
  recovers exactly these parameters, identity numbers and NUL-ended values, in the order written.
\<close>

theorem update_round_trip:
  assumes "\<forall>p \<in> set ps. good_param p" "ps \<noteq> []" "length (concat (map enc_param ps)) \<le> MMT_CMD_PARAM_MAX_LENGTH"
    and "tail = [] \<or> tail = [NUL]"
  shows "\<exists>bytes. parse_update_parameters (CHR 0x7B # (NEW_LINE # concat (map text_param ps)) @ [CHR 0x7D] @ tail)
            MMT_CMD_PARAM_MAX_LENGTH = Inr (Inr bytes)
     \<and> (\<forall>n \<ge> length ps. \<exists>cs. parse_command_parameters bytes n = Inr cs
            \<and> map param_view cs = map (\<lambda>p. (i_val (fst p), length (snd p) + 1, Inr (snd p))) ps)"
proof -
  have "parse_update_parameters (CHR 0x7B # (NEW_LINE # concat (map text_param ps)) @ [CHR 0x7D] @ tail)
      MMT_CMD_PARAM_MAX_LENGTH = Inr (Inr (concat (map enc_param ps)))"
    using assms by (rule parse_update_good)
  moreover have "\<forall>p \<in> set ps. NUL \<notin> set (snd p)" using assms(1) by (simp add: good_param_def)
  ultimately show ?thesis
    using parse_command_parameters_enc [OF good_params_fit [OF assms(1,3)]] dec_params_view [of ps] by auto
qed

theorem update_round_trip_witness:
  "\<exists>bytes cs. parse_update_parameters (CHR 0x7B # (NEW_LINE # concat (map text_param
        [(conf_get_identities ! 10, ''16''), (conf_get_identities ! 18, ''true'')])) @ [CHR 0x7D] @ [])
      MMT_CMD_PARAM_MAX_LENGTH = Inr (Inr bytes)
   \<and> parse_command_parameters bytes 89 = Inr cs
   \<and> map param_view cs = map (\<lambda>p. (i_val (fst p), length (snd p) + 1, Inr (snd p)))
        [(conf_get_identities ! 10, ''16''), (conf_get_identities ! 18, ''true'')]"
proof -
  let ?ps = "[(conf_get_identities ! 10, ''16''), (conf_get_identities ! 18, ''true'')]"
  obtain bytes where b: "parse_update_parameters (CHR 0x7B # (NEW_LINE # concat (map text_param ?ps)) @ [CHR 0x7D] @ [])
      MMT_CMD_PARAM_MAX_LENGTH = Inr (Inr bytes)"
    and d: "\<forall>n \<ge> length ?ps. \<exists>cs. parse_command_parameters bytes n = Inr cs
        \<and> map param_view cs = map (\<lambda>p. (i_val (fst p), length (snd p) + 1, Inr (snd p))) ?ps"
    using update_round_trip [OF sample_params_good, of "[]"] by (auto simp: MMT_CMD_PARAM_MAX_LENGTH_def)
  from d [rule_format, of 89] b show ?thesis by simp
qed

text \<open>
  C21: parsing an update always ends with an error reply or with a non-empty parameter block that fits the
  buffer, for every text but an empty line between braces (possibly NUL-ended): there the scan for a name starts
  behind the received text.
\<close>

theorem update_parse_safe:
  "(\<exists>e. parse_update_parameters buffer n = Inr (Inl e))
   \<or> (\<exists>b. parse_update_parameters buffer n = Inr (Inr b) \<and> b \<noteq> [] \<and> length b \<le> n)
   \<or> parse_update_parameters buffer n = Inl OutOfBounds
     \<and> (buffer = [CHR 0x7B, NEW_LINE, CHR 0x7D] \<or> buffer = [CHR 0x7B, NEW_LINE, CHR 0x7D, NUL])"
proof -
  define b where "b = (if last buffer = NUL then butlast buffer else buffer)"
  show ?thesis
  proof (cases "buffer = [] \<or> length b < 2 \<or> hd b \<noteq> CHR 0x7B \<or> last b \<noteq> CHR 0x7D")
    case True
    then show ?thesis by (auto simp: parse_update_parameters_def Let_def b_def simp del: parse_loop.simps)
  next
    case False
    then obtain x b' where xb: "b = x # b'" "b' \<noteq> []" by (cases b; cases "tl b") auto
    then obtain y where b: "b = CHR 0x7B # y @ [CHR 0x7D]"
      using False by (cases b' rule: rev_cases) auto
    obtain tail where tail: "tail = [] \<or> tail = [NUL]" "buffer = CHR 0x7B # y @ [CHR 0x7D] @ tail"
    proof (cases "last buffer = NUL")
      case True
      then have "buffer = b @ [NUL]" using False b_def append_butlast_last_id [of buffer] by simp
      then show ?thesis using that [of "[NUL]"] b by simp
    next
      case F: False
      then show ?thesis using that [of "[]"] b b_def by simp
    qed
    note p = strip_NUL [OF tail(1), of "CHR 0x7B" y n, folded tail(2)]
    show ?thesis
    proof (cases "last (CHR 0x7B # y) = NEW_LINE")
      case nl: True
      then obtain c y' where y: "y = c # y'" by (cases y) auto
      show ?thesis
      proof (cases "y' = []")
        case True
        then have "c = NEW_LINE" using nl y by simp
        then show ?thesis using p nl tail y True by (auto simp: parse_one_def Let_def)
      next
        case F: False
        then have "last y' = NEW_LINE" using nl y by simp
        then show ?thesis using parse_loop_safe [OF F, of "length y' + 1" n] p nl y
          by (auto simp del: parse_loop.simps)
      qed
    qed (use p in simp)
  qed
qed

end
