(* ===== verification/Dyn_Conf.thy ===== *)
theory Dyn_Conf
  imports Dyn_Server
begin

text \<open>
  The two subscribers of the command bus: the monitor process,
  \<^verbatim>\<open>src/src/modules/dynamic_conf/dynamic_conf.c\<close>, which obeys start, stop and update, and the
  processing process, \<^verbatim>\<open>agency.c\<close>, which only acknowledges updates.

  The state of the monitor is what its callback can reach: the pid cell of the processing process (0: to
  be created, negative: stopped), the configuration, and the signals sent with \<^verbatim>\<open>kill\<close>, in order.
\<close>

section \<open>Definitions\<close>

datatype signal = SIGINT | SIGRES | SIGSEGV | SIGABRT

record monitor =
  proc_pid :: int
  m_conf :: conf_fields
  kills :: "(int \<times> signal) list"

definition REPLY_OK :: int where "REPLY_OK = 0"

definition REPLY_CHILD_RUNNING :: int where "REPLY_CHILD_RUNNING = 1"

definition REPLY_CHILD_STOPPING :: int where "REPLY_CHILD_STOPPING = 1"

lemmas reply_defs = REPLY_OK_def REPLY_CHILD_RUNNING_def REPLY_CHILD_STOPPING_def

text \<open>\<^verbatim>\<open>CONF_ATT__NONE\<close> is the first of the enumeration.\<close>

definition dynamic_conf_need_to_restart_to_update :: "nat \<Rightarrow> bool" where
  "dynamic_conf_need_to_restart_to_update ident = (if ident = 0 then False else True)"

text \<open>The loop over the parameters of an update.\<close>

fun update_params :: "'c cfg_api \<Rightarrow> command_param list \<Rightarrow> conf_fields \<Rightarrow> bool \<Rightarrow> (conf_fields \<times> bool) cres" where
  "update_params A [] conf is_need_to_restart = Inr (conf, is_need_to_restart)"
| "update_params A (c # cs) conf is_need_to_restart =
     bindE (c_string (p_data c)) (\<lambda>data.
     bindE (conf_override_element_by_id A (int (p_ident c)) data conf) (\<lambda>(conf, _).
       update_params A cs conf
         (if dynamic_conf_need_to_restart_to_update (p_ident c) then True else is_need_to_restart)))"

text \<open>The fields of \<^verbatim>\<open>command_t\<close> in a message: id and the parameter bytes.\<close>

definition command_fields :: "string \<Rightarrow> (nat \<times> string) cres" where
  "command_fields msg =
     bindE (bytes_u16 msg) (\<lambda>cid.
     bindE (bytes_u16 (drop 2 msg)) (\<lambda>len.
       if length msg < 4 + len then Inl OutOfBounds else Inr (cid, take len (drop 4 msg))))"

definition receive_message :: "'c cfg_api \<Rightarrow> string \<Rightarrow> monitor \<Rightarrow> (monitor \<times> int) cres" where
  "receive_message A msg st =
     bindE (command_fields msg) (\<lambda>(cid, parameter).
       if cid = CMD_START then
         (if proc_pid st > 0 then Inr (st, REPLY_CHILD_RUNNING)
          else Inr (st\<lparr>proc_pid := 0\<rparr>, REPLY_OK))
       else if cid = CMD_STOP then
         (if proc_pid st \<le> 0 then Inr (st, REPLY_CHILD_STOPPING)
          else Inr (st\<lparr>kills := kills st @ [(proc_pid st, SIGINT)]\<rparr>, REPLY_OK))
       else if cid = CMD_UPDATE then
         bindE (parse_command_parameters parameter (length conf_get_identities)) (\<lambda>params.
         bindE (update_params A params (m_conf st) False) (\<lambda>(conf, is_need_to_restart).
           let st = st\<lparr>m_conf := conf\<rparr>
           in if proc_pid st > 0 \<and> is_need_to_restart
              then Inr (st\<lparr>kills := kills st @ [(proc_pid st, SIGRES)]\<rparr>, REPLY_OK)
              else if proc_pid st < 0 then Inr (st, REPLY_OK)
              else Inr (st, DO_NOTHING)))
       else Inr (st, DO_NOTHING))"

text \<open>The callback of the processing process.\<close>

definition agency_receive_message :: "string \<Rightarrow> int cres" where
  "agency_receive_message msg =
     bindE (command_fields msg) (\<lambda>(cid, parameter).
       if cid = CMD_UPDATE
       then bindE (parse_command_parameters parameter (length conf_get_identities)) (\<lambda>_. Inr REPLY_OK)
       else Inr DO_NOTHING)"

datatype callback = Monitor_cb | Agency_cb

definition dynamic_conf_alloc_and_init ::
  "int \<Rightarrow> callback mmt_bus option \<Rightarrow> (callback mmt_bus option \<times> bool) cres" where
  "dynamic_conf_alloc_and_init tid mb =
     (let (mb, ret) = mmt_bus_create mb
      in bindE (mmt_bus_subscribe tid Monitor_cb mb) (\<lambda>(mb, _). Inr (mb, ret)))"

definition dynamic_conf_agency_start ::
  "int \<Rightarrow> callback mmt_bus option \<Rightarrow> (callback mmt_bus option \<times> bool) cres" where
  "dynamic_conf_agency_start tid mb = mmt_bus_subscribe tid Agency_cb mb"

definition dynamic_conf_agency_stop :: "int \<Rightarrow> callback mmt_bus option \<Rightarrow> callback mmt_bus option" where
  "dynamic_conf_agency_stop tid mb = fst (mmt_bus_unsubscribe tid mb)"

text \<open>\<^verbatim>\<open>dynamic_conf_check\<close> in the monitor: \<^verbatim>\<open>mmt_bus_subcriber_check\<close> with its own callback.\<close>

definition dynamic_conf_check ::
  "'c cfg_api \<Rightarrow> int \<Rightarrow> callback mmt_bus \<Rightarrow> monitor \<Rightarrow> (callback mmt_bus \<times> monitor) cres" where
  "dynamic_conf_check A tid b st =
     (case check_read tid b of None \<Rightarrow> Inr (b, st)
      | Some (i, cb, msg) \<Rightarrow>
          bindE (case cb of Monitor_cb \<Rightarrow> receive_message A msg st
                 | Agency_cb \<Rightarrow> bindE (agency_receive_message msg) (\<lambda>r. Inr (st, r)))
            (\<lambda>(st, ret). Inr (check_done i ret b, st)))"

section \<open>Lemmas\<close>

lemma command_fields_bytes:
  assumes "cid < 65536" "length params < 65536"
  shows "command_fields (command_bytes cid params) = Inr (cid, params)"
proof -
  have b: "bytes_u16 (command_bytes cid params) = Inr cid"
    using assms by (simp add: command_bytes_def)
  have d2: "drop 2 (command_bytes cid params) = u16_bytes (length params) @ params"
    by (simp add: command_bytes_def)
  have d4: "drop 4 (command_bytes cid params) = params" by (simp add: command_bytes_def)
  have l: "length (command_bytes cid params) = 4 + length params" by (simp add: command_bytes_def)
  show ?thesis
    using assms(2) by (simp add: command_fields_def b d2 d4 l)
qed

text \<open>Overriding a list of identities, one after the other: what an update means for the configuration.\<close>

fun override_all :: "'c cfg_api \<Rightarrow> (identity \<times> string) list \<Rightarrow> conf_fields \<Rightarrow> conf_fields cres" where
  "override_all A [] conf = Inr conf"
| "override_all A (p # ps) conf =
     bindE (override_element_by_ident A (fst p) (snd p) conf) (\<lambda>(conf, _). override_all A ps conf)"

lemma identity_by_id: "i \<in> set conf_get_identities \<Longrightarrow> conf_get_identity_from_id (int (i_val i)) = Some i"
  using identity_found identity_from_string_id by blast

lemma update_params_dec:
  assumes "\<forall>p \<in> set ps. good_param p"
  shows "update_params A (dec_params ps) conf b
     = bindE (override_all A ps conf) (\<lambda>conf. Inr (conf, b \<or> (\<exists>p \<in> set ps. i_val (fst p) \<noteq> 0)))"
  using assms
proof (induction ps arbitrary: conf b)
  case (Cons p ps)
  then have g: "NUL \<notin> set (snd p)" "conf_get_identity_from_id (int (i_val (fst p))) = Some (fst p)"
    by (auto simp: good_param_def identity_by_id)
  have s: "c_string (snd p @ [NUL] @ concat (map enc_param ps)) = Inr (snd p)"
    using g(1) cstr_append_NUL [of "snd p" "concat (map enc_param ps)"] by (simp add: c_string_def)
  have IH: "update_params A (dec_params ps) conf b
      = bindE (override_all A ps conf) (\<lambda>conf. Inr (conf, b \<or> (\<exists>p \<in> set ps. i_val (fst p) \<noteq> 0)))" for conf b
    using Cons by simp
  show ?case
    unfolding dec_params.simps update_params.simps command_param.simps s
    by (simp add: g(2) conf_override_element_by_id_def IH bindE_assoc dynamic_conf_need_to_restart_to_update_def
        split_def)
qed simp

lemma good_param_nonzero: "good_param p \<Longrightarrow> i_val (fst p) \<noteq> 0"
proof -
  assume g: "good_param p"
  then obtain n where n: "n < length conf_atts" "fst p = conf_get_identities ! n"
    by (auto simp: good_param_def in_set_conv_nth)
  have "i_type (conf_get_identities ! 0) = NO_SUPPORT"
    by (simp add: conf_get_identities_nth conf_atts_length) (simp add: conf_atts_def)
  with g n show ?thesis by (cases n) (auto simp: good_param_def conf_get_identities_nth)
qed

text \<open>The monitor on an update whose parameters were encoded by the server.\<close>

lemma receive_update:
  assumes "\<forall>p \<in> set ps. good_param p" "ps \<noteq> []" "length ps \<le> length conf_get_identities"
    and "length (concat (map enc_param ps)) \<le> MMT_CMD_PARAM_MAX_LENGTH"
    and "override_all A ps (m_conf st) = Inr conf'"
  shows "receive_message A (command_bytes CMD_UPDATE (concat (map enc_param ps))) st =
     Inr (if proc_pid st > 0 then (st\<lparr>m_conf := conf', kills := kills st @ [(proc_pid st, SIGRES)]\<rparr>, REPLY_OK)
          else if proc_pid st < 0 then (st\<lparr>m_conf := conf'\<rparr>, REPLY_OK)
          else (st\<lparr>m_conf := conf'\<rparr>, DO_NOTHING))"
proof -
  have f: "command_fields (command_bytes CMD_UPDATE (concat (map enc_param ps)))
      = Inr (CMD_UPDATE, concat (map enc_param ps))"
    using assms(4) by (intro command_fields_bytes) (auto simp: CMD_UPDATE_def MMT_CMD_PARAM_MAX_LENGTH_def)
  have p: "parse_command_parameters (concat (map enc_param ps)) (length conf_get_identities) = Inr (dec_params ps)"
    using parse_command_parameters_enc [OF good_params_fit [OF assms(1,4)] assms(3)] .
  have nz: "\<exists>p \<in> set ps. i_val (fst p) \<noteq> 0" using assms(1,2) good_param_nonzero by (cases ps) auto
  have u: "update_params A (dec_params ps) (m_conf st) False = Inr (conf', True)"
    using update_params_dec [OF assms(1), of A "m_conf st" False] assms(5) nz by simp
  have c: "CMD_UPDATE \<noteq> CMD_START" "CMD_UPDATE \<noteq> CMD_STOP"
    by (simp_all add: CMD_UPDATE_def CMD_START_def CMD_STOP_def)
  show ?thesis unfolding receive_message_def by (simp add: f p u c Let_def del: length_conf_get_identities)
qed

end
