(* ===== verification/Monitor.thy ===== *)
theory Monitor
  imports Dyn_Conf
begin

text \<open>
  The start-up and the process structure of \<^verbatim>\<open>src/src/main.c\<close>: the command line, the signal handler and the exit
  code of the processing process, and the loop of the monitor process that creates, watches and re-creates the
  processing process and the control process.

  The results of the system calls of one turn of the loop (two \<^verbatim>\<open>fork\<close>, one \<^verbatim>\<open>waitpid\<close>) are an input of the
  turn. The cell of the pid of the processing process is shared with the bus callback, so it is the field
  \<open>proc_pid\<close> of \<open>monitor\<close>.
\<close>

section \<open>Command line\<close>

text \<open>The options as \<^verbatim>\<open>getopt\<close> delivers them.\<close>

datatype cmd_opt = Opt_c string | Opt_t string | Opt_i string | Opt_v | Opt_h | Opt_x | Opt_X string

datatype 'a start = Started 'a | Exit_code nat | Abort_call

definition DEFAULT_CONFIG_FILE :: string where
  "DEFAULT_CONFIG_FILE = ''./mmt-probe.conf''"

definition DEFAULT_CONFIG_FILE_OPT :: string where
  "DEFAULT_CONFIG_FILE_OPT = ''/opt/mmt/probe/mmt-probe.conf''"

text \<open>First round: the configuration file, \<open>None\<close> as long as the user gives none.\<close>

fun get_config_file :: "cmd_opt list \<Rightarrow> string option \<Rightarrow> string option start" where
  "get_config_file [] file = Started file"
| "get_config_file (Opt_c f # os) file = get_config_file os (Some f)"
| "get_config_file (Opt_v # os) file = Exit_code 0"
| "get_config_file (Opt_h # os) file = Exit_code 0"
| "get_config_file (Opt_x # os) file = Exit_code 0"
| "get_config_file (_ # os) file = get_config_file os file"

definition load_config :: "(string \<Rightarrow> 'conf option cres) \<Rightarrow> string option \<Rightarrow> 'conf start cres" where
  "load_config load file =
     bindE (load (case file of None \<Rightarrow> DEFAULT_CONFIG_FILE | Some f \<Rightarrow> f)) (\<lambda>c. case c of
       Some c \<Rightarrow> Inr (Started c)
     | None \<Rightarrow> if file \<noteq> None then Inr Abort_call
               else bindE (load DEFAULT_CONFIG_FILE_OPT) (\<lambda>c. case c of
                      Some c \<Rightarrow> Inr (Started c) | None \<Rightarrow> Inr Abort_call))"

text \<open>The value of \<^verbatim>\<open>-X\<close> is cut at its first equals sign; without one the value is the empty string at its end.\<close>

definition split_override :: "string \<Rightarrow> string \<times> string" where
  "split_override optarg =
     (let att = takeWhile (\<lambda>c. c \<noteq> CHR ''='') optarg in (att, drop (length att + 1) optarg))"

text \<open>Second round. The input block must be present for \<^verbatim>\<open>-t\<close> and \<^verbatim>\<open>-i\<close>.\<close>

definition set_input :: "string \<Rightarrow> nat \<Rightarrow> conf_fields \<Rightarrow> conf_fields cres" where
  "set_input source mode conf =
     (if conf ''INPUT__SOURCE'' = None then Inl OutOfBounds
      else Inr (conf(''INPUT__SOURCE'' \<mapsto> V_str (Some source), ''INPUT__MODE'' \<mapsto> V_enum mode)))"

fun override_options :: "'c cfg_api \<Rightarrow> cmd_opt list \<Rightarrow> conf_fields \<Rightarrow> conf_fields start cres" where
  "override_options A [] conf = Inr (Started conf)"
| "override_options A (Opt_t f # os) conf = bindE (set_input f 1 conf) (override_options A os)"
| "override_options A (Opt_i f # os) conf = bindE (set_input f 0 conf) (override_options A os)"
| "override_options A (Opt_X s # os) conf =
     (let (att, v) = split_override s in
      bindE (conf_override_element A att v conf) (\<lambda>(conf, ret).
        if ret = -1 then Inr (Exit_code 1) else override_options A os conf))"
| "override_options A (_ # os) conf = override_options A os conf"

definition parse_options :: "'c cfg_api \<Rightarrow> nat \<times> nat \<times> int \<Rightarrow> cmd_opt list \<Rightarrow> conf_fields start cres" where
  "parse_options A fresh os =
     (case get_config_file os None of
        Exit_code n \<Rightarrow> Inr (Exit_code n)
      | Abort_call \<Rightarrow> Inr Abort_call
      | Started file \<Rightarrow> bindE (load_config (conf_load_from_file A fresh) file) (\<lambda>r. case r of
            Started c \<Rightarrow> override_options A os (conf_fields_of c)
          | Exit_code n \<Rightarrow> Inr (Exit_code n)
          | Abort_call \<Rightarrow> Inr Abort_call))"

section \<open>The processing process\<close>

record proc =
  main_processing_signal :: "signal option"
  is_exiting :: bool
  capture_stopped :: bool

datatype proc_status = Proc_running proc | Proc_exited nat

definition EXIT_NORMALLY :: proc_status where "EXIT_NORMALLY = Proc_exited 0"

definition EXIT_TOBE_RESTARTED :: proc_status where "EXIT_TOBE_RESTARTED = Proc_exited 1"

definition signal_handler :: "bool \<Rightarrow> signal \<Rightarrow> proc \<Rightarrow> proc_status" where
  "signal_handler offline type p =
     (let p = p\<lparr>main_processing_signal := Some type\<rparr>
      in if is_exiting p then EXIT_NORMALLY
         else case type of
           SIGINT \<Rightarrow> Proc_running (p\<lparr>is_exiting := True, capture_stopped := True\<rparr>)
         | SIGSEGV \<Rightarrow> if offline then EXIT_NORMALLY else EXIT_TOBE_RESTARTED
         | SIGABRT \<Rightarrow> EXIT_NORMALLY
         | SIGRES \<Rightarrow> Proc_running (p\<lparr>capture_stopped := True\<rparr>))"

text \<open>The end of \<^verbatim>\<open>_main_processing\<close>, once the capture has ended; when it returns, the caller exits successfully.\<close>

definition main_processing_end :: "proc \<Rightarrow> proc_status" where
  "main_processing_end p =
     (case main_processing_signal p of
        Some SIGINT \<Rightarrow> EXIT_NORMALLY | Some SIGRES \<Rightarrow> EXIT_TOBE_RESTARTED | _ \<Rightarrow> Proc_exited 0)"

fun main_processing :: "bool \<Rightarrow> signal list \<Rightarrow> proc \<Rightarrow> proc_status" where
  "main_processing offline [] p = main_processing_end p"
| "main_processing offline (t # ts) p =
     (case signal_handler offline t p of
        Proc_running p \<Rightarrow> main_processing offline ts p
      | Proc_exited n \<Rightarrow> Proc_exited n)"

definition proc_init :: proc where
  "proc_init = \<lparr>main_processing_signal = None, is_exiting = False, capture_stopped = False\<rparr>"

section \<open>The monitor process\<close>

datatype wstatus = W_exited nat | W_signaled

datatype wait_result = No_change | Wait_error | Child int wstatus

record turn =
  fork0 :: int
  fork1 :: int
  waited :: wait_result

record psys =
  mon :: monitor
  ctl_pid :: int
  cmd_bus :: "callback mmt_bus"

datatype flow = Loop_on | Loop_exit

definition PID_NEED_TO_CREATE :: int where "PID_NEED_TO_CREATE = 0"

definition PID_NEED_TO_STOP :: int where "PID_NEED_TO_STOP = -1"

lemmas pid_defs = PID_NEED_TO_CREATE_def PID_NEED_TO_STOP_def

text \<open>Steps 1 and 2: create the missing children. \<open>dyn\<close>: dynamic configuration is enabled.\<close>

definition create_children :: "bool \<Rightarrow> turn \<Rightarrow> psys \<Rightarrow> psys cres" where
  "create_children dyn e s =
     bindE (if proc_pid (mon s) = PID_NEED_TO_CREATE
            then (if fork0 e < 0 then Inl Aborted else Inr (s\<lparr>mon := (mon s)\<lparr>proc_pid := fork0 e\<rparr>\<rparr>))
            else Inr s) (\<lambda>s.
     if dyn \<and> ctl_pid s = PID_NEED_TO_CREATE
     then (if fork1 e < 0 then Inl Aborted else Inr (s\<lparr>ctl_pid := fork1 e\<rparr>))
     else Inr s)"

text \<open>Step 4: the new state of a child that ended.\<close>

definition child_status :: "wstatus \<Rightarrow> int" where
  "child_status st = (if st = W_exited 0 then PID_NEED_TO_STOP else PID_NEED_TO_CREATE)"

definition update_child :: "bool \<Rightarrow> int \<Rightarrow> wstatus \<Rightarrow> psys \<Rightarrow> psys" where
  "update_child dyn pid st s =
     (if pid = proc_pid (mon s) then s\<lparr>mon := (mon s)\<lparr>proc_pid := child_status st\<rparr>\<rparr>
      else if dyn \<and> pid = ctl_pid s then s\<lparr>ctl_pid := child_status st\<rparr>
      else s)"

definition all_stopped :: "bool \<Rightarrow> psys \<Rightarrow> bool" where
  "all_stopped dyn s \<longleftrightarrow> proc_pid (mon s) = PID_NEED_TO_STOP \<and> (dyn \<longrightarrow> ctl_pid s = PID_NEED_TO_STOP)"

definition check_commands :: "'c cfg_api \<Rightarrow> int \<Rightarrow> bool \<Rightarrow> psys \<Rightarrow> psys cres" where
  "check_commands A tid dyn s =
     (if dyn then bindE (dynamic_conf_check A tid (cmd_bus s) (mon s)) (\<lambda>(b, m). Inr (s\<lparr>cmd_bus := b, mon := m\<rparr>))
      else Inr s)"

text \<open>One turn of the loop of \<^verbatim>\<open>_create_sub_processes\<close> in the parent.\<close>

definition monitor_turn :: "'c cfg_api \<Rightarrow> int \<Rightarrow> bool \<Rightarrow> turn \<Rightarrow> psys \<Rightarrow> (psys \<times> flow) cres" where
  "monitor_turn A tid dyn e s =
     bindE (create_children dyn e s) (\<lambda>s.
     case waited e of
       Wait_error \<Rightarrow> Inl Aborted
     | No_change \<Rightarrow> bindE (check_commands A tid dyn s) (\<lambda>s. Inr (s, Loop_on))
     | Child pid st \<Rightarrow>
         let s = update_child dyn pid st s
         in if all_stopped dyn s then Inr (s, Loop_exit)
            else bindE (check_commands A tid dyn s) (\<lambda>s. Inr (s, Loop_on)))"

fun monitor_loop :: "'c cfg_api \<Rightarrow> int \<Rightarrow> bool \<Rightarrow> turn list \<Rightarrow> psys \<Rightarrow> (psys \<times> flow) cres" where
  "monitor_loop A tid dyn [] s = Inr (s, Loop_on)"
| "monitor_loop A tid dyn (e # es) s =
     bindE (monitor_turn A tid dyn e s) (\<lambda>(s, f). case f of
        Loop_exit \<Rightarrow> Inr (s, Loop_exit) | Loop_on \<Rightarrow> monitor_loop A tid dyn es s)"

text \<open>The children the kernel knows: \<^verbatim>\<open>fork\<close> gives a new positive pid, \<^verbatim>\<open>waitpid\<close> reports a child once.\<close>

definition alive_after_fork :: "bool \<Rightarrow> turn \<Rightarrow> psys \<Rightarrow> int set \<Rightarrow> int set" where
  "alive_after_fork dyn e s alive =
     alive \<union> (if proc_pid (mon s) = PID_NEED_TO_CREATE then {fork0 e} else {})
           \<union> (if dyn \<and> ctl_pid s = PID_NEED_TO_CREATE then {fork1 e} else {})"

definition kernel_ok :: "bool \<Rightarrow> turn \<Rightarrow> psys \<Rightarrow> int set \<Rightarrow> bool" where
  "kernel_ok dyn e s alive \<longleftrightarrow>
     fork0 e > 0 \<and> fork1 e > 0 \<and> fork0 e \<noteq> fork1 e \<and> fork0 e \<notin> alive \<and> fork1 e \<notin> alive
     \<and> (case waited e of Child pid st \<Rightarrow> pid \<in> alive_after_fork dyn e s alive | _ \<Rightarrow> True)"

definition alive_after :: "bool \<Rightarrow> turn \<Rightarrow> psys \<Rightarrow> int set \<Rightarrow> int set" where
  "alive_after dyn e s alive =
     alive_after_fork dyn e s alive - (case waited e of Child pid st \<Rightarrow> {pid} | _ \<Rightarrow> {})"

inductive monitored :: "'c cfg_api \<Rightarrow> int \<Rightarrow> bool \<Rightarrow> psys \<Rightarrow> int set \<Rightarrow> bool" for A tid dyn where
  start: "proc_pid (mon s) = PID_NEED_TO_CREATE \<Longrightarrow> ctl_pid s = PID_NEED_TO_CREATE \<Longrightarrow> monitored A tid dyn s {}"
| turn: "monitored A tid dyn s alive \<Longrightarrow> kernel_ok dyn e s alive \<Longrightarrow>
     monitor_turn A tid dyn e s = Inr (s', f) \<Longrightarrow> monitored A tid dyn s' (alive_after dyn e s alive)"

section \<open>Lemmas\<close>

text \<open>A bus callback touches the pid cell only to ask for a new child, and only if there is none.\<close>

lemma receive_message_pid:
  assumes "receive_message A msg st = Inr (st', ret)"
  shows "proc_pid st' = proc_pid st \<or> proc_pid st \<le> 0 \<and> proc_pid st' = 0"
  using assms
  by (auto simp: receive_message_def bindE_eq_Inr Let_def split_def split: if_splits)

lemma dynamic_conf_check_pid:
  assumes "dynamic_conf_check A tid b st = Inr (b', st')"
  shows "proc_pid st' = proc_pid st \<or> proc_pid st \<le> 0 \<and> proc_pid st' = 0"
  using assms
  by (auto simp: dynamic_conf_check_def bindE_eq_Inr split_def split: option.splits callback.splits
      dest: receive_message_pid)

lemma check_commands_pid:
  assumes "check_commands A tid dyn s = Inr s'"
  shows "ctl_pid s' = ctl_pid s" "proc_pid (mon s') = proc_pid (mon s) \<or> proc_pid (mon s) \<le> 0 \<and> proc_pid (mon s') = 0"
  using assms
  by (auto simp: check_commands_def bindE_eq_Inr split_def split: if_splits dest: dynamic_conf_check_pid)

text \<open>The two cells after the creation step.\<close>

lemma create_children_pids:
  assumes "create_children dyn e s = Inr s'"
  shows "proc_pid (mon s') = (if proc_pid (mon s) = 0 then fork0 e else proc_pid (mon s))"
    and "ctl_pid s' = (if dyn \<and> ctl_pid s = 0 then fork1 e else ctl_pid s)"
  using assms by (auto simp: create_children_def bindE_eq_Inr pid_defs split: if_splits)

lemma monitor_turn_cases:
  assumes "monitor_turn A tid dyn e s = Inr (s', f)"
  obtains s1 s2 where "create_children dyn e s = Inr s1" "waited e \<noteq> Wait_error"
    "s2 = (case waited e of Child pid st \<Rightarrow> update_child dyn pid st s1 | _ \<Rightarrow> s1)"
    "f = Loop_exit \<and> s' = s2 \<and> all_stopped dyn s2 \<and> (\<exists>pid st. waited e = Child pid st)
     \<or> f = Loop_on \<and> check_commands A tid dyn s2 = Inr s' \<and> (\<forall>pid st. waited e = Child pid st \<longrightarrow> \<not> all_stopped dyn s2)"
proof -
  obtain s1 where s1: "create_children dyn e s = Inr s1"
    using assms by (auto simp: monitor_turn_def bindE_eq_Inr)
  show ?thesis
  proof (rule that [OF s1 _ refl])
    show "waited e \<noteq> Wait_error" using assms s1 by (auto simp: monitor_turn_def)
    show "f = Loop_exit \<and> s' = (case waited e of Child pid st \<Rightarrow> update_child dyn pid st s1 | _ \<Rightarrow> s1)
          \<and> all_stopped dyn (case waited e of Child pid st \<Rightarrow> update_child dyn pid st s1 | _ \<Rightarrow> s1)
          \<and> (\<exists>pid st. waited e = Child pid st)
        \<or> f = Loop_on \<and> check_commands A tid dyn (case waited e of Child pid st \<Rightarrow> update_child dyn pid st s1 | _ \<Rightarrow> s1)
            = Inr s'
          \<and> (\<forall>pid st. waited e = Child pid st
               \<longrightarrow> \<not> all_stopped dyn (case waited e of Child pid st \<Rightarrow> update_child dyn pid st s1 | _ \<Rightarrow> s1))"
      using assms s1
      by (auto simp: monitor_turn_def bindE_eq_Inr Let_def split: wait_result.splits if_splits)
  qed
qed

text \<open>The invariant: the positive cells are exactly the living children, and they differ.\<close>

definition tracks :: "psys \<Rightarrow> int set \<Rightarrow> bool" where
  "tracks s alive \<longleftrightarrow>
     alive = {p. p > 0 \<and> (p = proc_pid (mon s) \<or> p = ctl_pid s)}
     \<and> (proc_pid (mon s) > 0 \<longrightarrow> proc_pid (mon s) \<noteq> ctl_pid s)"

lemma tracks_check:
  assumes "check_commands A tid dyn s = Inr s'" "tracks s alive"
  shows "tracks s' alive"
  using check_commands_pid [OF assms(1)] assms(2) by (auto simp: tracks_def)

lemma tracks_create:
  assumes "create_children dyn e s = Inr s1" "tracks s alive" "kernel_ok dyn e s alive"
  shows "tracks s1 (alive_after_fork dyn e s alive)"
  using create_children_pids [OF assms(1)] assms(2,3)
  by (auto simp: tracks_def alive_after_fork_def kernel_ok_def pid_defs)

lemma tracks_update:
  assumes "tracks s alive" "pid \<in> alive" "\<not> dyn \<longrightarrow> ctl_pid s \<le> 0"
  shows "tracks (update_child dyn pid st s) (alive - {pid})"
  using assms by (auto simp: tracks_def update_child_def child_status_def pid_defs)

lemma monitored_tracks:
  "monitored A tid dyn s alive \<Longrightarrow> tracks s alive \<and> (\<not> dyn \<longrightarrow> ctl_pid s = 0)"
proof (induction rule: monitored.induct)
  case (start s)
  then show ?case by (auto simp: tracks_def pid_defs)
next
  case (turn s alive e s' f)
  obtain s1 s2 where *: "create_children dyn e s = Inr s1" "waited e \<noteq> Wait_error"
    "s2 = (case waited e of Child pid st \<Rightarrow> update_child dyn pid st s1 | _ \<Rightarrow> s1)"
    "s' = s2 \<or> check_commands A tid dyn s2 = Inr s'"
    using monitor_turn_cases [OF turn.hyps(3)] by metis
  have t1: "tracks s1 (alive_after_fork dyn e s alive)" using *(1) turn by (blast intro: tracks_create)
  have c1: "\<not> dyn \<longrightarrow> ctl_pid s1 = 0" using create_children_pids(2) [OF *(1)] turn by auto
  have "tracks s2 (alive_after dyn e s alive) \<and> (\<not> dyn \<longrightarrow> ctl_pid s2 = 0)"
  proof (cases "waited e")
    case (Child pid st)
    then have "pid \<in> alive_after_fork dyn e s alive" using turn.hyps(2) by (simp add: kernel_ok_def)
    then have "tracks (update_child dyn pid st s1) (alive_after_fork dyn e s alive - {pid})"
      using c1 by (intro tracks_update [OF t1]) auto
    moreover have "\<not> dyn \<longrightarrow> ctl_pid (update_child dyn pid st s1) = 0" using c1 by (simp add: update_child_def)
    ultimately show ?thesis using *(3) Child by (simp add: alive_after_def)
  qed (use * t1 c1 in \<open>simp_all add: alive_after_def\<close>)
  then show ?case using *(4) tracks_check check_commands_pid(1) by metis
qed

text \<open>Exit codes of the processing process.\<close>

lemma main_processing_exiting:
  "is_exiting p \<Longrightarrow> main_processing_signal p = Some SIGINT \<Longrightarrow> main_processing offline ts p = EXIT_NORMALLY"
  by (cases ts) (auto simp: main_processing_end_def signal_handler_def EXIT_NORMALLY_def Let_def)

lemma main_processing_restart:
  assumes "\<not> is_exiting p"
  shows "main_processing offline ts p = EXIT_TOBE_RESTARTED \<longleftrightarrow>
     (case dropWhile (\<lambda>t. t = SIGRES) ts of
        [] \<Rightarrow> ts \<noteq> [] \<or> main_processing_signal p = Some SIGRES | t # _ \<Rightarrow> t = SIGSEGV \<and> \<not> offline)"
  using assms
proof (induction ts arbitrary: p)
  case Nil
  then show ?case
    by (simp add: main_processing_end_def EXIT_TOBE_RESTARTED_def EXIT_NORMALLY_def split: option.split signal.split)
next
  case (Cons t ts)
  show ?case
  proof (cases t)
    case SIGINT
    then show ?thesis using Cons.prems
      by (simp add: signal_handler_def Let_def main_processing_exiting) (simp add: EXIT_NORMALLY_def EXIT_TOBE_RESTARTED_def)
  next
    case SIGRES
    then show ?thesis using Cons
      by (cases "dropWhile (\<lambda>t. t = SIGRES) ts") (auto simp: signal_handler_def Let_def simp del: dropWhile_eq_Nil_conv)
  qed (use Cons.prems in \<open>auto simp: signal_handler_def Let_def EXIT_NORMALLY_def EXIT_TOBE_RESTARTED_def\<close>)
qed

text \<open>A monitor without dynamic configuration, for the examples.\<close>

definition sample_sys :: "int \<Rightarrow> psys" where
  "sample_sys pid = \<lparr>mon = \<lparr>proc_pid = pid, m_conf = Map.empty, kills = []\<rparr>, ctl_pid = 0,
     cmd_bus = \<lparr>nb_subscribers = 0, sub_lst = [], message = [], reply_code = 0\<rparr>\<rparr>"

lemma sample_turn:
  "monitor_turn A tid False \<lparr>fork0 = n, fork1 = m, waited = w\<rparr> (sample_sys pid) =
     (if pid = 0 \<and> n < 0 then Inl Aborted else
      let p = (if pid = 0 then n else pid) in
      case w of No_change \<Rightarrow> Inr (sample_sys p, Loop_on) | Wait_error \<Rightarrow> Inl Aborted
      | Child q st \<Rightarrow> if p = q then Inr (sample_sys (child_status st), if st = W_exited 0 then Loop_exit else Loop_on)
          else Inr (sample_sys p, if p = -1 then Loop_exit else Loop_on))"
  by (auto simp: monitor_turn_def create_children_def check_commands_def update_child_def all_stopped_def sample_sys_def
      child_status_def pid_defs Let_def split: wait_result.split)

lemma sample_monitored:
  fixes A :: "'c cfg_api"
  shows "monitored A tid False (sample_sys 100) {100}"
proof -
  let ?e = "\<lparr>fork0 = 100, fork1 = 101, waited = No_change\<rparr> :: turn"
  have "monitored A tid False (sample_sys 0) {}"
    by (rule monitored.start) (simp_all add: sample_sys_def pid_defs)
  moreover have "kernel_ok False ?e (sample_sys 0) {}" by (simp add: kernel_ok_def)
  moreover have "monitor_turn A tid False ?e (sample_sys 0) = Inr (sample_sys 100, Loop_on)" by (simp add: sample_turn)
  ultimately have "monitored A tid False (sample_sys 100) (alive_after False ?e (sample_sys 0) {})"
    by (rule monitored.turn)
  then show ?thesis by (simp add: alive_after_def alive_after_fork_def sample_sys_def pid_defs)
qed

section \<open>Properties\<close>



text \<open>
  A child that did not exit with code 0 is created again: after the turn that reports it, the next turn puts the
  pid of a new process into its cell (unless that turn aborts).
\<close>

theorem crashed_child_is_recreated:
  assumes "monitor_turn A tid dyn e s = Inr (s', f)" "waited e = Child pid st" "st \<noteq> W_exited 0"
    and "proc_pid (mon s) = pid" "pid > 0" "monitor_turn A tid dyn e' s' = Inr (s'', f')" "waited e' = No_change"
    and "fork0 e' > 0"
  shows "f = Loop_on \<and> proc_pid (mon s') = 0 \<and> proc_pid (mon s'') = fork0 e'"
proof -
  obtain s1 s2 where *: "create_children dyn e s = Inr s1" "s2 = update_child dyn pid st s1"
    "f = Loop_exit \<and> s' = s2 \<and> all_stopped dyn s2 \<or> f = Loop_on \<and> check_commands A tid dyn s2 = Inr s'"
    using monitor_turn_cases [OF assms(1)] assms(2) by (metis wait_result.simps(10))
  have "proc_pid (mon s1) = pid" using create_children_pids(1) [OF *(1)] assms(4,5) by simp
  then have p2: "proc_pid (mon s2) = 0" using *(2) assms(3) by (simp add: update_child_def child_status_def pid_defs)
  then have f: "f = Loop_on" "check_commands A tid dyn s2 = Inr s'" using *(3) by (auto simp: all_stopped_def pid_defs)
  then have p': "proc_pid (mon s') = 0" using check_commands_pid(2) [OF f(2)] p2 by auto
  obtain t1 where t: "create_children dyn e' s' = Inr t1" "check_commands A tid dyn t1 = Inr s''"
    using monitor_turn_cases [OF assms(6)] assms(7) by (metis wait_result.distinct(3) wait_result.simps(8))
  have "proc_pid (mon t1) = fork0 e'" using create_children_pids(1) [OF t(1)] p' by simp
  then show ?thesis using check_commands_pid(2) [OF t(2)] assms(8) f(1) p' by auto
qed

theorem crashed_child_is_recreated_witness:
  "Loop_on = Loop_on \<and> proc_pid (mon (sample_sys 0)) = 0
   \<and> proc_pid (mon (sample_sys 102)) = fork0 \<lparr>fork0 = 102, fork1 = 101, waited = No_change\<rparr>"
  by (rule crashed_child_is_recreated [of "constant_api 0" 1 False
        "\<lparr>fork0 = 101, fork1 = 101, waited = Child 100 W_signaled\<rparr>" "sample_sys 100" _ _ 100 W_signaled _ _ Loop_on])
    (simp_all add: sample_turn child_status_def pid_defs, simp_all add: sample_sys_def)

text \<open>
  The loop of the monitor ends only when every child it is responsible for has exited with code 0.
\<close>

theorem monitor_exits_with_children:
  assumes "monitored A tid dyn s alive" "kernel_ok dyn e s alive" "monitor_turn A tid dyn e s = Inr (s', Loop_exit)"
  shows "\<exists>pid. waited e = Child pid (W_exited 0) \<and> alive_after dyn e s alive = {}"
proof -
  obtain s1 s2 where *: "create_children dyn e s = Inr s1"
    "s2 = (case waited e of Child pid st \<Rightarrow> update_child dyn pid st s1 | _ \<Rightarrow> s1)" "s' = s2" "all_stopped dyn s2"
    "\<exists>pid st. waited e = Child pid st"
    using monitor_turn_cases [OF assms(3)] by (metis flow.distinct(1))
  have m: "monitored A tid dyn s' (alive_after dyn e s alive)" using assms by (rule monitored.turn)
  have "proc_pid (mon s') \<le> 0" "ctl_pid s' \<le> 0"
    using *(3,4) monitored_tracks [OF m] by (cases dyn; simp add: all_stopped_def pid_defs)+
  then have none: "alive_after dyn e s alive = {}"
    using monitored_tracks [OF m] unfolding tracks_def by force
  obtain pid st where w: "waited e = Child pid st" using *(5) by auto
  have "tracks s1 (alive_after_fork dyn e s alive)"
    using tracks_create [OF *(1) _ assms(2)] monitored_tracks [OF assms(1)] by blast
  then have pid: "pid > 0" "pid = proc_pid (mon s1) \<or> pid = ctl_pid s1"
    using assms(2) w by (simp_all add: tracks_def kernel_ok_def)
  have ctl: "dyn \<or> ctl_pid s1 = 0"
    using create_children_pids(2) [OF *(1)] monitored_tracks [OF assms(1)] by (cases dyn) auto
  have s2: "all_stopped dyn (update_child dyn pid st s1)" using *(2,4) w by simp
  have "child_status st = PID_NEED_TO_STOP"
    using pid ctl s2 by (cases "pid = proc_pid (mon s1)") (auto simp: update_child_def all_stopped_def)
  then have "st = W_exited 0" by (simp add: child_status_def pid_defs split: if_splits)
  with w none show ?thesis by blast
qed

theorem monitor_exits_with_children_witness:
  "\<exists>pid. waited \<lparr>fork0 = 101, fork1 = 102, waited = Child 100 (W_exited 0)\<rparr> = Child pid (W_exited 0)
     \<and> alive_after False \<lparr>fork0 = 101, fork1 = 102, waited = Child 100 (W_exited 0)\<rparr> (sample_sys 100) {100} = {}"
  by (rule monitor_exits_with_children [OF sample_monitored [of "constant_api 0" 1], of _ "sample_sys (-1)"])
    (simp_all add: sample_turn child_status_def pid_defs kernel_ok_def alive_after_fork_def)

text \<open>
  The exit code with which the processing process ends is 1, which makes the monitor create it again, exactly if
  after a number of restart requests it received nothing more (and at least one), or an online process crashed; an
  interrupt or an abort at that point makes it exit with 0.
\<close>

theorem restart_code:
  "main_processing offline ts proc_init = EXIT_TOBE_RESTARTED \<longleftrightarrow>
     (case dropWhile (\<lambda>t. t = SIGRES) ts of [] \<Rightarrow> ts \<noteq> [] | t # _ \<Rightarrow> t = SIGSEGV \<and> \<not> offline)"
  using main_processing_restart [of proc_init offline ts]
  by (cases "dropWhile (\<lambda>t. t = SIGRES) ts") (auto simp: proc_init_def simp del: dropWhile_eq_Nil_conv)

end
