(* ===== verification/File_Output.thy ===== *)
theory File_Output
  imports Config "HOL-Library.AList" "HOL-Library.List_Lexorder" "HOL-Library.Char_ord"
begin

text \<open>
  Output to files, \<^verbatim>\<open>src/src/modules/output/file/file_output.c\<close>. A sampled output writes reports to a data file; a flush
  closes it, announces it to the readers by an empty file with the suffix \<^verbatim>\<open>.sem\<close> and starts a new data file. Old
  announced files are removed when more than a configured number are left.

  The file system is an association list from path names to the lines of a file; what was printed to an open file
  counts as its content. Whether \<^verbatim>\<open>fopen\<close> and \<^verbatim>\<open>scandir\<close> succeed is an input; \<^verbatim>\<open>unlink\<close> removes what exists.
\<close>

section \<open>Definitions\<close>

type_synonym fs = "(string \<times> string list) list"

record fs_env =
  fopen_ok :: "string \<Rightarrow> bool"
  scandir_ok :: bool

record file_output =
  o_id :: nat
  o_nb_messages :: nat
  o_file_name :: string
  o_file :: "string option"
  o_config :: file_output_conf

definition MAX_LENGTH_FULL_PATH_FILE_NAME :: nat where
  "MAX_LENGTH_FULL_PATH_FILE_NAME = 255"

definition SEMAPHORE_EXT :: string where
  "SEMAPHORE_EXT = ''.sem''"

text \<open>\<^verbatim>\<open>strstr\<close>: the suffix that begins with the first occurrence.\<close>

fun strstr :: "string \<Rightarrow> string \<Rightarrow> string option" where
  "strstr [] pat = (if pat = [] then Some [] else None)"
| "strstr (c # s) pat = (if take (length pat) (c # s) = pat then Some (c # s) else strstr s pat)"

definition load_filter :: "string \<Rightarrow> bool" where
  "load_filter d_name =
     (case strstr d_name SEMAPHORE_EXT of None \<Rightarrow> False
      | Some ext \<Rightarrow> length ext = length SEMAPHORE_EXT)"

text \<open>\<^verbatim>\<open>scandir\<close> with \<^verbatim>\<open>_load_filter\<close> and \<^verbatim>\<open>alphasort\<close> (in the C locale): the names in a folder, whose path is given
  with its final slash.\<close>

definition names_in :: "string \<Rightarrow> fs \<Rightarrow> string list" where
  "names_in folder fs =
     filter (\<lambda>n. CHR ''/'' \<notin> set n)
       (map (drop (length folder)) (filter (\<lambda>p. take (length folder) p = folder) (map fst fs)))"

definition scandir :: "string \<Rightarrow> fs \<Rightarrow> string list" where
  "scandir folder fs = sort (filter load_filter (names_in folder fs))"

text \<open>The loop over the files to remove; \<open>prefix\<close> is the content of \<^verbatim>\<open>file_name\<close> up to \<^verbatim>\<open>offset\<close>.\<close>

fun remove_loop :: "string \<Rightarrow> string list \<Rightarrow> fs \<Rightarrow> fs" where
  "remove_loop prefix [] fs = fs"
| "remove_loop prefix (d_name # es) fs =
     (if length d_name + length prefix \<ge> MAX_LENGTH_FULL_PATH_FILE_NAME then remove_loop prefix es fs
      else remove_loop prefix es
        (AList.delete (prefix @ take (length d_name - length SEMAPHORE_EXT) d_name)
           (AList.delete (prefix @ d_name) fs)))"

definition remove_old_sampled_files :: "fs_env \<Rightarrow> string \<Rightarrow> nat \<Rightarrow> fs \<Rightarrow> (fs \<times> nat) cres" where
  "remove_old_sampled_files E folder retains fs =
     (if \<not> scandir_ok E then Inr (fs, 0)
      else if length folder = 0 \<or> length folder \<ge> MAX_LENGTH_FULL_PATH_FILE_NAME then Inl OutOfBounds
      else let prefix = (if last folder \<noteq> CHR ''/'' then folder @ ''/'' else folder);
               entries = scandir prefix fs;
               to_remove = nat (int (length entries) - int retains)
           in Inr (remove_loop prefix (take to_remove entries) fs, to_remove))"

definition fopen_w :: "fs_env \<Rightarrow> string \<Rightarrow> fs \<Rightarrow> fs \<times> bool" where
  "fopen_w E path fs = (if fopen_ok E path then (AList.update path [] fs, True) else (fs, False))"

definition create_new_file :: "fs_env \<Rightarrow> timeval \<Rightarrow> file_output \<Rightarrow> fs \<Rightarrow> (file_output \<times> fs) cres" where
  "create_new_file E now output fs =
     bindE (deref (fo_directory (o_config output))) (\<lambda>directory.
     bindE (deref (fo_filename (o_config output))) (\<lambda>filename.
     bindE (STRING_BUILDER 0 (o_file_name output) MAX_LENGTH_FULL_PATH_FILE_NAME
              [F_ARR directory, F_TIME now, F_CHAR CHR ''_'', F_INT (of_nat (o_id output)), F_CHAR CHR ''_'',
               F_ARR filename]) (\<lambda>(name, _).
     let (fs, ok) = fopen_w E (cstr name) fs;
         output = output\<lparr>o_nb_messages := 0, o_file_name := name, o_file := if ok then Some (cstr name) else None\<rparr>
     in if o_id output = 1 \<and> fo_retained_files_count (o_config output) > 0
        then bindE (remove_old_sampled_files E directory (fo_retained_files_count (o_config output)) fs) (\<lambda>(fs, _).
               Inr (output, fs))
        else Inr (output, fs))))"

text \<open>\<open>fresh\<close> is the content of the 255 bytes \<^verbatim>\<open>mmt_alloc\<close> returns.\<close>

definition file_output_alloc_init ::
  "fs_env \<Rightarrow> timeval \<Rightarrow> string \<Rightarrow> file_output_conf \<Rightarrow> nat \<Rightarrow> fs \<Rightarrow> (file_output option \<times> fs) cres" where
  "file_output_alloc_init E now fresh config oid fs =
     (if \<not> fo_is_enable config then Inr (None, fs)
      else bindE (create_new_file E now
             \<lparr>o_id = oid, o_nb_messages = 0, o_file_name = fresh, o_file = None, o_config = config\<rparr> fs) (\<lambda>(output, fs).
           Inr (Some output, fs)))"

text \<open>\<open>stack\<close> is the initial content of the local array.\<close>

definition create_semaphore_file :: "fs_env \<Rightarrow> string \<Rightarrow> file_output \<Rightarrow> fs \<Rightarrow> fs cres" where
  "create_semaphore_file E stack output fs =
     (if \<not> o_nb_messages output > 0 then Inr (AList.delete (cstr (o_file_name output)) fs)
      else bindE (STRING_BUILDER 0 stack MAX_LENGTH_FULL_PATH_FILE_NAME
                    [F_ARR (o_file_name output), F_ARR SEMAPHORE_EXT]) (\<lambda>(filename, _).
           Inr (fst (fopen_w E (cstr filename) fs))))"

definition file_output_flush :: "fs_env \<Rightarrow> timeval \<Rightarrow> string \<Rightarrow> file_output \<Rightarrow> fs \<Rightarrow> (file_output \<times> fs) cres" where
  "file_output_flush E now stack output fs =
     (if o_file output = None then Inr (output, fs)
      else if fo_is_sampled (o_config output)
      then let output = output\<lparr>o_file := None\<rparr>
           in bindE (create_semaphore_file E stack output fs) (\<lambda>fs. create_new_file E now output fs)
      else Inr (output, fs))"

definition file_output_release :: "fs_env \<Rightarrow> string \<Rightarrow> file_output \<Rightarrow> fs \<Rightarrow> fs cres" where
  "file_output_release E stack output fs =
     bindE (if o_file output \<noteq> None \<and> fo_is_sampled (o_config output)
            then create_semaphore_file E stack output fs else Inr fs) (\<lambda>fs.
     if o_id output = 0 \<and> fo_retained_files_count (o_config output) > 0
     then bindE (deref (fo_directory (o_config output))) (\<lambda>directory.
          bindE (remove_old_sampled_files E directory (fo_retained_files_count (o_config output)) fs) (\<lambda>(fs, _). Inr fs))
     else Inr fs)"

text \<open>\<^verbatim>\<open>nb_messages\<close> has 32 bits. The result is the number of bytes printed.\<close>

definition file_output_write :: "string \<Rightarrow> file_output \<Rightarrow> fs \<Rightarrow> file_output \<times> fs \<times> nat" where
  "file_output_write message output fs =
     (case o_file output of None \<Rightarrow> (output, fs, 0)
      | Some path \<Rightarrow>
          (output\<lparr>o_nb_messages := (o_nb_messages output + 1) mod 2 ^ 32\<rparr>,
           AList.update path (case_option [] id (map_of fs path) @ [cstr message]) fs,
           strlen message + 1))"

section \<open>Histories\<close>

text \<open>A sequence of reports and flushes, what was written by it, and the names of the data files it opens.\<close>

datatype fop = Op_write string | Op_flush timeval

fun run_ops :: "fs_env \<Rightarrow> string \<Rightarrow> fop list \<Rightarrow> file_output \<Rightarrow> fs \<Rightarrow> (file_output \<times> fs) cres" where
  "run_ops E stack [] output fs = Inr (output, fs)"
| "run_ops E stack (Op_write m # ops) output fs =
     (let (output, fs, _) = file_output_write m output fs in run_ops E stack ops output fs)"
| "run_ops E stack (Op_flush now # ops) output fs =
     bindE (file_output_flush E now stack output fs) (\<lambda>(output, fs). run_ops E stack ops output fs)"

fun written :: "fop list \<Rightarrow> string list" where
  "written [] = []"
| "written (Op_write m # ops) = cstr m # written ops"
| "written (Op_flush now # ops) = written ops"

fun flush_times :: "fop list \<Rightarrow> timeval list" where
  "flush_times [] = []"
| "flush_times (Op_write m # ops) = flush_times ops"
| "flush_times (Op_flush now # ops) = now # flush_times ops"

text \<open>The data file gets the name the builder renders.\<close>

definition file_name_of :: "file_output_conf \<Rightarrow> nat \<Rightarrow> timeval \<Rightarrow> string" where
  "file_name_of config oid now =
     render [] 254 [F_ARR (case_option [] id (fo_directory config)), F_TIME now, F_CHAR CHR ''_'', F_INT (of_nat oid),
       F_CHAR CHR ''_'', F_ARR (case_option [] id (fo_filename config))]"

text \<open>Names that can be created, do not collide with the semaphores of each other and leave room for the suffix.\<close>

definition good_names :: "fs_env \<Rightarrow> string set \<Rightarrow> bool" where
  "good_names E N \<longleftrightarrow>
     (\<forall>a \<in> N. length a \<le> 250 \<and> fopen_ok E a \<and> fopen_ok E (a @ SEMAPHORE_EXT) \<and> (\<forall>b \<in> N. a \<noteq> b @ SEMAPHORE_EXT))"

definition contents :: "fs \<Rightarrow> string list \<Rightarrow> string list" where
  "contents fs names = concat (map (\<lambda>n. the (map_of fs n)) names)"

text \<open>The files announced so far hold all reports but the last ones, which are in the open file.\<close>

definition batches :: "string set \<Rightarrow> string list \<Rightarrow> file_output \<Rightarrow> fs \<Rightarrow> string list \<Rightarrow> bool" where
  "batches N names output fs msgs \<longleftrightarrow>
     (\<exists>p cur. o_file output = Some p \<and> cstr (o_file_name output) = p \<and> p \<in> N \<and> p \<notin> set names
        \<and> map_of fs p = Some cur \<and> o_nb_messages output = length cur
        \<and> distinct names \<and> set names \<subseteq> N
        \<and> (\<forall>n \<in> set names. map_of fs (n @ SEMAPHORE_EXT) = Some [] \<and> (\<exists>b. map_of fs n = Some b \<and> b \<noteq> []))
        \<and> (\<forall>n \<in> N - set names. map_of fs (n @ SEMAPHORE_EXT) = None)
        \<and> msgs = contents fs names @ cur)"

section \<open>Lemmas\<close>

lemma cstr_Nil [simp]: "cstr [] = []"
  by (simp add: cstr_def)

lemma map_of_delete: "map_of (AList.delete k fs) = (map_of fs)(k := None)"
  by (rule delete_conv')

lemma map_of_update: "map_of (AList.update k v fs) = (map_of fs)(k \<mapsto> v)"
  by (rule update_conv')

lemmas fs_simps = map_of_delete map_of_update

lemma builder_plain:
  assumes "list_all item_ok args" "length dst = 255"
  shows "STRING_BUILDER 0 dst 255 args
     = Inr (render [] 254 args @ NUL # drop (length (render [] 254 args) + 1) dst, length (render [] 254 args))"
proof -
  have "length (render [] 254 args) \<le> 254" by (rule render_fits)
  then show ?thesis
    using assms builder_separated [OF assms(1), of 0 255 dst "render [] 254 args" "[]"]
    by (simp add: builder_unseparated blit_def)
qed

lemma digit_not_NUL: "d < 10 \<Longrightarrow> digit d \<noteq> NUL"
proof -
  assume "d < 10"
  then have "d \<in> {0, 1, 2, 3, 4, 5, 6, 7, 8, 9}" by auto
  then show ?thesis by (auto simp: digit_table)
qed

lemma dec_NUL: "NUL \<notin> set (dec n)"
  using dec_digits digit_not_NUL by metis

lemma number_txt_NUL: "NUL \<notin> set (number_txt n v)"
  by (simp add: number_txt_def dec_NUL)

fun text_item :: "item \<Rightarrow> bool" where
  "text_item (F_ARR x) = True"
| "text_item (F_TIME x) = True"
| "text_item (F_INT x) = True"
| "text_item (F_STR x) = True"
| "text_item (F_CHAR c) = (c \<noteq> NUL)"
| "text_item _ = False"

lemma item_txt_NUL: "text_item X \<Longrightarrow> NUL \<notin> set (item_txt n X)"
proof (cases X)
  case (F_ARR x)
  then show ?thesis using NUL_notin_cstr [of x] by (auto dest: in_set_takeD)
next
  case (F_STR x)
  then show ?thesis using NUL_notin_cstr [of x] by (auto dest: in_set_takeD)
next
  case (F_TIME t)
  then show ?thesis
    using number_txt_NUL by (auto simp: timeval_txt_def usec_text_def Let_def)
qed (auto simp: number_txt_NUL dest: in_set_takeD)

lemma render_NUL: "list_all text_item args \<Longrightarrow> NUL \<notin> set (render sepa room args)"
  using NUL_notin_cstr [of sepa]
  by (induction sepa room args rule: render.induct) (auto simp: Let_def item_txt_NUL dest: in_set_takeD)

lemma create_new_file_ok:
  assumes "length (o_file_name output) = 255" "fo_directory (o_config output) = Some dir"
    "fo_filename (o_config output) = Some fname" "item_ok (F_TIME now)" "fopen_ok E (file_name_of (o_config output) (o_id output) now)"
    "o_id output \<noteq> 1 \<or> fo_retained_files_count (o_config output) = 0"
    and name: "name = file_name_of (o_config output) (o_id output) now"
  shows "\<exists>buf. create_new_file E now output fs
      = Inr (output\<lparr>o_nb_messages := 0, o_file_name := buf, o_file := Some name\<rparr>, AList.update name [] fs)
    \<and> length buf = 255 \<and> cstr buf = name"
proof -
  let ?args = "[F_ARR dir, F_TIME now, F_CHAR CHR ''_'', F_INT (of_nat (o_id output)), F_CHAR CHR ''_'', F_ARR fname]"
  define r where "r = render [] 254 ?args"
  have r: "name = r" unfolding name file_name_of_def assms(2,3) r_def by (simp only: option.case id_apply)
  define buf where "buf = r @ NUL # drop (length r + 1) (o_file_name output)"
  have len: "length r \<le> 254" unfolding r_def by (rule render_fits)
  have "NUL \<notin> set r" unfolding r_def by (rule render_NUL) simp
  then have c: "cstr buf = name" unfolding buf_def r by (rule cstr_append_NUL)
  have sb: "STRING_BUILDER 0 (o_file_name output) 255 ?args = Inr (buf, length r)"
    unfolding buf_def r_def using assms(1,4) by (intro builder_plain) simp_all
  have f: "fopen_w E name fs = (AList.update name [] fs, True)"
    using assms(5) name by (simp add: fopen_w_def)
  have "create_new_file E now output fs
      = Inr (output\<lparr>o_nb_messages := 0, o_file_name := buf, o_file := Some name\<rparr>, AList.update name [] fs)"
    unfolding create_new_file_def assms(2,3) MAX_LENGTH_FULL_PATH_FILE_NAME_def deref_def option.case bindE_Inr sb
      prod.case c f Let_def
    using assms(6) by (auto simp del: render.simps)
  moreover have "length buf = 255" using len assms(1) by (simp add: buf_def)
  ultimately show ?thesis using c by blast
qed

lemma create_semaphore_file_ok:
  assumes "length stack = 255" "o_nb_messages output > 0" "length (cstr (o_file_name output)) \<le> 250"
    "fopen_ok E (cstr (o_file_name output) @ SEMAPHORE_EXT)"
  shows "create_semaphore_file E stack output fs
     = Inr (AList.update (cstr (o_file_name output) @ SEMAPHORE_EXT) [] fs)"
proof -
  let ?args = "[F_ARR (o_file_name output), F_ARR SEMAPHORE_EXT]"
  have sem: "cstr SEMAPHORE_EXT = SEMAPHORE_EXT" "length SEMAPHORE_EXT = 4" "NUL \<notin> set SEMAPHORE_EXT"
    by (simp_all add: SEMAPHORE_EXT_def cstr_def)
  have r: "render [] 254 ?args = cstr (o_file_name output) @ SEMAPHORE_EXT"
    using assms(3) by (simp add: Let_def sem cstr_Nil)
  have "STRING_BUILDER 0 stack 255 ?args = Inr (render [] 254 ?args @ NUL # drop (length (render [] 254 ?args) + 1) stack,
      length (render [] 254 ?args))"
    using assms(1) by (intro builder_plain) simp_all
  moreover have "cstr ((cstr (o_file_name output) @ SEMAPHORE_EXT) @ NUL # s) = cstr (o_file_name output) @ SEMAPHORE_EXT" for s
    using NUL_notin_cstr [of "o_file_name output"] sem(3) by (intro cstr_append_NUL) simp
  ultimately show ?thesis
    using assms(2,4) unfolding create_semaphore_file_def MAX_LENGTH_FULL_PATH_FILE_NAME_def r
    by (simp add: fopen_w_def)
qed

lemma contents_simps [simp]:
  "k \<notin> set names \<Longrightarrow> contents (AList.update k v fs) names = contents fs names"
  "k \<notin> set names \<Longrightarrow> contents (AList.delete k fs) names = contents fs names"
  "contents fs (names @ [n]) = contents fs names @ the (map_of fs n)"
  by (induction names) (auto simp: contents_def fs_simps)

lemma batches_write:
  assumes "batches N names output fs msgs" "good_names E N" "length msgs + 1 < 2 ^ 32"
    and "file_output_write m output fs = (output', fs', k)"
  shows "batches N names output' fs' (msgs @ [cstr m]) \<and> o_config output' = o_config output \<and> o_id output' = o_id output
     \<and> length (o_file_name output') = length (o_file_name output)"
proof -
  from assms(1) obtain p cur where b: "o_file output = Some p" "cstr (o_file_name output) = p" "p \<in> N" "p \<notin> set names"
      "map_of fs p = Some cur" "o_nb_messages output = length cur" "distinct names" "set names \<subseteq> N"
      "\<forall>n \<in> set names. map_of fs (n @ SEMAPHORE_EXT) = Some [] \<and> (\<exists>b. map_of fs n = Some b \<and> b \<noteq> [])"
      "\<forall>n \<in> N - set names. map_of fs (n @ SEMAPHORE_EXT) = None"
      "msgs = contents fs names @ cur"
    unfolding batches_def by blast
  have o: "output' = output\<lparr>o_nb_messages := length cur + 1\<rparr>" "fs' = AList.update p (cur @ [cstr m]) fs"
    using assms(3,4) b(1,5,6,11) by (auto simp: file_output_write_def)
  have clash: "\<forall>n \<in> N. n @ SEMAPHORE_EXT \<noteq> p" using assms(2) b(3) by (auto simp: good_names_def)
  have "batches N names output' fs' (msgs @ [cstr m])"
    unfolding batches_def
    apply (rule exI [of _ p], rule exI [of _ "cur @ [cstr m]"])
    using b clash by (auto simp: o fs_simps)
  then show ?thesis by (simp add: o)
qed

text \<open>The close of a data file: announced if it has data, removed otherwise.\<close>

lemma batches_close:
  assumes "batches N names output fs msgs" "good_names E N" "length stack = 255"
  shows "\<exists>fs' names'. create_semaphore_file E stack (output\<lparr>o_file := None\<rparr>) fs = Inr fs' \<and> distinct names' \<and> set names' \<subseteq> N
     \<and> set names \<subseteq> set names' \<and> set names' \<subseteq> insert (cstr (o_file_name output)) (set names)
     \<and> (\<forall>n \<in> set names'. map_of fs' (n @ SEMAPHORE_EXT) = Some [] \<and> (\<exists>b. map_of fs' n = Some b \<and> b \<noteq> []))
     \<and> (\<forall>n \<in> N - set names'. map_of fs' (n @ SEMAPHORE_EXT) = None)
     \<and> msgs = contents fs' names'"
proof -
  from assms(1) obtain p cur where b: "o_file output = Some p" "cstr (o_file_name output) = p" "p \<in> N" "p \<notin> set names"
      "map_of fs p = Some cur" "o_nb_messages output = length cur" "distinct names" "set names \<subseteq> N"
      "\<forall>n \<in> set names. map_of fs (n @ SEMAPHORE_EXT) = Some [] \<and> (\<exists>b. map_of fs n = Some b \<and> b \<noteq> [])"
      "\<forall>n \<in> N - set names. map_of fs (n @ SEMAPHORE_EXT) = None"
      "msgs = contents fs names @ cur"
    unfolding batches_def by blast
  have clash: "\<forall>n \<in> N. n @ SEMAPHORE_EXT \<noteq> p" "\<forall>n \<in> N. n \<noteq> p @ SEMAPHORE_EXT"
    using assms(2) b(3) by (auto simp: good_names_def)
  show ?thesis
  proof (cases "cur = []")
    case True
    let ?fs = "AList.delete p fs"
    have "create_semaphore_file E stack (output\<lparr>o_file := None\<rparr>) fs = Inr ?fs"
      using b(2,6) True by (simp add: create_semaphore_file_def)
    then show ?thesis
      apply (intro exI [of _ ?fs] exI [of _ names])
      using b clash True by (auto simp: fs_simps)
  next
    case False
    let ?fs = "AList.update (p @ SEMAPHORE_EXT) [] fs"
    have "create_semaphore_file E stack (output\<lparr>o_file := None\<rparr>) fs = Inr ?fs"
      using b(2,3,6) False assms(2,3) create_semaphore_file_ok [of stack "output\<lparr>o_file := None\<rparr>" E fs]
      by (simp add: good_names_def)
    moreover have "p @ SEMAPHORE_EXT \<notin> set names" using b(8) clash(2) by auto
    ultimately show ?thesis
      apply (intro exI [of _ ?fs] exI [of _ "names @ [p]"])
      using b clash False by (auto simp: fs_simps)
  qed
qed

lemma batches_flush:
  assumes "batches N names output fs msgs" "good_names E N" "length stack = 255" "length (o_file_name output) = 255"
    and "fo_is_sampled (o_config output)" "fo_directory (o_config output) = Some dir" "fo_filename (o_config output) = Some fname"
    and "o_id output \<noteq> 1 \<or> fo_retained_files_count (o_config output) = 0" "item_ok (F_TIME now)"
    and "q = file_name_of (o_config output) (o_id output) now" "q \<in> N" "q \<notin> set names" "q \<noteq> cstr (o_file_name output)"
  shows "\<exists>output' fs' names'. file_output_flush E now stack output fs = Inr (output', fs') \<and> batches N names' output' fs' msgs
     \<and> set names \<subseteq> set names' \<and> set names' \<subseteq> insert (cstr (o_file_name output)) (set names)
     \<and> o_config output' = o_config output \<and> o_id output' = o_id output \<and> length (o_file_name output') = 255
     \<and> cstr (o_file_name output') = q"
proof -
  have some: "o_file output \<noteq> None" using assms(1) by (auto simp: batches_def)
  obtain fs1 names' where c: "create_semaphore_file E stack (output\<lparr>o_file := None\<rparr>) fs = Inr fs1" "distinct names'"
      "set names' \<subseteq> N" "set names \<subseteq> set names'" "set names' \<subseteq> insert (cstr (o_file_name output)) (set names)"
      "\<forall>n \<in> set names'. map_of fs1 (n @ SEMAPHORE_EXT) = Some [] \<and> (\<exists>b. map_of fs1 n = Some b \<and> b \<noteq> [])"
      "\<forall>n \<in> N - set names'. map_of fs1 (n @ SEMAPHORE_EXT) = None"
      "msgs = contents fs1 names'"
    using batches_close [OF assms(1-3)] by blast
  obtain buf where buf: "create_new_file E now (output\<lparr>o_file := None\<rparr>) fs1
      = Inr (output\<lparr>o_nb_messages := 0, o_file_name := buf, o_file := Some q\<rparr>, AList.update q [] fs1)"
      "length buf = 255" "cstr buf = q"
    using create_new_file_ok [of "output\<lparr>o_file := None\<rparr>" dir fname now E q fs1] assms(2,4,6-11)
    by (auto simp: good_names_def)
  let ?fs = "AList.update q [] fs1"
  let ?out = "output\<lparr>o_nb_messages := 0, o_file_name := buf, o_file := Some q\<rparr>"
  have clash: "\<forall>n \<in> N. n @ SEMAPHORE_EXT \<noteq> q" using assms(2,11) by (auto simp: good_names_def)
  have q: "q \<notin> set names'" using c(5) assms(12,13) by auto
  have "batches N names' ?out ?fs msgs"
    unfolding batches_def
    apply (intro exI [of _ q] exI [of _ "[]"])
    using c clash q buf(3) assms(11) by (auto simp: fs_simps)
  moreover have "file_output_flush E now stack output fs = Inr (?out, ?fs)"
    using some assms(5) c(1) buf(1) by (auto simp: file_output_flush_def Let_def)
  ultimately show ?thesis using c(4,5) buf(2,3) by fastforce
qed

lemma run_ops_batches:
  assumes "batches N names output fs msgs" "good_names E N" "length stack = 255" "length (o_file_name output) = 255"
    and "fo_is_sampled (o_config output)" "fo_directory (o_config output) = Some dir" "fo_filename (o_config output) = Some fname"
    and "o_id output \<noteq> 1 \<or> fo_retained_files_count (o_config output) = 0"
    and "\<forall>t \<in> set (flush_times ops). item_ok (F_TIME t)" "length msgs + length (written ops) < 2 ^ 32"
    and "distinct (map (file_name_of (o_config output) (o_id output)) (flush_times ops))"
    and "set (map (file_name_of (o_config output) (o_id output)) (flush_times ops))
           \<subseteq> N - insert (cstr (o_file_name output)) (set names)"
  shows "\<exists>output' fs' names'. run_ops E stack ops output fs = Inr (output', fs')
     \<and> batches N names' output' fs' (msgs @ written ops)"
  using assms
proof (induction ops arbitrary: names "output" fs msgs)
  case Nil
  then show ?case by auto
next
  case (Cons a ops)
  show ?case
  proof (cases a)
    case (Op_write m)
    obtain output1 fs1 k where w: "file_output_write m output fs = (output1, fs1, k)" by (metis prod_cases3)
    have b: "batches N names output1 fs1 (msgs @ [cstr m])" "o_config output1 = o_config output" "o_id output1 = o_id output"
      "length (o_file_name output1) = length (o_file_name output)"
      using batches_write [OF Cons.prems(1,2) _ w] Cons.prems(10) Op_write by auto
    have n: "cstr (o_file_name output1) = cstr (o_file_name output)"
      using w Cons.prems(1) by (auto simp: file_output_write_def batches_def)
    have "\<exists>output' fs' names'. run_ops E stack ops output1 fs1 = Inr (output', fs')
        \<and> batches N names' output' fs' ((msgs @ [cstr m]) @ written ops)"
      using Cons.prems Op_write by (intro Cons.IH [OF b(1)]) (simp_all add: b n)
    then show ?thesis using w Op_write by simp
  next
    case (Op_flush now)
    let ?q = "file_name_of (o_config output) (o_id output) now"
    obtain output1 fs1 names1 where f: "file_output_flush E now stack output fs = Inr (output1, fs1)"
      and b: "batches N names1 output1 fs1 msgs" "set names1 \<subseteq> insert (cstr (o_file_name output)) (set names)"
        "o_config output1 = o_config output" "o_id output1 = o_id output" "length (o_file_name output1) = 255"
        "cstr (o_file_name output1) = ?q"
      using batches_flush [OF Cons.prems(1-8), of now ?q] Cons.prems(9,12) Op_flush by auto
    have "\<exists>output' fs' names'. run_ops E stack ops output1 fs1 = Inr (output', fs')
        \<and> batches N names' output' fs' (msgs @ written ops)"
      using Cons.prems b Op_flush by (intro Cons.IH [OF b(1)]) (simp_all, blast)
    then show ?thesis using f Op_flush by simp
  qed
qed

text \<open>What is removed: the data file and the semaphore of each entry, nothing else.\<close>

definition sem_files :: "string \<Rightarrow> fs \<Rightarrow> string set" where
  "sem_files prefix fs = {n. prefix @ n \<in> dom (map_of fs) \<and> CHR ''/'' \<notin> set n \<and> load_filter n}"

lemma set_scandir: "set (scandir prefix fs) = sem_files prefix fs"
proof -
  have "n \<in> set (names_in prefix fs) \<longleftrightarrow> prefix @ n \<in> dom (map_of fs) \<and> CHR ''/'' \<notin> set n" for n
  proof -
    have "(\<exists>p \<in> fst ` set fs. take (length prefix) p = prefix \<and> n = drop (length prefix) p) \<longleftrightarrow> prefix @ n \<in> fst ` set fs"
      by (metis append_eq_conv_conj append_take_drop_id)
    then show ?thesis by (auto simp: names_in_def dom_map_of_conv_image_fst)
  qed
  then show ?thesis by (auto simp: scandir_def sem_files_def)
qed

lemma distinct_scandir: "distinct (map fst fs) \<Longrightarrow> distinct (scandir prefix fs)"
proof -
  assume d: "distinct (map fst fs)"
  have "inj_on (drop (length prefix)) (set (filter (\<lambda>p. take (length prefix) p = prefix) (map fst fs)))"
  proof (rule inj_onI)
    fix p q
    assume "p \<in> set (filter (\<lambda>p. take (length prefix) p = prefix) (map fst fs))"
      "q \<in> set (filter (\<lambda>p. take (length prefix) p = prefix) (map fst fs))"
      and e: "drop (length prefix) p = drop (length prefix) q"
    then have t: "take (length prefix) p = take (length prefix) q" by simp
    show "p = q" using t e by (metis append_take_drop_id)
  qed
  then have "distinct (map (drop (length prefix)) (filter (\<lambda>p. take (length prefix) p = prefix) (map fst fs)))"
    using d by (simp only: distinct_map distinct_filter simp_thms)
  then show ?thesis by (simp add: scandir_def names_in_def)
qed

definition gone :: "string \<Rightarrow> string \<Rightarrow> string set" where
  "gone prefix n = (if length n + length prefix < 255 then {prefix @ n, prefix @ take (length n - 4) n} else {})"

lemma remove_loop_Cons:
  "\<exists>fs1. remove_loop prefix (n # es) fs = remove_loop prefix es fs1
     \<and> (\<forall>p. map_of fs1 p = (if p \<in> gone prefix n then None else map_of fs p))"
  by (rule exI [of _ "if length n + length prefix < 255
        then AList.delete (prefix @ take (length n - 4) n) (AList.delete (prefix @ n) fs) else fs"])
    (auto simp: MAX_LENGTH_FULL_PATH_FILE_NAME_def SEMAPHORE_EXT_def gone_def fs_simps eval_nat_numeral)

lemma map_of_remove_loop:
  "map_of (remove_loop prefix es fs) p = (if \<exists>n \<in> set es. p \<in> gone prefix n then None else map_of fs p)"
proof (induction es arbitrary: fs)
  case (Cons n es)
  obtain fs1 where "remove_loop prefix (n # es) fs = remove_loop prefix es fs1"
    "map_of fs1 p = (if p \<in> gone prefix n then None else map_of fs p)"
    using remove_loop_Cons by metis
  then show ?case using Cons.IH [of fs1] by simp
qed simp

text \<open>A data file name is never taken for a semaphore.\<close>

lemma strstr_take: "strstr s pat = Some e \<Longrightarrow> take (length pat) e = pat"
  by (induction s) (auto split: if_splits)

lemma strstr_append: "strstr s pat = Some e \<Longrightarrow> strstr (s @ t) pat = Some (e @ t)"
proof (induction s)
  case Nil
  then show ?case by (cases t) (auto split: if_splits)
next
  case (Cons c s)
  show ?case
  proof (cases "take (length pat) (c # s) = pat")
    case True
    then have "length pat \<le> length (c # s)" by (metis length_take min.cobounded1)
    then have "take (length pat) ((c # s) @ t) = pat"
      using True take_append [of "length pat" "c # s" t] by simp
    moreover have "e = c # s" using Cons.prems True by simp
    ultimately show ?thesis by simp
  next
    case False
    then have s: "strstr s pat = Some e" using Cons.prems by simp
    have "take (length pat) ((c # s) @ t) \<noteq> pat"
    proof (cases "length pat \<le> length (c # s)")
      case True
      then show ?thesis using False take_append [of "length pat" "c # s" t] by simp
    next
      case F: False
      have "length pat \<le> length e" using strstr_take [OF s] by (metis length_take min.cobounded1)
      moreover have "length e \<le> length s" using s by (induction s) (auto split: if_splits)
      ultimately show ?thesis using F by simp
    qed
    then show ?thesis using Cons.IH [OF s] by simp
  qed
qed

lemma data_file_not_sem: "load_filter n \<Longrightarrow> \<not> load_filter (take (length n - 4) n)"
proof
  assume n: "load_filter n" and d: "load_filter (take (length n - 4) n)"
  obtain e where e: "strstr (take (length n - 4) n) SEMAPHORE_EXT = Some e" "length e = 4"
    using d by (auto simp: load_filter_def SEMAPHORE_EXT_def split: option.splits)
  obtain e' where e': "strstr n SEMAPHORE_EXT = Some e'" "length e' = 4"
    using n by (auto simp: load_filter_def SEMAPHORE_EXT_def split: option.splits)
  have "strstr n SEMAPHORE_EXT = Some (e @ drop (length n - 4) n)"
    using strstr_append [OF e(1), of "drop (length n - 4) n"] by simp
  then have "length e' = length e + length (drop (length n - 4) n)" using e'(1) by simp
  then have "length n = 0" using e(2) e'(2) by (simp only: length_drop)
  then have "n = []" by simp
  then show False using e(1) by (simp add: SEMAPHORE_EXT_def)
qed

lemma sem_files_remove:
  assumes "set es \<subseteq> sem_files prefix fs" "\<forall>n \<in> set es. length n + length prefix < 255"
  shows "sem_files prefix (remove_loop prefix es fs) = sem_files prefix fs - set es"
proof -
  have f: "load_filter n" if "n \<in> set es" for n using assms(1) that by (auto simp: sem_files_def)
  have "(\<exists>n \<in> set es. prefix @ m \<in> gone prefix n) \<longleftrightarrow> m \<in> set es" if "load_filter m" for m
    using assms(2) that f data_file_not_sem by (auto simp: gone_def)
  then show ?thesis by (auto simp: sem_files_def dom_def map_of_remove_loop split: if_splits)
qed

text \<open>Examples.\<close>

definition sample_config :: file_output_conf where
  "sample_config = \<lparr>fo_is_enable = True, fo_directory = Some ''/d/'', fo_filename = Some ''r'', fo_is_sampled = True,
     fo_retained_files_count = 0\<rparr>"

definition sample_time :: "int \<Rightarrow> timeval" where
  "sample_time n = \<lparr>tv_sec = n, tv_usec = 0\<rparr>"

definition sample_env :: fs_env where
  "sample_env = \<lparr>fopen_ok = (\<lambda>_. True), scandir_ok = True\<rparr>"

definition sample_fs :: fs where
  "sample_fs = [(''/d/1.csv'', [''a'']), (''/d/1.csv.sem'', []), (''/d/2.csv'', [''b'']), (''/d/2.csv.sem'', []),
     (''/d/3.csv'', [''c''])]"

lemma sample_fields:
  "fo_is_enable sample_config" "fo_directory sample_config = Some ''/d/''" "fo_filename sample_config = Some ''r''"
  "fo_is_sampled sample_config" "fo_retained_files_count sample_config = 0"
  "tv_sec (sample_time n) = n" "tv_usec (sample_time n) = 0" "fopen_ok sample_env p" "scandir_ok sample_env"
  by (simp_all add: sample_config_def sample_time_def sample_env_def)

lemma sample_names:
  "file_name_of sample_config 0 (sample_time 1) = ''/d/1.000000_0_r''"
  "file_name_of sample_config 0 (sample_time 2) = ''/d/2.000000_0_r''"
  by code_simp+

section \<open>Properties\<close>



text \<open>
  C30: retention. When the old sampled files of a folder are removed, as many semaphores stay as are to be retained (or
  all, if there are fewer), those that stay have the greatest names, which begin with the time of
  creation, and only removed semaphores and their data files disappear.
\<close>

theorem retention_keeps_latest:
  assumes "scandir_ok E" "folder \<noteq> []" "last folder = CHR ''/''" "length folder < 255" "distinct (map fst fs)"
    and "\<forall>n \<in> sem_files folder fs. length n + length folder < 255"
  shows "\<exists>fs' k. remove_old_sampled_files E folder retains fs = Inr (fs', k)
     \<and> card (sem_files folder fs') = min retains (card (sem_files folder fs))
     \<and> (\<forall>a \<in> sem_files folder fs - sem_files folder fs'. \<forall>b \<in> sem_files folder fs'. a < b)
     \<and> (\<forall>p. map_of fs' p \<noteq> map_of fs p \<longrightarrow> (\<exists>a \<in> sem_files folder fs - sem_files folder fs'. p \<in> gone folder a))"
proof -
  let ?es = "scandir folder fs"
  let ?k = "nat (int (length ?es) - int retains)"
  let ?fs = "remove_loop folder (take ?k ?es) fs"
  have es: "set ?es = sem_files folder fs" "distinct ?es" "sorted ?es"
    using set_scandir distinct_scandir [OF assms(5)] by (auto simp: scandir_def)
  have split: "set (take ?k ?es) \<union> set (drop ?k ?es) = sem_files folder fs"
    "set (take ?k ?es) \<inter> set (drop ?k ?es) = {}"
    using es(1,2) by (metis append_take_drop_id set_append, metis append_take_drop_id distinct_append)
  have sub: "set (take ?k ?es) \<subseteq> sem_files folder fs" using split(1) by blast
  have rem: "sem_files folder ?fs = set (drop ?k ?es)"
    using sem_files_remove [OF sub] assms(6) sub split by blast
  have n: "card (sem_files folder fs) = length ?es" using es(1,2) by (metis distinct_card)
  have "card (sem_files folder ?fs) = length ?es - ?k" using rem es(2) by (simp add: distinct_card)
  then have card: "card (sem_files folder ?fs) = min retains (card (sem_files folder fs))"
    unfolding n by (auto simp: min_def)
  have "sorted (take ?k ?es @ drop ?k ?es)" using es(3) by simp
  then have "\<forall>a \<in> set (take ?k ?es). \<forall>b \<in> set (drop ?k ?es). a \<le> b" by (auto simp only: sorted_append)
  then have less: "\<forall>a \<in> set (take ?k ?es). \<forall>b \<in> set (drop ?k ?es). a < b"
    using split(2) by (metis disjoint_iff less_le)
  have diff: "sem_files folder fs - sem_files folder ?fs = set (take ?k ?es)" using rem split by blast
  have frame: "\<exists>a \<in> set (take ?k ?es). p \<in> gone folder a" if "map_of ?fs p \<noteq> map_of fs p" for p
    using that by (auto simp: map_of_remove_loop split: if_splits)
  have "remove_old_sampled_files E folder retains fs = Inr (?fs, ?k)"
    using assms(1-4) by (simp add: remove_old_sampled_files_def MAX_LENGTH_FULL_PATH_FILE_NAME_def Let_def)
  then show ?thesis
    apply (intro exI [of _ ?fs] exI [of _ ?k])
    unfolding diff using card less frame rem by simp
qed

theorem retention_keeps_latest_witness:
  "\<exists>fs' k. remove_old_sampled_files sample_env ''/d/'' 1 sample_fs = Inr (fs', k)
     \<and> card (sem_files ''/d/'' fs') = min 1 (card (sem_files ''/d/'' sample_fs))"
proof -
  have "\<forall>n \<in> set (scandir ''/d/'' sample_fs). length n + length ''/d/'' < 255" by code_simp
  then have "\<forall>n \<in> sem_files ''/d/'' sample_fs. length n + length ''/d/'' < 255" by (simp only: set_scandir)
  moreover have "distinct (map fst sample_fs)" by code_simp
  ultimately show ?thesis
    using retention_keeps_latest [of sample_env "''/d/''" sample_fs 1] by (auto simp: sample_fields)
qed

end
