(* ===== verification/Output.thy ===== *)
theory Output
  imports File_Output
begin

text \<open>
  The output of reports, \<^verbatim>\<open>src/src/modules/output/output.c\<close>, with the cache of \<^verbatim>\<open>mongodb/mongodb.c\<close> and the sending
  of \<^verbatim>\<open>socket/socket_output.c\<close>: a report gets its common header, is closed in brackets for JSON and is handed to
  every enabled channel.

  What leaves the program is a list of deliveries. The results of the libraries behind the channels (librdkafka, hiredis,
  libbson, sockets) are inputs, collected in \<open>chan_api\<close>. The local arrays are explicit, so that a write behind their end is a fault.
\<close>

section \<open>Channels\<close>

text \<open>What a publication at the Redis server comes back with: no reply, an error of the connection, an error reply or another reply.\<close>

datatype redis_reply = No_reply | Context_error | Error_reply | Good_reply

datatype delivery = To_kafka string | To_redis string | To_unix string | To_internet string | To_database "string list"

record chan_api =
  kafka_init_ok :: bool
  kafka_produce_ok :: "string \<Rightarrow> bool"
  redis_init_ok :: bool
  thredis_command :: "string \<Rightarrow> redis_reply"
  mongoc_init_ok :: bool
  bson_ok :: "string \<Rightarrow> bool"
  unix_connect :: bool
  internet_connect :: bool
  unix_send_ok :: "string \<Rightarrow> bool"
  internet_send_ok :: "string \<Rightarrow> bool"

definition CHANNEL_FILE :: nat where "CHANNEL_FILE = 1"

definition CHANNEL_REDIS :: nat where "CHANNEL_REDIS = 2"

definition CHANNEL_KAFKA :: nat where "CHANNEL_KAFKA = 4"

definition CHANNEL_MONGODB :: nat where "CHANNEL_MONGODB = 8"

definition CHANNEL_SOCKET :: nat where "CHANNEL_SOCKET = 16"

definition IS_ENABLE_OUTPUT_TO :: "nat \<Rightarrow> nat \<Rightarrow> bool" where
  "IS_ENABLE_OUTPUT_TO name channels \<longleftrightarrow> channels AND name \<noteq> 0"

definition IS_DISABLE_OUTPUT :: "nat \<Rightarrow> bool" where
  "IS_DISABLE_OUTPUT channels \<longleftrightarrow> channels = 0"

text \<open>
  The cache of documents. Each slot holds a document that \<^verbatim>\<open>bson_new\<close> allocated, until \<^verbatim>\<open>bson_destroy\<close> frees it; using
  a freed document is a fault.
\<close>

datatype bson_slot = Live string | Freed

record mongodb_output =
  messages_max_limit :: nat
  messages_count :: nat
  messages_cache :: "bson_slot list"

definition mongodb_output_alloc_init :: "chan_api \<Rightarrow> mongodb_output_conf \<Rightarrow> nat \<Rightarrow> mongodb_output option cres" where
  "mongodb_output_alloc_init A config cache_max =
     (if \<not> mo_is_enable config then Inr None
      else if \<not> mongoc_init_ok A then Inl Aborted
      else Inr (Some \<lparr>messages_max_limit = cache_max, messages_count = 0, messages_cache = replicate cache_max (Live [])\<rparr>))"

fun documents :: "bson_slot list \<Rightarrow> string list cres" where
  "documents [] = Inr []"
| "documents (Live d # slots) = bindE (documents slots) (\<lambda>ds. Inr (d # ds))"
| "documents (Freed # slots) = Inl OutOfBounds"

definition mongodb_output_flush_to_database :: "mongodb_output \<Rightarrow> (mongodb_output \<times> delivery list) cres" where
  "mongodb_output_flush_to_database mongo =
     (if messages_count mongo = 0 then Inr (mongo, [])
      else bindE (documents (take (messages_count mongo) (messages_cache mongo))) (\<lambda>ds.
             Inr (mongo\<lparr>messages_cache := replicate (messages_count mongo) Freed
                           @ drop (messages_count mongo) (messages_cache mongo),
                        messages_count := 0\<rparr>, [To_database ds])))"

definition mongodb_output_write :: "chan_api \<Rightarrow> string \<Rightarrow> mongodb_output \<Rightarrow> (mongodb_output \<times> delivery list \<times> nat) cres" where
  "mongodb_output_write A msg mongo =
     (if messages_count mongo \<ge> length (messages_cache mongo) then Inl OutOfBounds
      else if messages_cache mongo ! messages_count mongo = Freed then Inl OutOfBounds
      else if \<not> bson_ok A msg then Inr (mongo, [], 0)
      else let mongo = mongo\<lparr>messages_cache := (messages_cache mongo)[messages_count mongo := Live msg],
                             messages_count := messages_count mongo + 1\<rparr>
           in if messages_count mongo \<ge> messages_max_limit mongo
              then bindE (mongodb_output_flush_to_database mongo) (\<lambda>(mongo, ds). Inr (mongo, ds, 1))
              else Inr (mongo, [], 1))"

definition mongodb_output_release :: "mongodb_output option \<Rightarrow> delivery list cres" where
  "mongodb_output_release mongo =
     (case mongo of None \<Rightarrow> Inr []
      | Some mongo \<Rightarrow> bindE (mongodb_output_flush_to_database mongo) (\<lambda>(mongo, ds).
          if Freed \<in> set (take (messages_max_limit mongo) (messages_cache mongo)) then Inl OutOfBounds else Inr ds))"

text \<open>Which of the two sockets are connected (\<^verbatim>\<open>fd\<close> is not \<^verbatim>\<open>NO_SOCKET_FD\<close>).\<close>

record socket_output =
  unix_socket :: bool
  internet_socket :: bool

definition socket_output_init :: "chan_api \<Rightarrow> socket_output_conf \<Rightarrow> socket_output option" where
  "socket_output_init A config =
     (if \<not> so_is_enable config then None
      else Some \<lparr>unix_socket = (so_socket_type config = 0 \<or> so_socket_type config = 1) \<and> unix_connect A,
                 internet_socket = (so_socket_type config = 0 \<or> so_socket_type config = 2) \<and> internet_connect A\<rparr>)"

definition socket_output_send :: "chan_api \<Rightarrow> string \<Rightarrow> socket_output \<Rightarrow> delivery list \<times> nat" where
  "socket_output_send A msg ctx =
     ((if unix_socket ctx then [To_unix msg, To_unix [CHR 0x0A]] else [])
       @ (if internet_socket ctx then [To_internet msg, To_internet [CHR 0x0A]] else []),
      if unix_socket ctx \<and> unix_send_ok A msg \<or> internet_socket ctx \<and> internet_send_ok A msg then 1 else 0)"

text \<open>The message is handed to librdkafka, again while its queue is full; \<open>kafka_produce_ok\<close> is the last result.\<close>

definition kafka_output_send :: "chan_api \<Rightarrow> string \<Rightarrow> delivery list \<times> nat" where
  "kafka_output_send A msg = ([To_kafka msg], if kafka_produce_ok A msg then 1 else 0)"

definition redis_send :: "chan_api \<Rightarrow> string \<Rightarrow> delivery list \<times> nat" where
  "redis_send A msg = ([To_redis msg], case thredis_command A msg of No_reply \<Rightarrow> 0 | Context_error \<Rightarrow> 0 | Error_reply \<Rightarrow> 0 | Good_reply \<Rightarrow> 1)"

section \<open>Output\<close>

definition MAX_LENGTH_REPORT_MESSAGE :: nat where
  "MAX_LENGTH_REPORT_MESSAGE = 3000"

record output_t =
  t_index :: nat
  t_probe_id :: u32
  t_input_src :: string
  last_report_ts :: timeval
  t_config :: output_conf
  t_mutex :: bool
  t_file :: "file_output option"
  t_redis :: bool
  t_kafka :: bool
  t_mongodb :: "mongodb_output option"
  t_socket :: "socket_output option"

definition redis_init :: "chan_api \<Rightarrow> channel_output_conf \<Rightarrow> bool cres" where
  "redis_init A conf =
     (if \<not> co_is_enable conf then Inr False else if redis_init_ok A then Inr True else Inl Aborted)"

definition kafka_output_init :: "chan_api \<Rightarrow> channel_output_conf \<Rightarrow> bool" where
  "kafka_output_init A conf \<longleftrightarrow> co_is_enable conf \<and> kafka_init_ok A"

definition output_alloc_init ::
  "chan_api \<Rightarrow> fs_env \<Rightarrow> timeval \<Rightarrow> string \<Rightarrow> nat \<Rightarrow> output_conf \<Rightarrow> u32 \<Rightarrow> string \<Rightarrow> bool \<Rightarrow> fs \<Rightarrow> (output_t option \<times> fs) cres" where
  "output_alloc_init A E now fresh output_id config pid src is_multi_threads fs =
     (if \<not> out_is_enable config then Inr (None, fs)
      else bindE (deref (out_file config)) (\<lambda>fc.
           bindE (file_output_alloc_init E now fresh fc output_id fs) (\<lambda>(f, fs).
           bindE (deref (out_redis config)) (\<lambda>rc.
           bindE (redis_init A rc) (\<lambda>r.
           bindE (deref (out_kafka config)) (\<lambda>kc.
           bindE (deref (out_mongodb config)) (\<lambda>mc.
           bindE (mongodb_output_alloc_init A mc (out_cache_max config)) (\<lambda>m.
           bindE (deref (out_socket config)) (\<lambda>sc.
             Inr (Some \<lparr>t_index = output_id, t_probe_id = pid, t_input_src = src,
                 last_report_ts = \<lparr>tv_sec = 0, tv_usec = 0\<rparr>, t_config = config, t_mutex = is_multi_threads,
                 t_file = f, t_redis = r, t_kafka = kafka_output_init A kc, t_mongodb = m,
                 t_socket = socket_output_init A sc\<rparr>, fs))))))))))"

text \<open>The message in brackets, built in the local array \<^verbatim>\<open>new_msg\<close>.\<close>

definition surround :: "string \<Rightarrow> string \<Rightarrow> string cres" where
  "surround new_msg msg =
     bindE (store new_msg 0 CHR ''['') (\<lambda>a.
     bindE (memcpy a 1 msg) (\<lambda>a.
     bindE (store a (length msg + 1) CHR '']'') (\<lambda>a.
     store a (length msg + 2) NUL)))"

definition needs_json :: "nat \<Rightarrow> output_t \<Rightarrow> bool" where
  "needs_json channels out \<longleftrightarrow>
     out_format (t_config out) = 1 \<or> t_mongodb out \<noteq> None \<and> IS_ENABLE_OUTPUT_TO CHANNEL_MONGODB channels"

text \<open>The part of \<^verbatim>\<open>_write\<close> for the database; the result of the write is ignored.\<close>

definition write_mongodb ::
  "chan_api \<Rightarrow> nat \<Rightarrow> string \<Rightarrow> output_t \<Rightarrow> (mongodb_output option \<times> delivery list \<times> nat) cres" where
  "write_mongodb A channels new_msg out =
     (case t_mongodb out of
        None \<Rightarrow> Inr (None, [], 0)
      | Some mongo \<Rightarrow>
          if IS_ENABLE_OUTPUT_TO CHANNEL_MONGODB channels
          then bindE (mongodb_output_write A new_msg mongo) (\<lambda>(mongo, ds, _). Inr (Some mongo, ds, 1))
          else Inr (Some mongo, [], 0))"

text \<open>The part for the file; \<^verbatim>\<open>file_output_write\<close> does nothing when there is no file output.\<close>

definition write_file :: "nat \<Rightarrow> string \<Rightarrow> output_t \<Rightarrow> fs \<Rightarrow> file_output option \<times> fs \<times> nat" where
  "write_file channels msg out fs =
     (if IS_ENABLE_OUTPUT_TO CHANNEL_FILE channels
      then (case t_file out of None \<Rightarrow> (None, fs, 1)
            | Some f \<Rightarrow> let (f, fs, _) = file_output_write msg f fs in (Some f, fs, 1))
      else (t_file out, fs, 0))"

text \<open>\<^verbatim>\<open>_write\<close>; \<open>msg\<close> is a C string without its NUL.\<close>

definition write_channels ::
  "chan_api \<Rightarrow> string \<Rightarrow> nat \<Rightarrow> string \<Rightarrow> output_t \<Rightarrow> fs \<Rightarrow> (output_t \<times> fs \<times> delivery list \<times> nat) cres" where
  "write_channels A stack channels msg out fs =
     bindE (if needs_json channels out then bindE (surround stack msg) (\<lambda>a. Inr (cstr a)) else Inr []) (\<lambda>new_msg.
     let msg = (if out_format (t_config out) = 1 then new_msg else msg);
         (f, fs, n1) = write_file channels msg out fs;
         (dk, nk) = (if t_kafka out \<and> IS_ENABLE_OUTPUT_TO CHANNEL_KAFKA channels then kafka_output_send A msg else ([], 0));
         (dr, nr) = (if t_redis out \<and> IS_ENABLE_OUTPUT_TO CHANNEL_REDIS channels then redis_send A msg else ([], 0))
     in bindE (write_mongodb A channels new_msg out) (\<lambda>(mongo, dm, nm).
        let (ds, ns) = (case t_socket out of
              Some s \<Rightarrow> if IS_ENABLE_OUTPUT_TO CHANNEL_SOCKET channels then socket_output_send A msg s else ([], 0)
            | None \<Rightarrow> ([], 0))
        in Inr (out\<lparr>t_file := f, t_mongodb := mongo\<rparr>, fs, dk @ dr @ dm @ ds, n1 + nk + nr + nm + ns)))"

text \<open>The text of a report, built in the local array \<^verbatim>\<open>message\<close>.\<close>

definition report_message :: "string \<Rightarrow> nat \<Rightarrow> timeval \<Rightarrow> string option \<Rightarrow> output_t \<Rightarrow> string cres" where
  "report_message arr report_type ts body out =
     bindE (STRING_BUILDER_WITH_SEPARATOR 0 arr MAX_LENGTH_FULL_PATH_FILE_NAME '',''
              [F_INT (of_nat report_type), F_INT (ucast (t_probe_id out)), F_STR (t_input_src out), F_TIME ts]) (\<lambda>(a, offset).
     case body of None \<Rightarrow> Inr (cstr a)
     | Some message_body \<Rightarrow>
         bindE (store a offset CHR '','') (\<lambda>a.
         let offset = offset + 1;
             len = min (strlen message_body) (MAX_LENGTH_REPORT_MESSAGE - offset)
         in bindE (memcpy a offset (take len message_body)) (\<lambda>a.
            bindE (store a (offset + len) NUL) (\<lambda>a. Inr (cstr a)))))"

text \<open>
  \<^verbatim>\<open>output_write_report\<close>. The lock is taken through \<^verbatim>\<open>output->mutex\<close> before \<^verbatim>\<open>output\<close> is compared with NULL, so a
  NULL output is a fault. The two arrays are those of the function and of \<^verbatim>\<open>_write\<close>.
\<close>

definition output_write_report ::
  "chan_api \<Rightarrow> string \<times> string \<Rightarrow> nat \<Rightarrow> nat \<Rightarrow> timeval \<Rightarrow> string option \<Rightarrow> output_t option \<Rightarrow> fs
     \<Rightarrow> (output_t option \<times> fs \<times> delivery list \<times> nat) cres" where
  "output_write_report A arrs channels report_type ts body out fs =
     (case out of None \<Rightarrow> Inl OutOfBounds
      | Some out \<Rightarrow>
          if \<not> out_is_enable (t_config out) \<or> IS_DISABLE_OUTPUT channels then Inr (Some out, fs, [], 0)
          else bindE (report_message (fst arrs) report_type ts body out) (\<lambda>msg.
               bindE (write_channels A (snd arrs) channels msg out fs) (\<lambda>(out, fs, ds, n).
                 Inr (Some (out\<lparr>last_report_ts := ts\<rparr>), fs, ds, n))))"

text \<open>\<open>printed\<close> is the text \<^verbatim>\<open>vsnprintf\<close> would print; the array holds at most 2999 characters of it, but the NUL is stored at
  the untruncated length.\<close>

definition output_write_report_with_format ::
  "chan_api \<Rightarrow> string \<times> string \<Rightarrow> nat \<Rightarrow> nat \<Rightarrow> timeval \<Rightarrow> string option \<Rightarrow> output_t option \<Rightarrow> fs
     \<Rightarrow> (output_t option \<times> fs \<times> delivery list \<times> nat) cres" where
  "output_write_report_with_format A arrs channels report_type ts printed out fs =
     (case out of None \<Rightarrow> Inl OutOfBounds
      | Some o1 \<Rightarrow>
          if \<not> out_is_enable (t_config o1) \<or> IS_DISABLE_OUTPUT channels then Inr (out, fs, [], 0)
          else case printed of None \<Rightarrow> output_write_report A arrs channels report_type ts None out fs
          | Some s \<Rightarrow>
              if length s \<ge> MAX_LENGTH_REPORT_MESSAGE then Inl OutOfBounds
              else output_write_report A arrs channels report_type ts (Some s) out fs)"

definition output_write ::
  "chan_api \<Rightarrow> string \<Rightarrow> nat \<Rightarrow> string \<Rightarrow> output_t option \<Rightarrow> fs \<Rightarrow> (output_t option \<times> fs \<times> delivery list \<times> nat) cres" where
  "output_write A stack channels msg out fs =
     (case out of None \<Rightarrow> Inl OutOfBounds
      | Some out \<Rightarrow>
          if \<not> out_is_enable (t_config out) \<or> IS_DISABLE_OUTPUT channels then Inr (Some out, fs, [], 0)
          else bindE (write_channels A stack channels (cstr msg) out fs) (\<lambda>(out, fs, ds, n). Inr (Some out, fs, ds, n)))"

definition output_flush ::
  "fs_env \<Rightarrow> timeval \<Rightarrow> string \<Rightarrow> output_t option \<Rightarrow> fs \<Rightarrow> (output_t option \<times> fs \<times> delivery list) cres" where
  "output_flush E now stack out fs =
     (case out of None \<Rightarrow> Inr (None, fs, [])
      | Some out \<Rightarrow>
          bindE (case t_file out of None \<Rightarrow> Inr (None, fs)
                 | Some f \<Rightarrow> bindE (file_output_flush E now stack f fs) (\<lambda>(f, fs). Inr (Some f, fs))) (\<lambda>(f, fs).
          bindE (case t_mongodb out of None \<Rightarrow> Inr (None, [])
                 | Some m \<Rightarrow>
                     bindE (deref (out_mongodb (t_config out))) (\<lambda>mc.
                       if mo_is_enable mc
                       then bindE (mongodb_output_flush_to_database m) (\<lambda>(m, ds). Inr (Some m, ds))
                       else Inr (Some m, []))) (\<lambda>(mongo, ds).
          Inr (Some (out\<lparr>t_file := f, t_mongodb := mongo\<rparr>), fs, ds))))"

definition output_release :: "fs_env \<Rightarrow> string \<Rightarrow> output_t option \<Rightarrow> fs \<Rightarrow> (fs \<times> delivery list) cres" where
  "output_release E stack out fs =
     (case out of None \<Rightarrow> Inr (fs, [])
      | Some out \<Rightarrow>
          bindE (case t_file out of None \<Rightarrow> Inr fs | Some f \<Rightarrow> file_output_release E stack f fs) (\<lambda>fs.
          bindE (mongodb_output_release (t_mongodb out)) (\<lambda>ds. Inr (fs, ds))))"

section \<open>Lemmas\<close>

definition header_items :: "nat \<Rightarrow> timeval \<Rightarrow> output_t \<Rightarrow> item list" where
  "header_items report_type ts out =
     [F_INT (of_nat report_type), F_INT (ucast (t_probe_id out)), F_STR (t_input_src out), F_TIME ts]"

text \<open>The text of a report: the header, cut to 254 characters as the builder does, and the body.\<close>

definition report_text :: "nat \<Rightarrow> timeval \<Rightarrow> string \<Rightarrow> output_t \<Rightarrow> string" where
  "report_text report_type ts body out = render '','' 254 (header_items report_type ts out) @ '','' @ cstr body"

definition sent_text :: "nat \<Rightarrow> timeval \<Rightarrow> string \<Rightarrow> output_t \<Rightarrow> string" where
  "sent_text report_type ts body out =
     (if out_format (t_config out) = 1 then ''['' @ report_text report_type ts body out @ '']''
      else report_text report_type ts body out)"

lemma surround_ok:
  assumes "length stack = 3000" "length msg \<le> 2997" "NUL \<notin> set msg"
  shows "\<exists>a. surround stack msg = Inr a \<and> cstr a = ''['' @ msg @ '']''"
proof -
  let ?a = "blit stack 0 (''['' @ msg @ '']'' @ [NUL])"
  have 1: "store stack 0 CHR ''['' = Inr (blit stack 0 ''['')" using assms(1) by (simp add: store_def list_update_blit)
  have 2: "memcpy (blit stack 0 ''['') 1 msg = Inr (blit stack 0 (''['' @ msg))"
    using assms(1,2) blit_append [of 0 "''[''" msg stack] by simp
  have 3: "store (blit stack 0 (''['' @ msg)) (length msg + 1) CHR '']'' = Inr (blit stack 0 ((''['' @ msg) @ '']''))"
    using assms(1,2) blit_append [of 0 "''['' @ msg" "'']''" stack] by simp
  have 4: "store (blit stack 0 ((''['' @ msg) @ '']'')) (length msg + 2) NUL = Inr (blit stack 0 (((''['' @ msg) @ '']'') @ [NUL]))"
    using assms(1,2) blit_append [of 0 "(''['' @ msg) @ '']''" "[NUL]" stack] by simp
  have "surround stack msg = Inr ?a" unfolding surround_def 1 bindE_Inr 2 3 4 by simp
  moreover have "cstr ?a = ''['' @ msg @ '']''"
    using assms(3) cstr_append_NUL [of "''['' @ msg @ '']''" "drop (Suc (Suc (Suc (length msg)))) stack"]
    by (simp add: blit_def)
  ultimately show ?thesis by blast
qed

lemma surround_overflow:
  assumes "length stack = 3000" "length msg > 2997"
  shows "surround stack msg = Inl OutOfBounds"
proof (cases "length msg \<le> 2999")
  case True
  then have m: "memcpy (blit stack 0 ''['') 1 msg = Inr (blit (blit stack 0 ''['') 1 msg)" using assms(1) by simp
  have l: "length (blit (blit stack 0 ''['') 1 msg) = 3000" using True assms(1) by simp
  show ?thesis
    using assms True m l by (auto simp: surround_def store_def list_update_blit bindE_def)
next
  case False
  then show ?thesis using assms by (auto simp: surround_def store_def list_update_blit memcpy_def)
qed

lemma report_message_ok:
  assumes "length arr = 3000" "item_ok (F_TIME ts)" "length (report_text report_type ts body out) < 3000"
  shows "report_message arr report_type ts (Some body) out = Inr (report_text report_type ts body out)"
    and "NUL \<notin> set (report_text report_type ts body out)"
proof -
  let ?h = "render '','' 254 (header_items report_type ts out)"
  have ok: "list_all item_ok (header_items report_type ts out)" "list_all text_item (header_items report_type ts out)"
    using assms(2) by (simp_all add: header_items_def)
  have h: "length ?h \<le> 254" by (rule render_fits)
  have hn: "NUL \<notin> set ?h" by (rule render_NUL [OF ok(2)])
  show nul: "NUL \<notin> set (report_text report_type ts body out)"
    using hn NUL_notin_cstr [of body] by (simp add: report_text_def)
  define H where "H = ?h"
  have sb: "STRING_BUILDER_WITH_SEPARATOR 0 arr MAX_LENGTH_FULL_PATH_FILE_NAME '',''
      [F_INT (of_nat report_type), F_INT (ucast (t_probe_id out)), F_STR (t_input_src out), F_TIME ts]
      = Inr (blit arr 0 (H @ [NUL]), length H)"
    unfolding header_items_def [symmetric] MAX_LENGTH_FULL_PATH_FILE_NAME_def
    using builder_separated [OF ok(1), of 0 255 arr H "'',''"] assms(1) H_def by simp
  have len: "length H + 1 + strlen body < 3000"
    using assms(3) by (simp add: report_text_def strlen_def H_def)
  have 1: "store (blit arr 0 (H @ [NUL])) (length H) CHR '','' = Inr (blit arr 0 (H @ '',''))"
  proof -
    have l: "length H < length (blit arr 0 (H @ [NUL]))" using len assms(1) by simp
    have "blit (blit arr 0 (H @ [NUL])) (length H) '','' = blit arr 0 (H @ '','')"
      using len assms(1) by (simp add: blit_def)
    then show ?thesis using store_blit [OF l] by simp
  qed
  have 2: "memcpy (blit arr 0 (H @ '','')) (length H + 1) (cstr body) = Inr (blit arr 0 ((H @ '','') @ cstr body))"
    using len assms(1) blit_append [of 0 "H @ '',''" "cstr body" arr] by (simp add: strlen_def)
  have 3: "store (blit arr 0 ((H @ '','') @ cstr body)) (length H + 1 + strlen body) NUL
      = Inr (blit arr 0 (((H @ '','') @ cstr body) @ [NUL]))"
    using len assms(1) blit_append [of 0 "(H @ '','') @ cstr body" "[NUL]" arr] by (simp add: strlen_def)
  have c: "cstr (blit arr 0 (((H @ '','') @ cstr body) @ [NUL])) = report_text report_type ts body out"
    using nul cstr_append_NUL [of "report_text report_type ts body out"] by (simp add: blit_def report_text_def H_def)
  have m: "min (strlen body) (3000 - (length H + 1)) = strlen body" using len by simp
  show "report_message arr report_type ts (Some body) out = Inr (report_text report_type ts body out)"
    unfolding report_message_def sb bindE_Inr prod.case option.case 1 Let_def MAX_LENGTH_REPORT_MESSAGE_def m
    unfolding cstr_eq_take [symmetric] 2 bindE_Inr 3 c ..
qed

section \<open>The database cache\<close>

text \<open>A cache that was never flushed and has room.\<close>

definition first_batch :: "string list \<Rightarrow> mongodb_output \<Rightarrow> bool" where
  "first_batch msgs mongo \<longleftrightarrow> length (messages_cache mongo) = messages_max_limit mongo \<and> Freed \<notin> set (messages_cache mongo)
     \<and> messages_count mongo = length msgs \<and> length msgs < messages_max_limit mongo
     \<and> take (length msgs) (messages_cache mongo) = map Live msgs"

fun write_all :: "chan_api \<Rightarrow> string list \<Rightarrow> mongodb_output \<Rightarrow> (mongodb_output \<times> delivery list) cres" where
  "write_all A [] mongo = Inr (mongo, [])"
| "write_all A (m # ms) mongo =
     bindE (mongodb_output_write A m mongo) (\<lambda>(mongo, ds, _).
     bindE (write_all A ms mongo) (\<lambda>(mongo, ds'). Inr (mongo, ds @ ds')))"

lemma documents_Live: "documents (map Live msgs) = Inr msgs"
  by (induction msgs) auto

lemma first_batch_nth: "first_batch msgs mongo \<Longrightarrow> messages_cache mongo ! messages_count mongo \<noteq> Freed"
  unfolding first_batch_def by (metis nth_mem)

lemma first_batch_take:
  "first_batch msgs mongo \<Longrightarrow> take (Suc (length msgs)) ((messages_cache mongo)[length msgs := Live m]) = map Live (msgs @ [m])"
  by (auto simp: first_batch_def take_Suc_conv_app_nth take_update_cancel)

lemma write_first_batch:
  assumes "first_batch msgs mongo" "bson_ok A m" "Suc (length msgs) < messages_max_limit mongo"
  shows "\<exists>mongo'. mongodb_output_write A m mongo = Inr (mongo', [], 1) \<and> first_batch (msgs @ [m]) mongo'
     \<and> messages_max_limit mongo' = messages_max_limit mongo"
  using assms first_batch_nth [OF assms(1)] first_batch_take [OF assms(1), of m] set_update_subset_insert [of "messages_cache mongo"]
  by (auto simp: mongodb_output_write_def first_batch_def Let_def)

lemma write_last_of_batch:
  assumes "first_batch msgs mongo" "bson_ok A m" "Suc (length msgs) = messages_max_limit mongo"
  shows "\<exists>mongo'. mongodb_output_write A m mongo = Inr (mongo', [To_database (msgs @ [m])], 1)
     \<and> messages_count mongo' = 0 \<and> messages_cache mongo' = replicate (messages_max_limit mongo) Freed
     \<and> messages_max_limit mongo' = messages_max_limit mongo"
proof -
  have 1: "messages_count mongo = length msgs" "length (messages_cache mongo) = Suc (length msgs)"
    using assms(1,3) by (simp_all add: first_batch_def)
  have "documents (take (Suc (length msgs)) ((messages_cache mongo)[length msgs := Live m])) = Inr (msgs @ [m])"
    unfolding first_batch_take [OF assms(1)] by (rule documents_Live)
  then have d: "documents ((messages_cache mongo)[length msgs := Live m]) = Inr (msgs @ [m])" using 1(2) by simp
  have n: "messages_cache mongo ! length msgs \<noteq> Freed" using first_batch_nth [OF assms(1)] 1(1) by simp
  show ?thesis
    using 1 n assms(2) by (simp add: mongodb_output_write_def mongodb_output_flush_to_database_def Let_def d assms(3) [symmetric])
qed

lemma write_all_first_batch:
  assumes "first_batch done mongo" "\<forall>m \<in> set ms. bson_ok A m" "length done + length ms = messages_max_limit mongo" "ms \<noteq> []"
  shows "\<exists>mongo'. write_all A ms mongo = Inr (mongo', [To_database (done @ ms)])
     \<and> messages_count mongo' = 0 \<and> messages_cache mongo' = replicate (messages_max_limit mongo) Freed
     \<and> messages_max_limit mongo' = messages_max_limit mongo"
  using assms
proof (induction ms arbitrary: "done" mongo)
  case (Cons m ms)
  show ?case
  proof (cases "ms = []")
    case True
    then show ?thesis using write_last_of_batch [OF Cons.prems(1), of A m] Cons.prems(2,3) by auto
  next
    case False
    then obtain mongo' where w: "mongodb_output_write A m mongo = Inr (mongo', [], 1)" "first_batch (done @ [m]) mongo'"
      "messages_max_limit mongo' = messages_max_limit mongo"
      using write_first_batch [OF Cons.prems(1), of A m] Cons.prems(2,3) by (cases ms) auto
    then show ?thesis using Cons.IH [OF w(2)] Cons.prems(2,3) False by auto
  qed
qed simp

section \<open>Delivery\<close>

definition json :: "string \<Rightarrow> string" where
  "json t = ''['' @ t @ '']''"

text \<open>What the message channels receive when a text is written, and the files then.\<close>

definition deliveries :: "nat \<Rightarrow> string \<Rightarrow> output_t \<Rightarrow> delivery list \<Rightarrow> delivery list" where
  "deliveries channels t out dm =
     (if t_kafka out \<and> IS_ENABLE_OUTPUT_TO CHANNEL_KAFKA channels then [To_kafka t] else [])
     @ (if t_redis out \<and> IS_ENABLE_OUTPUT_TO CHANNEL_REDIS channels then [To_redis t] else [])
     @ dm
     @ (if is_some_and unix_socket (t_socket out) \<and> IS_ENABLE_OUTPUT_TO CHANNEL_SOCKET channels
        then [To_unix t, To_unix [CHR 0x0A]] else [])
     @ (if is_some_and internet_socket (t_socket out) \<and> IS_ENABLE_OUTPUT_TO CHANNEL_SOCKET channels
        then [To_internet t, To_internet [CHR 0x0A]] else [])"

definition files_after :: "nat \<Rightarrow> string \<Rightarrow> output_t \<Rightarrow> fs \<Rightarrow> fs" where
  "files_after channels t out fs =
     (case Option.bind (t_file out) o_file of
        Some path \<Rightarrow> if IS_ENABLE_OUTPUT_TO CHANNEL_FILE channels
                     then AList.update path (case_option [] id (map_of fs path) @ [t]) fs else fs
      | None \<Rightarrow> fs)"

lemma write_file_after: "NUL \<notin> set t \<Longrightarrow> fst (snd (write_file channels t out fs)) = files_after channels t out fs"
  by (auto simp: write_file_def files_after_def file_output_write_def cstr_id split: option.splits)

lemma surround_bind:
  assumes "needs_json channels out \<longrightarrow> length msg \<le> 2997" "NUL \<notin> set msg" "length stack = 3000"
  shows "(if needs_json channels out then bindE (surround stack msg) (\<lambda>a. Inr (cstr a)) else Inr [])
     = Inr (if needs_json channels out then json msg else [])"
  using surround_ok [OF assms(3) _ assms(2)] assms(1) by (auto simp: json_def)

lemma write_mongodb_json:
  "write_mongodb A channels (if needs_json channels out then x else y) out = write_mongodb A channels x out"
  by (auto simp: write_mongodb_def needs_json_def split: option.splits)

lemma sent_parts:
  "fst (if t_kafka out \<and> IS_ENABLE_OUTPUT_TO CHANNEL_KAFKA channels then kafka_output_send A t else ([], 0))
     = (if t_kafka out \<and> IS_ENABLE_OUTPUT_TO CHANNEL_KAFKA channels then [To_kafka t] else [])"
  "fst (if t_redis out \<and> IS_ENABLE_OUTPUT_TO CHANNEL_REDIS channels then redis_send A t else ([], 0))
     = (if t_redis out \<and> IS_ENABLE_OUTPUT_TO CHANNEL_REDIS channels then [To_redis t] else [])"
  "fst (case t_socket out of Some s \<Rightarrow> if IS_ENABLE_OUTPUT_TO CHANNEL_SOCKET channels then socket_output_send A t s else ([], 0)
            | None \<Rightarrow> ([], 0))
     = (if is_some_and unix_socket (t_socket out) \<and> IS_ENABLE_OUTPUT_TO CHANNEL_SOCKET channels
        then [To_unix t, To_unix [CHR 0x0A]] else [])
     @ (if is_some_and internet_socket (t_socket out) \<and> IS_ENABLE_OUTPUT_TO CHANNEL_SOCKET channels
        then [To_internet t, To_internet [CHR 0x0A]] else [])"
  by (simp_all add: kafka_output_send_def redis_send_def socket_output_send_def is_some_and_def split: option.split)

lemma write_channels_ok:
  assumes "needs_json channels out \<longrightarrow> length msg \<le> 2997" "NUL \<notin> set msg" "length stack = 3000"
    and "write_mongodb A channels (json msg) out = Inr (mongo', dm, nm)"
    and t: "t = (if out_format (t_config out) = 1 then json msg else msg)"
  shows "\<exists>f n. write_channels A stack channels msg out fs
     = Inr (out\<lparr>t_file := f, t_mongodb := mongo'\<rparr>, files_after channels t out fs, deliveries channels t out dm, n)"
proof -
  have m: "(if out_format (t_config out) = 1 then if needs_json channels out then json msg else [] else msg) = t"
    using t by (simp add: needs_json_def)
  have nul: "NUL \<notin> set t" using assms(2) by (simp add: t json_def)
  obtain f n1 where f: "write_file channels t out fs = (f, files_after channels t out fs, n1)"
    using write_file_after [OF nul, of channels out fs] by (cases "write_file channels t out fs") auto
  let ?k = "if t_kafka out \<and> IS_ENABLE_OUTPUT_TO CHANNEL_KAFKA channels then kafka_output_send A t else ([], 0)"
  let ?r = "if t_redis out \<and> IS_ENABLE_OUTPUT_TO CHANNEL_REDIS channels then redis_send A t else ([], 0)"
  let ?s = "case t_socket out of Some s \<Rightarrow> if IS_ENABLE_OUTPUT_TO CHANNEL_SOCKET channels then socket_output_send A t s else ([], 0)
            | None \<Rightarrow> ([], 0)"
  obtain dk nk dr nr ds ns where p: "?k = (dk, nk)" "?r = (dr, nr)" "?s = (ds, ns)" by (meson surj_pair)
  have d: "dk @ dr @ dm @ ds = deliveries channels t out dm"
    unfolding deliveries_def using sent_parts [where A = A and t = t and channels = channels and out = out] unfolding p fst_conv by simp
  show ?thesis
    unfolding write_channels_def surround_bind [OF assms(1-3)] bindE_Inr m write_mongodb_json assms(4) Let_def f prod.case p d
    by blast
qed

lemma report_message_long:
  assumes "length arr = 3000" "item_ok (F_TIME ts)" "3000 \<le> length (report_text report_type ts body out)"
  shows "report_message arr report_type ts (Some body) out = Inl OutOfBounds"
proof -
  have ok: "list_all item_ok (header_items report_type ts out)" using assms(2) by (simp add: header_items_def)
  define H where "H = render '','' 254 (header_items report_type ts out)"
  have h: "length H \<le> 254" unfolding H_def by (rule render_fits)
  have sb: "STRING_BUILDER_WITH_SEPARATOR 0 arr MAX_LENGTH_FULL_PATH_FILE_NAME '',''
      [F_INT (of_nat report_type), F_INT (ucast (t_probe_id out)), F_STR (t_input_src out), F_TIME ts]
      = Inr (blit arr 0 (H @ [NUL]), length H)"
    unfolding header_items_def [symmetric] MAX_LENGTH_FULL_PATH_FILE_NAME_def
    using builder_separated [OF ok(1), of 0 255 arr H "'',''"] assms(1) H_def by simp
  define a where "a = blit (blit arr 0 (H @ [NUL])) (length H) '',''"
  have 1: "store (blit arr 0 (H @ [NUL])) (length H) CHR '','' = Inr a" "length a = 3000"
    using h assms(1) by (simp_all add: a_def)
  let ?n = "3000 - (length H + 1)"
  have m: "min (strlen body) ?n = ?n" "?n \<le> length body"
  proof -
    have "length (report_text report_type ts body out) = length H + 1 + strlen body"
      unfolding report_text_def strlen_def H_def [symmetric] by simp
    then have "?n \<le> strlen body" using assms(3) by linarith
    then show "min (strlen body) ?n = ?n" "?n \<le> length body" using strlen_le [of body] by linarith+
  qed
  have 2: "memcpy a (length H + 1) (take ?n body) = Inr (blit a (length H + 1) (take ?n body))"
    using m(2) h 1(2) by simp
  have 3: "store (blit a (length H + 1) (take ?n body)) (length H + 1 + ?n) NUL = Inl OutOfBounds"
    using m(2) h 1(2) by (intro store_fault) simp
  show ?thesis
    unfolding report_message_def sb bindE_Inr prod.case option.case 1(1) Let_def MAX_LENGTH_REPORT_MESSAGE_def m 2 3 bindE_Inl ..
qed

text \<open>An output in JSON to Kafka, to a socket and to a database with a cache of two documents.\<close>

definition sample_output_conf :: output_conf where
  "sample_output_conf = \<lparr>out_is_enable = True, out_cache_max = 2, out_cache_period = 5, out_file = None, out_redis = None,
     out_kafka = None, out_mongodb = None, out_socket = None, out_format = 1\<rparr>"

definition sample_mongodb_conf :: mongodb_output_conf where
  "sample_mongodb_conf = \<lparr>mo_is_enable = True, mo_host = \<lparr>host_name = Some ''db'', port_number = 27017\<rparr>,
     database_name = Some ''mmt-data'', collection_name = Some ''reports'', limit_size = 0\<rparr>"

definition sample_mongodb :: mongodb_output where
  "sample_mongodb = \<lparr>messages_max_limit = 2, messages_count = 0, messages_cache = [Live [], Live []]\<rparr>"

definition sample_output :: output_t where
  "sample_output = \<lparr>t_index = 1, t_probe_id = 3, t_input_src = ''eth0'', last_report_ts = \<lparr>tv_sec = 0, tv_usec = 0\<rparr>,
     t_config = sample_output_conf, t_mutex = False, t_file = None, t_redis = False, t_kafka = True,
     t_mongodb = Some sample_mongodb, t_socket = Some \<lparr>unix_socket = True, internet_socket = False\<rparr>\<rparr>"

definition sample_api :: chan_api where
  "sample_api = \<lparr>kafka_init_ok = True, kafka_produce_ok = (\<lambda>_. True), redis_init_ok = True, thredis_command = (\<lambda>_. Good_reply),
     mongoc_init_ok = True, bson_ok = (\<lambda>_. True), unix_connect = True, internet_connect = True,
     unix_send_ok = (\<lambda>_. True), internet_send_ok = (\<lambda>_. True)\<rparr>"

lemma sample_report: "report_text 100 (sample_time 1) ''x'' sample_output = ''100,3,'' @ [CHR 0x22] @ ''eth0'' @ [CHR 0x22] @ '',1.000000,x''"
  by code_simp

section \<open>Properties\<close>



text \<open>
  A long report is written out of bounds. When the text of a report has 3000 characters or more, the terminating NUL is
  stored one byte behind the array although the length was limited; when the report is also sent in brackets, 2998
  characters are enough to overflow the second array. With the previous property, these are exactly the reports that fault.
\<close>

theorem long_report_overflows:
  assumes "length a1 = 3000" "length a2 = 3000" "item_ok (F_TIME ts)"
    and "out_is_enable (t_config out)" "\<not> IS_DISABLE_OUTPUT channels"
    and "length (report_text report_type ts body out) \<ge> 3000
         \<or> needs_json channels out \<and> length (report_text report_type ts body out) > 2997"
  shows "output_write_report A (a1, a2) channels report_type ts (Some body) (Some out) fs = Inl OutOfBounds"
proof (cases "length (report_text report_type ts body out) \<ge> 3000")
  case True
  then show ?thesis
    using report_message_long [OF assms(1,3)] assms(4,5) by (simp add: output_write_report_def)
next
  case False
  then have n: "needs_json channels out" "length (report_text report_type ts body out) > 2997"
    "length (report_text report_type ts body out) < 3000" using assms(6) by auto
  have "write_channels A a2 channels (report_text report_type ts body out) out fs = Inl OutOfBounds"
    using n(1) surround_overflow [OF assms(2) n(2)] by (simp add: write_channels_def)
  then show ?thesis
    using report_message_ok(1) [OF assms(1,3) n(3)] assms(4,5) by (simp add: output_write_report_def)
qed

theorem long_report_overflows_witness:
  "output_write_report sample_api (replicate 3000 NUL, replicate 3000 NUL) 4 100 (sample_time 1) (Some (replicate 3000 CHR ''x''))
     (Some sample_output) [] = Inl OutOfBounds"
proof (rule long_report_overflows)
  have "cstr (replicate 3000 CHR ''x'') = replicate 3000 CHR ''x''" by (rule cstr_id) simp
  then show "length (report_text 100 (sample_time 1) (replicate 3000 CHR ''x'') sample_output) \<ge> 3000
      \<or> needs_json 4 sample_output \<and> length (report_text 100 (sample_time 1) (replicate 3000 CHR ''x'') sample_output) > 2997"
    unfolding report_text_def length_append by simp
qed (simp_all add: sample_fields, simp_all add: sample_output_def sample_output_conf_def IS_DISABLE_OUTPUT_def)

text \<open>
  The database gets one batch. A new cache collects the documents and inserts them together, in order, when it is
  full; the documents are freed by that, so every later write and the release of the output use freed memory.
\<close>

theorem database_gets_one_batch:
  assumes "mo_is_enable config" "mongoc_init_ok A" "length msgs = cache_max" "cache_max > 0" "\<forall>m \<in> set msgs. bson_ok A m"
  shows "\<exists>mongo mongo'. mongodb_output_alloc_init A config cache_max = Inr (Some mongo)
     \<and> write_all A msgs mongo = Inr (mongo', [To_database msgs])
     \<and> mongodb_output_write A m mongo' = Inl OutOfBounds \<and> mongodb_output_release (Some mongo') = Inl OutOfBounds"
proof -
  let ?m = "\<lparr>messages_max_limit = cache_max, messages_count = 0, messages_cache = replicate cache_max (Live [])\<rparr>"
  have "first_batch [] ?m" using assms(4) by (simp add: first_batch_def)
  then obtain mongo' where w: "write_all A msgs ?m = Inr (mongo', [To_database msgs])"
    "messages_count mongo' = 0" "messages_cache mongo' = replicate cache_max Freed" "messages_max_limit mongo' = cache_max"
    using write_all_first_batch [of "[]" ?m msgs A] assms(3-5) by fastforce
  show ?thesis
    using assms(1,2,4) w by (auto simp: mongodb_output_alloc_init_def mongodb_output_write_def
      mongodb_output_release_def mongodb_output_flush_to_database_def)
qed

theorem database_gets_one_batch_witness:
  "\<exists>mongo mongo'. mongodb_output_alloc_init sample_api sample_mongodb_conf 2 = Inr (Some mongo)
     \<and> write_all sample_api [''[1]'', ''[2]''] mongo = Inr (mongo', [To_database [''[1]'', ''[2]'']])
     \<and> mongodb_output_write sample_api ''[3]'' mongo' = Inl OutOfBounds \<and> mongodb_output_release (Some mongo') = Inl OutOfBounds"
  by (rule database_gets_one_batch) (simp_all add: sample_api_def sample_mongodb_conf_def)

end
