(* ===== verification/Dpi_Tool.thy ===== *)
theory Dpi_Tool
  imports Config
begin

text \<open>
  Helpers between MMT-DPI and the reports: \<^verbatim>\<open>src/src/modules/dpi/dpi_tool.h\<close> and \<^verbatim>\<open>src/src/lib/inet.h\<close>. The names of
  protocols and attributes and the results of registrations come from MMT-DPI and are inputs (\<open>dpi_api\<close>).
\<close>

section \<open>Registration of attributes\<close>

text \<open>A request to MMT-DPI about an attribute, without or with a handler function.\<close>

datatype 'h dpi_call = Extraction u32 u32 | Handler u32 u32 'h

record 'h dpi_api =
  get_protocol_id_by_name :: "string \<Rightarrow> u32"
  get_attribute_id :: "u32 \<Rightarrow> string \<Rightarrow> u32"
  register_ok :: "'h dpi_call \<Rightarrow> bool"
  is_registered :: "'h dpi_call \<Rightarrow> bool"
  unregister_ok :: "'h dpi_call \<Rightarrow> bool"

definition dpi_get_proto_id_and_att_id :: "'h dpi_api \<Rightarrow> dpi_protocol_attribute \<Rightarrow> u32 \<times> u32 \<times> bool" where
  "dpi_get_proto_id_and_att_id A att =
     (let proto_id = get_protocol_id_by_name A (proto_name att);
          att_id = (if proto_id \<noteq> 0 then get_attribute_id A proto_id (attribute_name att) else 0)
      in (proto_id, att_id, proto_id \<noteq> 0 \<and> att_id \<noteq> 0))"

definition call_of :: "u32 \<Rightarrow> u32 \<Rightarrow> 'h option \<Rightarrow> 'h dpi_call" where
  "call_of proto_id att_id handler_fct =
     (case handler_fct of None \<Rightarrow> Extraction proto_id att_id | Some h \<Rightarrow> Handler proto_id att_id h)"

text \<open>The loops yield the requests that succeeded, in order, and the counter.\<close>

fun dpi_register_attribute :: "'h dpi_api \<Rightarrow> dpi_protocol_attribute list \<Rightarrow> 'h option \<Rightarrow> 'h dpi_call list \<times> nat" where
  "dpi_register_attribute A [] handler_fct = ([], 0)"
| "dpi_register_attribute A (att # atts) handler_fct =
     (let (proto_id, att_id, known) = dpi_get_proto_id_and_att_id A att;
          (calls, ret) = dpi_register_attribute A atts handler_fct;
          c = call_of proto_id att_id handler_fct
      in if \<not> known then (calls, ret)
         else if \<not> register_ok A c then (calls, ret)
         else (c # calls, ret + 1))"

fun dpi_unregister_attribute :: "'h dpi_api \<Rightarrow> dpi_protocol_attribute list \<Rightarrow> 'h option \<Rightarrow> 'h dpi_call list \<times> nat" where
  "dpi_unregister_attribute A [] handler_fct = ([], 0)"
| "dpi_unregister_attribute A (att # atts) handler_fct =
     (let (proto_id, att_id, known) = dpi_get_proto_id_and_att_id A att;
          (calls, ret) = dpi_unregister_attribute A atts handler_fct;
          c = call_of proto_id att_id handler_fct
      in if \<not> known then (calls, ret)
         else if \<not> is_registered A c then (calls, ret)
         else if \<not> unregister_ok A c then (calls, ret)
         else (c # calls, ret + 1))"

record 'h conditional_handler =
  ch_proto_id :: u32
  ch_att_id :: u32
  ch_handler :: "'h option"

definition handler_call :: "'h conditional_handler \<Rightarrow> 'h dpi_call" where
  "handler_call h = call_of (ch_proto_id h) (ch_att_id h) (ch_handler h)"

fun dpi_register_conditional_handler :: "'h dpi_api \<Rightarrow> 'h conditional_handler list \<Rightarrow> 'h dpi_call list \<times> nat" where
  "dpi_register_conditional_handler A [] = ([], 0)"
| "dpi_register_conditional_handler A (h # hs) =
     (let (calls, ret) = dpi_register_conditional_handler A hs
      in if \<not> register_ok A (handler_call h) then (calls, ret) else (handler_call h # calls, ret + 1))"

fun dpi_unregister_conditional_handler :: "'h dpi_api \<Rightarrow> 'h conditional_handler list \<Rightarrow> 'h dpi_call list \<times> nat" where
  "dpi_unregister_conditional_handler A [] = ([], 0)"
| "dpi_unregister_conditional_handler A (h # hs) =
     (let (calls, ret) = dpi_unregister_conditional_handler A hs
      in if \<not> unregister_ok A (handler_call h) then (calls, ret) else (handler_call h # calls, ret + 1))"

section \<open>Protocol hierarchies\<close>

text \<open>\<^verbatim>\<open>proto_hierarchy_t\<close> of MMT-DPI: an array, of which \<^verbatim>\<open>len\<close> elements are used.\<close>

record proto_hierarchy =
  ph_len :: nat
  proto_path :: "u32 list"

definition path_at :: "proto_hierarchy \<Rightarrow> nat \<Rightarrow> u32 cres" where
  "path_at h i = (if i < length (proto_path h) then Inr (proto_path h ! i) else Inl OutOfBounds)"

definition dpi_get_proto_id_from_session :: "proto_hierarchy \<Rightarrow> u32 cres" where
  "dpi_get_proto_id_from_session h = (if ph_len h = 0 then Inl OutOfBounds else path_at h (ph_len h - 1))"

fun path_loop :: "proto_hierarchy \<Rightarrow> nat \<Rightarrow> nat list \<Rightarrow> string \<Rightarrow> nat \<Rightarrow> append_res" where
  "path_loop h max_length [] dest offset = Inr (dest, offset)"
| "path_loop h max_length (index # is) dest offset =
     bindE (append_char CHR ''.'' dest offset (max_length - offset)) (\<lambda>(dest, w). let offset = offset + w in
     bindE (path_at h index) (\<lambda>proto.
     bindE (append_number (ucast proto) dest offset (max_length - offset)) (\<lambda>(dest, w).
     path_loop h max_length is dest (offset + w))))"

definition dpi_proto_hierarchy_ids_to_str :: "proto_hierarchy \<Rightarrow> string \<Rightarrow> nat \<Rightarrow> append_res" where
  "dpi_proto_hierarchy_ids_to_str h dest max_length =
     bindE (if ph_len h \<ge> 1
            then bindE (path_at h 1) (\<lambda>proto.
                 bindE (append_number (ucast proto) dest 0 max_length) (\<lambda>(dest, offset).
                 path_loop h max_length [2..<ph_len h] dest offset))
            else Inr (dest, 0)) (\<lambda>(dest, offset).
     bindE (store dest offset NUL) (\<lambda>dest. Inr (dest, offset)))"

section \<open>Strings\<close>

text \<open>\<^verbatim>\<open>mmt_header_line_t\<close>: a pointer into a packet, with the bytes that can be read from there, and a length.\<close>

record mmt_header_line =
  hl_ptr :: string
  hl_len :: nat

definition json_char :: "char \<Rightarrow> char" where
  "json_char c =
     (if c \<in> {CHR 0x08, CHR 0x0C, CHR 0x0A, CHR 0x0D, CHR 0x09, CHR 0x5C} then CHR ''.''
      else if c = CHR 0x22 then CHR 0x27 else c)"

fun copy_loop :: "string \<Rightarrow> nat list \<Rightarrow> string \<Rightarrow> string cres" where
  "copy_loop ptr [] target = Inr target"
| "copy_loop ptr (i # is) target =
     (if i < length ptr then bindE (store target i (json_char (ptr ! i))) (copy_loop ptr is) else Inl OutOfBounds)"

definition dpi_copy_string_value :: "string \<Rightarrow> nat \<Rightarrow> mmt_header_line option \<Rightarrow> (string \<times> bool) cres" where
  "dpi_copy_string_value target tsize val =
     (let empty = bindE (store target 0 NUL) (\<lambda>target. Inr (target, False)) in
      case val of None \<Rightarrow> empty
      | Some val \<Rightarrow>
          if hl_len val = 0 then empty
          else let tsize = (if hl_len val + 1 < tsize then hl_len val + 1 else tsize)
               in bindE (copy_loop (hl_ptr val) [0..<tsize] target) (\<lambda>target.
                  bindE (store target (tsize - 1) NUL) (\<lambda>target. Inr (target, True))))"

definition INET_ADDRSTRLEN :: nat where
  "INET_ADDRSTRLEN = 16"

definition INET6_ADDRSTRLEN :: nat where
  "INET6_ADDRSTRLEN = 46"

definition inet_ntop4 :: "u32 \<Rightarrow> string \<Rightarrow> append_res" where
  "inet_ntop4 addr buf =
     bindE (append_ipv4 addr buf 0 INET_ADDRSTRLEN) (\<lambda>(buf, ret).
     bindE (store buf ret NUL) (\<lambda>buf. Inr (buf, ret)))"

section \<open>Lemmas\<close>

lemma register_counts: "snd (dpi_register_attribute A atts f) = length (fst (dpi_register_attribute A atts f))"
  by (induction A atts f rule: dpi_register_attribute.induct) (auto simp: Let_def split: prod.splits)

lemma unregister_counts: "snd (dpi_unregister_attribute A atts f) = length (fst (dpi_unregister_attribute A atts f))"
  by (induction A atts f rule: dpi_unregister_attribute.induct) (auto simp: Let_def split: prod.splits)

lemma copy_loop_blit:
  "k + n \<le> length ptr \<Longrightarrow> k + n \<le> length target \<Longrightarrow>
   copy_loop ptr [k..<k + n] target = Inr (blit target k (map json_char (take n (drop k ptr))))"
proof (induction n arbitrary: k target)
  case (Suc n)
  have r: "[k..<k + Suc n] = k # [Suc k..<Suc k + n]" by (simp add: upt_conv_Cons)
  have d: "take (Suc n) (drop k ptr) = ptr ! k # take n (drop (Suc k) ptr)"
    using Suc.prems by (simp add: Cons_nth_drop_Suc [symmetric] del: Cons_nth_drop_Suc)
  have b: "blit (blit target k [json_char (ptr ! k)]) (Suc k) (map json_char (take n (drop (Suc k) ptr)))
      = blit target k (json_char (ptr ! k) # map json_char (take n (drop (Suc k) ptr)))"
    using Suc.prems blit_append [of k "[json_char (ptr ! k)]" "map json_char (take n (drop (Suc k) ptr))" target] by simp
  show ?case using Suc.IH [of "Suc k" "blit target k [json_char (ptr ! k)]"] Suc.prems r d b by simp
qed simp

lemma json_char_safe: "json_char c \<noteq> CHR 0x22" "json_char c \<noteq> CHR 0x5C" "json_char c \<noteq> CHR 0x0A"
  by (auto simp: json_char_def)

text \<open>
  Copying a value: at most the room less one character, with the characters that end or escape a JSON string
  replaced. One byte more than the value is read.
\<close>

lemma copy_string_value:
  assumes "hl_len val > 0" "hl_len val < length (hl_ptr val)" "0 < tsize" "tsize \<le> length target"
    and n: "n = min (hl_len val) (tsize - 1)"
  shows "dpi_copy_string_value target tsize (Some val)
     = Inr (blit target 0 (map json_char (take n (hl_ptr val)) @ [NUL]), True)"
proof -
  let ?s = "if hl_len val + 1 < tsize then hl_len val + 1 else tsize"
  have s: "?s = Suc n" using assms(3) n by auto
  let ?c = "map json_char (take (Suc n) (hl_ptr val))"
  have len: "Suc n \<le> length (hl_ptr val)" "Suc n \<le> length target" using assms n by auto
  have loop: "copy_loop (hl_ptr val) [0..<Suc n] target = Inr (blit target 0 ?c)"
    using copy_loop_blit [of 0 "Suc n" "hl_ptr val" target] len by (simp del: upt_Suc)
  have "(blit target 0 ?c)[n := NUL] = blit target 0 (map json_char (take n (hl_ptr val)) @ [NUL])"
    using len by (simp add: blit_def take_Suc_conv_app_nth list_update_append)
  then have "store (blit target 0 ?c) n NUL = Inr (blit target 0 (map json_char (take n (hl_ptr val)) @ [NUL]))"
    using len by (simp add: store_def)
  then show ?thesis
    unfolding dpi_copy_string_value_def Let_def option.case s loop using assms(1) by simp
qed

lemma inet_ntop4_text:
  assumes "16 \<le> length buf"
  shows "inet_ntop4 addr buf = Inr (blit buf 0 (ipv4_text addr @ [NUL]), length (ipv4_text addr))"
proof -
  have f: "length (ipv4_text addr) \<le> 15"
    using length_dec_bound [OF ip_byte_lt [of addr 0]] length_dec_bound [OF ip_byte_lt [of addr 1]]
      length_dec_bound [OF ip_byte_lt [of addr 2]] length_dec_bound [OF ip_byte_lt [of addr 3]] by (simp add: ipv4_text_def)
  have "append_ipv4 addr buf 0 16 = Inr (blit buf 0 (ipv4_text addr), length (ipv4_text addr))"
    using append_item_writes [of "F_IPv4 addr" 0 16 buf] assms by simp
  then show ?thesis
    using assms f blit_append [of 0 "ipv4_text addr" "[NUL]" buf] by (simp add: inet_ntop4_def INET_ADDRSTRLEN_def)
qed

section \<open>The text of a protocol path\<close>

definition path_tail :: "u32 list \<Rightarrow> string" where
  "path_tail ps = concat (map (\<lambda>p. ''.'' @ dec (unat p)) ps)"

lemma append_number_fits:
  assumes "length (dec (unat p)) \<le> sz" "off + sz \<le> length m"
  shows "append_number (ucast (p :: u32)) m off sz = Inr (blit m off (dec (unat p)), length (dec (unat p)))"
proof -
  have "unat p < 2 ^ 64" using unsigned_less [of p, where 'a = nat] by simp
  then have u: "unat (ucast p :: u64) = unat p" by (simp add: unsigned_ucast_eq take_bit_nat_eq_self_iff)
  then have "number_txt sz (ucast p :: u64) = dec (unat p)" using assms(1) by (simp add: number_txt_def)
  then show ?thesis using number.app_writes [of off sz m "ucast p"] assms(2) by simp
qed

lemma path_loop_text:
  assumes "\<forall>i \<in> set is. i < length (proto_path h)" "n \<le> length dest"
    and "offset + length (path_tail (map (nth (proto_path h)) is)) \<le> n"
  shows "path_loop h n is dest offset
     = Inr (blit dest offset (path_tail (map (nth (proto_path h)) is)), offset + length (path_tail (map (nth (proto_path h)) is)))"
  using assms
proof (induction "is" arbitrary: dest offset)
  case (Cons i "is")
  define d where "d = dec (unat (proto_path h ! i))"
  define t where "t = path_tail (map (nth (proto_path h)) is)"
  have t: "path_tail (map (nth (proto_path h)) (i # is)) = ''.'' @ d @ t" by (simp add: path_tail_def d_def t_def)
  have len: "offset + 1 + length d + length t \<le> n" "n \<le> length dest" using Cons.prems t by auto
  have c: "append_char CHR ''.'' dest offset (n - offset) = Inr (blit dest offset ''.'', 1)"
    using len by (simp add: append_char_def)
  have a: "append_number (ucast (proto_path h ! i)) (blit dest offset ''.'') (offset + 1) (n - (offset + 1))
      = Inr (blit (blit dest offset ''.'') (offset + 1) d, length d)"
    using append_number_fits [of "proto_path h ! i" "n - (offset + 1)" "offset + 1" "blit dest offset ''.''"] len by (simp add: d_def)
  have b: "blit (blit dest offset ''.'') (offset + 1) d = blit dest offset (''.'' @ d)"
    using blit_append [of offset "''.''" d dest] len by simp
  have b2: "blit (blit dest offset (''.'' @ d)) (offset + 1 + length d) t = blit dest offset (''.'' @ d @ t)"
    using blit_append [of offset "''.'' @ d" t dest] len by simp
  have p: "path_at h i = Inr (proto_path h ! i)" using Cons.prems(1) by (simp add: path_at_def)
  have ih: "path_loop h n is (blit dest offset (''.'' @ d)) (offset + 1 + length d)
      = Inr (blit (blit dest offset (''.'' @ d)) (offset + 1 + length d) t, offset + 1 + length d + length t)"
    using Cons.IH [of "blit dest offset (''.'' @ d)" "offset + 1 + length d"] Cons.prems(1) len by (simp add: t_def)
  show ?case
    unfolding path_loop.simps c bindE_Inr prod.case Let_def p a b ih b2 t by simp
qed (simp add: path_tail_def)

lemma hierarchy_text:
  assumes "2 \<le> ph_len h" "ph_len h \<le> length (proto_path h)" "max_length \<le> length dest"
    and t: "t = tl (path_tail (take (ph_len h - 1) (tl (proto_path h))))" and "length t < max_length"
  shows "dpi_proto_hierarchy_ids_to_str h dest max_length = Inr (blit dest 0 (t @ [NUL]), length t)"
proof -
  let ?p = "proto_path h"
  have m: "map (nth ?p) [2..<ph_len h] = take (ph_len h - 2) (drop 2 ?p)"
    using assms(2) by (intro nth_equalityI) auto
  define d where "d = dec (unat (?p ! 1))"
  define r where "r = path_tail (map (nth ?p) [2..<ph_len h])"
  have "take (ph_len h - 1) (tl ?p) = ?p ! 1 # take (ph_len h - 2) (drop 2 ?p)"
  proof -
    obtain a b c where c: "?p = a # b # c" using assms(1,2) by (metis One_nat_def Suc_1 Suc_le_length_iff le_trans)
    obtain k where "ph_len h = Suc (Suc k)" using assms(1) by (metis One_nat_def Suc_1 Suc_le_D Suc_le_mono)
    then show ?thesis by (simp add: c)
  qed
  then have t': "t = d @ r" by (simp add: t path_tail_def r_def d_def m)
  have p1: "path_at h 1 = Inr (?p ! 1)" using assms(1,2) by (simp add: path_at_def)
  have n: "append_number (ucast (?p ! 1)) dest 0 max_length = Inr (blit dest 0 d, length d)"
    using append_number_fits [of "?p ! 1" max_length 0 dest] assms(3,5) t' by (simp add: d_def)
  have l: "path_loop h max_length [2..<ph_len h] (blit dest 0 d) (length d)
      = Inr (blit (blit dest 0 d) (length d) r, length d + length r)"
    unfolding r_def by (rule path_loop_text) (use assms(2,3,5) t' r_def in auto)
  have b: "blit (blit dest 0 d) (length d) r = blit dest 0 t" "length d + length r = length t"
    using blit_append [of 0 d r dest] t' assms(3,5) by simp_all
  have s: "store (blit dest 0 t) (length t) NUL = Inr (blit dest 0 (t @ [NUL]))"
    using blit_append [of 0 t "[NUL]" dest] assms(3,5) by simp
  show ?thesis
    unfolding dpi_proto_hierarchy_ids_to_str_def p1 bindE_Inr n prod.case l b
    using assms(1) s by simp
qed

end
