(* ===== verification/Dpi_Reports.thy ===== *)
theory Dpi_Reports
  imports Output Dpi_Tool
begin

text \<open>
  Reports that are not about sessions: \<^verbatim>\<open>no_session_report.c\<close>, \<^verbatim>\<open>event_based_report.c\<close> and \<^verbatim>\<open>radius_report.c\<close> under
  \<^verbatim>\<open>src/src/modules/dpi/report\<close>. What MMT-DPI knows about protocols and packets is an argument, as are the local arrays
  (\<open>arrs\<close>: the message, and the two arrays of the output).
\<close>

type_synonym arrays = "string \<times> string \<times> string"

text \<open>Every report ends in this call.\<close>

definition write_report ::
  "chan_api \<Rightarrow> arrays \<Rightarrow> nat \<Rightarrow> nat \<Rightarrow> timeval \<Rightarrow> string \<Rightarrow> output_t option \<Rightarrow> fs \<Rightarrow> (output_t option \<times> fs \<times> delivery list) cres" where
  "write_report C arrs channels rtype ts message out fs =
     bindE (output_write_report C (snd arrs) channels rtype ts (Some message) out fs) (\<lambda>(out, fs, ds, _). Inr (out, fs, ds))"

definition CHANNEL_ALL :: nat where
  "CHANNEL_ALL = 31"

section \<open>Protocols without sessions\<close>

record proto_stats =
  touched :: bool
  st_path :: proto_hierarchy
  data_volume :: u64
  payload_volume :: u64
  packets_count :: u64
  first_packet_time :: timeval
  last_packet_time :: timeval
  ip_frag_data_volume :: u64
  ip_frag_packets_count :: u64
  ip_df_data_volume :: u64
  ip_df_packets_count :: u64

record no_session_context =
  report_number :: u32
  is_enable_ip_fragementation_stat :: bool
  is_enable_proto_no_session_stat :: bool

definition NON_SESSION_REPORT_TYPE :: nat where
  "NON_SESSION_REPORT_TYPE = 99"

definition IP_FRAG_REPORT_TYPE :: nat where
  "IP_FRAG_REPORT_TYPE = 101"

text \<open>The variable \<^verbatim>\<open>val\<close>, to which the results of the registrations are combined by \<^verbatim>\<open>&=\<close>, starts with 0.\<close>

definition no_session_report_alloc_init :: "nat list \<Rightarrow> u32 \<Rightarrow> bool \<Rightarrow> bool \<Rightarrow> no_session_context option cres" where
  "no_session_report_alloc_init results fresh is_frag is_proto =
     (if \<not> is_frag \<and> \<not> is_proto then Inr None
      else if is_frag \<and> foldl (\<lambda>val r. val AND r) 0 results \<noteq> 0 then Inl Aborted
      else Inr (Some \<lparr>report_number = fresh, is_enable_ip_fragementation_stat = is_frag, is_enable_proto_no_session_stat = is_proto\<rparr>))"

text \<open>The linked list of statistics of a protocol; \<open>reset\<close> is \<^verbatim>\<open>reset_statistics\<close> of MMT-DPI, \<open>path\<close> the local array for the path.\<close>

fun stats_loop ::
  "(proto_stats \<Rightarrow> proto_stats) \<Rightarrow> chan_api \<Rightarrow> string \<Rightarrow> arrays \<Rightarrow> u32 \<Rightarrow> u32 \<Rightarrow> proto_stats list \<Rightarrow> output_t option \<Rightarrow> fs
     \<Rightarrow> (proto_stats list \<times> output_t option \<times> fs \<times> delivery list) cres" where
  "stats_loop reset C path arrs n proto_id [] out fs = Inr ([], out, fs, [])"
| "stats_loop reset C path arrs n proto_id (s # ss) out fs =
     bindE (if \<not> touched s then Inr (out, fs, [])
            else bindE (dpi_proto_hierarchy_ids_to_str (st_path s) path 128) (\<lambda>(path, _).
                 bindE (STRING_BUILDER_WITH_SEPARATOR 0 (fst arrs) MAX_LENGTH_FULL_PATH_FILE_NAME '',''
                          [F_INT (ucast n), F_INT (ucast proto_id), F_STR path, F_INT 0, F_INT (data_volume s), F_INT (payload_volume s),
                           F_INT (packets_count s), F_ARR ''0,0,0,0,0,0'', F_TIME (first_packet_time s)]) (\<lambda>(message, _).
                 write_report C arrs CHANNEL_ALL NON_SESSION_REPORT_TYPE (last_packet_time s) message out fs))) (\<lambda>(out, fs, ds).
     bindE (stats_loop reset C path arrs n proto_id ss out fs) (\<lambda>(ss, out, fs, ds'). Inr (reset s # ss, out, fs, ds @ ds')))"

text \<open>\<open>arp\<close> is \<^verbatim>\<open>PROTO_ARP\<close>.\<close>

definition protocols_stats_iterator ::
  "u32 \<Rightarrow> (proto_stats \<Rightarrow> proto_stats) \<Rightarrow> chan_api \<Rightarrow> string \<Rightarrow> arrays \<Rightarrow> u32 \<Rightarrow> u32 \<Rightarrow> proto_stats list \<Rightarrow> output_t option \<Rightarrow> fs
     \<Rightarrow> (proto_stats list \<times> output_t option \<times> fs \<times> delivery list) cres" where
  "protocols_stats_iterator arp reset C path arrs n proto_id stats out fs =
     (if proto_id \<noteq> arp then Inr (stats, out, fs, []) else stats_loop reset C path arrs n proto_id stats out fs)"

definition reset_frag :: "proto_stats \<Rightarrow> proto_stats" where
  "reset_frag s = s\<lparr>ip_df_data_volume := 0, ip_df_packets_count := 0, ip_frag_data_volume := 0, ip_frag_packets_count := 0\<rparr>"

fun report_ip_frag_stat ::
  "chan_api \<Rightarrow> string \<Rightarrow> arrays \<Rightarrow> proto_stats list \<Rightarrow> output_t option \<Rightarrow> fs \<Rightarrow> (proto_stats list \<times> output_t option \<times> fs \<times> delivery list) cres" where
  "report_ip_frag_stat C path arrs [] out fs = Inr ([], out, fs, [])"
| "report_ip_frag_stat C path arrs (s # ss) out fs =
     bindE (if \<not> touched s then Inr (s, out, fs, [])
            else bindE (dpi_proto_hierarchy_ids_to_str (st_path s) path 128) (\<lambda>(path, _).
                 if ip_frag_packets_count s + ip_df_packets_count s > 0
                 then bindE (STRING_BUILDER_WITH_SEPARATOR 0 (fst arrs) MAX_LENGTH_FULL_PATH_FILE_NAME '',''
                          [F_STR path, F_INT (ip_frag_data_volume s), F_INT (ip_frag_packets_count s), F_INT (ip_df_data_volume s),
                           F_INT (ip_df_packets_count s), F_INT (ip_frag_data_volume s + ip_df_data_volume s),
                           F_INT (ip_frag_packets_count s + ip_df_packets_count s)]) (\<lambda>(message, _).
                      bindE (write_report C arrs CHANNEL_ALL IP_FRAG_REPORT_TYPE (last_packet_time s) message out fs) (\<lambda>(out, fs, ds).
                        Inr (reset_frag s, out, fs, ds)))
                 else Inr (reset_frag s, out, fs, []))) (\<lambda>(s, out, fs, ds).
     bindE (report_ip_frag_stat C path arrs ss out fs) (\<lambda>(ss, out, fs, ds'). Inr (s # ss, out, fs, ds @ ds')))"

text \<open>The protocols MMT-DPI iterates through, each with its statistics; \<open>ip\<close> is \<^verbatim>\<open>PROTO_IP\<close>.\<close>

fun iterate_through_protocols ::
  "u32 \<Rightarrow> (proto_stats \<Rightarrow> proto_stats) \<Rightarrow> chan_api \<Rightarrow> string \<Rightarrow> arrays \<Rightarrow> u32 \<Rightarrow> (u32 \<times> proto_stats list) list \<Rightarrow> output_t option \<Rightarrow> fs
     \<Rightarrow> ((u32 \<times> proto_stats list) list \<times> output_t option \<times> fs \<times> delivery list) cres" where
  "iterate_through_protocols arp reset C path arrs n [] out fs = Inr ([], out, fs, [])"
| "iterate_through_protocols arp reset C path arrs n ((proto_id, stats) # ps) out fs =
     bindE (protocols_stats_iterator arp reset C path arrs n proto_id stats out fs) (\<lambda>(stats, out, fs, ds).
     bindE (iterate_through_protocols arp reset C path arrs n ps out fs) (\<lambda>(ps, out, fs, ds').
       Inr ((proto_id, stats) # ps, out, fs, ds @ ds')))"

definition no_session_report ::
  "u32 \<Rightarrow> (proto_stats \<Rightarrow> proto_stats) \<Rightarrow> chan_api \<Rightarrow> string \<Rightarrow> arrays \<Rightarrow> no_session_context option \<Rightarrow> u32
     \<Rightarrow> proto_stats list \<Rightarrow> (u32 \<times> proto_stats list) list \<Rightarrow> output_t option \<Rightarrow> fs
     \<Rightarrow> (no_session_context option \<times> proto_stats list \<times> (u32 \<times> proto_stats list) list \<times> output_t option \<times> fs \<times> delivery list) cres" where
  "no_session_report arp reset C path arrs context n ip_stats protos out fs =
     (case context of None \<Rightarrow> Inr (None, ip_stats, protos, out, fs, [])
      | Some c \<Rightarrow>
          let c = c\<lparr>report_number := n\<rparr> in
          bindE (if is_enable_ip_fragementation_stat c then report_ip_frag_stat C path arrs ip_stats out fs
                 else Inr (ip_stats, out, fs, [])) (\<lambda>(ip_stats, out, fs, ds).
          bindE (if is_enable_proto_no_session_stat c then iterate_through_protocols arp reset C path arrs n protos out fs
                 else Inr (protos, out, fs, [])) (\<lambda>(protos, out, fs, ds').
            Inr (Some c, ip_stats, protos, out, fs, ds @ ds'))))"

section \<open>Events\<close>

text \<open>An attribute of a packet: its type and the text \<^verbatim>\<open>mmt_attr_sprintf\<close> prints; \<open>at_bytes\<close> is \<^verbatim>\<open>data\<close>, NULL if there is none.\<close>

record attribute =
  at_type :: nat
  at_bytes :: "u8 list option"
  at_text :: string

text \<open>\<open>string_types\<close> are the twelve types of the switch, whose numbers MMT-DPI defines.\<close>

record event_env =
  string_types :: "nat list"
  extracted :: "u32 \<Rightarrow> u32 \<Rightarrow> attribute option"
  type_of_attribute :: "u32 \<Rightarrow> u32 \<Rightarrow> nat"

definition is_string :: "event_env \<Rightarrow> nat \<Rightarrow> bool" where
  "is_string V data_type \<longleftrightarrow> data_type \<in> set (string_types V)"

text \<open>\<^verbatim>\<open>mmt_attr_sprintf\<close> writes a text of less than \<open>room\<close> characters and its NUL, and returns its length.\<close>

definition attr_sprintf :: "attribute \<Rightarrow> nat \<Rightarrow> string \<Rightarrow> nat \<Rightarrow> append_res" where
  "attr_sprintf a room message offset =
     (let t = take (room - 1) (at_text a)
      in bindE (memcpy message offset (t @ [NUL])) (\<lambda>message. Inr (message, offset + length t)))"

definition put :: "char \<Rightarrow> string \<Rightarrow> nat \<Rightarrow> append_res" where
  "put c message offset = bindE (store message offset c) (\<lambda>message. Inr (message, offset + 1))"

definition PROTO_IEEE802154 :: u32 where "PROTO_IEEE802154 = 800"

definition IEEE802154_DST_ADDRESS_EXTENDED :: u32 where "IEEE802154_DST_ADDRESS_EXTENDED = 10"

definition IEEE802154_SRC_ADDRESS_EXTENDED :: u32 where "IEEE802154_SRC_ADDRESS_EXTENDED = 13"

text \<open>The address in quotes, last byte first; \<open>None\<close> when it is another attribute.\<close>

definition ieee_text :: "u8 list \<Rightarrow> string" where
  "ieee_text add = [CHR 0x22] @ concat (map (\<lambda>i. (if i = 7 then [] else '':'') @ hex2 (add ! i)) [7, 6, 5, 4, 3, 2, 1, 0]) @ [CHR 0x22]"

definition process_ieee802154_src_dst :: "u32 \<Rightarrow> u32 \<Rightarrow> attribute option \<Rightarrow> nat \<Rightarrow> string \<Rightarrow> nat \<Rightarrow> (string \<times> nat) option cres" where
  "process_ieee802154_src_dst proto_id att_id att len msg offset =
     (if proto_id \<noteq> PROTO_IEEE802154 then Inr None
      else if att_id \<noteq> IEEE802154_SRC_ADDRESS_EXTENDED \<and> att_id \<noteq> IEEE802154_DST_ADDRESS_EXTENDED then Inr None
      else case (case att of None \<Rightarrow> None | Some a \<Rightarrow> at_bytes a) of
             None \<Rightarrow> bindE (put CHR 0x22 msg offset) (\<lambda>(msg, offset). bindE (put CHR 0x22 msg offset) (\<lambda>r. Inr (Some r)))
           | Some add \<Rightarrow>
               if length add < 8 then Inl OutOfBounds
               else bindE (memcpy msg offset (take (len - 1) (ieee_text add) @ [NUL])) (\<lambda>msg. Inr (Some (msg, offset + length (ieee_text add)))))"

text \<open>A value, in quotes when it is a string.\<close>

definition put_value :: "event_env \<Rightarrow> attribute \<Rightarrow> nat \<Rightarrow> nat \<Rightarrow> string \<Rightarrow> nat \<Rightarrow> append_res" where
  "put_value V a room_quoted room message offset =
     (if is_string V (at_type a)
      then bindE (put CHR 0x22 message offset) (\<lambda>(message, offset).
           bindE (attr_sprintf a room_quoted message offset) (\<lambda>(message, offset). put CHR 0x22 message offset))
      else attr_sprintf a room message offset)"

definition put_attribute :: "event_env \<Rightarrow> u32 \<times> u32 \<Rightarrow> string \<Rightarrow> nat \<Rightarrow> append_res" where
  "put_attribute V ids message offset =
     (case ids of (proto_id, att_id) \<Rightarrow>
        bindE (put CHR '','' message offset) (\<lambda>(message, offset).
        bindE (process_ieee802154_src_dst proto_id att_id (extracted V proto_id att_id) (MAX_LENGTH_REPORT_MESSAGE - offset) message offset) (\<lambda>r.
        case r of Some r \<Rightarrow> Inr r
        | None \<Rightarrow>
            (case extracted V proto_id att_id of
               Some a \<Rightarrow> put_value V a (MAX_LENGTH_REPORT_MESSAGE - (offset + 1)) (MAX_LENGTH_REPORT_MESSAGE - offset) message offset
             | None \<Rightarrow>
                 if is_string V (type_of_attribute V proto_id att_id)
                 then bindE (put CHR 0x22 message offset) (\<lambda>(message, offset). put CHR 0x22 message offset)
                 else put CHR ''0'' message offset))))"

fun put_attributes :: "event_env \<Rightarrow> (u32 \<times> u32) list \<Rightarrow> string \<Rightarrow> nat \<Rightarrow> append_res" where
  "put_attributes V [] message offset = Inr (message, offset)"
| "put_attributes V (a # as) message offset = bindE (put_attribute V a message offset) (\<lambda>(message, offset). put_attributes V as message offset)"

definition EVENT_REPORT_TYPE :: nat where
  "EVENT_REPORT_TYPE = 1000"

record event_context =
  ec_ids :: "(u32 \<times> u32) list"
  ec_config :: event_report_conf

text \<open>The whole message.\<close>

definition event_message :: "event_env \<Rightarrow> event_context \<Rightarrow> attribute \<Rightarrow> string \<Rightarrow> string cres" where
  "event_message V context a message =
     bindE (append_string (ev_title (ec_config context)) message 0 MAX_LENGTH_REPORT_MESSAGE) (\<lambda>(message, offset).
     bindE (put CHR '','' message offset) (\<lambda>(message, offset).
     bindE (put_value V a MAX_LENGTH_REPORT_MESSAGE MAX_LENGTH_REPORT_MESSAGE message offset) (\<lambda>(message, offset).
     bindE (put_attributes V (ec_ids context) message offset) (\<lambda>(message, offset). store message offset NUL))))"

definition event_report_handle ::
  "event_env \<Rightarrow> chan_api \<Rightarrow> arrays \<Rightarrow> event_context \<Rightarrow> attribute \<Rightarrow> timeval \<Rightarrow> output_t option \<Rightarrow> fs \<Rightarrow> (output_t option \<times> fs \<times> delivery list) cres" where
  "event_report_handle V C arrs context a ts out fs =
     (if at_bytes a = None then Inr (out, fs, [])
      else bindE (event_message V context a (fst arrs)) (\<lambda>message.
           write_report C arrs (ev_output_channels (ec_config context)) EVENT_REPORT_TYPE ts message out fs))"

text \<open>Registration: the contexts, and the requests to MMT-DPI that succeeded. The handler is identified by the number of its context.\<close>

fun event_based_report_register :: "nat dpi_api \<Rightarrow> nat \<Rightarrow> event_report_conf list \<Rightarrow> event_context list \<times> nat dpi_call list" where
  "event_based_report_register A i [] = ([], [])"
| "event_based_report_register A i (config # cs) =
     (let (contexts, calls) = event_based_report_register A (i + 1) cs;
          ids = map (\<lambda>a. case dpi_get_proto_id_and_att_id A a of (p, t, _) \<Rightarrow> (p, t)) (ev_attributes config);
          (c1, n) = dpi_register_attribute A [ev_event config] (Some i);
          mine = (if \<not> ev_is_enable config then []
                  else if n = 0 then []
                  else c1 @ fst (dpi_register_attribute A (ev_attributes config) None))
      in (\<lparr>ec_ids = ids, ec_config = config\<rparr> # contexts, mine @ calls))"

fun event_based_report_unregister :: "nat dpi_api \<Rightarrow> nat \<Rightarrow> event_context list \<Rightarrow> nat dpi_call list" where
  "event_based_report_unregister A i [] = []"
| "event_based_report_unregister A i (c # cs) =
     (if \<not> ev_is_enable (ec_config c) then []
      else fst (dpi_unregister_attribute A [ev_event (ec_config c)] (Some i))
             @ fst (dpi_unregister_attribute A (ev_attributes (ec_config c)) None))
     @ event_based_report_unregister A (i + 1) cs"

section \<open>RADIUS\<close>

text \<open>The attributes of a RADIUS packet; texts are pointers with four bytes before the text.\<close>

record radius_packet =
  rp_has_session :: bool
  rp_code :: "u8 option"
  rp_calling_station_id :: "string option"
  rp_framed_ip_address :: "u32 option"
  rp_account_status_type :: "u32 option"
  rp_account_session_id :: "string option"
  rp_imsi :: "string option"
  rp_imei :: "string option"
  rp_cell :: "(u16 \<times> u16) option"
  rp_charg_charact :: "string option"
  rp_rat_type :: "u8 option"
  rp_sgsn_ip_address :: "u32 option"
  rp_ggsn_ip_address :: "u32 option"
  rp_sgsn_mccmnc :: "string option"
  rp_ts :: timeval

definition skip4 :: "string option \<Rightarrow> string cres" where
  "skip4 t = (case t of None \<Rightarrow> Inr [] | Some t \<Rightarrow> if length t < 4 then Inl OutOfBounds else Inr (drop 4 t))"

definition ip_or_empty :: "u32 option \<Rightarrow> string" where
  "ip_or_empty a = (case a of None \<Rightarrow> [] | Some a \<Rightarrow> ipv4_text a)"

text \<open>\<^verbatim>\<open>ntohs\<close> on a little-endian machine.\<close>

definition ntohs :: "u16 \<Rightarrow> u16" where
  "ntohs w = push_bit 8 w OR drop_bit 8 w"

definition RADIUS_REPORT_TYPE :: nat where
  "RADIUS_REPORT_TYPE = 9"

definition MMT_RADIUS_REPORT_ALL :: nat where
  "MMT_RADIUS_REPORT_ALL = 0"

definition radius_code_handle ::
  "chan_api \<Rightarrow> arrays \<Rightarrow> radius_report_conf \<Rightarrow> radius_packet \<Rightarrow> output_t option \<Rightarrow> fs \<Rightarrow> (output_t option \<times> fs \<times> delivery list) cres" where
  "radius_code_handle C arrs config p out fs =
     (if \<not> rp_has_session p then Inr (out, fs, [])
      else case rp_code p of None \<Rightarrow> Inr (out, fs, [])
      | Some code \<Rightarrow>
          if ra_message_code config \<noteq> MMT_RADIUS_REPORT_ALL \<and> unat code \<noteq> ra_message_code config then Inr (out, fs, [])
          else if rp_calling_station_id p = None \<or> rp_framed_ip_address p = None then Inr (out, fs, [])
          else bindE (skip4 (rp_calling_station_id p)) (\<lambda>station.
               bindE (skip4 (rp_account_session_id p)) (\<lambda>sid.
               bindE (skip4 (rp_imsi p)) (\<lambda>imsi.
               bindE (skip4 (rp_imei p)) (\<lambda>imei.
               bindE (skip4 (rp_sgsn_mccmnc p)) (\<lambda>mccmnc.
               bindE (skip4 (rp_charg_charact p)) (\<lambda>charg.
               bindE (STRING_BUILDER_WITH_SEPARATOR 0 (fst arrs) MAX_LENGTH_FULL_PATH_FILE_NAME '',''
                        [F_INT (ucast code), F_STR (ip_or_empty (rp_framed_ip_address p)), F_STR station,
                         F_INT (case rp_account_status_type p of None \<Rightarrow> 0 | Some x \<Rightarrow> ucast x), F_STR sid, F_STR imsi, F_STR imei,
                         F_STR (ip_or_empty (rp_ggsn_ip_address p)), F_STR (ip_or_empty (rp_sgsn_ip_address p)), F_STR mccmnc,
                         F_INT (case rp_rat_type p of None \<Rightarrow> 0 | Some x \<Rightarrow> ucast x), F_STR charg,
                         F_INT (case rp_cell p of None \<Rightarrow> 0 | Some (lac, _) \<Rightarrow> ucast (ntohs lac)),
                         F_INT (case rp_cell p of None \<Rightarrow> 0 | Some (_, cell) \<Rightarrow> ucast (ntohs cell))]) (\<lambda>(message, _).
               write_report C arrs (ra_output_channels config) RADIUS_REPORT_TYPE (rp_ts p) message out fs))))))))"

definition radius_report_register :: "'h dpi_api \<Rightarrow> 'h conditional_handler list \<Rightarrow> radius_report_conf \<Rightarrow> 'h dpi_call list option" where
  "radius_report_register A handlers config =
     (if \<not> ra_is_enable config then None else Some (fst (dpi_register_conditional_handler A handlers)))"

definition radius_report_unregister :: "'h dpi_api \<Rightarrow> 'h conditional_handler list \<Rightarrow> 'c option \<Rightarrow> 'h dpi_call list" where
  "radius_report_unregister A handlers context =
     (case context of None \<Rightarrow> [] | Some _ \<Rightarrow> fst (dpi_unregister_conditional_handler A handlers))"

section \<open>What the reports contain\<close>

text \<open>A writer behind an offset: in a message of 3000 characters it puts the text \<open>t\<close> behind the offset if that fits with a NUL.\<close>

definition writes :: "(string \<Rightarrow> nat \<Rightarrow> append_res) \<Rightarrow> string \<Rightarrow> bool" where
  "writes w t \<longleftrightarrow> (\<forall>m p. length m = MAX_LENGTH_REPORT_MESSAGE \<longrightarrow> p + length t < MAX_LENGTH_REPORT_MESSAGE \<longrightarrow>
     (\<exists>m'. w m p = Inr (m', p + length t) \<and> length m' = length m \<and> take (p + length t) m' = take p m @ t))"

lemma writesI:
  assumes "\<And>m p. length m = MAX_LENGTH_REPORT_MESSAGE \<Longrightarrow> p + length t < MAX_LENGTH_REPORT_MESSAGE \<Longrightarrow>
     \<exists>m'. w m p = Inr (m', p + length t) \<and> length m' = length m \<and> take (p + length t) m' = take p m @ t"
  shows "writes w t"
  using assms by (auto simp: writes_def)

lemma writesD:
  assumes "writes w t" "length m = MAX_LENGTH_REPORT_MESSAGE" "p + length t < MAX_LENGTH_REPORT_MESSAGE"
  obtains m' where "w m p = Inr (m', p + length t)" "length m' = MAX_LENGTH_REPORT_MESSAGE" "take (p + length t) m' = take p m @ t"
  using assms by (auto simp: writes_def)

lemma writes_then:
  assumes "writes v s" "writes w t"
  shows "writes (\<lambda>m p. bindE (v m p) (\<lambda>(m, p). w m p)) (s @ t)"
proof (rule writesI)
  fix m :: string and p
  assume len: "length m = MAX_LENGTH_REPORT_MESSAGE" and fits: "p + length (s @ t) < MAX_LENGTH_REPORT_MESSAGE"
  from fits have "p + length s < MAX_LENGTH_REPORT_MESSAGE" by simp
  then obtain m' where m': "v m p = Inr (m', p + length s)" "length m' = MAX_LENGTH_REPORT_MESSAGE" "take (p + length s) m' = take p m @ s"
    by (rule writesD [OF assms(1) len])
  from fits have "p + length s + length t < MAX_LENGTH_REPORT_MESSAGE" by simp
  then obtain m'' where "w m' (p + length s) = Inr (m'', p + length s + length t)" "length m'' = MAX_LENGTH_REPORT_MESSAGE"
    "take (p + length s + length t) m'' = take (p + length s) m' @ t"
    by (rule writesD [OF assms(2) m'(2)])
  with m' len show "\<exists>m'. bindE (v m p) (\<lambda>(m, p). w m p) = Inr (m', p + length (s @ t)) \<and> length m' = length m
      \<and> take (p + length (s @ t)) m' = take p m @ s @ t"
    by (simp add: add.assoc)
qed

lemma writes_put: "writes (put c) [c]"
  by (rule writesI) (simp add: put_def take_blit [where s = "[c]", simplified])

lemma writes_sprintf:
  assumes "\<And>p. p + length (at_text a) < MAX_LENGTH_REPORT_MESSAGE \<Longrightarrow> length (at_text a) < room p"
  shows "writes (\<lambda>m p. attr_sprintf a (room p) m p) (at_text a)"
proof (rule writesI)
  fix m :: string and p
  assume len: "length m = MAX_LENGTH_REPORT_MESSAGE" and fits: "p + length (at_text a) < MAX_LENGTH_REPORT_MESSAGE"
  have *: "take (room p - 1) (at_text a) = at_text a" using assms [OF fits] by simp
  have "take (p + length (at_text a)) (blit m p (at_text a @ [NUL])) = take p m @ at_text a"
    using len fits by (simp add: blit_def min_def)
  with len fits * show "\<exists>m'. attr_sprintf a (room p) m p = Inr (m', p + length (at_text a)) \<and> length m' = length m
      \<and> take (p + length (at_text a)) m' = take p m @ at_text a"
    by (simp add: attr_sprintf_def Let_def)
qed

text \<open>The texts of the values, written without regard to the room.\<close>

definition quoted :: "string \<Rightarrow> string" where
  "quoted t = [CHR 0x22] @ t @ [CHR 0x22]"

definition value_text :: "event_env \<Rightarrow> attribute \<Rightarrow> string" where
  "value_text V a = (if is_string V (at_type a) then quoted (at_text a) else at_text a)"

definition is_ieee :: "u32 \<Rightarrow> u32 \<Rightarrow> bool" where
  "is_ieee proto_id att_id \<longleftrightarrow> proto_id = PROTO_IEEE802154
     \<and> (att_id = IEEE802154_SRC_ADDRESS_EXTENDED \<or> att_id = IEEE802154_DST_ADDRESS_EXTENDED)"

definition attribute_text :: "event_env \<Rightarrow> u32 \<times> u32 \<Rightarrow> string" where
  "attribute_text V ids = (case ids of (proto_id, att_id) \<Rightarrow>
     if is_ieee proto_id att_id
     then (case Option.bind (extracted V proto_id att_id) at_bytes of None \<Rightarrow> quoted [] | Some add \<Rightarrow> ieee_text add)
     else case extracted V proto_id att_id of
       Some a \<Rightarrow> value_text V a
     | None \<Rightarrow> if is_string V (type_of_attribute V proto_id att_id) then quoted [] else ''0'')"

definition address_ok :: "event_env \<Rightarrow> u32 \<times> u32 \<Rightarrow> bool" where
  "address_ok V ids = (case ids of (proto_id, att_id) \<Rightarrow>
     is_ieee proto_id att_id \<longrightarrow> (case Option.bind (extracted V proto_id att_id) at_bytes of None \<Rightarrow> True | Some add \<Rightarrow> 8 \<le> length add))"

definition event_text :: "event_env \<Rightarrow> event_context \<Rightarrow> attribute \<Rightarrow> string" where
  "event_text V context a =
     quoted (cstr (ev_title (ec_config context))) @ '','' @ value_text V a @ concat (map (\<lambda>ids. '','' @ attribute_text V ids) (ec_ids context))"

lemma writes_quotes: "writes (\<lambda>m p. bindE (put CHR 0x22 m p) (\<lambda>(m, p). put CHR 0x22 m p)) (quoted [])"
  using writes_then [OF writes_put writes_put, of "CHR 0x22" "CHR 0x22"] by (simp add: quoted_def)

lemma writes_value:
  assumes "\<And>p. p + length (at_text a) < MAX_LENGTH_REPORT_MESSAGE \<Longrightarrow> length (at_text a) < room p"
    and "\<And>p. p + length (at_text a) < MAX_LENGTH_REPORT_MESSAGE \<Longrightarrow> length (at_text a) < room' p"
  shows "writes (\<lambda>m p. put_value V a (room' (p + 1)) (room p) m p) (value_text V a)"
proof (cases "is_string V (at_type a)")
  case True
  have "(\<lambda>m p. put_value V a (room' (p + 1)) (room p) m p) =
        (\<lambda>m p. bindE (put CHR 0x22 m p) (\<lambda>(m, p). bindE (attr_sprintf a (room' p) m p) (\<lambda>(m, p). put CHR 0x22 m p)))"
    using True by (simp add: put_value_def put_def bindE_assoc split_def)
  then show ?thesis
    using True writes_then [OF writes_put writes_then [OF writes_sprintf [where room = room', OF assms(2)] writes_put]]
    by (simp add: value_text_def quoted_def)
next
  case False
  then show ?thesis using writes_sprintf [where room = room, OF assms(1)] by (simp add: put_value_def value_text_def)
qed

lemma length_ieee_text: "length (ieee_text add) = 25"
  by (simp add: ieee_text_def)

lemma writes_ieee:
  assumes "length add \<ge> 8"
  shows "writes (\<lambda>m p. bindE (memcpy m p (take (MAX_LENGTH_REPORT_MESSAGE - p - 1) (ieee_text add) @ [NUL]))
                         (\<lambda>m. Inr (m, p + length (ieee_text add)))) (ieee_text add)"
proof (rule writesI)
  fix m :: string and p
  assume len: "length m = MAX_LENGTH_REPORT_MESSAGE" and fits: "p + length (ieee_text add) < MAX_LENGTH_REPORT_MESSAGE"
  have *: "take (MAX_LENGTH_REPORT_MESSAGE - p - 1) (ieee_text add) = ieee_text add" using fits by simp
  have "take (p + length (ieee_text add)) (blit m p (ieee_text add @ [NUL])) = take p m @ ieee_text add"
    using len fits by (simp add: blit_def min_def)
  with len fits * show "\<exists>m'. bindE (memcpy m p (take (MAX_LENGTH_REPORT_MESSAGE - p - 1) (ieee_text add) @ [NUL]))
      (\<lambda>m. Inr (m, p + length (ieee_text add))) = Inr (m', p + length (ieee_text add)) \<and> length m' = length m
      \<and> take (p + length (ieee_text add)) m' = take p m @ ieee_text add"
    by simp
qed

lemma process_ieee:
  "process_ieee802154_src_dst proto_id att_id att len m p =
     (if is_ieee proto_id att_id
      then case Option.bind att at_bytes of
             None \<Rightarrow> bindE (put CHR 0x22 m p) (\<lambda>(m, p). bindE (put CHR 0x22 m p) (\<lambda>r. Inr (Some r)))
           | Some add \<Rightarrow> if length add < 8 then Inl OutOfBounds
                         else bindE (memcpy m p (take (len - 1) (ieee_text add) @ [NUL])) (\<lambda>m. Inr (Some (m, p + length (ieee_text add))))
      else Inr None)"
proof -
  have "(case att of None \<Rightarrow> None | Some a \<Rightarrow> at_bytes a) = Option.bind att at_bytes" by (cases att) auto
  then show ?thesis by (simp add: process_ieee802154_src_dst_def is_ieee_def)
qed

text \<open>The value of an attribute, without the comma before it.\<close>

definition put_extracted :: "event_env \<Rightarrow> u32 \<Rightarrow> u32 \<Rightarrow> string \<Rightarrow> nat \<Rightarrow> append_res" where
  "put_extracted V proto_id att_id m p =
     bindE (process_ieee802154_src_dst proto_id att_id (extracted V proto_id att_id) (MAX_LENGTH_REPORT_MESSAGE - p) m p) (\<lambda>r.
        case r of Some r \<Rightarrow> Inr r
        | None \<Rightarrow>
            (case extracted V proto_id att_id of
               Some a \<Rightarrow> put_value V a (MAX_LENGTH_REPORT_MESSAGE - (p + 1)) (MAX_LENGTH_REPORT_MESSAGE - p) m p
             | None \<Rightarrow>
                 if is_string V (type_of_attribute V proto_id att_id)
                 then bindE (put CHR 0x22 m p) (\<lambda>(m, p). put CHR 0x22 m p)
                 else put CHR ''0'' m p))"

lemma put_extracted_ieee:
  assumes "is_ieee proto_id att_id"
  shows "Option.bind (extracted V proto_id att_id) at_bytes = None \<Longrightarrow>
           put_extracted V proto_id att_id m p = bindE (put CHR 0x22 m p) (\<lambda>(m, p). put CHR 0x22 m p)"
    and "Option.bind (extracted V proto_id att_id) at_bytes = Some add \<Longrightarrow> 8 \<le> length add \<Longrightarrow>
           put_extracted V proto_id att_id m p =
             bindE (memcpy m p (take (MAX_LENGTH_REPORT_MESSAGE - p - 1) (ieee_text add) @ [NUL])) (\<lambda>m. Inr (m, p + length (ieee_text add)))"
  using assms by (simp_all add: put_extracted_def process_ieee put_def bindE_assoc split_def)

lemma writes_extracted:
  assumes "address_ok V (proto_id, att_id)"
  shows "writes (put_extracted V proto_id att_id) (attribute_text V (proto_id, att_id))"
proof (cases "is_ieee proto_id att_id")
  case True
  show ?thesis
  proof (cases "Option.bind (extracted V proto_id att_id) at_bytes")
    case None
    have "put_extracted V proto_id att_id = (\<lambda>m p. bindE (put CHR 0x22 m p) (\<lambda>(m, p). put CHR 0x22 m p))"
      by (intro ext put_extracted_ieee True None)
    then show ?thesis using True None writes_quotes by (simp add: attribute_text_def)
  next
    case (Some add)
    have len: "8 \<le> length add" using assms True Some by (simp add: address_ok_def)
    have "put_extracted V proto_id att_id = (\<lambda>m p. bindE (memcpy m p (take (MAX_LENGTH_REPORT_MESSAGE - p - 1) (ieee_text add) @ [NUL]))
        (\<lambda>m. Inr (m, p + length (ieee_text add))))"
      by (intro ext put_extracted_ieee True Some len)
    then show ?thesis using True Some writes_ieee [OF len] by (simp add: attribute_text_def)
  qed
next
  case False
  show ?thesis
  proof (cases "extracted V proto_id att_id")
    case None
    show ?thesis
      using False None writes_quotes writes_put [of "CHR ''0''"]
      by (cases "is_string V (type_of_attribute V proto_id att_id)")
        (simp_all add: attribute_text_def put_extracted_def [abs_def] process_ieee)
  next
    case (Some a)
    show ?thesis
      using False Some writes_value [where room = "\<lambda>p. MAX_LENGTH_REPORT_MESSAGE - p" and room' = "\<lambda>p. MAX_LENGTH_REPORT_MESSAGE - p"
          and V = V and a = a]
      by (simp add: attribute_text_def put_extracted_def [abs_def] process_ieee less_diff_conv add.commute)
  qed
qed

lemma writes_attribute:
  assumes "address_ok V ids"
  shows "writes (put_attribute V ids) ('','' @ attribute_text V ids)"
proof -
  obtain proto_id att_id where ids: "ids = (proto_id, att_id)" by (cases ids)
  have "put_attribute V ids = (\<lambda>m p. bindE (put CHR '','' m p) (\<lambda>(m, p). put_extracted V proto_id att_id m p))"
    by (simp add: put_attribute_def ids put_extracted_def fun_eq_iff)
  then show ?thesis using writes_then [OF writes_put writes_extracted] assms ids by fastforce
qed

lemma writes_attributes:
  assumes "\<forall>ids \<in> set as. address_ok V ids"
  shows "writes (put_attributes V as) (concat (map (\<lambda>ids. '','' @ attribute_text V ids) as))"
  using assms
proof (induction as)
  case Nil
  then show ?case by (auto intro!: writesI)
next
  case (Cons a as)
  then have "writes (\<lambda>m p. bindE (put_attribute V a m p) (\<lambda>(m, p). put_attributes V as m p))
      (('','' @ attribute_text V a) @ concat (map (\<lambda>ids. '','' @ attribute_text V ids) as))"
    by (intro writes_then writes_attribute) auto
  moreover have "put_attributes V (a # as) = (\<lambda>m p. bindE (put_attribute V a m p) (\<lambda>(m, p). put_attributes V as m p))"
    by (simp add: fun_eq_iff)
  ultimately show ?case by simp
qed

lemma writes_title:
  "writes (\<lambda>m p. bindE (append_string src m p (MAX_LENGTH_REPORT_MESSAGE - p)) (\<lambda>(m, w). Inr (m, p + w))) (quoted (cstr src))"
proof (rule writesI)
  fix m :: string and p
  assume len: "length m = MAX_LENGTH_REPORT_MESSAGE" and fits: "p + length (quoted (cstr src)) < MAX_LENGTH_REPORT_MESSAGE"
  have "item_txt (MAX_LENGTH_REPORT_MESSAGE - p) (F_STR src) = quoted (cstr src)"
    using fits by (simp add: quoted_def)
  with len fits show "\<exists>m'. bindE (append_string src m p (MAX_LENGTH_REPORT_MESSAGE - p)) (\<lambda>(m, w). Inr (m, p + w)) =
      Inr (m', p + length (quoted (cstr src))) \<and> length m' = length m \<and> take (p + length (quoted (cstr src))) m' = take p m @ quoted (cstr src)"
    by (simp add: append_string_writes take_blit del: item_txt.simps)
qed

lemma cstr_split: "cstr (s @ NUL # t) = cstr s"
  by (induction s) (auto simp: cstr_def)


definition sample_event_env :: event_env where
  "sample_event_env = \<lparr>string_types = [13],
     extracted = (\<lambda>p t. if p = 178 then Some \<lparr>at_type = 2, at_bytes = Some [6], at_text = ''6''\<rparr>
                       else if p = 800 then Some \<lparr>at_type = 2, at_bytes = Some [1, 2, 3, 4, 5, 6, 7, 8], at_text = []\<rparr> else None),
     type_of_attribute = (\<lambda>_ _. 13)\<rparr>"

definition sample_event :: event_context where
  "sample_event = \<lparr>ec_ids = [(178, 7), (800, 13), (153, 1)],
     ec_config = \<lparr>ev_is_enable = True, ev_title = ''tcp'', ev_event = \<lparr>proto_name = ''ip'', attribute_name = ''src''\<rparr>,
       ev_attributes = [], ev_output_channels = 1\<rparr>\<rparr>"

definition sample_value :: attribute where
  "sample_value = \<lparr>at_type = 13, at_bytes = Some [10, 0, 0, 1], at_text = ''10.0.0.1''\<rparr>"

lemma sample_event_text:
  "event_text sample_event_env sample_event sample_value =
     [CHR 0x22] @ ''tcp'' @ [CHR 0x22] @ '','' @ [CHR 0x22] @ ''10.0.0.1'' @ [CHR 0x22] @ '',6,'' @
     [CHR 0x22] @ ''08:07:06:05:04:03:02:01'' @ [CHR 0x22] @ '','' @ [CHR 0x22, CHR 0x22]"
  by code_simp


text \<open>An event whose value has 2999 characters or more is printed behind the message: its room is not reduced by what precedes it.\<close>

lemma long_value_overflows:
  assumes "\<not> is_string V (at_type a)" "MAX_LENGTH_REPORT_MESSAGE \<le> length (at_text a) + 1" "length m = MAX_LENGTH_REPORT_MESSAGE" "0 < p"
  shows "put_value V a MAX_LENGTH_REPORT_MESSAGE MAX_LENGTH_REPORT_MESSAGE m p = Inl OutOfBounds"
  using assms by (simp add: put_value_def attr_sprintf_def Let_def memcpy_fault)

text \<open>The statistics: every one that has been touched is reset when it has been reported.\<close>

lemma frag_stats_reset:
  "report_ip_frag_stat C path arrs stats out fs = Inr (stats', out', fs', ds) \<Longrightarrow>
     stats' = map (\<lambda>s. if touched s then reset_frag s else s) stats"
  by (induction C path arrs stats out fs arbitrary: stats' out' fs' ds rule: report_ip_frag_stat.induct)
    (auto simp: bindE_eq_Inr split: if_splits)

lemma stats_all_reset:
  "stats_loop reset C path arrs n proto_id stats out fs = Inr (stats', out', fs', ds) \<Longrightarrow> stats' = map reset stats"
  by (induction reset C path arrs n proto_id stats out fs arbitrary: stats' out' fs' ds rule: stats_loop.induct)
    (auto simp: bindE_eq_Inr split: if_splits)

text \<open>The registration of the attributes of IP never aborts, whatever MMT-DPI answers.\<close>

lemma no_session_never_aborts: "no_session_report_alloc_init results fresh is_frag is_proto \<noteq> Inl e"
proof -
  have "foldl (\<lambda>val r. val AND r) 0 results = (0::nat)" by (induction results) auto
  then show ?thesis by (simp add: no_session_report_alloc_init_def)
qed

end
