(* ===== verification/License.thy ===== *)
theory License
  imports Dpi_Reports Config_Override
begin

text \<open>
  The license check, \<^verbatim>\<open>src/src/modules/license/license.c\<close>: reading the MAC addresses of the machine, decoding the license
  file into its fields, searching a MAC of the machine in the license, the remaining time, and the report.
  The list of interfaces, the clock, \<^verbatim>\<open>mktime\<close> (which depends on the time zone) and the versions are the record \<open>license_env\<close>;
  the local arrays are arguments, with whatever they hold before.
\<close>

section \<open>Data\<close>

text \<open>\<open>license_content_struct\<close>; the addresses are the caller's array.\<close>

record license_content =
  l_year :: int
  l_month :: int
  l_day :: int
  l_mac_count :: int
  mac_addresses :: string

datatype license_messages =
    BUY_MMT_LICENSE_FOR_THIS_DEVICE | MMT_LICENSE_EXPIRED | MMT_LICENSE_WILL_EXPIRE_SOON
  | MMT_LICENSE_MODIFIED | MMT_LICENSE_KEY_DOES_NOT_EXIST | MMT_LICENSE_INFO

fun license_code :: "license_messages \<Rightarrow> nat" where
  "license_code BUY_MMT_LICENSE_FOR_THIS_DEVICE = 1"
| "license_code MMT_LICENSE_EXPIRED = 2"
| "license_code MMT_LICENSE_WILL_EXPIRE_SOON = 3"
| "license_code MMT_LICENSE_MODIFIED = 4"
| "license_code MMT_LICENSE_KEY_DOES_NOT_EXIST = 5"
| "license_code MMT_LICENSE_INFO = 6"

definition LICENSE_REPORT_TYPE :: nat where
  "LICENSE_REPORT_TYPE = 30"

text \<open>An element of the list of \<^verbatim>\<open>getifaddrs\<close>: the family and the bytes of its address, if it has one.\<close>

record ifaddr =
  ifa_addr :: "(nat \<times> u8 list) option"

definition AF_PACKET :: nat where
  "AF_PACKET = 17"

record license_env =
  getifaddrs :: "ifaddr list option"
  now_s :: int
  gettimeofday :: timeval
  mktime :: "int \<Rightarrow> int \<Rightarrow> int \<Rightarrow> int"
  version_probe :: string
  version_sdk :: string

section \<open>The addresses of the machine\<close>

fun copy_macs :: "ifaddr list \<Rightarrow> u8 list \<Rightarrow> nat \<Rightarrow> nat \<Rightarrow> (u8 list \<times> nat) cres" where
  "copy_macs [] m str mac_count = Inr (m, mac_count)"
| "copy_macs (ifa # ifs) m str mac_count =
     (case ifa_addr ifa of
        Some (sa_family, sll_addr) \<Rightarrow>
          if sa_family = AF_PACKET
          then bindE (memcpy m str (take 6 sll_addr)) (\<lambda>m. copy_macs ifs m (str + 6) (mac_count + 1))
          else copy_macs ifs m str mac_count
      | None \<Rightarrow> copy_macs ifs m str mac_count)"

definition get_host_mac_address :: "license_env \<Rightarrow> u8 list \<Rightarrow> (u8 list \<times> nat) cres" where
  "get_host_mac_address E m =
     (case getifaddrs E of None \<Rightarrow> Inr (m, 0) | Some ifs \<Rightarrow> copy_macs ifs m 0 0)"

section \<open>Decoding the file\<close>

text \<open>A byte read with \<^verbatim>\<open>fgetc\<close>, shifted by 29 and stored as a \<^verbatim>\<open>char\<close>.\<close>

definition decode_char :: "char \<Rightarrow> char" where
  "decode_char c = char_of ((of_char c :: nat) + (8 * 4 - 3))"

fun read_key :: "string \<Rightarrow> string \<Rightarrow> nat \<Rightarrow> (string \<times> nat) cres" where
  "read_key [] key len = Inr (key, len)"
| "read_key (ch # file) key len =
     bindE (store key len (decode_char ch)) (\<lambda>key. read_key file key (len + 1))"

text \<open>\<^verbatim>\<open>strncpy(string, &key[k], n); string[n] = 0; atoi(string)\<close>\<close>

definition key_number :: "string \<Rightarrow> nat \<Rightarrow> nat \<Rightarrow> int" where
  "key_number key k n = atoi (take n (drop k key))"

text \<open>The value of a \<^verbatim>\<open>char\<close>, which is signed.\<close>

definition char_val :: "char \<Rightarrow> int" where
  "char_val c = (let k = int (of_char c) in if k < 128 then k else k - 256)"

fun sum_macs :: "string \<Rightarrow> nat \<Rightarrow> nat \<Rightarrow> string \<Rightarrow> int \<Rightarrow> (string \<times> int) cres" where
  "sum_macs key i 0 dst sum_license = Inr (dst, sum_license)"
| "sum_macs key i (Suc n) dst sum_license =
     (if i + 11 < length key
      then bindE (store dst i (key ! (i + 11))) (\<lambda>dst.
           sum_macs key (i + 1) n dst (sum_license + char_val (key ! (i + 11))))
      else Inl OutOfBounds)"

text \<open>The part after the count of addresses is known; an index before the array is a fault.\<close>

definition decode_macs :: "string \<Rightarrow> nat \<Rightarrow> license_content \<Rightarrow> (license_content \<times> nat) cres" where
  "decode_macs key len li =
     (let mac_len = l_mac_count li * 12
      in if int len - 11 < mac_len then Inr (li, license_code MMT_LICENSE_MODIFIED)
         else bindE (sum_macs key 0 (nat mac_len) (mac_addresses li) 0) (\<lambda>(macs, sum_license).
              let li = li\<lparr>mac_addresses := macs\<rparr>;
                  sum_license = sum_license + (l_year li * l_month li * l_day li + l_mac_count li)
              in if 11 + mac_len < 0 then Inl OutOfBounds
                 else if atol (drop (nat (11 + mac_len)) key) \<noteq> sum_license
                 then Inr (li, license_code MMT_LICENSE_MODIFIED)
                 else Inr (li, 0)))"

definition decode_license_file :: "string option \<Rightarrow> string \<Rightarrow> license_content \<Rightarrow> (license_content \<times> nat) cres" where
  "decode_license_file file key li =
     (case file of None \<Rightarrow> Inr (li, license_code MMT_LICENSE_KEY_DOES_NOT_EXIST)
      | Some bytes \<Rightarrow>
          bindE (read_key bytes key 0) (\<lambda>(key, len).
          bindE (store key len NUL) (\<lambda>key.
          if len < 11 then Inr (li, 2)
          else decode_macs key len (li\<lparr>l_year := key_number key 0 4, l_month := key_number key 4 2,
                 l_day := key_number key 6 2, l_mac_count := key_number key 8 3\<rparr>))))"

section \<open>Checking\<close>

text \<open>\<^verbatim>\<open>strncmp(a, b, n) == 0\<close>\<close>

fun strncmp_same :: "string \<Rightarrow> string \<Rightarrow> nat \<Rightarrow> bool cres" where
  "strncmp_same a b 0 = Inr True"
| "strncmp_same (x # a) (y # b) (Suc n) =
     (if x \<noteq> y then Inr False else if x = NUL then Inr True else strncmp_same a b n)"
| "strncmp_same _ _ (Suc n) = Inl OutOfBounds"

text \<open>\<^verbatim>\<open>%.2x\<close> of a byte, and the text of the six bytes.\<close>

definition hex_lower :: string where
  "hex_lower = ''0123456789abcdef''"

definition xbyte :: "u8 \<Rightarrow> string" where
  "xbyte b = [hex_lower ! unat (drop_bit 4 b), hex_lower ! unat (b AND 0xF)]"

definition mac_string :: "u8 list \<Rightarrow> string" where
  "mac_string ptr = concat (map xbyte ptr)"

fun find_mac :: "string \<Rightarrow> string \<Rightarrow> nat \<Rightarrow> nat \<Rightarrow> bool cres" where
  "find_mac licensed mac j 0 = Inr False"
| "find_mac licensed mac j (Suc n) =
     bindE (strncmp_same (drop (j * 12) licensed) mac 12) (\<lambda>eq.
       if eq then Inr True else find_mac licensed mac (j + 1) n)"

text \<open>The loop over the addresses of the machine; the six bytes at \<^verbatim>\<open>i*6\<close> are printed in an array of 13 characters.\<close>

fun find_macs :: "license_content \<Rightarrow> u8 list \<Rightarrow> nat \<Rightarrow> nat \<Rightarrow> bool cres" where
  "find_macs license macs i 0 = Inr False"
| "find_macs license macs i (Suc n) =
     (if i * 6 + 6 \<le> length macs
      then bindE (find_mac (mac_addresses license) (mac_string (take 6 (drop (i * 6) macs)) @ [NUL]) 0
                    (nat (l_mac_count license))) (\<lambda>is_ok.
           if is_ok then Inr True else find_macs license macs (i + 1) n)
      else Inl OutOfBounds)"

text \<open>The result and \<^verbatim>\<open>*time_remaining\<close>: midnight of the day of expiry less the present time.\<close>

definition check_license :: "license_env \<Rightarrow> license_content \<Rightarrow> nat \<Rightarrow> u8 list \<Rightarrow> (bool \<times> int) cres" where
  "check_license E license mac_count macs =
     bindE (find_macs license macs 0 mac_count) (\<lambda>is_ok.
       Inr (is_ok, mktime E (l_year license - 1900) (l_month license - 1) (l_day license) - now_s E))"

text \<open>The addresses separated by commas, in the array that \<^verbatim>\<open>malloc\<close> returned.\<close>

fun join_macs :: "string \<Rightarrow> nat \<Rightarrow> nat \<Rightarrow> string \<Rightarrow> string cres" where
  "join_macs licensed i 0 mac_address = Inr mac_address"
| "join_macs licensed i (Suc n) mac_address =
     bindE (if i = 0 then Inr mac_address else store mac_address (i * 12) CHR '','') (\<lambda>m.
     bindE (memcpy m (i * 13) (take 12 (drop (i * 12) licensed))) (\<lambda>m.
     bindE (store m (i * 13 + 12) NUL) (\<lambda>m.
     join_macs licensed (i + 1) n m)))"

text \<open>\<^verbatim>\<open>%s\<close> reads the array up to its NUL.\<close>

definition c_text :: "string \<Rightarrow> string cres" where
  "c_text s = (if NUL \<in> set s then Inr (cstr s) else Inl OutOfBounds)"

definition license_text :: "license_env \<Rightarrow> license_messages \<Rightarrow> int \<Rightarrow> int \<Rightarrow> string \<Rightarrow> string" where
  "license_text E msg mac_count time_remaining macs =
     dec (license_code msg) @ '','' @ dec (nat mac_count) @ '',\"'' @ macs @ ''\",'' @
     dec (unat (word_of_int (tv_sec (gettimeofday E) + time_remaining) :: u64)) @ ''.000000,\"'' @
     version_probe E @ ''\",\"'' @ version_sdk E @ ''\"''"

definition license_write :: "chan_api \<Rightarrow> string \<times> string \<Rightarrow> license_env \<Rightarrow> string \<Rightarrow> bool \<Rightarrow> output_t option \<Rightarrow> fs
    \<Rightarrow> (bool \<times> output_t option \<times> fs \<times> delivery list) cres" where
  "license_write C arrs E body result out fs =
     bindE (output_write_report_with_format C arrs CHANNEL_ALL LICENSE_REPORT_TYPE (gettimeofday E) (Some body) out fs)
       (\<lambda>(out, fs, ds, _). Inr (result, out, fs, ds))"

text \<open>The part of \<^verbatim>\<open>license_check_expiry\<close> after \<^verbatim>\<open>_check_license\<close>.\<close>

definition license_message :: "bool \<Rightarrow> int \<Rightarrow> license_messages" where
  "license_message ret time_remaining =
     (if \<not> ret then BUY_MMT_LICENSE_FOR_THIS_DEVICE
      else if time_remaining \<le> 0 then MMT_LICENSE_EXPIRED
      else if time_remaining \<le> 7 * 24 * 60 * 60 then MMT_LICENSE_WILL_EXPIRE_SOON
      else MMT_LICENSE_INFO)"

definition license_report :: "chan_api \<Rightarrow> string \<times> string \<Rightarrow> license_env \<Rightarrow> license_content \<Rightarrow> bool \<Rightarrow> int \<Rightarrow> string \<Rightarrow> output_t option \<Rightarrow> fs
    \<Rightarrow> (bool \<times> output_t option \<times> fs \<times> delivery list) cres" where
  "license_report C arrs E license ret time_remaining mac_address out fs =
     bindE (c_text mac_address) (\<lambda>macs.
       license_write C arrs E (license_text E (license_message ret time_remaining) (l_mac_count license) time_remaining macs)
         (ret \<and> time_remaining > 0) out fs)"

text \<open>The arrays of \<^verbatim>\<open>license_check_expiry\<close> and of \<^verbatim>\<open>_decode_license_file\<close>, and the memory that \<^verbatim>\<open>malloc\<close> gives for a size.\<close>

record license_arrays =
  mac_stored_in_license :: string
  mac_to_verify :: "u8 list"
  license_decrypt_key :: string
  malloc :: "nat \<Rightarrow> string"

definition license_check_expiry :: "chan_api \<Rightarrow> string \<times> string \<Rightarrow> license_env \<Rightarrow> license_arrays \<Rightarrow> string option \<Rightarrow> output_t option \<Rightarrow> fs
    \<Rightarrow> (bool \<times> output_t option \<times> fs \<times> delivery list) cres" where
  "license_check_expiry C arrs E M file out fs =
     bindE (decode_license_file file (license_decrypt_key M)
              \<lparr>l_year = 0, l_month = 0, l_day = 0, l_mac_count = 0, mac_addresses = mac_stored_in_license M\<rparr>) (\<lambda>(license, ret).
     if ret = license_code MMT_LICENSE_KEY_DOES_NOT_EXIST
     then license_write C arrs E (dec (license_code MMT_LICENSE_KEY_DOES_NOT_EXIST)) False out fs
     else if ret = license_code MMT_LICENSE_MODIFIED
     then license_write C arrs E (dec (license_code MMT_LICENSE_MODIFIED)) False out fs
     else bindE (join_macs (mac_addresses license) 0 (nat (l_mac_count license)) (malloc M (nat (l_mac_count license) * 13))) (\<lambda>mac_address.
          bindE (get_host_mac_address E (mac_to_verify M)) (\<lambda>(macs, n).
          if n = 0 then Inr (False, out, fs, [])
          else bindE (check_license E license n macs) (\<lambda>(ret, time_remaining).
               license_report C arrs E license ret time_remaining mac_address out fs))))"

section \<open>Lemmas\<close>

subsection \<open>Decoding\<close>

lemma read_key_ok:
  "len + length bytes \<le> length key \<Longrightarrow>
   read_key bytes key len = Inr (blit key len (map decode_char bytes), len + length bytes)"
proof (induction bytes arbitrary: key len)
  case (Cons ch bytes)
  then show ?case using blit_append [of len "[decode_char ch]" "map decode_char bytes" key] by simp
qed simp

lemma read_key_overflow:
  "len \<le> length key \<Longrightarrow> length key < len + length bytes \<Longrightarrow> read_key bytes key len = Inl OutOfBounds"
proof (induction bytes arbitrary: key len)
  case (Cons ch bytes)
  show ?case
  proof (cases "len < length key")
    case True
    then show ?thesis using Cons.prems Cons.IH [of "len + 1" "blit key len [decode_char ch]"] by simp
  qed (simp add: store_def)
qed simp

lemma sum_macs_ok:
  "i + n \<le> length dst \<Longrightarrow> i + n + 11 \<le> length key \<Longrightarrow>
   sum_macs key i n dst s = Inr (blit dst i (take n (drop (i + 11) key)), s + (\<Sum>c\<leftarrow>take n (drop (i + 11) key). char_val c))"
proof (induction n arbitrary: i dst s)
  case (Suc n)
  have d: "drop (i + 11) key = key ! (i + 11) # drop (i + 12) key"
    using Suc.prems by (subst Cons_nth_drop_Suc [symmetric]) (simp_all add: add.commute)
  let ?c = "key ! (i + 11)" and ?t = "take n (drop (i + 12) key)"
  have "sum_macs key (i + 1) n (blit dst i [?c]) (s + char_val ?c) = Inr (blit (blit dst i [?c]) (i + 1) ?t, s + char_val ?c + (\<Sum>c\<leftarrow>?t. char_val c))"
    using Suc.IH [of "i + 1" "blit dst i [?c]" "s + char_val ?c"] Suc.prems by (simp add: add.commute)
  moreover have "blit (blit dst i [?c]) (i + 1) ?t = blit dst i (?c # ?t)"
    using blit_append [of i "[?c]" ?t dst] Suc.prems by simp
  ultimately show ?case using Suc.prems by (simp add: d)
qed simp

lemma strtol10_digits:
  assumes "s \<noteq> []" "list_all is_digit s" "int (undec s) < 2 ^ 63"
  shows "strtol10 s = int (undec s)" and "strtol10 (s @ NUL # t) = int (undec s)"
proof -
  have d: "\<not> is_digit NUL" "\<And>c. is_digit c \<Longrightarrow> \<not> is_space c" "\<not> is_digit CHR ''-''" "\<not> is_digit CHR ''+''"
    by (auto simp: is_digit_def is_space_def)
  have nul: "NUL \<notin> set s" using assms(2) d(1) by (auto simp: list_all_iff)
  have c: "cstr s = s" "cstr (s @ NUL # t) = s" using nul by (simp_all add: cstr_id cstr_append_NUL)
  obtain a l where al: "s = a # l" using assms(1) by (cases s) auto
  have a: "is_digit a" using assms(2) al by simp
  have "a \<noteq> CHR ''-''" "a \<noteq> CHR ''+''" "\<not> is_space a" using a d by auto
  then have h: "dropWhile is_space s = s" "hd s \<noteq> CHR ''-''" "hd s \<noteq> CHR ''+''" using al by simp_all
  have t: "takeWhile is_digit s = s" using assms(2) by (auto simp: list_all_iff takeWhile_eq_all_conv)
  show "strtol10 s = int (undec s)" "strtol10 (s @ NUL # t) = int (undec s)"
    using assms(3) h by (simp_all add: strtol10_def c t Let_def clamp_long_def)
qed

text \<open>A number printed with leading zeros.\<close>

definition pad :: "nat \<Rightarrow> nat \<Rightarrow> string" where
  "pad k n = replicate (k - length (dec n)) CHR ''0'' @ dec n"

lemma undec_zeros: "undec (replicate k CHR ''0'' @ s) = undec s"
proof -
  have "foldl (\<lambda>a c. 10 * a + (of_char c - 48)) 0 (replicate k CHR ''0'') = (0 :: nat)" by (induction k) simp_all
  then show ?thesis by (simp add: undec.simps)
qed

lemma pad_digits: "list_all is_digit (pad k n)" "pad k n \<noteq> []" "undec (pad k n) = n"
proof -
  have "is_digit CHR ''0''" by (simp add: is_digit_def)
  then show "list_all is_digit (pad k n)" using dec_chars by (auto simp: pad_def list_all_iff)
  show "pad k n \<noteq> []" by (simp add: pad_def)
  show "undec (pad k n) = n" by (simp add: pad_def undec_zeros undec_dec)
qed

lemma length_pad: "length (dec n) \<le> k \<Longrightarrow> length (pad k n) = k"
  by (simp add: pad_def)

lemma atoi_pad: "int n < 2 ^ 31 \<Longrightarrow> atoi (pad k n) = int n"
  using strtol10_digits(1) [OF pad_digits(2,1), of k n] by (simp add: atoi_def pad_digits int32_of_def)

text \<open>What a license file has to be: the fields, the addresses and the sum, each character moved back by 29.\<close>

definition mac_ok :: "string \<Rightarrow> bool" where
  "mac_ok mac \<longleftrightarrow> length mac = 12 \<and> list_all (\<lambda>c. c \<noteq> NUL \<and> (of_char c :: nat) < 128) mac"

definition license_sum :: "nat \<Rightarrow> nat \<Rightarrow> nat \<Rightarrow> string list \<Rightarrow> nat" where
  "license_sum y m d macs = (\<Sum>c\<leftarrow>concat macs. of_char c) + (y * m * d + length macs)"

definition license_key :: "nat \<Rightarrow> nat \<Rightarrow> nat \<Rightarrow> string list \<Rightarrow> nat \<Rightarrow> string" where
  "license_key y m d macs s = pad 4 y @ pad 2 m @ pad 2 d @ pad 3 (length macs) @ concat macs @ dec s"

definition encode_char :: "char \<Rightarrow> char" where
  "encode_char c = char_of ((of_char c :: nat) + 227)"

definition license_file :: "nat \<Rightarrow> nat \<Rightarrow> nat \<Rightarrow> string list \<Rightarrow> nat \<Rightarrow> string" where
  "license_file y m d macs s = map encode_char (license_key y m d macs s)"

definition license_fits :: "nat \<Rightarrow> nat \<Rightarrow> nat \<Rightarrow> string list \<Rightarrow> nat \<Rightarrow> bool" where
  "license_fits y m d macs s \<longleftrightarrow> y < 10000 \<and> m < 100 \<and> d < 100 \<and> list_all mac_ok macs \<and> s < 2 ^ 63
     \<and> length (license_key y m d macs s) < 1000"

lemma decode_encode_char: "decode_char (encode_char c) = c"
proof -
  have "char_of (((of_char c :: nat) + 227) mod 256 + 29) = (char_of ((((of_char c :: nat) + 227) mod 256 + 29) mod 256) :: char)"
    by (rule char_of_mod_256 [symmetric])
  also have "\<dots> = c" unfolding mod_add_left_eq by simp
  finally show ?thesis by (simp add: decode_char_def encode_char_def)
qed

lemma length_concat_macs: "list_all (\<lambda>m. length m = k) ms \<Longrightarrow> length (concat ms) = k * length ms"
  by (induction ms) simp_all

lemma mac_ok_length: "list_all mac_ok macs \<Longrightarrow> list_all (\<lambda>m. length m = 12) macs"
  by (simp add: list_all_iff mac_ok_def)

lemma sum_char_val: "list_all mac_ok macs \<Longrightarrow> (\<Sum>c\<leftarrow>concat macs. char_val c) = int (\<Sum>c\<leftarrow>concat macs. of_char c)"
proof -
  have "list_all (\<lambda>c. (of_char c :: nat) < 128) s \<Longrightarrow> (\<Sum>c\<leftarrow>s. char_val c) = int (\<Sum>c\<leftarrow>s. of_char c)" for s
    by (induction s) (simp_all add: char_val_def)
  moreover assume "list_all mac_ok macs"
  then have "list_all (\<lambda>c. (of_char c :: nat) < 128) (concat macs)" by (auto simp: list_all_iff mac_ok_def)
  ultimately show ?thesis by blast
qed

lemma fits_length:
  assumes "license_fits y m d macs s"
  shows "length (concat macs) = 12 * length macs" and "length (concat macs) < 1000"
proof -
  show "length (concat macs) = 12 * length macs" using assms length_concat_macs [OF mac_ok_length] by (simp add: license_fits_def)
  show "length (concat macs) < 1000" using assms by (simp add: license_fits_def license_key_def)
qed

lemma take_drop_pieces:
  "length a = i \<Longrightarrow> length b = n \<Longrightarrow> take n (drop i (a @ b @ r)) = b"
  by simp

lemma license_key_fields:
  fixes rest :: string
  assumes "license_fits y m d macs s"
  defines "K \<equiv> license_key y m d macs s @ NUL # rest"
  shows "key_number K 0 4 = int y" "key_number K 4 2 = int m" "key_number K 6 2 = int d" "key_number K 8 3 = int (length macs)"
    and "take (12 * length macs) (drop 11 K) = concat macs"
    and "atol (drop (11 + 12 * length macs) K) = int s"
    and "11 + 12 * length macs \<le> length (license_key y m d macs s)"
proof -
  have n: "length (concat macs) = 12 * length macs" "length (concat macs) < 1000"
    using fits_length [OF assms(1)] .
  have "y < 10 ^ 4" "m < 10 ^ 2" "d < 10 ^ 2" "length macs < 10 ^ 3" using assms(1) n by (simp_all add: license_fits_def)
  then have p: "length (pad 4 y) = 4" "length (pad 2 m) = 2" "length (pad 2 d) = 2" "length (pad 3 (length macs)) = 3"
    by (simp_all add: length_pad length_dec_bound)
  let ?h = "pad 4 y @ pad 2 m @ pad 2 d @ pad 3 (length macs)"
  let ?t = "dec s @ NUL # rest"
  have K: "K = ?h @ concat macs @ ?t" by (simp add: K_def license_key_def)
  have "int y < 2 ^ 31" "int m < 2 ^ 31" "int d < 2 ^ 31" "int (length macs) < 2 ^ 31"
    using assms(1) n by (simp_all add: license_fits_def)
  then show "key_number K 0 4 = int y" "key_number K 4 2 = int m" "key_number K 6 2 = int d" "key_number K 8 3 = int (length macs)"
    by (simp_all add: key_number_def K p atoi_pad)
  show "take (12 * length macs) (drop 11 K) = concat macs"
    unfolding K by (rule take_drop_pieces) (simp_all add: p n)
  have ds: "list_all is_digit (dec s)" using dec_chars by (auto simp: list_all_iff)
  have "drop (11 + 12 * length macs) K = ?t" by (simp add: K p n)
  then show "atol (drop (11 + 12 * length macs) K) = int s"
    using strtol10_digits(2) [OF _ ds] assms(1) by (simp add: atol_def undec_dec license_fits_def)
  show "11 + 12 * length macs \<le> length (license_key y m d macs s)" by (simp add: license_key_def p n)
qed

lemma decode_license_ok:
  assumes "license_fits y m d macs s" "length key = 1000" "length (mac_addresses li) = 1000"
  shows "decode_license_file (Some (license_file y m d macs s)) key li =
    Inr (li\<lparr>l_year := int y, l_month := int m, l_day := int d, l_mac_count := int (length macs),
            mac_addresses := blit (mac_addresses li) 0 (concat macs)\<rparr>,
         if s = license_sum y m d macs then 0 else license_code MMT_LICENSE_MODIFIED)"
proof -
  define L where "L = license_key y m d macs s"
  have len: "length L < 1000" using assms(1) by (simp add: license_fits_def L_def)
  have dec: "map decode_char (license_file y m d macs s) = L" by (simp add: license_file_def decode_encode_char L_def comp_def)
  have fl: "length (license_file y m d macs s) = length L" by (simp add: license_file_def L_def)
  have r: "read_key (license_file y m d macs s) key 0 = Inr (blit key 0 L, length L)"
    using read_key_ok [of 0 "license_file y m d macs s" key] len assms(2) by (simp add: dec fl)
  define K where "K = L @ NUL # drop (Suc (length L)) key"
  have st: "store (blit key 0 L) (length L) NUL = Inr K"
    using len assms(2) blit_append [of 0 L "[NUL]" key] by (simp add: K_def blit_def)
  note f = license_key_fields(1-6) [OF assms(1), where rest = "drop (Suc (length L)) key", folded L_def, folded K_def]
    license_key_fields(7) [OF assms(1), folded L_def]
  have lk: "length K = 1000" using len assms(2) by (simp add: K_def)
  have sm: "sum_macs K 0 (12 * length macs) (mac_addresses li) 0 = Inr (blit (mac_addresses li) 0 (concat macs), int (\<Sum>c\<leftarrow>concat macs. of_char c))"
    using sum_macs_ok [of 0 "12 * length macs" "mac_addresses li" K 0] f(5,7) lk len assms(1,3)
    by (simp add: sum_char_val license_fits_def)
  have sum: "int (\<Sum>c\<leftarrow>concat macs. of_char c) + (int y * int m * int d + int (length macs)) = int (license_sum y m d macs)"
    by (simp add: license_sum_def)
  have l11: "\<not> length L < 11" "\<not> int (length L) - 11 < int (length macs) * 12" using f(7) by linarith+
  have nt: "nat (int (length macs) * 12) = 12 * length macs" "nat (11 + int (length macs) * 12) = 11 + 12 * length macs" by linarith+
  show ?thesis
    unfolding decode_license_file_def option.case r bindE_Inr prod.case st
    using l11 sum by (simp add: decode_macs_def f nt sm Let_def)
qed

subsection \<open>The addresses of the machine\<close>

definition host_macs :: "ifaddr list \<Rightarrow> u8 list list" where
  "host_macs ifs = [take 6 (snd a). Some a \<leftarrow> map ifa_addr ifs, fst a = AF_PACKET]"

lemma host_macs_simps [simp]:
  "host_macs [] = []"
  "host_macs (ifa # ifs) = (case ifa_addr ifa of Some (f, a) \<Rightarrow> if f = AF_PACKET then [take 6 a] else [] | None \<Rightarrow> []) @ host_macs ifs"
  by (simp_all add: host_macs_def split: option.split)

definition ifaddr_ok :: "ifaddr \<Rightarrow> bool" where
  "ifaddr_ok ifa \<longleftrightarrow> (case ifa_addr ifa of Some (f, a) \<Rightarrow> f = AF_PACKET \<longrightarrow> 6 \<le> length a | None \<Rightarrow> True)"

lemma length_host_macs: "list_all ifaddr_ok ifs \<Longrightarrow> list_all (\<lambda>m. length m = 6) (host_macs ifs)"
  by (induction ifs) (auto simp: ifaddr_ok_def split: option.splits)

lemma copy_macs_ok:
  "list_all ifaddr_ok ifs \<Longrightarrow> p + 6 * length (host_macs ifs) \<le> length m \<Longrightarrow>
   copy_macs ifs m p k = Inr (blit m p (concat (host_macs ifs)), k + length (host_macs ifs))"
proof (induction ifs arbitrary: m p k)
  case (Cons ifa ifs)
  have len: "length (concat (host_macs ifs)) = 6 * length (host_macs ifs)"
    using Cons.prems(1) length_concat_macs [OF length_host_macs] by simp
  show ?case
  proof (cases "\<exists>a. ifa_addr ifa = Some (AF_PACKET, a)")
    case True
    then obtain a where a: "ifa_addr ifa = Some (AF_PACKET, a)" "length (take 6 a) = 6"
      using Cons.prems(1) by (auto simp: ifaddr_ok_def)
    have "blit (blit m p (take 6 a)) (p + 6) (concat (host_macs ifs)) = blit m p (take 6 a @ concat (host_macs ifs))"
      using blit_append [of p "take 6 a" "concat (host_macs ifs)" m] Cons.prems(2) a len by simp
    then show ?thesis using Cons.IH [of "p + 6" "blit m p (take 6 a)" "k + 1"] Cons.prems a by simp
  next
    case False
    then show ?thesis using Cons by (auto split: option.splits prod.splits)
  qed
qed simp

subsection \<open>Searching an address\<close>

lemma strncmp_same_take:
  "n \<le> length a \<Longrightarrow> n \<le> length b \<Longrightarrow> NUL \<notin> set (take n b) \<Longrightarrow> strncmp_same a b n = Inr (take n a = take n b)"
  by (induction a b n rule: strncmp_same.induct) auto

lemma hex_lower_chars: "c \<in> set hex_lower \<Longrightarrow> c \<noteq> NUL"
  by (auto simp: hex_lower_def)

lemma xbyte_chars: "length (xbyte b) = 2" "NUL \<notin> set (xbyte b)"
proof -
  have "unat b < 256" using unsigned_less [of b] by simp
  then have "unat (drop_bit 4 b) < 16" by (simp add: drop_bit_eq_div unat_div less_mult_imp_div_less)
  moreover have "unat (b AND 0xF) < 16" using and_mask_less_size [of 4 b] by (simp add: word_size mask_eq_exp_minus_1 word_less_nat_alt)
  moreover have "length hex_lower = 16" by (simp add: hex_lower_def)
  ultimately have "set (xbyte b) \<subseteq> set hex_lower" by (simp add: xbyte_def)
  then show "NUL \<notin> set (xbyte b)" using hex_lower_chars by blast
qed (simp add: xbyte_def)

lemma mac_string_chars: "length m = 6 \<Longrightarrow> length (mac_string m) = 12" "NUL \<notin> set (mac_string m)"
proof -
  show "length m = 6 \<Longrightarrow> length (mac_string m) = 12"
    by (simp add: mac_string_def length_concat comp_def xbyte_chars sum_list_triv)
  show "NUL \<notin> set (mac_string m)" using xbyte_chars(2) by (auto simp: mac_string_def)
qed

lemma drop_concat: "list_all (\<lambda>m. length m = k) ms \<Longrightarrow> drop (j * k) (concat ms) = concat (drop j ms)"
proof (induction ms arbitrary: j)
  case (Cons m ms)
  then show ?case by (cases j) simp_all
qed simp

lemma find_mac_ok:
  assumes "list_all (\<lambda>m. length m = 12) macs" "length mac = 12" "NUL \<notin> set mac"
  shows "j + n = length macs \<Longrightarrow> find_mac (concat macs @ r) (mac @ [NUL]) j n = Inr (mac \<in> set (drop j macs))"
proof (induction n arbitrary: j)
  case (Suc n)
  have d: "drop j macs = macs ! j # drop (Suc j) macs" using Suc.prems by (simp add: Cons_nth_drop_Suc)
  have l: "length (macs ! j) = 12" using assms(1) Suc.prems by (simp add: list_all_length)
  have "j * 12 \<le> length (concat macs)" using length_concat_macs [OF assms(1)] Suc.prems by simp
  then have "drop (j * 12) (concat macs @ r) = macs ! j @ concat (drop (Suc j) macs) @ r"
    using drop_concat [OF assms(1), of j] d by simp
  then have "strncmp_same (drop (j * 12) (concat macs @ r)) (mac @ [NUL]) 12 = Inr (macs ! j = mac)"
    using strncmp_same_take [of 12 "macs ! j @ concat (drop (Suc j) macs) @ r" "mac @ [NUL]"] l assms(2,3) by simp
  then show ?case using Suc.IH [of "j + 1"] Suc.prems by (auto simp: d)
qed simp

lemma find_macs_ok:
  assumes "list_all (\<lambda>m. length m = 12) macs" "list_all (\<lambda>m. length m = 6) hosts"
    and "mac_addresses li = concat macs @ r" "l_mac_count li = int (length macs)"
  shows "i + n = length hosts \<Longrightarrow> find_macs li (concat hosts @ q) i n = Inr (\<exists>h \<in> set (drop i hosts). mac_string h \<in> set macs)"
proof (induction n arbitrary: i)
  case (Suc n)
  have d: "drop i hosts = hosts ! i # drop (Suc i) hosts" using Suc.prems by (simp add: Cons_nth_drop_Suc)
  have l: "length (hosts ! i) = 6" using assms(2) Suc.prems by (simp add: list_all_length)
  have le: "i * 6 + 6 \<le> length (concat hosts)" using length_concat_macs [OF assms(2)] Suc.prems by simp
  then have "take 6 (drop (i * 6) (concat hosts @ q)) = hosts ! i"
    using drop_concat [OF assms(2), of i] d l by simp
  moreover have "find_mac (mac_addresses li) (mac_string (hosts ! i) @ [NUL]) 0 (nat (l_mac_count li)) = Inr (mac_string (hosts ! i) \<in> set macs)"
    using find_mac_ok [OF assms(1) mac_string_chars(1) [OF l] mac_string_chars(2), of 0 "length macs" r] assms(3,4) by simp
  ultimately show ?case using Suc.IH [of "i + 1"] Suc.prems le by (auto simp: d)
qed simp

subsection \<open>The text of the addresses\<close>

text \<open>From the third address on, a comma replaces the last character of the second one, and the NUL behind it stays.\<close>

fun shown_macs :: "string list \<Rightarrow> string" where
  "shown_macs (a # b # c # _) = a @ '','' @ take 11 b @ '',''"
| "shown_macs [a, b] = a @ '','' @ b"
| "shown_macs [a] = a"
| "shown_macs [] = []"

lemma join_macs_rest:
  "3 \<le> i \<Longrightarrow> length m = (i + n) * 13 \<Longrightarrow> \<exists>m'. join_macs licensed i n m = Inr m' \<and> take 26 m' = take 26 m"
proof (induction n arbitrary: i m)
  case (Suc n)
  define t where "t = take 12 (drop (i * 12) licensed)"
  have t: "length t \<le> 12" by (simp add: t_def)
  let ?a = "blit m (i * 12) '',''"
  let ?b = "blit ?a (i * 13) t"
  let ?c = "blit ?b (i * 13 + 12) [NUL]"
  have b: "length ?a = length m" "length ?b = length m" "length ?c = length m" using Suc.prems t by simp_all
  have k: "take 26 ?c = take 26 m" using Suc.prems b t by (simp add: take_blit_less)
  have "join_macs licensed i (Suc n) m = join_macs licensed (i + 1) n ?c"
    using Suc.prems t b by (simp add: t_def [symmetric])
  moreover have "\<exists>m'. join_macs licensed (i + 1) n ?c = Inr m' \<and> take 26 m' = take 26 ?c"
    using Suc.prems b by (intro Suc.IH) simp_all
  ultimately show ?case using k by simp
qed simp

lemma c_text_prefix: "NUL \<notin> set t \<Longrightarrow> take (Suc (length t)) m = t @ [NUL] \<Longrightarrow> c_text m = Inr t"
proof -
  assume t: "NUL \<notin> set t" "take (Suc (length t)) m = t @ [NUL]"
  then have m: "m = t @ NUL # drop (Suc (length t)) m" using append_take_drop_id [of "Suc (length t)" m] by simp
  then have "NUL \<in> set m" by (metis in_set_conv_decomp)
  moreover have "cstr m = t" using t(1) by (subst m) (rule cstr_append_NUL)
  ultimately show ?thesis by (simp add: c_text_def)
qed

lemma join_macs_step:
  assumes "list_all (\<lambda>m. length m = 12) macs" "i < length macs" "length m = length macs * 13" "0 < i"
  shows "join_macs (concat macs @ r) i (Suc n) m =
    join_macs (concat macs @ r) (i + 1) n (blit (blit m (i * 12) '','') (i * 13) (macs ! i @ [NUL]))"
proof -
  have d: "drop i macs = macs ! i # drop (Suc i) macs" using assms(2) by (simp add: Cons_nth_drop_Suc)
  have l: "length (macs ! i) = 12" using assms(1,2) by (simp add: list_all_length)
  have "i * 12 \<le> length (concat macs)" using length_concat_macs [OF assms(1)] assms(2) by simp
  then have t: "take 12 (drop (i * 12) (concat macs @ r)) = macs ! i" using drop_concat [OF assms(1), of i] d l by simp
  have "blit (blit (blit m (i * 12) '','') (i * 13) (macs ! i)) (i * 13 + 12) [NUL] = blit (blit m (i * 12) '','') (i * 13) (macs ! i @ [NUL])"
    using blit_append [of "i * 13" "macs ! i" "[NUL]" "blit m (i * 12) '',''"] l assms(2,3) by simp
  then show ?thesis using assms l by (simp add: t del: drop_append take_append)
qed

lemma join_macs_first:
  assumes "length a = 12" "13 \<le> length m"
  shows "join_macs (a @ r) 0 (Suc n) m = join_macs (a @ r) 1 n (blit m 0 (a @ [NUL]))"
  using assms blit_append [of 0 a "[NUL]" m] by simp

lemma second_mac:
  assumes "length a = 12" "length b = 12" "26 \<le> length m"
  shows "blit (blit (blit m 0 (a @ [NUL])) 12 '','') 13 (b @ [NUL]) = blit m 0 (a @ '','' @ b @ [NUL])"
proof -
  have "blit (blit m 0 (a @ [NUL])) 12 '','' = blit m 0 (a @ '','')"
    using blit_append [of 0 a "[NUL]" m] blit_append [of 0 a "'',''" m] blit_overwrite [of "[NUL]" "'',''" 12 "blit m 0 a"] assms by simp
  moreover have "blit (blit m 0 (a @ '','')) 13 (b @ [NUL]) = blit m 0 ((a @ '','') @ b @ [NUL])"
    using blit_append [of 0 "a @ '',''" "b @ [NUL]" m] assms by simp
  ultimately show ?thesis by simp
qed

lemma third_mac:
  assumes "length a = 12" "length b = 12" "length c = 12" "39 \<le> length m"
  shows "take 26 (blit (blit (blit m 0 (a @ '','' @ b @ [NUL])) 24 '','') 26 (c @ [NUL])) = a @ '','' @ take 11 b @ '','' @ [NUL]"
  using assms by (simp add: take_blit_less) (simp add: blit_def)

lemma join_macs_text:
  assumes "macs \<noteq> []" "list_all mac_ok macs" "length m = length macs * 13"
  shows "\<exists>m'. join_macs (concat macs @ r) 0 (length macs) m = Inr m' \<and> c_text m' = Inr (shown_macs macs)"
proof -
  have l12: "list_all (\<lambda>m. length m = 12) macs" using assms(2) by (rule mac_ok_length)
  obtain a ms where a: "macs = a # ms" using assms(1) by (cases macs) auto
  have nul: "x \<in> set macs \<Longrightarrow> NUL \<notin> set x" for x using assms(2) by (auto simp: list_all_iff mac_ok_def)
  have la: "length a = 12" "NUL \<notin> set a" using l12 nul a by simp_all
  have first: "join_macs (concat macs @ r) 0 (length macs) m = join_macs (concat macs @ r) 1 (length ms) (blit m 0 (a @ [NUL]))"
    using join_macs_first [OF la(1), of m "concat ms @ r" "length ms"] assms(3) a by simp
  show ?thesis
  proof (cases ms)
    case Nil
    then show ?thesis using first a la assms(3) c_text_prefix [OF la(2), of "blit m 0 (a @ [NUL])"] take_blit [of 0 "a @ [NUL]" m] by simp
  next
    case (Cons b ms')
    have lb: "length b = 12" "NUL \<notin> set b" using l12 nul a Cons by simp_all
    define m2 where "m2 = blit m 0 (a @ '','' @ b @ [NUL])"
    have second: "join_macs (concat macs @ r) 1 (length ms) (blit m 0 (a @ [NUL])) = join_macs (concat macs @ r) 2 (length ms') m2"
      using join_macs_step [OF l12, of 1 "blit m 0 (a @ [NUL])" r "length ms'"] second_mac [OF la(1) lb(1), of m] assms(3) a Cons la
      by (simp add: m2_def numeral_2_eq_2)
    have len2: "length m2 = length m" using la lb assms(3) a Cons by (simp add: m2_def)
    show ?thesis
    proof (cases ms')
      case Nil
      have "take 26 m2 = (a @ '','' @ b) @ [NUL]"
        using take_blit [of 0 "a @ '','' @ b @ [NUL]" m] la lb assms(3) a Cons by (simp add: m2_def)
      then have "c_text m2 = Inr (a @ '','' @ b)" using la lb by (intro c_text_prefix) simp_all
      then show ?thesis using first second a Cons Nil by simp
    next
      fix c ms''
      assume C: "ms' = c # ms''"
      have lc: "length c = 12" using l12 a Cons C by simp
      define m3 where "m3 = blit (blit m2 24 '','') 26 (c @ [NUL])"
      have third: "join_macs (concat macs @ r) 2 (length ms') m2 = join_macs (concat macs @ r) 3 (length ms'') m3"
        using join_macs_step [OF l12, of 2 m2 r "length ms''"] assms(3) a Cons C len2 by (simp add: m3_def)
      obtain m' where m': "join_macs (concat macs @ r) 3 (length ms'') m3 = Inr m'" "take 26 m' = take 26 m3"
        using join_macs_rest [of 3 m3 "length ms''" "concat macs @ r"] len2 assms(3) a Cons C lc by (auto simp: m3_def)
      have "take 26 m' = (a @ '','' @ take 11 b @ '','') @ [NUL]"
        using third_mac [OF la(1) lb(1) lc, of m] m'(2) assms(3) a Cons C by (simp add: m3_def m2_def)
      moreover have "NUL \<notin> set (take 11 b)" using lb(2) in_set_takeD by fastforce
      ultimately have "c_text m' = Inr (a @ '','' @ take 11 b @ '','')" using la lb by (intro c_text_prefix) simp_all
      then show ?thesis using first second third m'(1) a Cons C by simp
    qed
  qed
qed

text \<open>Another character in one address gives another sum.\<close>

lemma license_sum_changes:
  assumes "j < length macs" "i < length (macs ! j)" "x \<noteq> macs ! j ! i"
  shows "license_sum y m d (macs[j := (macs ! j)[i := x]]) \<noteq> license_sum y m d macs"
proof -
  let ?f = "\<lambda>s. \<Sum>c\<leftarrow>s. of_char c :: nat"
  have c: "?f (concat ms) = (\<Sum>m\<leftarrow>ms. ?f m)" for ms :: "string list" by (induction ms) simp_all
  have "of_char x \<noteq> (of_char (macs ! j ! i) :: nat)" using assms(3) by simp
  moreover have "?f ((macs ! j)[i := x]) + of_char (macs ! j ! i) = ?f (macs ! j) + of_char x" using sum_list_replace [OF assms(2)] .
  moreover have "(\<Sum>m\<leftarrow>macs[j := (macs ! j)[i := x]]. ?f m) + ?f (macs ! j) = (\<Sum>m\<leftarrow>macs. ?f m) + ?f ((macs ! j)[i := x])"
    using sum_list_replace [OF assms(1)] .
  ultimately have "?f (concat (macs[j := (macs ! j)[i := x]])) \<noteq> ?f (concat macs)" unfolding c by linarith
  then show ?thesis by (simp add: license_sum_def)
qed

subsection \<open>Inputs that the code does not expect\<close>

text \<open>A file of 1000 bytes or more is written past the array.\<close>

lemma long_license_overflows:
  assumes "1000 \<le> length bytes" "length (license_decrypt_key M) = 1000"
  shows "license_check_expiry C arrs E M (Some bytes) out fs = Inl OutOfBounds"
proof (cases "length bytes = 1000")
  case True
  then show ?thesis using read_key_ok [of 0 bytes "license_decrypt_key M"] assms
    by (simp add: license_check_expiry_def decode_license_file_def store_def)
next
  case False
  then show ?thesis using read_key_overflow [of 0 "license_decrypt_key M" bytes] assms
    by (simp add: license_check_expiry_def decode_license_file_def)
qed

text \<open>A file that is too short has a code which the caller does not treat: the empty list of addresses is then read as a string.\<close>

lemma short_license_faults:
  assumes "length bytes < 11" "length (license_decrypt_key M) = 1000" "malloc M 0 = []"
    and "get_host_mac_address E (mac_to_verify M) = Inr (macs, Suc n)" "Suc n * 6 \<le> length macs"
  shows "license_check_expiry C arrs E M (Some bytes) out fs = Inl OutOfBounds"
proof -
  have f: "i + k = Suc n \<Longrightarrow> l_mac_count li = 0 \<Longrightarrow> find_macs li macs i k = Inr False" for li i k
  proof (induction k arbitrary: i)
    case (Suc k)
    then have "i * 6 + 6 \<le> Suc n * 6" by simp
    then show ?case using Suc assms(5) by simp
  qed simp
  show ?thesis using read_key_ok [of 0 bytes "license_decrypt_key M"] assms f [of 0 "Suc n"]
    by (simp add: license_check_expiry_def decode_license_file_def check_license_def license_report_def c_text_def)
qed

text \<open>A negative number of addresses makes the sum be read before the array.\<close>

lemma negative_count_faults:
  assumes "l_mac_count li < 0" "11 \<le> len"
  shows "decode_macs key len li = Inl OutOfBounds"
  using assms by (simp add: decode_macs_def Let_def)

text \<open>The three addresses of a license, as the report shows them.\<close>

lemma third_mac_not_shown:
  "shown_macs [''aaaaaaaaaaaa'', ''bbbbbbbbbbbb'', ''cccccccccccc''] = ''aaaaaaaaaaaa,bbbbbbbbbbb,''"
  by simp

text \<open>Midnight in universal time, and a machine with the loopback interface and two network cards.\<close>

definition utc_mktime :: "int \<Rightarrow> int \<Rightarrow> int \<Rightarrow> int" where
  "utc_mktime year mon mday =
     (let y = year + 1900 - (if mon < 2 then 1 else 0);
          yoe = y mod 400;
          doy = (153 * ((mon + 10) mod 12) + 2) div 5 + mday - 1
      in 86400 * (146097 * (y div 400) + 365 * yoe + yoe div 4 - yoe div 100 + doy - 719468))"

definition sample_license_env :: license_env where
  "sample_license_env = \<lparr>getifaddrs = Some [\<lparr>ifa_addr = Some (2, [127, 0, 0, 1])\<rparr>, \<lparr>ifa_addr = None\<rparr>,
       \<lparr>ifa_addr = Some (17, [0x00, 0x1b, 0x21, 0x3c, 0x4d, 0x5e, 0, 0])\<rparr>, \<lparr>ifa_addr = Some (17, [1, 2, 3, 4, 5, 0xff, 0, 0])\<rparr>],
     now_s = 1700000000, gettimeofday = \<lparr>tv_sec = 1700000000, tv_usec = 5\<rparr>, mktime = utc_mktime,
     version_probe = ''1.4'', version_sdk = ''1.7''\<rparr>"

definition sample_license_arrays :: license_arrays where
  "sample_license_arrays = \<lparr>mac_stored_in_license = replicate 1000 CHR ''x'', mac_to_verify = replicate 1000 7,
     license_decrypt_key = replicate 1000 CHR ''x'', malloc = (\<lambda>n. replicate n CHR ''x'')\<rparr>"

section \<open>Properties\<close>



text \<open>
  C23: the license file is protected by its sum. If one character of one address in a valid license is replaced by
  another one and nothing else is changed, the check refuses the file as modified (code 4) and returns false.
\<close>

theorem changed_license_refused:
  assumes "j < length macs" "i < length (macs ! j)" "x \<noteq> macs ! j ! i"
    and "license_fits y m d (macs[j := (macs ! j)[i := x]]) (license_sum y m d macs)"
    and "length (license_decrypt_key M) = 1000" "length (mac_stored_in_license M) = 1000"
  shows "license_check_expiry C arrs E M (Some (license_file y m d (macs[j := (macs ! j)[i := x]]) (license_sum y m d macs))) out fs =
    license_write C arrs E ''4'' False out fs"
proof -
  have "license_sum y m d macs \<noteq> license_sum y m d (macs[j := (macs ! j)[i := x]])" using license_sum_changes [OF assms(1-3)] by metis
  moreover have "dec 4 = ''4''" by code_simp
  ultimately show ?thesis using decode_license_ok [OF assms(4,5)] assms(6) by (simp add: license_check_expiry_def)
qed

theorem changed_license_refused_witness:
  "\<forall>C arrs out fs. license_check_expiry C arrs sample_license_env sample_license_arrays
      (Some (license_file 2030 12 31 [''0b02030405ff''] (license_sum 2030 12 31 [''0102030405ff'']))) out fs
    = license_write C arrs sample_license_env ''4'' False out fs"
proof -
  have fit: "license_fits 2030 12 31 [''0b02030405ff''] (license_sum 2030 12 31 [''0102030405ff''])"
    by (simp add: license_fits_def license_key_def license_sum_def pad_def mac_ok_def dec_lt10 dec_ge10)
  show ?thesis
    using changed_license_refused [of 0 "[''0102030405ff'']" 1 "CHR ''b''" 2030 12 31 sample_license_arrays] fit
    by (simp add: sample_license_arrays_def)
qed

end
