(* ===== verification/Lte_Reports.thy ===== *)
theory Lte_Reports
  imports Dpi_Reports
begin

text \<open>
  The reports on LTE networks: \<^verbatim>\<open>src/src/modules/dpi/lte/topology_report.c\<close> (an entity appears, is linked, unlinked or
  disappears) and \<^verbatim>\<open>lte_qos_report.c\<close> (the quality class of a user). The entities that MMT-DPI decodes from S1AP packets are inputs: a status, and
  the member of the union that belongs to its type. The numbers of types and of attributes are MMT-DPI's (\<open>lte_api\<close>).
\<close>

section \<open>Topology\<close>

datatype s1ap_status =
    S1AP_ENTITY_STATUS_ATTACHING | S1AP_ENTITY_STATUS_ATTACHED | S1AP_ENTITY_STATUS_DETACHING
  | S1AP_ENTITY_STATUS_LOST_SIGNAL | S1AP_ENTITY_STATUS_DETACHED | Other_status

text \<open>The type of an entity with the data it selects.\<close>

datatype s1ap_data =
    S1AP_ENTITY_TYPE_UE string u32 u32 | S1AP_ENTITY_TYPE_ENODEB string | S1AP_ENTITY_TYPE_MME string | Other_type

record s1ap_entity =
  e_id :: u32
  e_parent :: u32
  e_ipv4 :: u32
  e_status :: s1ap_status
  e_data :: s1ap_data

text \<open>The attribute of a packet: the entity behind \<^verbatim>\<open>data\<close>, and \<^verbatim>\<open>data_len\<close>.\<close>

record s1ap_attribute =
  sa_data :: "s1ap_entity option"
  sa_len :: nat

record lte_api =
  type_number :: "s1ap_data \<Rightarrow> u64"
  S1AP_ATT_UE_ID :: u32
  S1AP_ATT_TEID :: u32
  S1AP_ATT_QCI :: u32

definition TOPO_ADD_ELEMENT :: u64 where "TOPO_ADD_ELEMENT = 1"

definition TOPO_ADD_LINK :: u64 where "TOPO_ADD_LINK = 2"

definition TOPO_REMOVE_LINK :: u64 where "TOPO_REMOVE_LINK = 3"

definition TOPO_REMOVE_ELEMENT :: u64 where "TOPO_REMOVE_ELEMENT = 4"

definition LTE_TOPOLOGY_REPORT_TYPE :: nat where "LTE_TOPOLOGY_REPORT_TYPE = 400"

definition LTE_QOS_REPORT_TYPE :: nat where "LTE_QOS_REPORT_TYPE = 401"

text \<open>The three local arrays: \<^verbatim>\<open>message\<close>, \<^verbatim>\<open>message_tmp\<close> and \<^verbatim>\<open>ip_str\<close>.\<close>

record lte_arrays =
  la_message :: string
  la_message_tmp :: string
  la_ip_str :: string

definition entity_data :: "string \<Rightarrow> s1ap_data \<Rightarrow> string cres" where
  "entity_data message_tmp d =
     (case d of
        S1AP_ENTITY_TYPE_UE imsi m_tmsi gtp_teid \<Rightarrow>
          bindE (STRING_BUILDER_WITH_SEPARATOR 0 message_tmp MAX_LENGTH_REPORT_MESSAGE '','' [F_STR imsi, F_INT (ucast m_tmsi), F_INT (ucast gtp_teid)])
            (\<lambda>(m, _). Inr m)
      | S1AP_ENTITY_TYPE_ENODEB name \<Rightarrow>
          bindE (STRING_BUILDER_WITH_SEPARATOR 0 message_tmp MAX_LENGTH_REPORT_MESSAGE '','' [F_STR name]) (\<lambda>(m, _). Inr m)
      | S1AP_ENTITY_TYPE_MME name \<Rightarrow>
          bindE (STRING_BUILDER_WITH_SEPARATOR 0 message_tmp MAX_LENGTH_REPORT_MESSAGE '','' [F_STR name]) (\<lambda>(m, _). Inr m)
      | Other_type \<Rightarrow> store message_tmp 0 NUL)"

text \<open>\<^verbatim>\<open>inet_ntop4\<close> returns a length, which is not 0, so the failure branch of the code is the value \<open>None\<close> only for a length of 0.\<close>

definition build_msg_to_add_new_entity :: "lte_api \<Rightarrow> lte_arrays \<Rightarrow> s1ap_entity \<Rightarrow> string option cres" where
  "build_msg_to_add_new_entity L M entity =
     bindE (if e_ipv4 entity = 0 then bindE (store (la_ip_str M) 0 NUL) (\<lambda>ip. Inr (ip, True))
            else bindE (inet_ntop4 (e_ipv4 entity) (la_ip_str M)) (\<lambda>(ip, n). Inr (ip, n \<noteq> 0))) (\<lambda>(ip_str, ok).
     if \<not> ok then Inr None
     else bindE (entity_data (la_message_tmp M) (e_data entity)) (\<lambda>message_tmp.
          bindE (STRING_BUILDER_WITH_SEPARATOR 0 (la_message M) MAX_LENGTH_REPORT_MESSAGE '',''
                   [F_INT (ucast (e_id entity)), F_INT TOPO_ADD_ELEMENT, F_STR ip_str, F_INT (type_number L (e_data entity)), F_ARR message_tmp])
            (\<lambda>(message, _). Inr (Some message))))"

definition build_msg_to_add_new_link :: "lte_arrays \<Rightarrow> s1ap_entity \<Rightarrow> string option cres" where
  "build_msg_to_add_new_link M entity =
     (if e_parent entity = 0 then Inr None
      else bindE (STRING_BUILDER_WITH_SEPARATOR 0 (la_message M) MAX_LENGTH_REPORT_MESSAGE '',''
                    [F_INT (ucast (e_id entity)), F_INT TOPO_ADD_LINK, F_INT (ucast (e_parent entity))])
             (\<lambda>(message, _). Inr (Some message)))"

definition build_msg_to_rm_entity :: "lte_arrays \<Rightarrow> s1ap_entity \<Rightarrow> string cres" where
  "build_msg_to_rm_entity M entity =
     bindE (STRING_BUILDER_WITH_SEPARATOR 0 (la_message M) MAX_LENGTH_REPORT_MESSAGE '','' [F_INT (ucast (e_id entity)), F_INT TOPO_REMOVE_ELEMENT])
       (\<lambda>(message, _). Inr message)"

definition build_msg_to_rm_link :: "lte_arrays \<Rightarrow> s1ap_entity \<Rightarrow> string cres" where
  "build_msg_to_rm_link M entity =
     bindE (STRING_BUILDER_WITH_SEPARATOR 0 (la_message M) MAX_LENGTH_REPORT_MESSAGE '','' [F_INT (ucast (e_id entity)), F_INT TOPO_REMOVE_LINK])
       (\<lambda>(message, _). Inr message)"

text \<open>The switch of \<^verbatim>\<open>_got_s1ap_packet\<close>.\<close>

definition s1ap_message :: "lte_api \<Rightarrow> lte_arrays \<Rightarrow> s1ap_entity \<Rightarrow> string option cres" where
  "s1ap_message L M entity =
     (case e_status entity of
        S1AP_ENTITY_STATUS_ATTACHING \<Rightarrow> build_msg_to_add_new_entity L M entity
      | S1AP_ENTITY_STATUS_ATTACHED \<Rightarrow> build_msg_to_add_new_link M entity
      | S1AP_ENTITY_STATUS_DETACHING \<Rightarrow> bindE (build_msg_to_rm_link M entity) (\<lambda>m. Inr (Some m))
      | S1AP_ENTITY_STATUS_LOST_SIGNAL \<Rightarrow> bindE (build_msg_to_rm_link M entity) (\<lambda>m. Inr (Some m))
      | S1AP_ENTITY_STATUS_DETACHED \<Rightarrow> bindE (build_msg_to_rm_entity M entity) (\<lambda>m. Inr (Some m))
      | Other_status \<Rightarrow> Inr None)"

definition got_s1ap_packet :: "lte_api \<Rightarrow> chan_api \<Rightarrow> lte_arrays \<Rightarrow> arrays \<Rightarrow> nat \<Rightarrow> timeval \<Rightarrow> s1ap_attribute \<Rightarrow> output_t option \<Rightarrow> fs
    \<Rightarrow> (output_t option \<times> fs \<times> delivery list) cres" where
  "got_s1ap_packet L C M arrs channels ts a out fs =
     (case sa_data a of None \<Rightarrow> Inr (out, fs, [])
      | Some entity \<Rightarrow>
          if sa_len a < 2 then Inr (out, fs, [])
          else bindE (s1ap_message L M entity) (\<lambda>r.
               case r of None \<Rightarrow> Inr (out, fs, [])
               | Some message \<Rightarrow> write_report C arrs channels LTE_TOPOLOGY_REPORT_TYPE ts message out fs))"

text \<open>Registration; \<open>hs\<close> is the table of three handlers.\<close>

definition lte_report_register :: "'h dpi_api \<Rightarrow> 'h conditional_handler list \<Rightarrow> bool \<Rightarrow> 'c \<Rightarrow> ('h dpi_call list \<times> 'c) option" where
  "lte_report_register A hs is_enable context =
     (if \<not> is_enable then None else Some (fst (dpi_register_conditional_handler A hs), context))"

definition lte_report_unregister :: "'h dpi_api \<Rightarrow> 'h conditional_handler list \<Rightarrow> 'c option \<Rightarrow> 'h dpi_call list" where
  "lte_report_unregister A hs context =
     (case context of None \<Rightarrow> [] | Some _ \<Rightarrow> fst (dpi_unregister_conditional_handler A hs))"

section \<open>Quality of service\<close>

record lte_qos_report =
  ue_id :: u32
  qci :: u8
  teid :: u32

text \<open>The bytes behind \<^verbatim>\<open>attribute->data\<close> are read with the width of the field; \<open>v\<close> is their value.\<close>

definition update_qos :: "lte_api \<Rightarrow> u32 \<Rightarrow> u32 \<Rightarrow> lte_qos_report \<Rightarrow> lte_qos_report" where
  "update_qos L field_id v c =
     (if field_id = S1AP_ATT_UE_ID L then c\<lparr>ue_id := v\<rparr>
      else if field_id = S1AP_ATT_TEID L then c\<lparr>teid := v\<rparr>
      else if field_id = S1AP_ATT_QCI L then c\<lparr>qci := ucast v\<rparr>
      else c)"

definition got_data :: "lte_api \<Rightarrow> chan_api \<Rightarrow> arrays \<Rightarrow> nat \<Rightarrow> timeval \<Rightarrow> u32 \<Rightarrow> u32 option \<Rightarrow> lte_qos_report \<Rightarrow> output_t option \<Rightarrow> fs
    \<Rightarrow> (lte_qos_report \<times> output_t option \<times> fs \<times> delivery list) cres" where
  "got_data L C arrs channels ts field_id data c out fs =
     (case data of None \<Rightarrow> Inr (c, out, fs, [])
      | Some v \<Rightarrow>
          let c = update_qos L field_id v c
          in if qci c \<noteq> 0 \<and> teid c \<noteq> 0 \<and> ue_id c \<noteq> 0
             then bindE (STRING_BUILDER_WITH_SEPARATOR 0 (fst arrs) MAX_LENGTH_REPORT_MESSAGE '',''
                           [F_INT (ucast (ue_id c)), F_INT (ucast (teid c)), F_INT (ucast (qci c))]) (\<lambda>(message, _).
                  bindE (write_report C arrs channels LTE_QOS_REPORT_TYPE ts message out fs) (\<lambda>(out, fs, ds).
                    Inr (c\<lparr>qci := 0\<rparr>, out, fs, ds)))
             else Inr (c, out, fs, []))"

section \<open>What a reader of the reports learns\<close>

datatype topo_op = Add_element nat string nat | Add_link nat nat | Remove_link nat | Remove_element nat

record topology =
  elements :: "nat \<rightharpoonup> string \<times> nat"
  links :: "nat \<rightharpoonup> nat"

fun apply_op :: "topo_op \<Rightarrow> topology \<Rightarrow> topology" where
  "apply_op (Add_element i ip t) T = T\<lparr>elements := (elements T)(i \<mapsto> (ip, t))\<rparr>"
| "apply_op (Add_link i p) T = T\<lparr>links := (links T)(i \<mapsto> p)\<rparr>"
| "apply_op (Remove_link i) T = T\<lparr>links := (links T)(i := None)\<rparr>"
| "apply_op (Remove_element i) T =
     T\<lparr>elements := (elements T)(i := None), links := (\<lambda>j. if j = i \<or> links T j = Some i then None else links T j)\<rparr>"

definition number_at :: "string \<Rightarrow> nat \<times> string" where
  "number_at s = (undec (takeWhile is_digit s), drop 1 (dropWhile is_digit s))"

definition read_topo :: "string \<Rightarrow> topo_op option" where
  "read_topo s =
     (let (i, r) = number_at s; (code, r) = number_at r
      in if code = 1 then (let r = drop 1 r; ip = takeWhile (\<lambda>c. c \<noteq> CHR 0x22) r
                           in Some (Add_element i ip (fst (number_at (drop (length ip + 2) r)))))
         else if code = 2 then Some (Add_link i (fst (number_at r)))
         else if code = 3 then Some (Remove_link i)
         else if code = 4 then Some (Remove_element i)
         else None)"

text \<open>The change of the network that an entity announces.\<close>

definition entity_op :: "lte_api \<Rightarrow> s1ap_entity \<Rightarrow> topo_op option" where
  "entity_op L e =
     (case e_status e of
        S1AP_ENTITY_STATUS_ATTACHING \<Rightarrow>
          Some (Add_element (unat (e_id e)) (if e_ipv4 e = 0 then [] else ipv4_text (e_ipv4 e)) (unat (type_number L (e_data e))))
      | S1AP_ENTITY_STATUS_ATTACHED \<Rightarrow> if e_parent e = 0 then None else Some (Add_link (unat (e_id e)) (unat (e_parent e)))
      | S1AP_ENTITY_STATUS_DETACHING \<Rightarrow> Some (Remove_link (unat (e_id e)))
      | S1AP_ENTITY_STATUS_LOST_SIGNAL \<Rightarrow> Some (Remove_link (unat (e_id e)))
      | S1AP_ENTITY_STATUS_DETACHED \<Rightarrow> Some (Remove_element (unat (e_id e)))
      | Other_status \<Rightarrow> None)"

section \<open>Lemmas\<close>

lemma built_report:
  assumes "list_all text_item args" "list_all item_ok args" "length m = 3000" "(\<Sum>X\<leftarrow>args. item_need X + 1) < 3000"
  shows "\<exists>m' n. STRING_BUILDER_WITH_SEPARATOR 0 m MAX_LENGTH_REPORT_MESSAGE '','' args = Inr (m', n) \<and> cstr m' = joined '','' args"
proof -
  have sl: "strlen '','' = 1" by (simp add: strlen_def cstr_def)
  have "(\<Sum>X\<leftarrow>args. item_need X + strlen '','') \<le> 2999" using assms(4) by (simp add: sl)
  then have j: "render '','' 2999 args = joined '','' args" by (rule render_joined)
  have "STRING_BUILDER_WITH_SEPARATOR 0 m 3000 '','' args = Inr (blit m 0 (joined '','' args @ [NUL]), length (joined '','' args))"
    using builder_separated [OF assms(2), of 0 3000 m "joined '','' args" "'',''"] assms(3) j by simp
  moreover have "NUL \<notin> set (joined '','' args)" using render_NUL [OF assms(1), of "'',''" 2999] j by simp
  then have "cstr (blit m 0 (joined '','' args @ [NUL])) = joined '','' args" by (simp add: blit_def cstr_append_NUL)
  ultimately show ?thesis by (auto simp: MAX_LENGTH_REPORT_MESSAGE_def)
qed

lemma int_need: "item_need (F_INT x) \<le> 20"
proof -
  have "unat x < 2 ^ 64" using unsigned_less [of x] by simp
  then show ?thesis using length_dec_bound [of "unat x" 20] by simp
qed

lemma dec_is_digit: "list_all is_digit (dec n)"
proof -
  have "is_digit (digit d)" if "d < 10" for d using that by (simp add: is_digit_def)
  then show ?thesis using dec_digits by (fastforce simp: list_all_iff)
qed

lemma number_at_dec: "number_at (dec n) = (n, [])" "\<not> is_digit c \<Longrightarrow> number_at (dec n @ c # r) = (n, r)"
proof -
  have t: "takeWhile is_digit (dec n) = dec n" using dec_is_digit [of n] by (auto simp: list_all_iff takeWhile_eq_all_conv)
  have a: "\<And>x. x \<in> set (dec n) \<Longrightarrow> is_digit x" using dec_is_digit [of n] by (simp add: list_all_iff)
  have dw: "dropWhile is_digit (dec n) = []" using a by (simp add: dropWhile_eq_Nil_conv)
  show "number_at (dec n) = (n, [])" unfolding number_at_def t dw undec_dec by simp
  show "\<not> is_digit c \<Longrightarrow> number_at (dec n @ c # r) = (n, r)" using a by (simp add: number_at_def undec_dec takeWhile_append dropWhile_append)
qed

lemma unat_u32 [simp]: "unat (ucast (x :: u32) :: u64) = unat x"
proof -
  have "unat x < 2 ^ 32" using unsigned_less [of x] by simp
  then show ?thesis by (simp add: unsigned_ucast_eq take_bit_nat_eq_self)
qed

lemma comma_no_digit: "\<not> is_digit CHR '',''"
  by (simp add: is_digit_def)

lemma ipv4_no_quote: "CHR 0x22 \<notin> set (ipv4_text ip)"
proof -
  have "CHR 0x22 \<notin> set (dec n)" for n
  proof -
    have "\<not> is_digit CHR 0x22" by (simp add: is_digit_def)
    then show ?thesis using dec_is_digit [of n] by (auto simp: list_all_iff)
  qed
  then show ?thesis by (simp add: ipv4_text_def)
qed

text \<open>What the entity text needs of room: MMT-DPI's names are far shorter.\<close>

fun data_ok :: "s1ap_data \<Rightarrow> bool" where
  "data_ok (S1AP_ENTITY_TYPE_UE imsi _ _) \<longleftrightarrow> strlen imsi \<le> 2500"
| "data_ok (S1AP_ENTITY_TYPE_ENODEB name) \<longleftrightarrow> strlen name \<le> 2500"
| "data_ok (S1AP_ENTITY_TYPE_MME name) \<longleftrightarrow> strlen name \<le> 2500"
| "data_ok Other_type \<longleftrightarrow> True"

definition lte_arrays_ok :: "lte_arrays \<Rightarrow> bool" where
  "lte_arrays_ok M \<longleftrightarrow> length (la_message M) = 3000 \<and> length (la_message_tmp M) = 3000 \<and> length (la_ip_str M) = 16"

lemma joined_length: "length (joined '','' args) \<le> (\<Sum>X\<leftarrow>args. item_need X + 1)"
proof (induction "'',''" args rule: joined.induct)
  case (2 a)
  then show ?case using item_full_need [of a] by simp
next
  case (3 a b l)
  then show ?case using item_full_need [of a] by (simp add: cstr_def)
qed simp

lemma entity_data_ok:
  assumes "length m = 3000" "data_ok d"
  shows "\<exists>m'. entity_data m d = Inr m' \<and> strlen m' \<le> 2600"
proof -
  have go: "\<exists>m' n. STRING_BUILDER_WITH_SEPARATOR 0 m MAX_LENGTH_REPORT_MESSAGE '','' args = Inr (m', n) \<and> strlen m' \<le> 2600"
    if "list_all text_item args" "list_all item_ok args" "(\<Sum>X\<leftarrow>args. item_need X + 1) \<le> 2600" for args
    using built_report [OF that(1,2) assms(1)] that(3) joined_length [of args] by (fastforce simp: strlen_def)
  have need: "item_need (F_STR s) = strlen s + 2" for s by (simp add: strlen_def)
  show ?thesis
  proof (cases d)
    case (S1AP_ENTITY_TYPE_UE imsi t1 t2)
    then show ?thesis using go [of "[F_STR imsi, F_INT (ucast t1), F_INT (ucast t2)]"] assms(2)
        int_need [of "ucast t1"] int_need [of "ucast t2"] by (fastforce simp: entity_data_def need simp del: item_need.simps)
  next
    case (S1AP_ENTITY_TYPE_ENODEB name)
    then show ?thesis using go [of "[F_STR name]"] assms(2) by (fastforce simp: entity_data_def need simp del: item_need.simps)
  next
    case (S1AP_ENTITY_TYPE_MME name)
    then show ?thesis using go [of "[F_STR name]"] assms(2) by (fastforce simp: entity_data_def need simp del: item_need.simps)
  next
    case Other_type
    then show ?thesis using assms(1) by (simp add: entity_data_def strlen_def cstr_def blit_def)
  qed
qed

lemma add_entity_ok:
  assumes "lte_arrays_ok M" "data_ok (e_data e)"
  defines "ip \<equiv> if e_ipv4 e = 0 then [] else ipv4_text (e_ipv4 e)"
  shows "\<exists>m. build_msg_to_add_new_entity L M e = Inr (Some m)
    \<and> read_topo (cstr m) = Some (Add_element (unat (e_id e)) ip (unat (type_number L (e_data e))))"
proof -
  have ipl: "length (ipv4_text (e_ipv4 e)) \<le> 15" "NUL \<notin> set (ipv4_text (e_ipv4 e))" "ipv4_text (e_ipv4 e) \<noteq> []"
    using item_txt_fits [of 16 "F_IPv4 (e_ipv4 e)"] dec_NUL length_dec_bound [OF ip_byte_lt [of "e_ipv4 e" 0]] length_dec_bound [OF ip_byte_lt [of "e_ipv4 e" 1]]
      length_dec_bound [OF ip_byte_lt [of "e_ipv4 e" 2]] length_dec_bound [OF ip_byte_lt [of "e_ipv4 e" 3]] by (simp_all add: ipv4_text_def)
  have "\<exists>s. (if e_ipv4 e = 0 then bindE (store (la_ip_str M) 0 NUL) (\<lambda>ip. Inr (ip, True))
      else bindE (inet_ntop4 (e_ipv4 e) (la_ip_str M)) (\<lambda>(ip, n). Inr (ip, n \<noteq> 0))) = Inr (s, True) \<and> cstr s = ip \<and> strlen s \<le> 15"
  proof (cases "e_ipv4 e = 0")
    case True
    then show ?thesis using assms(1) by (simp add: ip_def lte_arrays_ok_def strlen_def cstr_def blit_def)
  next
    case False
    then show ?thesis using assms(1) inet_ntop4_text [of "la_ip_str M" "e_ipv4 e"] ipl
      by (simp add: ip_def lte_arrays_ok_def strlen_def blit_def cstr_append_NUL)
  qed
  then obtain s where s: "(if e_ipv4 e = 0 then bindE (store (la_ip_str M) 0 NUL) (\<lambda>ip. Inr (ip, True))
      else bindE (inet_ntop4 (e_ipv4 e) (la_ip_str M)) (\<lambda>(ip, n). Inr (ip, n \<noteq> 0))) = Inr (s, True)" "cstr s = ip" "strlen s \<le> 15" by blast
  obtain d where d: "entity_data (la_message_tmp M) (e_data e) = Inr d" "strlen d \<le> 2600"
    using entity_data_ok assms(1,2) by (auto simp: lte_arrays_ok_def)
  let ?a = "[F_INT (ucast (e_id e)), F_INT TOPO_ADD_ELEMENT, F_STR s, F_INT (type_number L (e_data e)), F_ARR d]"
  have n: "item_need (F_STR s) \<le> 17" "item_need (F_ARR d) \<le> 2600" using s(3) d(2) by (simp_all add: strlen_def)
  have "(\<Sum>X\<leftarrow>?a. item_need X + 1) < 3000"
    using n int_need [of "ucast (e_id e)"] int_need [of TOPO_ADD_ELEMENT] int_need [of "type_number L (e_data e)"] by (simp del: item_need.simps)
  then obtain m n where m: "STRING_BUILDER_WITH_SEPARATOR 0 (la_message M) MAX_LENGTH_REPORT_MESSAGE '','' ?a = Inr (m, n)"
      "cstr m = joined '','' ?a"
    using built_report [of ?a "la_message M"] assms(1) by (auto simp: lte_arrays_ok_def)
  have q: "CHR 0x22 \<notin> set ip" using ipv4_no_quote by (simp add: ip_def)
  then have tw: "takeWhile (\<lambda>c. c \<noteq> CHR 0x22) (ip @ CHR 0x22 # r) = ip" for r by (subst takeWhile_append2) auto
  have j: "cstr m = dec (unat (e_id e)) @ CHR '','' # dec 1 @ CHR '','' # CHR 0x22 # ip @ CHR 0x22 # CHR '','' # dec (unat (type_number L (e_data e))) @ CHR '','' # cstr d"
    using m(2) s(2) by (simp add: TOPO_ADD_ELEMENT_def cstr_def [of "'',''"])
  have "read_topo (cstr m) = Some (Add_element (unat (e_id e)) ip (unat (type_number L (e_data e))))"
    unfolding j read_topo_def by (simp add: number_at_dec comma_no_digit tw)
  moreover have "build_msg_to_add_new_entity L M e = Inr (Some m)"
    unfolding build_msg_to_add_new_entity_def s(1) by (simp add: d(1) m(1))
  ultimately show ?thesis by blast
qed

text \<open>The other three reports consist of numbers only.\<close>

lemma numbers_report:
  assumes "length m = 3000" "length ns \<le> 100"
  shows "\<exists>m' n. STRING_BUILDER_WITH_SEPARATOR 0 m MAX_LENGTH_REPORT_MESSAGE '','' (map F_INT ns) = Inr (m', n)
    \<and> cstr m' = joined '','' (map F_INT ns)"
proof -
  have "(\<Sum>X\<leftarrow>map F_INT ns. item_need X + 1) \<le> 21 * length ns"
  proof (induction ns)
    case (Cons x ns)
    then show ?case using int_need [of x] by simp
  qed simp
  then show ?thesis using assms by (intro built_report) (simp_all add: list_all_iff)
qed

lemma s1ap_message_ok:
  assumes "lte_arrays_ok M" "data_ok (e_data e)"
  shows "case entity_op L e of None \<Rightarrow> s1ap_message L M e = Inr None
    | Some w \<Rightarrow> \<exists>m. s1ap_message L M e = Inr (Some m) \<and> read_topo (cstr m) = Some w"
proof -
  have M: "length (la_message M) = 3000" using assms(1) by (simp add: lte_arrays_ok_def)
  have comma: "cstr '','' = '',''" by (simp add: cstr_def)
  note simps = number_at_dec comma_no_digit read_topo_def comma TOPO_ADD_LINK_def TOPO_REMOVE_LINK_def TOPO_REMOVE_ELEMENT_def
  have two: "\<exists>m. bindE (STRING_BUILDER_WITH_SEPARATOR 0 (la_message M) MAX_LENGTH_REPORT_MESSAGE '','' [F_INT (ucast (e_id e)), F_INT k]) (\<lambda>(m, _). Inr m) = Inr m
      \<and> cstr m = dec (unat (e_id e)) @ CHR '','' # dec (unat k)" for k
    using numbers_report [OF M, of "[ucast (e_id e), k]"] by (auto simp: comma)
  have three: "\<exists>m. bindE (STRING_BUILDER_WITH_SEPARATOR 0 (la_message M) MAX_LENGTH_REPORT_MESSAGE '',''
      [F_INT (ucast (e_id e)), F_INT TOPO_ADD_LINK, F_INT (ucast (e_parent e))]) (\<lambda>(m, _). Inr (Some m)) = Inr (Some m)
      \<and> cstr m = dec (unat (e_id e)) @ CHR '','' # dec 2 @ CHR '','' # dec (unat (e_parent e))"
    using numbers_report [OF M, of "[ucast (e_id e), TOPO_ADD_LINK, ucast (e_parent e)]"] by (auto simp: comma TOPO_ADD_LINK_def)
  show ?thesis
  proof (cases "e_status e")
    case S1AP_ENTITY_STATUS_ATTACHING
    then show ?thesis using add_entity_ok [OF assms] by (simp add: entity_op_def s1ap_message_def)
  next
    case S1AP_ENTITY_STATUS_ATTACHED
    then show ?thesis using three
      by (auto simp: entity_op_def s1ap_message_def build_msg_to_add_new_link_def number_at_dec comma_no_digit read_topo_def)
  next
    case S1AP_ENTITY_STATUS_DETACHING
    then show ?thesis using two [of TOPO_REMOVE_LINK]
      by (auto simp: entity_op_def s1ap_message_def build_msg_to_rm_link_def simps)
  next
    case S1AP_ENTITY_STATUS_LOST_SIGNAL
    then show ?thesis using two [of TOPO_REMOVE_LINK]
      by (auto simp: entity_op_def s1ap_message_def build_msg_to_rm_link_def simps)
  next
    case S1AP_ENTITY_STATUS_DETACHED
    then show ?thesis using two [of TOPO_REMOVE_ELEMENT]
      by (auto simp: entity_op_def s1ap_message_def build_msg_to_rm_entity_def simps)
  next
    case Other_status
    then show ?thesis by (simp add: entity_op_def s1ap_message_def)
  qed
qed

section \<open>Quality reports\<close>

definition qos_complete :: "lte_qos_report \<Rightarrow> bool" where
  "qos_complete c \<longleftrightarrow> qci c \<noteq> 0 \<and> teid c \<noteq> 0 \<and> ue_id c \<noteq> 0"

text \<open>A value that completes the three is reported at once, with the values that are then in force.\<close>

lemma got_data_reports:
  assumes "length (fst arrs) = 3000" "c' = update_qos L field_id v c"
  shows "qos_complete c' \<Longrightarrow> \<exists>m. got_data L C arrs channels ts field_id (Some v) c out fs =
      bindE (write_report C arrs channels LTE_QOS_REPORT_TYPE ts m out fs) (\<lambda>(out, fs, ds). Inr (c'\<lparr>qci := 0\<rparr>, out, fs, ds))
    \<and> cstr m = dec (unat (ue_id c')) @ '','' @ dec (unat (teid c')) @ '','' @ dec (unat (qci c'))"
    and "\<not> qos_complete c' \<Longrightarrow> got_data L C arrs channels ts field_id (Some v) c out fs = Inr (c', out, fs, [])"
proof -
  have q: "unat (ucast (qci c') :: u64) = unat (qci c')"
  proof -
    have "unat (qci c') < 2 ^ 8" using unsigned_less [of "qci c'"] by simp
    then show ?thesis by (simp add: unsigned_ucast_eq take_bit_nat_eq_self)
  qed
  have comma: "cstr '','' = '',''" by (simp add: cstr_def)
  show "qos_complete c' \<Longrightarrow> \<exists>m. got_data L C arrs channels ts field_id (Some v) c out fs =
      bindE (write_report C arrs channels LTE_QOS_REPORT_TYPE ts m out fs) (\<lambda>(out, fs, ds). Inr (c'\<lparr>qci := 0\<rparr>, out, fs, ds))
    \<and> cstr m = dec (unat (ue_id c')) @ '','' @ dec (unat (teid c')) @ '','' @ dec (unat (qci c'))"
    using numbers_report [OF assms(1), of "[ucast (ue_id c'), ucast (teid c'), ucast (qci c')]"] assms(2) q comma
    by (auto simp: got_data_def qos_complete_def Let_def)
  show "\<not> qos_complete c' \<Longrightarrow> got_data L C arrs channels ts field_id (Some v) c out fs = Inr (c', out, fs, [])"
    using assms(2) by (auto simp: got_data_def qos_complete_def Let_def)
qed

text \<open>Afterwards the three are never complete, so nothing is reported twice.\<close>

lemma got_data_incomplete:
  assumes "length (fst arrs) = 3000" "\<not> qos_complete c" "got_data L C arrs channels ts field_id data c out fs = Inr (c2, r)"
  shows "\<not> qos_complete c2"
proof (cases data)
  case None
  then show ?thesis using assms by (simp add: got_data_def)
next
  case (Some v)
  show ?thesis
  proof (cases "qos_complete (update_qos L field_id v c)")
    case True
    then obtain m where "bindE (write_report C arrs channels LTE_QOS_REPORT_TYPE ts m out fs)
        (\<lambda>(out, fs, ds). Inr ((update_qos L field_id v c)\<lparr>qci := 0\<rparr>, out, fs, ds)) = Inr (c2, r)"
      using got_data_reports(1) [OF assms(1) refl, of L field_id v c C channels ts out fs] assms(3) Some by auto
    then have "c2 = (update_qos L field_id v c)\<lparr>qci := 0\<rparr>" by (auto simp: bindE_eq_Inr split: prod.splits)
    then show ?thesis by (simp add: qos_complete_def)
  next
    case False
    then show ?thesis using got_data_reports(2) [OF assms(1) refl False, of C channels ts out fs] assms(3) Some by simp
  qed
qed

text \<open>The identifiers are not reset: the class of the next user, when it arrives before its identifiers, is reported with those of the user before.\<close>

lemma stale_identifiers_reported:
  assumes "length (fst arrs) = 3000" "teid c \<noteq> 0" "ue_id c \<noteq> 0" "(ucast v :: u8) \<noteq> 0"
    and "S1AP_ATT_QCI L \<noteq> S1AP_ATT_UE_ID L" "S1AP_ATT_QCI L \<noteq> S1AP_ATT_TEID L"
  shows "\<exists>m. got_data L C arrs channels ts (S1AP_ATT_QCI L) (Some v) c out fs =
      bindE (write_report C arrs channels LTE_QOS_REPORT_TYPE ts m out fs) (\<lambda>(out, fs, ds). Inr (c\<lparr>qci := 0\<rparr>, out, fs, ds))
    \<and> cstr m = dec (unat (ue_id c)) @ '','' @ dec (unat (teid c)) @ '','' @ dec (unat (ucast v :: u8))"
  using got_data_reports(1) [OF assms(1) refl, of L "S1AP_ATT_QCI L" v c] assms(2-) by (simp add: update_qos_def qos_complete_def)

section \<open>Properties\<close>

fun got_all :: "lte_api \<Rightarrow> chan_api \<Rightarrow> lte_arrays \<Rightarrow> arrays \<Rightarrow> nat \<Rightarrow> (timeval \<times> s1ap_attribute) list \<Rightarrow> output_t option \<Rightarrow> fs
    \<Rightarrow> (output_t option \<times> fs \<times> delivery list) cres" where
  "got_all L C M arrs channels [] out fs = Inr (out, fs, [])"
| "got_all L C M arrs channels ((ts, a) # ps) out fs =
     bindE (got_s1ap_packet L C M arrs channels ts a out fs) (\<lambda>(out, fs, ds).
     bindE (got_all L C M arrs channels ps out fs) (\<lambda>(out, fs, ds'). Inr (out, fs, ds @ ds')))"

fun write_messages :: "chan_api \<Rightarrow> arrays \<Rightarrow> nat \<Rightarrow> (timeval \<times> string) list \<Rightarrow> output_t option \<Rightarrow> fs
    \<Rightarrow> (output_t option \<times> fs \<times> delivery list) cres" where
  "write_messages C arrs channels [] out fs = Inr (out, fs, [])"
| "write_messages C arrs channels ((ts, m) # ms) out fs =
     bindE (write_report C arrs channels LTE_TOPOLOGY_REPORT_TYPE ts m out fs) (\<lambda>(out, fs, ds).
     bindE (write_messages C arrs channels ms out fs) (\<lambda>(out, fs, ds'). Inr (out, fs, ds @ ds')))"

definition announced :: "lte_api \<Rightarrow> s1ap_attribute \<Rightarrow> topo_op list" where
  "announced L a = (case sa_data a of Some e \<Rightarrow> if sa_len a < 2 then [] else (case entity_op L e of Some w \<Rightarrow> [w] | None \<Rightarrow> []) | None \<Rightarrow> [])"

definition attribute_ok :: "s1ap_attribute \<Rightarrow> bool" where
  "attribute_ok a \<longleftrightarrow> (case sa_data a of Some e \<Rightarrow> data_ok (e_data e) | None \<Rightarrow> True)"

lemma got_s1ap_packet_announced:
  assumes "lte_arrays_ok M" "attribute_ok a"
  shows "announced L a = [] \<and> got_s1ap_packet L C M arrs channels ts a = (\<lambda>out fs. Inr (out, fs, []))
    \<or> (\<exists>m w. announced L a = [w] \<and> read_topo (cstr m) = Some w
        \<and> got_s1ap_packet L C M arrs channels ts a = write_report C arrs channels LTE_TOPOLOGY_REPORT_TYPE ts m)"
proof (cases "sa_data a")
  case (Some e)
  then have "data_ok (e_data e)" using assms(2) by (simp add: attribute_ok_def)
  then show ?thesis using s1ap_message_ok [OF assms(1), of e L] Some
    by (cases "entity_op L e") (auto simp: announced_def got_s1ap_packet_def fun_eq_iff)
qed (simp add: announced_def got_s1ap_packet_def fun_eq_iff)

text \<open>
  C29: the topology reports carry the network. Whatever S1AP attributes arrive, the handler writes a sequence of reports in which each is the
  text of one change, and a reader who applies them to any topology obtains the one that the announced changes of the entities give, in their order.
\<close>

theorem topology_replayed:
  assumes "lte_arrays_ok M" "list_all (\<lambda>p. attribute_ok (snd p)) ps"
  shows "\<exists>ms. (\<forall>out fs. got_all L C M arrs channels ps out fs = write_messages C arrs channels ms out fs)
    \<and> fold apply_op (map (the \<circ> read_topo \<circ> cstr \<circ> snd) ms) T = fold apply_op (concat (map (announced L \<circ> snd) ps)) T"
  using assms(2)
proof (induction ps arbitrary: T)
  case Nil
  then show ?case by (auto intro: exI [of _ "[]"])
next
  case (Cons p ps)
  obtain ts a where p: "p = (ts, a)" by (cases p)
  have ok: "attribute_ok a" "list_all (\<lambda>p. attribute_ok (snd p)) ps" using Cons.prems p by simp_all
  from got_s1ap_packet_announced [OF assms(1) ok(1), of L C arrs channels ts] show ?case
  proof (elim disjE exE conjE)
    assume a: "announced L a = []" "got_s1ap_packet L C M arrs channels ts a = (\<lambda>out fs. Inr (out, fs, []))"
    obtain ms where "\<forall>out fs. got_all L C M arrs channels ps out fs = write_messages C arrs channels ms out fs"
      "fold apply_op (map (the \<circ> read_topo \<circ> cstr \<circ> snd) ms) T = fold apply_op (concat (map (announced L \<circ> snd) ps)) T"
      using Cons.IH [OF ok(2)] by blast
    then have "(\<forall>out fs. got_all L C M arrs channels (p # ps) out fs = write_messages C arrs channels ms out fs)
      \<and> fold apply_op (map (the \<circ> read_topo \<circ> cstr \<circ> snd) ms) T = fold apply_op (concat (map (announced L \<circ> snd) (p # ps))) T"
      using a p by (auto simp: bindE_def split: sum.splits)
    then show ?case by blast
  next
    fix m w
    assume a: "announced L a = [w]" "read_topo (cstr m) = Some w"
      "got_s1ap_packet L C M arrs channels ts a = write_report C arrs channels LTE_TOPOLOGY_REPORT_TYPE ts m"
    obtain ms where "\<forall>out fs. got_all L C M arrs channels ps out fs = write_messages C arrs channels ms out fs"
      "fold apply_op (map (the \<circ> read_topo \<circ> cstr \<circ> snd) ms) (apply_op w T) = fold apply_op (concat (map (announced L \<circ> snd) ps)) (apply_op w T)"
      using Cons.IH [OF ok(2), of "apply_op w T"] by blast
    then have "(\<forall>out fs. got_all L C M arrs channels (p # ps) out fs = write_messages C arrs channels ((ts, m) # ms) out fs)
      \<and> fold apply_op (map (the \<circ> read_topo \<circ> cstr \<circ> snd) ((ts, m) # ms)) T = fold apply_op (concat (map (announced L \<circ> snd) (p # ps))) T"
      using a p by simp
    then show ?case by blast
  qed
qed

text \<open>A base station attaches to a core, a phone attaches to it and leaves.\<close>

definition sample_lte :: lte_api where
  "sample_lte = \<lparr>type_number = (\<lambda>d. case d of S1AP_ENTITY_TYPE_UE _ _ _ \<Rightarrow> 1 | S1AP_ENTITY_TYPE_ENODEB _ \<Rightarrow> 2 | _ \<Rightarrow> 3),
     S1AP_ATT_UE_ID = 1, S1AP_ATT_TEID = 2, S1AP_ATT_QCI = 3\<rparr>"

definition sample_lte_arrays :: lte_arrays where
  "sample_lte_arrays = \<lparr>la_message = replicate 3000 CHR ''x'', la_message_tmp = replicate 3000 CHR ''y'', la_ip_str = replicate 16 CHR ''z''\<rparr>"

definition sample_s1ap :: "(timeval \<times> s1ap_attribute) list" where
  "sample_s1ap = map (\<lambda>e. (\<lparr>tv_sec = 7, tv_usec = 0\<rparr>, \<lparr>sa_data = Some e, sa_len = 100\<rparr>))
     [\<lparr>e_id = 5, e_parent = 0, e_ipv4 = 0x0100000A, e_status = S1AP_ENTITY_STATUS_ATTACHING, e_data = S1AP_ENTITY_TYPE_ENODEB ''enb''\<rparr>,
      \<lparr>e_id = 5, e_parent = 2, e_ipv4 = 0x0100000A, e_status = S1AP_ENTITY_STATUS_ATTACHED, e_data = S1AP_ENTITY_TYPE_ENODEB ''enb''\<rparr>,
      \<lparr>e_id = 6, e_parent = 5, e_ipv4 = 0, e_status = S1AP_ENTITY_STATUS_ATTACHED, e_data = S1AP_ENTITY_TYPE_UE ''20893'' 1 2\<rparr>,
      \<lparr>e_id = 6, e_parent = 5, e_ipv4 = 0, e_status = S1AP_ENTITY_STATUS_LOST_SIGNAL, e_data = S1AP_ENTITY_TYPE_UE ''20893'' 1 2\<rparr>]"

theorem topology_replayed_witness:
  "\<exists>ms. (\<forall>out fs. got_all sample_lte sample_api sample_lte_arrays ([], [], []) 31 sample_s1ap out fs
      = write_messages sample_api ([], [], []) 31 ms out fs)
    \<and> links (fold apply_op (map (the \<circ> read_topo \<circ> cstr \<circ> snd) ms) \<lparr>elements = Map.empty, links = Map.empty\<rparr>) 5 = Some 2
    \<and> links (fold apply_op (map (the \<circ> read_topo \<circ> cstr \<circ> snd) ms) \<lparr>elements = Map.empty, links = Map.empty\<rparr>) 6 = None"
proof -
  let ?T = "\<lparr>elements = Map.empty, links = Map.empty\<rparr> :: topology"
  have ok: "lte_arrays_ok sample_lte_arrays" by (simp add: lte_arrays_ok_def sample_lte_arrays_def)
  have "list_all (\<lambda>p. attribute_ok (snd p)) sample_s1ap" by (simp add: sample_s1ap_def attribute_ok_def strlen_def cstr_def)
  moreover have "links (fold apply_op (concat (map (announced sample_lte \<circ> snd) sample_s1ap)) ?T) 5 = Some 2"
      "links (fold apply_op (concat (map (announced sample_lte \<circ> snd) sample_s1ap)) ?T) 6 = None"
    by (simp_all add: sample_s1ap_def announced_def entity_op_def)
  ultimately show ?thesis using topology_replayed [OF ok, of sample_s1ap sample_lte sample_api "([], [], [])" 31 ?T] by auto
qed

end
