(* ===== verification/Tcp_Rtt.thy ===== *)
theory Tcp_Rtt
  imports Tools
begin

text \<open>
  Round-trip times of TCP segments, \<^verbatim>\<open>src/src/modules/dpi/report/tcp_rtt.c\<close>. For each direction the segments that
  are not yet acknowledged are in a linked list in descending order of the acknowledgement number they expect; here a list is
  the sequence of its nodes. Sequence numbers are 32-bit words, their sums wrap.
\<close>

section \<open>Definitions\<close>

record pkt_node =
  seq_number :: u32
  data_len :: "16 word"
  timestamp :: timeval

text \<open>\<^verbatim>\<open>pkts[2]\<close>, uplink and downlink.\<close>

record tcp_rtt =
  pkts :: "pkt_node list list"

definition tcp_rtt_init :: tcp_rtt where
  "tcp_rtt_init = \<lparr>pkts = [[], []]\<rparr>"

definition expected_ack_number :: "pkt_node \<Rightarrow> u32" where
  "expected_ack_number p = seq_number p + ucast (data_len p) + 1"

definition is_more_recent :: "timeval \<Rightarrow> timeval \<Rightarrow> bool" where
  "is_more_recent old new \<longleftrightarrow> tv_sec old < tv_sec new \<or> tv_usec old < tv_usec new \<and> tv_sec old = tv_sec new"

text \<open>The search for the position and the insertion there, or the update of the timestamp of a retransmitted segment.\<close>

fun insert_node :: "pkt_node \<Rightarrow> pkt_node list \<Rightarrow> pkt_node list" where
  "insert_node new_node [] = [new_node]"
| "insert_node new_node (p # ps) =
     (if expected_ack_number p > expected_ack_number new_node then p # insert_node new_node ps
      else if expected_ack_number p = expected_ack_number new_node
      then (if is_more_recent (timestamp p) (timestamp new_node) then p\<lparr>timestamp := timestamp new_node\<rparr> else p) # ps
      else new_node # p # ps)"

text \<open>The loop that removes the acknowledged node and those it acknowledges in turn; the rest of the list and the number removed.\<close>

fun remove_acked :: "u32 \<Rightarrow> pkt_node list \<Rightarrow> pkt_node list \<times> nat" where
  "remove_acked ack_num [] = ([], 0)"
| "remove_acked ack_num (p # ps) =
     (if expected_ack_number p = ack_num
      then (let (rest, counter) = remove_acked (seq_number p) ps in (rest, counter + 1))
      else (p # ps, 0))"

definition not_acked_by :: "u32 \<Rightarrow> pkt_node \<Rightarrow> bool" where
  "not_acked_by ack_num p \<longleftrightarrow> expected_ack_number p \<noteq> ack_num"

text \<open>The result is the state, the counter and \<^verbatim>\<open>*usec\<close>; a direction other than 0 and 1 is outside \<^verbatim>\<open>pkts\<close>.\<close>

definition tcp_rtt_add_packet ::
  "u8 \<Rightarrow> u32 \<Rightarrow> u32 \<Rightarrow> 16 word \<Rightarrow> timeval \<Rightarrow> u64 \<Rightarrow> tcp_rtt \<Rightarrow> (tcp_rtt \<times> u32 \<times> u64) cres" where
  "tcp_rtt_add_packet direction ack_num seq_num len ts usec rtt =
     (let d = unat direction in
      if d \<ge> length (pkts rtt) then Inl OutOfBounds
      else let new_node = \<lparr>seq_number = seq_num, data_len = len, timestamp = ts\<rparr>;
               rtt = rtt\<lparr>pkts := (pkts rtt)[d := insert_node new_node (pkts rtt ! d)]\<rparr>
           in if ack_num = 0 then Inr (rtt, 0, usec)
              else let other_dir = (if direction = 0 then 1 else 0);
                       prevs = takeWhile (not_acked_by ack_num) (pkts rtt ! other_dir);
                       found = dropWhile (not_acked_by ack_num) (pkts rtt ! other_dir)
                   in case found of
                        [] \<Rightarrow> Inr (rtt, 0, usec)
                      | p # _ \<Rightarrow>
                          let (rest, counter) = remove_acked ack_num found
                          in Inr (rtt\<lparr>pkts := (pkts rtt)[other_dir := prevs @ rest]\<rparr>, of_nat counter,
                                  of_int (u_second_diff ts (timestamp p))))"

text \<open>\<^verbatim>\<open>_free_linked_list\<close> frees a node and then reads its \<^verbatim>\<open>next\<close>.\<close>

definition free_linked_list :: "pkt_node list \<Rightarrow> unit cres" where
  "free_linked_list node = (if node = [] then Inr () else Inl OutOfBounds)"

definition tcp_rtt_release :: "tcp_rtt option \<Rightarrow> unit cres" where
  "tcp_rtt_release rtt =
     (case rtt of None \<Rightarrow> Inr ()
      | Some rtt \<Rightarrow> bindE (free_linked_list (pkts rtt ! 0)) (\<lambda>_. free_linked_list (pkts rtt ! 1)))"

section \<open>Unacknowledged segments as a map\<close>

text \<open>What a list stands for: the time of the latest transmission for each acknowledgement number that is expected.\<close>

definition pending :: "pkt_node list \<Rightarrow> u32 \<rightharpoonup> timeval" where
  "pending ps = map_of (map (\<lambda>p. (expected_ack_number p, timestamp p)) ps)"

definition desc :: "pkt_node list \<Rightarrow> bool" where
  "desc ps \<longleftrightarrow> sorted_wrt (\<lambda>p q. expected_ack_number q < expected_ack_number p) ps"

definition latest :: "timeval option \<Rightarrow> timeval \<Rightarrow> timeval" where
  "latest old new = (case old of None \<Rightarrow> new | Some t \<Rightarrow> if is_more_recent t new then new else t)"

definition rtt_wf :: "tcp_rtt \<Rightarrow> bool" where
  "rtt_wf rtt \<longleftrightarrow> length (pkts rtt) = 2 \<and> (\<forall>ps \<in> set (pkts rtt). desc ps)"

lemma desc_simps [simp]:
  "desc []" "desc (p # ps) \<longleftrightarrow> (\<forall>q \<in> set ps. expected_ack_number q < expected_ack_number p) \<and> desc ps"
  "desc (ps @ qs) \<longleftrightarrow> desc ps \<and> desc qs \<and> (\<forall>p \<in> set ps. \<forall>q \<in> set qs. expected_ack_number q < expected_ack_number p)"
  by (auto simp: desc_def sorted_wrt_append)

lemma pending_simps [simp]:
  "pending [] = Map.empty" "pending (p # ps) = (pending ps)(expected_ack_number p \<mapsto> timestamp p)"
  "pending (ps @ qs) = pending qs ++ pending ps"
  by (simp_all add: pending_def)

lemma dom_pending: "dom (pending ps) = expected_ack_number ` set ps"
  by (auto simp: pending_def dom_map_of_conv_image_fst image_image)

lemma pending_outside: "a \<notin> expected_ack_number ` set ps \<Longrightarrow> pending ps a = None"
  using dom_pending [of ps] by blast

lemma expected_ack_timestamp [simp]: "expected_ack_number (p\<lparr>timestamp := t\<rparr>) = expected_ack_number p"
  by (simp add: expected_ack_number_def)

lemma insert_node_acks:
  "expected_ack_number ` set (insert_node n ps) = insert (expected_ack_number n) (expected_ack_number ` set ps)"
  by (induction n ps rule: insert_node.induct) auto

lemma desc_insert_node: "desc ps \<Longrightarrow> desc (insert_node n ps)"
proof (induction n ps rule: insert_node.induct)
  case (2 n p ps)
  have "\<forall>q \<in> set (insert_node n ps). expected_ack_number q < expected_ack_number p"
    if "expected_ack_number n < expected_ack_number p"
  proof -
    have "\<forall>a \<in> expected_ack_number ` set (insert_node n ps). a < expected_ack_number p"
      unfolding insert_node_acks using that 2(2) by auto
    then show ?thesis by auto
  qed
  then show ?case using 2 by force
qed simp

lemma pending_insert_node:
  "desc ps \<Longrightarrow> pending (insert_node n ps) = (pending ps)(expected_ack_number n \<mapsto> latest (pending ps (expected_ack_number n)) (timestamp n))"
proof (induction n ps rule: insert_node.induct)
  case (2 n p ps)
  have "pending ps (expected_ack_number n) = None" if "expected_ack_number p < expected_ack_number n"
    using that 2(2) by (intro pending_outside) force
  then show ?case using 2 by (auto simp: latest_def fun_upd_twist)
qed (simp add: latest_def)

lemma remove_acked_split: "remove_acked a ps = (rest, c) \<Longrightarrow> \<exists>gone. ps = gone @ rest \<and> length gone = c"
proof (induction a ps arbitrary: rest c rule: remove_acked.induct)
  case (2 a p ps)
  show ?case
  proof (cases "expected_ack_number p = a")
    case True
    obtain r k where r: "remove_acked (seq_number p) ps = (r, k)" by fastforce
    obtain gone where "ps = gone @ r" "length gone = k" using 2(1) [OF True r] by blast
    then show ?thesis using 2(2) True r by (auto intro!: exI [of _ "p # gone"])
  qed (use 2 in auto)
qed simp

text \<open>The part of the list that is removed begins with the node that is acknowledged.\<close>

lemma acked_split:
  assumes "dropWhile (not_acked_by a) ps = p # found" "remove_acked a (p # found) = (rest, c)"
  obtains gone where "ps = takeWhile (not_acked_by a) ps @ (p # gone) @ rest" "expected_ack_number p = a" "c = Suc (length gone)"
proof -
  have p: "expected_ack_number p = a"
    using hd_dropWhile [of "not_acked_by a" ps] assms(1) by (simp add: not_acked_by_def)
  obtain r k where r: "remove_acked (seq_number p) found = (r, k)" by fastforce
  then have rk: "rest = r" "c = Suc k" using assms(2) p by auto
  obtain gone where g: "found = gone @ r" "length gone = k" using remove_acked_split [OF r] by blast
  have "ps = takeWhile (not_acked_by a) ps @ p # found" using assms(1) takeWhile_dropWhile_id [of "not_acked_by a" ps] by simp
  then show thesis using that [of gone] p g rk by simp
qed

lemma desc_distinct: "desc ps \<Longrightarrow> distinct (map expected_ack_number ps)"
  by (induction ps) auto

lemma pending_removed:
  assumes "desc (qs @ gone @ rest)"
  shows "pending (qs @ rest) = (pending (qs @ gone @ rest)) |` (- expected_ack_number ` set gone)"
    and "card (dom (pending (qs @ gone @ rest)) - dom (pending (qs @ rest))) = length gone"
proof -
  have d: "expected_ack_number ` set gone \<inter> expected_ack_number ` set (qs @ rest) = {}"
    using desc_distinct [OF assms] by auto
  show "pending (qs @ rest) = (pending (qs @ gone @ rest)) |` (- expected_ack_number ` set gone)"
  proof
    fix a
    show "pending (qs @ rest) a = ((pending (qs @ gone @ rest)) |` (- expected_ack_number ` set gone)) a"
    proof (cases "a \<in> expected_ack_number ` set gone")
      case True
      then have "a \<notin> expected_ack_number ` set (qs @ rest)" using d by blast
      then show ?thesis using True pending_outside [of a "qs @ rest"] by simp
    next
      case False
      then show ?thesis using pending_outside [of a gone] by (simp add: map_add_def split: option.split)
    qed
  qed
  have "dom (pending (qs @ gone @ rest)) - dom (pending (qs @ rest)) = expected_ack_number ` set gone"
    using d unfolding dom_pending by auto
  moreover have "card (expected_ack_number ` set gone) = length gone"
    using desc_distinct [OF assms] by (simp add: card_image distinct_map distinct_card)
  ultimately show "card (dom (pending (qs @ gone @ rest)) - dom (pending (qs @ rest))) = length gone" by simp
qed

lemma acked_rest:
  assumes "desc ps" "dropWhile (not_acked_by a) ps = p # found" "remove_acked a (p # found) = (rest, c)"
    and new: "new = takeWhile (not_acked_by a) ps @ rest"
  shows "desc new" "pending ps a = Some (timestamp p)" "pending new a = None" "pending new \<subseteq>\<^sub>m pending ps"
    "c = card (dom (pending ps) - dom (pending new))"
proof -
  obtain gone where g: "ps = takeWhile (not_acked_by a) ps @ (p # gone) @ rest" "expected_ack_number p = a" "c = Suc (length gone)"
    using acked_split [OF assms(2,3)] by blast
  define qs where "qs = takeWhile (not_acked_by a) ps"
  have ps: "ps = qs @ (p # gone) @ rest" using g(1) unfolding qs_def [symmetric] .
  have d: "desc (qs @ (p # gone) @ rest)" using assms(1) ps by simp
  have nw: "new = qs @ rest" using new qs_def by simp
  note r = pending_removed [OF d]
  show "desc new" using d by (simp add: nw)
  have "a \<notin> expected_ack_number ` set qs"
    using set_takeWhileD [of _ "not_acked_by a" ps] by (auto simp: qs_def not_acked_by_def)
  then show "pending ps a = Some (timestamp p)" using g(2) pending_outside [of a qs] by (simp add: ps map_add_def)
  show "pending new a = None" using r(1) g(2) by (simp add: nw)
  show "pending new \<subseteq>\<^sub>m pending ps" unfolding nw ps r(1) by (auto simp: map_le_def restrict_map_def)
  show "c = card (dom (pending ps) - dom (pending new))" using r(2) g(3) unfolding nw ps by simp
qed

lemma dropWhile_pending: "dropWhile (not_acked_by a) ps = [] \<longleftrightarrow> pending ps a = None"
proof -
  have "dropWhile (not_acked_by a) ps = [] \<longleftrightarrow> a \<notin> expected_ack_number ` set ps" by (auto simp: not_acked_by_def)
  also have "\<dots> \<longleftrightarrow> pending ps a = None" unfolding dom_pending [symmetric] by (rule domIff [THEN arg_cong [where f = Not], simplified])
  finally show ?thesis .
qed

text \<open>The two directions.\<close>

lemma direction_cases:
  assumes "(direction :: u8) < 2"
  obtains "direction = 0" | "direction = 1"
proof -
  have "unat direction < 2" using assms by (simp add: word_less_nat_alt)
  then have "direction = 0 \<or> direction = 1" by (auto simp: less_2_cases_iff word_unat_eq_iff)
  then show thesis using that by blast
qed

text \<open>Releasing the structure while a segment is not acknowledged reads freed memory.\<close>

lemma release_reads_freed:
  assumes "length (pkts rtt) = 2"
  shows "tcp_rtt_release (Some rtt) = (if concat (pkts rtt) = [] then Inr () else Inl OutOfBounds)"
proof -
  obtain p0 p1 where "pkts rtt = [p0, p1]" using assms by (auto simp: numeral_2_eq_2 length_Suc_conv)
  then show ?thesis by (auto simp: tcp_rtt_release_def free_linked_list_def)
qed

text \<open>One segment of ten bytes from the server is not yet acknowledged.\<close>

definition sample_rtt :: tcp_rtt where
  "sample_rtt = \<lparr>pkts = [[], [\<lparr>seq_number = 100, data_len = 10, timestamp = \<lparr>tv_sec = 1, tv_usec = 0\<rparr>\<rparr>]]\<rparr>"

section \<open>Properties\<close>

text \<open>
  C36: the two lists implement a map of unacknowledged segments. From a well-formed state a packet is always
  accepted and the state stays well-formed. The segment is recorded with the time of its latest
  transmission. An acknowledgement of a recorded segment yields the time since that transmission, forgets the segment and returns
  how many segments were forgotten; any other acknowledgement changes nothing in the opposite direction.
\<close>

theorem rtt_refines_pending:
  assumes "rtt_wf rtt" "direction < 2" "d = unat direction" "b = 1 - d" "a = seq_num + ucast len + 1"
  shows "\<exists>rtt' c u. tcp_rtt_add_packet direction ack_num seq_num len ts usec rtt = Inr (rtt', c, u) \<and> rtt_wf rtt'
     \<and> pending (pkts rtt' ! d) = (pending (pkts rtt ! d))(a \<mapsto> latest (pending (pkts rtt ! d) a) ts)
     \<and> (case if ack_num = 0 then None else pending (pkts rtt ! b) ack_num of
          None \<Rightarrow> c = 0 \<and> u = usec \<and> pkts rtt' ! b = pkts rtt ! b
        | Some t \<Rightarrow> u = of_int (u_second_diff ts t)
            \<and> c = of_nat (card (dom (pending (pkts rtt ! b)) - dom (pending (pkts rtt' ! b))))
            \<and> pending (pkts rtt' ! b) ack_num = None \<and> pending (pkts rtt' ! b) \<subseteq>\<^sub>m pending (pkts rtt ! b))"
proof -
  define n where "n = \<lparr>seq_number = seq_num, data_len = len, timestamp = ts\<rparr>"
  have n: "expected_ack_number n = a" "timestamp n = ts" using assms(5) by (simp_all add: n_def expected_ack_number_def)
  obtain p0 p1 where rtt: "pkts rtt = [p0, p1]" and ds: "desc p0" "desc p1"
    using assms(1) by (auto simp: rtt_wf_def numeral_2_eq_2 length_Suc_conv)
  have d: "d < 2" "b < 2" "b \<noteq> d" "(if direction = 0 then 1 else 0) = b" "length (pkts rtt) = 2"
    using assms(2,3,4) rtt by (auto elim: direction_cases)
  define L where "L = pkts rtt ! d"
  define M where "M = pkts rtt ! b"
  have LM: "desc L" "desc M" using d rtt ds by (auto simp: L_def M_def nth_Cons split: nat.splits)
  let ?r = "rtt\<lparr>pkts := (pkts rtt)[d := insert_node n L]\<rparr>"
  have wf: "rtt_wf (rtt\<lparr>pkts := (pkts rtt)[d := insert_node n L, b := M']\<rparr>)" if "desc M'" for M'
  proof -
    have "set ((pkts rtt)[d := insert_node n L, b := M']) \<subseteq> insert M' (insert (insert_node n L) (set (pkts rtt)))"
      by (meson insert_mono order_trans set_update_subset_insert)
    then show ?thesis using that assms(1) desc_insert_node [OF LM(1), of n] by (auto simp: rtt_wf_def)
  qed
  have b: "pkts ?r ! b = M" using d by (simp add: M_def)
  have same: "?r = rtt\<lparr>pkts := (pkts rtt)[d := insert_node n L, b := M]\<rparr>"
    using d list_update_id [of "(pkts rtt)[d := insert_node n L]" b] by (simp add: M_def)
  have own: "pending ((pkts rtt)[d := insert_node n L, b := M'] ! d)
      = (pending (pkts rtt ! d))(a \<mapsto> latest (pending (pkts rtt ! d) a) ts)" for M'
    using pending_insert_node [OF LM(1), of n] d n by (simp add: L_def)
  have in_range: "\<not> d \<ge> length (pkts rtt)" using d by simp
  have step: "tcp_rtt_add_packet direction ack_num seq_num len ts usec rtt
      = (if ack_num = 0 then Inr (?r, 0, usec) else case dropWhile (not_acked_by ack_num) M of [] \<Rightarrow> Inr (?r, 0, usec)
         | p # _ \<Rightarrow> case remove_acked ack_num (dropWhile (not_acked_by ack_num) M) of (rest, counter) \<Rightarrow>
             Inr (?r\<lparr>pkts := (pkts ?r)[b := takeWhile (not_acked_by ack_num) M @ rest]\<rparr>, of_nat counter,
                  of_int (u_second_diff ts (timestamp p))))"
    unfolding tcp_rtt_add_packet_def Let_def assms(3) [symmetric] n_def [symmetric] L_def [symmetric] d(4) b
    using in_range by simp
  show ?thesis
  proof (cases "ack_num = 0 \<or> pending M ack_num = None")
    case True
    then have "ack_num = 0 \<or> dropWhile (not_acked_by ack_num) M = []" unfolding dropWhile_pending .
    then have res: "tcp_rtt_add_packet direction ack_num seq_num len ts usec rtt = Inr (?r, 0, usec)"
      unfolding step by (cases "ack_num = 0") (simp_all del: dropWhile_eq_Nil_conv)
    have "(if ack_num = 0 then None else pending (pkts rtt ! b) ack_num) = None" using True M_def by auto
    moreover have "rtt_wf ?r" using wf [OF LM(2)] same by simp
    moreover have "pending (pkts ?r ! d) = (pending (pkts rtt ! d))(a \<mapsto> latest (pending (pkts rtt ! d) a) ts)"
      using own [of M] d by simp
    ultimately show ?thesis unfolding res using b M_def by simp
  next
    case False
    then obtain p found where f: "dropWhile (not_acked_by ack_num) M = p # found"
      using dropWhile_pending [of ack_num M] by (cases "dropWhile (not_acked_by ack_num) M") auto
    obtain rest c where r: "remove_acked ack_num (p # found) = (rest, c)" by fastforce
    let ?M = "takeWhile (not_acked_by ack_num) M @ rest"
    note acked = acked_rest [OF LM(2) f r refl]
    have res: "tcp_rtt_add_packet direction ack_num seq_num len ts usec rtt
        = Inr (rtt\<lparr>pkts := (pkts rtt)[d := insert_node n L, b := ?M]\<rparr>, of_nat c, of_int (u_second_diff ts (timestamp p)))"
      unfolding step f using False r by simp
    show ?thesis
      unfolding res
      using False wf [OF acked(1)] own [of ?M] acked d by (auto simp: M_def [symmetric])
  qed
qed

theorem rtt_refines_pending_witness:
  "\<exists>rtt' c u. tcp_rtt_add_packet 0 111 500 0 \<lparr>tv_sec = 1, tv_usec = 250\<rparr> 0 sample_rtt = Inr (rtt', c, u) \<and> rtt_wf rtt'
     \<and> u = 250 \<and> pending (pkts rtt' ! 1) 111 = None"
proof -
  have "rtt_wf sample_rtt" by (simp add: rtt_wf_def sample_rtt_def)
  moreover have "pending (pkts sample_rtt ! 1) 111 = Some \<lparr>tv_sec = 1, tv_usec = 0\<rparr>"
    by (simp add: sample_rtt_def expected_ack_number_def)
  ultimately show ?thesis
    using rtt_refines_pending [of sample_rtt 0 0 1 501 500 0 111 "\<lparr>tv_sec = 1, tv_usec = 250\<rparr>" 0]
    by (auto simp: u_second_diff_def)
qed

end
