(* ===== verification/Session_Apps.thy ===== *)
theory Session_Apps
  imports Dpi_Tool Tcp_Rtt Output
begin

text \<open>
  The state of a session report (\<^verbatim>\<open>src/src/modules/dpi/report/session_report.h\<close>) and its parts for the protocols above
  TCP and UDP: \<^verbatim>\<open>session_report_web.c\<close>, \<^verbatim>\<open>session_report_ssl.c\<close>, \<^verbatim>\<open>session_report_rtp.c\<close> and \<^verbatim>\<open>session_report_gtp.c\<close>.
  The handlers of \<^verbatim>\<open>session_report_ftp.c\<close> are never registered, so no session has FTP statistics.

  What MMT-DPI knows about a session is an input (\<open>dpi_session\<close>), as are the texts the C library prints for IPv6
  addresses and for quotients (\<open>dpi_env\<close>). The code is that with the QOS module and without SIMPLE_REPORT.
\<close>

section \<open>State\<close>

record dpi_env =
  inet_ntop6 :: "u8 list \<Rightarrow> string"
  fmt3 :: "u32 \<Rightarrow> u32 \<Rightarrow> string"
  application_class :: "u32 \<Rightarrow> u64"
  PROTO_TCP :: u32

record dpi_session =
  ul_cap_packet_count :: u64
  dl_cap_packet_count :: u64
  ul_cap_byte_count :: u64
  dl_cap_byte_count :: u64
  ul_data_byte_count :: u64
  dl_data_byte_count :: u64
  d_hierarchy :: proto_hierarchy
  d_path_ul :: proto_hierarchy
  d_path_dl :: proto_hierarchy
  d_protocol_index :: nat
  d_last_activity_time :: timeval
  d_init_time :: timeval
  d_rtt :: timeval
  d_session_id :: u64
  d_active_sessions :: u64
  d_content_cdn :: bool
  d_content_class :: u16
  d_last_direction :: bool

record web_stat =
  w_first_request_time :: timeval
  w_request_time :: timeval
  w_response_time :: timeval
  xcdn_seen :: bool
  request_nb :: u8
  transaction_indicator :: u8
  mime_type :: string
  w_hostname :: string
  referer :: string
  w_method :: string
  uri :: string
  response :: string
  content_len :: string

record ssl_stat =
  ssl_hostname :: string

record rtp_stat =
  packets_nb :: u32
  jitter :: u32
  nb_order_error :: u32
  nb_lost :: u32
  nb_loss_bursts :: u32

record ip_addr =
  a_ipv4 :: u32
  a_ipv6 :: "u8 list"
  ip_string :: string

record gtp_stat =
  teids :: "u32 list"
  ip_version :: u8
  g_ip_src :: ip_addr
  g_ip_dst :: ip_addr

text \<open>The union of pointers; the constructor says what the pointer refers to.\<close>

datatype apps = App_null | App_web web_stat | App_ssl ssl_stat | App_rtp rtp_stat | App_gtp gtp_stat

datatype stat_type = APP_IP | APP_WEB | APP_SSL | APP_RTP | APP_FTP | APP_GTP

record flow_stat_data =
  upload :: u64
  download :: u64

record rtt_stat =
  rtt_sum :: "u64 list"
  rtt_max :: "u64 list"
  rtt_min :: "u64 list"
  rtt_counter :: "u64 list"

record session_stat =
  ip_src :: ip_addr
  ip_dst :: ip_addr
  port_src :: u16
  port_dst :: u16
  mac_src :: "u8 list"
  mac_dst :: "u8 list"
  volumes :: flow_stat_data
  s_payload :: flow_stat_data
  s_packets :: flow_stat_data
  content_class :: u16
  app_type :: stat_type
  s_apps :: apps
  s_rtt :: rtt_stat
  s_tcp_rtt :: tcp_rtt
  retransmission :: "u64 list"
  tcp_established_ts :: timeval
  latest_tcp_data_pkt_ts :: timeval
  is_printed_handshake_time :: bool
  is_printed_app_response_time :: bool

abbreviation zero_ts :: timeval where
  "zero_ts \<equiv> \<lparr>tv_sec = 0, tv_usec = 0\<rparr>"

definition has_string :: "string \<Rightarrow> bool" where
  "has_string x \<longleftrightarrow> x ! 0 \<noteq> NUL"

abbreviation reset_string :: "string \<Rightarrow> string" where
  "reset_string x \<equiv> x[0 := NUL]"

section \<open>Web\<close>

definition reset_web :: "web_stat \<Rightarrow> web_stat" where
  "reset_web web = web\<lparr>mime_type := reset_string (mime_type web), w_hostname := reset_string (w_hostname web),
     referer := reset_string (referer web), w_method := reset_string (w_method web), uri := reset_string (uri web),
     response := reset_string (response web), content_len := reset_string (content_len web),
     w_response_time := zero_ts, w_request_time := zero_ts, w_first_request_time := zero_ts,
     xcdn_seen := False, request_nb := 0, transaction_indicator := 0\<rparr>"

text \<open>
  \<^verbatim>\<open>_get_packet_session\<close> of the web report. \<open>fresh\<close> is the uninitialised memory of \<^verbatim>\<open>mmt_alloc\<close>; a pointer to other
  statistics would be used at a wrong type.
\<close>

definition get_packet_session_web :: "web_stat \<Rightarrow> session_stat option \<Rightarrow> (session_stat \<times> web_stat) option cres" where
  "get_packet_session_web fresh stat =
     (case stat of None \<Rightarrow> Inr None
      | Some s \<Rightarrow>
          if app_type s \<noteq> APP_IP \<and> app_type s \<noteq> APP_WEB then Inl Exited
          else case s_apps s of
                 App_null \<Rightarrow> Inr (Some (s\<lparr>s_apps := App_web (reset_web fresh), app_type := APP_WEB\<rparr>, reset_web fresh))
               | App_web web \<Rightarrow> Inr (Some (s\<lparr>app_type := APP_WEB\<rparr>, web))
               | _ \<Rightarrow> Inl OutOfBounds)"

text \<open>The common shape of the handlers: they do nothing without statistics and update the web part otherwise.\<close>

definition on_web :: "web_stat \<Rightarrow> (web_stat \<Rightarrow> web_stat cres) \<Rightarrow> session_stat option \<Rightarrow> session_stat option cres" where
  "on_web fresh f stat =
     bindE (get_packet_session_web fresh stat) (\<lambda>r.
       case r of None \<Rightarrow> Inr stat
       | Some (s, web) \<Rightarrow> bindE (f web) (\<lambda>web. Inr (Some (s\<lparr>s_apps := App_web web\<rparr>))))"

definition web_response_handle :: "timeval \<Rightarrow> mmt_header_line option \<Rightarrow> web_stat \<Rightarrow> session_stat option \<Rightarrow> session_stat option cres" where
  "web_response_handle ts data fresh =
     on_web fresh (\<lambda>web.
       bindE (dpi_copy_string_value (response web) 20 data) (\<lambda>(a, _).
         Inr (web\<lparr>w_response_time := ts, transaction_indicator := 0, response := a\<rparr>)))"

definition web_referer_handle :: "mmt_header_line option \<Rightarrow> web_stat \<Rightarrow> session_stat option \<Rightarrow> session_stat option cres" where
  "web_referer_handle data fresh =
     on_web fresh (\<lambda>web. bindE (dpi_copy_string_value (referer web) 255 data) (\<lambda>(a, _). Inr (web\<lparr>referer := a\<rparr>)))"

definition web_uri_handle :: "mmt_header_line option \<Rightarrow> web_stat \<Rightarrow> session_stat option \<Rightarrow> session_stat option cres" where
  "web_uri_handle data fresh =
     on_web fresh (\<lambda>web. bindE (dpi_copy_string_value (uri web) 1024 data) (\<lambda>(a, _). Inr (web\<lparr>uri := a\<rparr>)))"

definition web_content_len_handle :: "mmt_header_line option \<Rightarrow> web_stat \<Rightarrow> session_stat option \<Rightarrow> session_stat option cres" where
  "web_content_len_handle data fresh =
     on_web fresh (\<lambda>web. bindE (dpi_copy_string_value (content_len web) 20 data) (\<lambda>(a, _). Inr (web\<lparr>content_len := a\<rparr>)))"

definition web_host_handle :: "mmt_header_line option \<Rightarrow> web_stat \<Rightarrow> session_stat option \<Rightarrow> session_stat option cres" where
  "web_host_handle data fresh =
     on_web fresh (\<lambda>web.
       if has_string (w_hostname web) then Inr web
       else bindE (dpi_copy_string_value (w_hostname web) 64 data) (\<lambda>(a, _). Inr (web\<lparr>w_hostname := a\<rparr>)))"

definition content_type_handle :: "mmt_header_line option \<Rightarrow> web_stat \<Rightarrow> session_stat option \<Rightarrow> session_stat option cres" where
  "content_type_handle data fresh =
     on_web fresh (\<lambda>web.
       if has_string (mime_type web) then Inr web
       else bindE (dpi_copy_string_value (mime_type web) 127 data) (\<lambda>(a, _). Inr (web\<lparr>mime_type := a\<rparr>)))"

definition web_xcdn_seen_handle :: "bool \<Rightarrow> web_stat \<Rightarrow> session_stat option \<Rightarrow> session_stat option cres" where
  "web_xcdn_seen_handle data fresh = on_web fresh (\<lambda>web. Inr (web\<lparr>xcdn_seen := data\<rparr>))"

definition web_interval :: "timeval \<Rightarrow> web_stat \<Rightarrow> int" where
  "web_interval since web =
     max 0 (if tv_sec (w_response_time web) \<noteq> 0 \<and> tv_sec (w_request_time web) \<noteq> 0
            then u_second_diff (w_response_time web) since else 0)"

text \<open>The print functions work on the rest \<open>message\<close> of the message; the result is the new rest, the length and the statistics.\<close>

definition print_web_report :: "string \<Rightarrow> nat \<Rightarrow> dpi_session \<Rightarrow> session_stat \<Rightarrow> (string \<times> nat \<times> session_stat) cres" where
  "print_web_report message message_size dpi s =
     (case s_apps s of
        App_web web \<Rightarrow>
          if app_type s \<noteq> APP_WEB then Inr (message, 0, s)
          else let cdn_flag = (if xcdn_seen web then 1 else if d_content_cdn dpi then 2 else 0 :: u64)
               in bindE (STRING_BUILDER_WITH_SEPARATOR 0 message message_size '',''
                    [F_INT (of_int (web_interval (w_request_time web) web)), F_INT (ucast (request_nb web)),
                     F_INT (of_int (web_interval (w_first_request_time web) web)), F_STR (w_hostname web),
                     F_STR (mime_type web), F_STR (referer web), F_INT cdn_flag, F_STR (uri web), F_STR (w_method web),
                     F_STR (response web), F_STR (content_len web), F_INT (ucast (transaction_indicator web))]) (\<lambda>(message, valid).
                  Inr (message, valid, s\<lparr>s_apps := App_web (web\<lparr>w_response_time := zero_ts,
                         transaction_indicator := transaction_indicator web + 1\<rparr>)\<rparr>))
      | _ \<Rightarrow> Inr (message, 0, s))"

section \<open>SSL\<close>

definition ssl_server_name_handle :: "dpi_session \<Rightarrow> mmt_header_line option \<Rightarrow> ssl_stat \<Rightarrow> session_stat option \<Rightarrow> session_stat option cres" where
  "ssl_server_name_handle dpi data fresh stat =
     (case stat of None \<Rightarrow> Inr None
      | Some s \<Rightarrow>
          if app_type s \<noteq> APP_IP \<and> app_type s \<noteq> APP_SSL then Inl Aborted
          else bindE (case s_apps s of
                 App_null \<Rightarrow> let ssl = fresh\<lparr>ssl_hostname := reset_string (ssl_hostname fresh)\<rparr>
                             in Inr (s\<lparr>s_apps := App_ssl ssl, app_type := APP_SSL\<rparr>, ssl)
               | App_ssl ssl \<Rightarrow> Inr (s, ssl)
               | _ \<Rightarrow> Inl OutOfBounds) (\<lambda>(s, ssl).
               case data of None \<Rightarrow> Inr (Some s)
               | Some val \<Rightarrow>
                   if hl_len val = 0 then Inr (Some s)
                   else bindE (dpi_copy_string_value (ssl_hostname ssl) 64 data) (\<lambda>(a, _).
                     Inr (Some (s\<lparr>s_apps := App_ssl (ssl\<lparr>ssl_hostname := a\<rparr>), content_class := d_content_class dpi\<rparr>)))))"

definition print_ssl_report :: "string \<Rightarrow> nat \<Rightarrow> dpi_session \<Rightarrow> session_stat \<Rightarrow> (string \<times> nat \<times> session_stat) cres" where
  "print_ssl_report message message_size dpi s =
     (case s_apps s of
        App_ssl ssl \<Rightarrow>
          if app_type s \<noteq> APP_SSL then Inr (message, 0, s)
          else bindE (STRING_BUILDER 0 message message_size
                  [F_STR (ssl_hostname ssl), F_CHAR CHR '','', F_INT (if d_content_cdn dpi then 2 else 0)]) (\<lambda>(message, ret).
               Inr (message, ret, s))
      | _ \<Rightarrow> Inr (message, 0, s))"

section \<open>RTP\<close>

definition reset_rtp :: "rtp_stat \<Rightarrow> rtp_stat" where
  "reset_rtp rtp = rtp\<lparr>jitter := 0, nb_lost := 0, nb_loss_bursts := 0, nb_order_error := 0, packets_nb := 0\<rparr>"

definition get_packet_session_rtp :: "rtp_stat \<Rightarrow> session_stat option \<Rightarrow> (session_stat \<times> rtp_stat) option cres" where
  "get_packet_session_rtp fresh stat =
     (case stat of None \<Rightarrow> Inr None
      | Some s \<Rightarrow>
          if app_type s \<noteq> APP_IP \<and> app_type s \<noteq> APP_RTP then Inl Aborted
          else case s_apps s of
                 App_null \<Rightarrow> Inr (Some (s\<lparr>s_apps := App_rtp (reset_rtp fresh), app_type := APP_RTP\<rparr>, reset_rtp fresh))
               | App_rtp rtp \<Rightarrow> Inr (Some (s\<lparr>app_type := APP_RTP\<rparr>, rtp))
               | _ \<Rightarrow> Inl OutOfBounds)"

definition on_rtp :: "rtp_stat \<Rightarrow> (rtp_stat \<Rightarrow> rtp_stat) \<Rightarrow> session_stat option \<Rightarrow> session_stat option cres" where
  "on_rtp fresh f stat =
     bindE (get_packet_session_rtp fresh stat) (\<lambda>r.
       case r of None \<Rightarrow> Inr stat | Some (s, rtp) \<Rightarrow> Inr (Some (s\<lparr>s_apps := App_rtp (f rtp)\<rparr>)))"

definition rtp_version_handle :: "rtp_stat \<Rightarrow> session_stat option \<Rightarrow> session_stat option cres" where
  "rtp_version_handle fresh = on_rtp fresh (\<lambda>rtp. rtp\<lparr>packets_nb := packets_nb rtp + 1\<rparr>)"

definition rtp_jitter_handle :: "u32 option \<Rightarrow> rtp_stat \<Rightarrow> session_stat option \<Rightarrow> session_stat option cres" where
  "rtp_jitter_handle data fresh = on_rtp fresh (\<lambda>rtp.
     case data of None \<Rightarrow> rtp | Some j \<Rightarrow> if j > jitter rtp then rtp\<lparr>jitter := j\<rparr> else rtp)"

definition rtp_loss_handle :: "u16 option \<Rightarrow> rtp_stat \<Rightarrow> session_stat option \<Rightarrow> session_stat option cres" where
  "rtp_loss_handle data fresh = on_rtp fresh (\<lambda>rtp.
     case data of None \<Rightarrow> rtp | Some l \<Rightarrow> rtp\<lparr>nb_lost := nb_lost rtp + ucast l\<rparr>)"

definition rtp_error_order_handle :: "u16 option \<Rightarrow> rtp_stat \<Rightarrow> session_stat option \<Rightarrow> session_stat option cres" where
  "rtp_error_order_handle data fresh = on_rtp fresh (\<lambda>rtp.
     case data of None \<Rightarrow> rtp | Some e \<Rightarrow> rtp\<lparr>nb_order_error := nb_order_error rtp + ucast e\<rparr>)"

definition rtp_burst_loss_handle :: "u16 option \<Rightarrow> rtp_stat \<Rightarrow> session_stat option \<Rightarrow> session_stat option cres" where
  "rtp_burst_loss_handle data fresh = on_rtp fresh (\<lambda>rtp.
     case data of None \<Rightarrow> rtp | Some b \<Rightarrow> rtp\<lparr>nb_loss_bursts := nb_loss_bursts rtp + 1\<rparr>)"

text \<open>\<^verbatim>\<open>snprintf\<close> cuts the text to the room but returns its full length.\<close>

definition snprintf :: "string \<Rightarrow> nat \<Rightarrow> string \<Rightarrow> append_res" where
  "snprintf dst size_n text_s =
     (if size_n = 0 then Inr (dst, length text_s)
      else bindE (memcpy dst 0 (take (size_n - 1) text_s @ [NUL])) (\<lambda>dst. Inr (dst, length text_s)))"

definition print_rtp_report :: "dpi_env \<Rightarrow> string \<Rightarrow> nat \<Rightarrow> session_stat \<Rightarrow> (string \<times> nat \<times> session_stat) cres" where
  "print_rtp_report E message message_size s =
     (case s_apps s of
        App_rtp rtp \<Rightarrow>
          if app_type s \<noteq> APP_RTP then Inr (message, 0, s)
          else let loss_rate = fmt3 E (nb_lost rtp) (nb_lost rtp + packets_nb rtp + 1);
                   loss_burstiness = (if nb_loss_bursts rtp \<noteq> 0 then fmt3 E (nb_lost rtp) (nb_loss_bursts rtp) else ''0.000'');
                   order_error = fmt3 E (nb_order_error rtp) (packets_nb rtp + 1)
               in bindE (snprintf message message_size (loss_rate @ '','' @ loss_burstiness @ '','' @
                           dec (unat (jitter rtp)) @ '','' @ order_error)) (\<lambda>(message, ret).
                  Inr (message, ret, s\<lparr>s_apps := App_rtp (reset_rtp rtp)\<rparr>))
      | _ \<Rightarrow> Inr (message, 0, s))"

section \<open>GTP\<close>

definition MAX_NB_TEID :: nat where
  "MAX_NB_TEID = 6"

text \<open>Attributes of a packet in a GTP tunnel; \<open>p_ip_after_gtp\<close> is the test that the session is on the IP layer after GTP.\<close>

record gtp_packet =
  p_ip_after_gtp :: bool
  p_ip_src :: "u32 option"
  p_ip_dst :: "u32 option"
  p_ip6_src :: "u8 list option"
  p_ip6_dst :: "u8 list option"
  p_teid :: "u32 option"

definition zero_addr :: ip_addr where
  "zero_addr = \<lparr>a_ipv4 = 0, a_ipv6 = replicate 16 0, ip_string = replicate 46 NUL\<rparr>"

definition zero_gtp :: gtp_stat where
  "zero_gtp = \<lparr>teids = replicate MAX_NB_TEID 0, ip_version = 0, g_ip_src = zero_addr, g_ip_dst = zero_addr\<rparr>"

text \<open>\<^verbatim>\<open>_get_gtp_session_data\<close>; the pointer is not compared with the type of the statistics.\<close>

definition get_gtp_session_data :: "session_stat option \<Rightarrow> (session_stat \<times> gtp_stat) option cres" where
  "get_gtp_session_data stat =
     (case stat of None \<Rightarrow> Inr None
      | Some s \<Rightarrow>
          case s_apps s of
            App_null \<Rightarrow> Inr (Some (s\<lparr>app_type := APP_GTP, s_apps := App_gtp zero_gtp\<rparr>, zero_gtp))
          | App_gtp gtp \<Rightarrow> Inr (Some (s, gtp))
          | _ \<Rightarrow> Inl OutOfBounds)"

definition gtp_update_ip :: "gtp_packet \<Rightarrow> gtp_stat \<Rightarrow> gtp_stat cres" where
  "gtp_update_ip pkt gtp =
     (if ip_version gtp \<noteq> 0 then Inr gtp
      else case p_ip_src pkt of
             Some src \<Rightarrow>
               bindE (deref (p_ip_dst pkt)) (\<lambda>dst.
                 Inr (gtp\<lparr>ip_version := 4, g_ip_src := (g_ip_src gtp)\<lparr>a_ipv4 := src\<rparr>, g_ip_dst := (g_ip_dst gtp)\<lparr>a_ipv4 := dst\<rparr>\<rparr>))
           | None \<Rightarrow>
               bindE (deref (p_ip6_src pkt)) (\<lambda>src.
               bindE (deref (p_ip6_dst pkt)) (\<lambda>dst.
                 Inr (gtp\<lparr>ip_version := 6, g_ip_src := (g_ip_src gtp)\<lparr>a_ipv6 := src\<rparr>, g_ip_dst := (g_ip_dst gtp)\<lparr>a_ipv6 := dst\<rparr>\<rparr>))))"

text \<open>The loop over the array of tunnel identifiers.\<close>

fun add_teid :: "u32 \<Rightarrow> u32 list \<Rightarrow> u32 list" where
  "add_teid teid [] = []"
| "add_teid teid (t # ts) = (if t = teid then t # ts else if t = 0 then teid # ts else t # add_teid teid ts)"

definition gtp_update_teid :: "gtp_packet \<Rightarrow> gtp_stat \<Rightarrow> gtp_stat" where
  "gtp_update_teid pkt gtp = (case p_teid pkt of None \<Rightarrow> gtp | Some teid \<Rightarrow> gtp\<lparr>teids := add_teid teid (teids gtp)\<rparr>)"

definition gtp_ip_src_handle :: "gtp_packet \<Rightarrow> session_stat option \<Rightarrow> session_stat option cres" where
  "gtp_ip_src_handle pkt stat =
     (if \<not> p_ip_after_gtp pkt then Inr stat
      else bindE (get_gtp_session_data stat) (\<lambda>r.
           bindE (deref r) (\<lambda>(s, gtp).
           bindE (gtp_update_ip pkt gtp) (\<lambda>gtp.
             Inr (Some (s\<lparr>s_apps := App_gtp (gtp_update_teid pkt gtp)\<rparr>))))))"

definition print_ip :: "dpi_env \<Rightarrow> u8 \<Rightarrow> ip_addr \<Rightarrow> string \<Rightarrow> string cres" where
  "print_ip E version addr buf =
     (if version = 4 then bindE (inet_ntop4 (a_ipv4 addr) buf) (\<lambda>(buf, _). Inr buf)
      else if version = 6 then memcpy buf 0 (inet_ntop6 E (a_ipv6 addr) @ [NUL])
      else store buf 0 NUL)"

fun print_teids :: "u32 list \<Rightarrow> bool \<Rightarrow> nat \<Rightarrow> string \<Rightarrow> nat \<Rightarrow> append_res" where
  "print_teids [] has_teid message_size message ret = Inr (message, ret)"
| "print_teids (t # ts) has_teid message_size message ret =
     (if t = 0 then Inr (message, ret)
      else bindE (if has_teid then bindE (store message ret CHR '','') (\<lambda>m. Inr (m, ret + 1)) else Inr (message, ret)) (\<lambda>(message, ret).
           bindE (append_number (ucast t) message ret (size_t_of (int message_size - int ret))) (\<lambda>(message, w).
             print_teids ts True message_size message (ret + w))))"

text \<open>\<open>stack\<close> is the initial content of the two local arrays.\<close>

definition print_gtp_report ::
  "dpi_env \<Rightarrow> string \<times> string \<Rightarrow> string \<Rightarrow> nat \<Rightarrow> session_stat \<Rightarrow> (string \<times> nat \<times> session_stat) cres" where
  "print_gtp_report E stack message message_size s =
     (case s_apps s of
        App_gtp gtp \<Rightarrow>
          if app_type s \<noteq> APP_GTP then Inr (message, 0, s)
          else bindE (print_ip E (ip_version gtp) (g_ip_src gtp) (fst stack)) (\<lambda>src.
               bindE (print_ip E (ip_version gtp) (g_ip_dst gtp) (snd stack)) (\<lambda>dst.
               bindE (STRING_BUILDER 0 message message_size [F_STR src, F_CHAR CHR '','', F_STR dst, F_CHAR CHR '','', F_CHAR CHR ''['']) (\<lambda>(message, ret).
               bindE (print_teids (teids gtp) False message_size message ret) (\<lambda>(message, ret).
               bindE (store message ret CHR '']'') (\<lambda>message.
               bindE (store message (ret + 1) NUL) (\<lambda>message. Inr (message, ret + 2, s)))))))
      | _ \<Rightarrow> Inr (message, 0, s))"

section \<open>Lemmas\<close>

text \<open>The web statistics have arrays of the declared sizes.\<close>

definition web_ok :: "web_stat \<Rightarrow> bool" where
  "web_ok web \<longleftrightarrow> length (mime_type web) = 127 \<and> length (w_hostname web) = 64 \<and> length (referer web) = 255 \<and> length (w_method web) = 10
     \<and> length (uri web) = 1024 \<and> length (response web) = 20 \<and> length (content_len web) = 20"

text \<open>The statistics fit the type of the session.\<close>

definition apps_ok :: "session_stat \<Rightarrow> bool" where
  "apps_ok s \<longleftrightarrow>
     (case s_apps s of
        App_null \<Rightarrow> app_type s = APP_IP
      | App_web web \<Rightarrow> app_type s = APP_WEB \<and> web_ok web
      | App_ssl ssl \<Rightarrow> app_type s = APP_SSL \<and> length (ssl_hostname ssl) = 64
      | App_rtp rtp \<Rightarrow> app_type s = APP_RTP
      | App_gtp gtp \<Rightarrow> app_type s = APP_GTP \<and> length (teids gtp) = MAX_NB_TEID)"

lemma add_teid_length [simp]: "length (add_teid t ts) = length ts"
  by (induction t ts rule: add_teid.induct) auto

text \<open>The identifiers are the first ones seen, without repetition, followed by zeros.\<close>

definition teids_ok :: "u32 list \<Rightarrow> bool" where
  "teids_ok ts \<longleftrightarrow> (\<exists>known. 0 \<notin> set known \<and> distinct known \<and> ts = known @ replicate (length ts - length known) 0)"

lemma add_teid_known:
  assumes "t \<noteq> 0" "0 \<notin> set known" "t \<notin> set known" "n > 0"
  shows "add_teid t (known @ replicate n 0) = (known @ [t]) @ replicate (n - 1) 0"
  using assms by (induction known) (auto simp: gr0_conv_Suc)

lemma add_teid_seen: "t \<in> set known \<Longrightarrow> 0 \<notin> set known \<Longrightarrow> add_teid t (known @ r) = known @ r"
  by (induction known) auto

lemma add_teid_full: "0 \<notin> set known \<Longrightarrow> t \<notin> set known \<Longrightarrow> add_teid t known = known"
  by (induction known) auto

lemma teids_ok_add:
  assumes "teids_ok ts" "t \<noteq> 0"
  shows "teids_ok (add_teid t ts)" "t \<in> set ts \<or> 0 \<in> set ts \<Longrightarrow> t \<in> set (add_teid t ts)"
proof -
  obtain known where k: "0 \<notin> set known" "distinct known" "ts = known @ replicate (length ts - length known) 0"
    using assms(1) by (auto simp: teids_ok_def)
  define n where "n = length ts - length known"
  have ts: "ts = known @ replicate n 0" using k(3) n_def by simp
  have "teids_ok (add_teid t ts) \<and> (t \<in> set ts \<or> 0 \<in> set ts \<longrightarrow> t \<in> set (add_teid t ts))"
  proof (cases "t \<in> set known")
    case True
    then show ?thesis using k(1) assms(1) add_teid_seen [of t known] ts by auto
  next
    case new: False
    show ?thesis
    proof (cases "n = 0")
      case True
      then show ?thesis using new k(1) ts assms(1) add_teid_full [OF k(1) new] by simp
    next
      case False
      then have "add_teid t ts = (known @ [t]) @ replicate (n - 1) 0" unfolding ts using new k(1) assms(2) by (intro add_teid_known) auto
      then show ?thesis unfolding teids_ok_def using new k(1,2) assms(2) by (auto intro!: exI [of _ "known @ [t]"])
    qed
  qed
  then show "teids_ok (add_teid t ts)" "t \<in> set ts \<or> 0 \<in> set ts \<Longrightarrow> t \<in> set (add_teid t ts)" by auto
qed

section \<open>Handlers as events\<close>

text \<open>The calls MMT-DPI makes for a packet of a session, and what they need: one readable byte behind a value, and the addresses of a tunnel.\<close>

datatype app_event =
    Ev_response timeval "mmt_header_line option" | Ev_referer "mmt_header_line option" | Ev_uri "mmt_header_line option"
  | Ev_content_len "mmt_header_line option" | Ev_host "mmt_header_line option" | Ev_content_type "mmt_header_line option"
  | Ev_xcdn bool | Ev_server_name dpi_session "mmt_header_line option" | Ev_rtp_version | Ev_rtp_jitter "u32 option"
  | Ev_rtp_loss "u16 option" | Ev_rtp_order "u16 option" | Ev_rtp_burst "u16 option" | Ev_gtp gtp_packet

fun handle :: "web_stat \<Rightarrow> ssl_stat \<Rightarrow> rtp_stat \<Rightarrow> app_event \<Rightarrow> session_stat option \<Rightarrow> session_stat option cres" where
  "handle w l r (Ev_response ts v) = web_response_handle ts v w"
| "handle w l r (Ev_referer v) = web_referer_handle v w"
| "handle w l r (Ev_uri v) = web_uri_handle v w"
| "handle w l r (Ev_content_len v) = web_content_len_handle v w"
| "handle w l r (Ev_host v) = web_host_handle v w"
| "handle w l r (Ev_content_type v) = content_type_handle v w"
| "handle w l r (Ev_xcdn b) = web_xcdn_seen_handle b w"
| "handle w l r (Ev_server_name dpi v) = ssl_server_name_handle dpi v l"
| "handle w l r Ev_rtp_version = rtp_version_handle r"
| "handle w l r (Ev_rtp_jitter v) = rtp_jitter_handle v r"
| "handle w l r (Ev_rtp_loss v) = rtp_loss_handle v r"
| "handle w l r (Ev_rtp_order v) = rtp_error_order_handle v r"
| "handle w l r (Ev_rtp_burst v) = rtp_burst_loss_handle v r"
| "handle w l r (Ev_gtp pkt) = gtp_ip_src_handle pkt"

definition hl_ok :: "mmt_header_line option \<Rightarrow> bool" where
  "hl_ok v \<longleftrightarrow> (case v of None \<Rightarrow> True | Some v \<Rightarrow> hl_len v < length (hl_ptr v))"

fun event_ok :: "app_event \<Rightarrow> session_stat \<Rightarrow> bool" where
  "event_ok (Ev_response ts v) s = hl_ok v"
| "event_ok (Ev_referer v) s = hl_ok v"
| "event_ok (Ev_uri v) s = hl_ok v"
| "event_ok (Ev_content_len v) s = hl_ok v"
| "event_ok (Ev_host v) s = hl_ok v"
| "event_ok (Ev_content_type v) s = hl_ok v"
| "event_ok (Ev_server_name dpi v) s = hl_ok v"
| "event_ok (Ev_gtp pkt) s \<longleftrightarrow> (s_apps s = App_null \<or> app_type s = APP_GTP)
     \<and> (p_ip_src pkt \<noteq> None \<and> p_ip_dst pkt \<noteq> None \<or> p_ip6_src pkt \<noteq> None \<and> p_ip6_dst pkt \<noteq> None \<and> p_ip_src pkt = None)"
| "event_ok _ s = True"

lemma copy_keeps_length:
  assumes "hl_ok v" "0 < n" "n \<le> length target"
  shows "\<exists>a b. dpi_copy_string_value target n v = Inr (a, b) \<and> length a = length target"
proof -
  have first: "store target 0 NUL = Inr (reset_string target)" using assms(2,3) by (cases target) (auto simp: store_def)
  show ?thesis
  proof (cases v)
    case None
    then show ?thesis using first by (auto simp: dpi_copy_string_value_def)
  next
    case (Some val)
    show ?thesis
    proof (cases "hl_len val = 0")
      case True
      then show ?thesis using Some first by (auto simp: dpi_copy_string_value_def)
    next
      case False
      define k where "k = min (hl_len val) (n - 1)"
      have "Suc k \<le> length target" "k \<le> length (hl_ptr val)" using assms Some False by (auto simp: k_def hl_ok_def)
      then show ?thesis
        using copy_string_value [of val n target k] assms Some False k_def by (auto simp: hl_ok_def)
    qed
  qed
qed

lemma reset_web_ok: "web_ok w \<Longrightarrow> web_ok (reset_web w)"
  by (simp add: web_ok_def reset_web_def)

lemma on_web_typed:
  assumes "apps_ok s" "web_ok fresh" and f: "\<And>web. web_ok web \<Longrightarrow> \<exists>web'. f web = Inr web' \<and> web_ok web'"
  shows "(\<exists>s'. on_web fresh f (Some s) = Inr (Some s') \<and> apps_ok s') \<or> on_web fresh f (Some s) = Inl Exited \<and> app_type s \<notin> {APP_IP, APP_WEB}"
  using assms(1) f [OF reset_web_ok [OF assms(2)]] f
  by (cases "s_apps s") (fastforce simp: on_web_def get_packet_session_web_def apps_ok_def)+

text \<open>A handler that copies a value into an array of the web statistics, unless it is already set.\<close>

lemma on_web_copy:
  assumes "apps_ok s" "web_ok fresh" "hl_ok v" "0 < n" "\<And>web. web_ok web \<Longrightarrow> length (get web) = n"
    and "\<And>web a. web_ok web \<Longrightarrow> length a = n \<Longrightarrow> web_ok (put a web)"
    and f: "f = (\<lambda>web. if skip web then Inr web else bindE (dpi_copy_string_value (get web) n v) (\<lambda>(a, _). Inr (put a web)))"
  shows "(\<exists>s'. on_web fresh f (Some s) = Inr (Some s') \<and> apps_ok s') \<or> on_web fresh f (Some s) = Inl Exited \<and> app_type s \<notin> {APP_IP, APP_WEB}"
proof (rule on_web_typed [OF assms(1,2)])
  fix web assume o: "web_ok web"
  then show "\<exists>web'. f web = Inr web' \<and> web_ok web'"
    using copy_keeps_length [OF assms(3,4), of "get web"] assms(5,6) by (auto simp: f)
qed

lemmas web_handlers = web_response_handle_def web_referer_handle_def web_uri_handle_def web_content_len_handle_def
  web_host_handle_def content_type_handle_def

lemmas rtp_handlers = rtp_version_handle_def rtp_jitter_handle_def rtp_loss_handle_def rtp_error_order_handle_def
  rtp_burst_loss_handle_def

lemma on_rtp_typed:
  assumes "apps_ok s"
  shows "(\<exists>s'. on_rtp fresh f (Some s) = Inr (Some s') \<and> apps_ok s') \<or> on_rtp fresh f (Some s) = Inl Aborted \<and> app_type s \<notin> {APP_IP, APP_RTP}"
  using assms by (cases "s_apps s") (auto simp: on_rtp_def get_packet_session_rtp_def apps_ok_def)

lemma ssl_typed:
  assumes "apps_ok s" "length (ssl_hostname fresh) = 64" "hl_ok v"
  shows "(\<exists>s'. ssl_server_name_handle dpi v fresh (Some s) = Inr (Some s') \<and> apps_ok s')
    \<or> ssl_server_name_handle dpi v fresh (Some s) = Inl Aborted \<and> app_type s \<notin> {APP_IP, APP_SSL}"
proof -
  have c: "\<exists>a b. dpi_copy_string_value h 64 v = Inr (a, b) \<and> length a = 64" if "length h = 64" for h
    using copy_keeps_length [OF assms(3), of 64 h] that by simp
  show ?thesis
  proof (cases "s_apps s")
    case App_null
    then show ?thesis
      using assms c [of "reset_string (ssl_hostname fresh)"]
      by (auto simp: ssl_server_name_handle_def apps_ok_def Let_def split: option.split)
  next
    case (App_ssl ssl)
    then show ?thesis
      using assms c [of "ssl_hostname ssl"] by (auto simp: ssl_server_name_handle_def apps_ok_def split: option.split)
  qed (use assms in \<open>auto simp: ssl_server_name_handle_def apps_ok_def\<close>)
qed

lemma gtp_typed:
  assumes "apps_ok s" "event_ok (Ev_gtp pkt) s"
  shows "\<exists>s'. gtp_ip_src_handle pkt (Some s) = Inr (Some s') \<and> apps_ok s'"
proof -
  have ip: "\<exists>g'. gtp_update_ip pkt g = Inr g' \<and> teids g' = teids g" for g
    using assms(2) by (cases "p_ip_src pkt") (auto simp: gtp_update_ip_def deref_def)
  show ?thesis
  proof (cases "p_ip_after_gtp pkt")
    case True
    show ?thesis
    proof (cases "s_apps s")
      case App_null
      then show ?thesis using True ip [of zero_gtp]
        by (auto simp: gtp_ip_src_handle_def get_gtp_session_data_def deref_def gtp_update_teid_def apps_ok_def zero_gtp_def split: option.split)
    next
      case (App_gtp g)
      then show ?thesis using True assms(1) ip [of g]
        by (auto simp: gtp_ip_src_handle_def get_gtp_session_data_def deref_def gtp_update_teid_def apps_ok_def split: option.split)
    qed (use assms in \<open>auto simp: apps_ok_def\<close>)
  next
    case False
    then show ?thesis using assms(1) by (auto simp: gtp_ip_src_handle_def)
  qed
qed

text \<open>The statistics of a new session, and fresh memory for the web statistics.\<close>

definition sample_stat :: session_stat where
  "sample_stat = \<lparr>ip_src = zero_addr, ip_dst = zero_addr, port_src = 0, port_dst = 0, mac_src = replicate 6 0, mac_dst = replicate 6 0,
     volumes = \<lparr>upload = 0, download = 0\<rparr>, s_payload = \<lparr>upload = 0, download = 0\<rparr>, s_packets = \<lparr>upload = 0, download = 0\<rparr>,
     content_class = 0, app_type = APP_IP, s_apps = App_null,
     s_rtt = \<lparr>rtt_sum = [0, 0], rtt_max = [0, 0], rtt_min = [0, 0], rtt_counter = [0, 0]\<rparr>, s_tcp_rtt = tcp_rtt_init,
     retransmission = [0, 0], tcp_established_ts = zero_ts, latest_tcp_data_pkt_ts = zero_ts,
     is_printed_handshake_time = False, is_printed_app_response_time = False\<rparr>"

definition sample_web :: web_stat where
  "sample_web = \<lparr>w_first_request_time = zero_ts, w_request_time = zero_ts, w_response_time = zero_ts, xcdn_seen = False,
     request_nb = 0, transaction_indicator = 0, mime_type = replicate 127 NUL, w_hostname = replicate 64 NUL,
     referer = replicate 255 NUL, w_method = replicate 10 NUL, uri = replicate 1024 NUL, response = replicate 20 NUL,
     content_len = replicate 20 NUL\<rparr>"

section \<open>Properties\<close>



end
