(* ===== verification/Session_Report.thy ===== *)
theory Session_Report
  imports Session_Apps
begin

text \<open>
  Session reports, \<^verbatim>\<open>src/src/modules/dpi/report/session_report.c\<close>, and the handler of HTTP methods of
  \<^verbatim>\<open>session_report_web.c\<close>, which prints a report. A report holds what MMT-DPI counted since the previous report of the session.

  The local arrays of a call are collected in \<open>stacks\<close>; they have arbitrary content.
\<close>

section \<open>Printing\<close>

record dpi_context =
  c_worker_index :: u16
  c_config :: probe_conf
  c_output :: "output_t option"
  behaviour_output :: "file_output option"
  stat_periods_index :: u64

record stacks =
  st_path_ul :: string
  st_path_dl :: string
  st_message :: string
  st_ips :: "string \<times> string"
  st_output :: "string \<times> string"
  st_behaviour :: string

definition BEHAVIOUR_REPORT_ID :: nat where
  "BEHAVIOUR_REPORT_ID = 101"

definition SESSION_REPORT_TYPE :: nat where
  "SESSION_REPORT_TYPE = 100"

definition write_behaviour_report ::
  "string \<Rightarrow> nat \<Rightarrow> string \<Rightarrow> timeval \<Rightarrow> u32 \<Rightarrow> string \<Rightarrow> string \<Rightarrow> u64 \<Rightarrow> u64 \<Rightarrow> file_output \<Rightarrow> fs \<Rightarrow> (file_output \<times> fs) cres" where
  "write_behaviour_report message pid input_src ts proto_id src dst ul_volume dl_volume output fs =
     bindE (STRING_BUILDER_WITH_SEPARATOR 0 message MAX_LENGTH_REPORT_MESSAGE '',''
              [F_INT (of_nat BEHAVIOUR_REPORT_ID), F_INT (of_nat pid), F_STR input_src, F_TIME ts, F_INT (ucast proto_id),
               F_INT ul_volume, F_INT dl_volume, F_STR src, F_STR dst]) (\<lambda>(message, _).
       case file_output_write message output fs of (output, fs, _) \<Rightarrow> Inr (output, fs))"

definition div0 :: "u64 \<Rightarrow> u64 \<Rightarrow> u64" where
  "div0 a b = (if b = 0 then 0 else a div b)"

text \<open>The counters of MMT-DPI, those of the last report and the differences that are printed.\<close>

record counters =
  k_volumes :: flow_stat_data
  k_payload :: flow_stat_data
  k_packets :: flow_stat_data

definition dpi_counters :: "dpi_session \<Rightarrow> counters" where
  "dpi_counters dpi =
     \<lparr>k_volumes = \<lparr>upload = ul_cap_byte_count dpi, download = dl_cap_byte_count dpi\<rparr>,
      k_payload = \<lparr>upload = ul_data_byte_count dpi, download = dl_data_byte_count dpi\<rparr>,
      k_packets = \<lparr>upload = ul_cap_packet_count dpi, download = dl_cap_packet_count dpi\<rparr>\<rparr>"

definition stat_counters :: "session_stat \<Rightarrow> counters" where
  "stat_counters s = \<lparr>k_volumes = volumes s, k_payload = s_payload s, k_packets = s_packets s\<rparr>"

definition flow_total :: "flow_stat_data \<Rightarrow> u64" where
  "flow_total f = upload f + download f"

text \<open>The handshake time, the response time of the application and the time of data transfer since the last report.\<close>

definition qos_times :: "dpi_session \<Rightarrow> session_stat \<Rightarrow> u64 \<times> u64 \<times> u64 \<times> session_stat" where
  "qos_times dpi s =
     (if is_zero_timestamp (tcp_established_ts s) then (0, 0, 0, s)
      else let (handshake_time, s) =
                 (if is_printed_handshake_time s then (0, s)
                  else (of_nat (u_second (d_rtt dpi)), s\<lparr>is_printed_handshake_time := True\<rparr>))
           in if is_zero_timestamp (latest_tcp_data_pkt_ts s) then (handshake_time, 0, 0, s)
              else let (app_response_time, s) =
                         (if is_printed_app_response_time s then (0, s)
                          else (of_int (u_second_diff (latest_tcp_data_pkt_ts s) (tcp_established_ts s)),
                                s\<lparr>is_printed_app_response_time := True\<rparr>));
                       ts = d_last_activity_time dpi
                   in if is_after (latest_tcp_data_pkt_ts s) ts
                      then (handshake_time, app_response_time, of_int (u_second_diff ts (latest_tcp_data_pkt_ts s)),
                            s\<lparr>latest_tcp_data_pkt_ts := ts\<rparr>)
                      else (handshake_time, app_response_time, 0, s))"

fun stat_type_id :: "stat_type \<Rightarrow> u64" where
  "stat_type_id APP_IP = 0"
| "stat_type_id APP_WEB = 1"
| "stat_type_id APP_SSL = 2"
| "stat_type_id APP_RTP = 3"
| "stat_type_id APP_FTP = 4"
| "stat_type_id APP_GTP = 5"

text \<open>The fields of the report that every session has.\<close>

definition session_items ::
  "dpi_env \<Rightarrow> dpi_context \<Rightarrow> dpi_session \<Rightarrow> u32 \<Rightarrow> string \<Rightarrow> string \<Rightarrow> u64 \<times> u64 \<times> u64 \<Rightarrow> session_stat \<Rightarrow> item list" where
  "session_items E ctx dpi proto_id path_ul path_dl qos s =
     (let now = dpi_counters dpi; old = stat_counters s; r = s_rtt s in
      [F_INT (stat_periods_index ctx), F_INT (ucast proto_id), F_STR path_ul, F_STR path_dl, F_INT (d_active_sessions dpi),
       F_INT (flow_total (k_volumes now) - flow_total (k_volumes old)),
       F_INT (flow_total (k_payload now) - flow_total (k_payload old)),
       F_INT (flow_total (k_packets now) - flow_total (k_packets old)),
       F_INT (upload (k_volumes now) - upload (k_volumes old)),
       F_INT (upload (k_payload now) - upload (k_payload old)),
       F_INT (upload (k_packets now) - upload (k_packets old)),
       F_INT (download (k_volumes now) - download (k_volumes old)),
       F_INT (download (k_payload now) - download (k_payload old)),
       F_INT (download (k_packets now) - download (k_packets old)),
       F_TIME (d_init_time dpi), F_STR (ip_string (ip_src s)), F_STR (ip_string (ip_dst s)),
       F_MAC (mac_src s), F_MAC (mac_dst s), F_INT (d_session_id dpi), F_INT (ucast (port_dst s)), F_INT (ucast (port_src s)),
       F_INT (ucast (c_worker_index ctx)),
       F_INT (fst qos), F_INT (fst (snd qos)), F_INT (snd (snd qos)),
       F_INT (rtt_min r ! 0), F_INT (rtt_min r ! 1), F_INT (rtt_max r ! 0), F_INT (rtt_max r ! 1),
       F_INT (div0 (rtt_sum r ! 0) (rtt_counter r ! 0)), F_INT (div0 (rtt_sum r ! 1) (rtt_counter r ! 1)),
       F_INT (retransmission s ! 0), F_INT (retransmission s ! 1),
       F_INT (stat_type_id (app_type s)), F_INT (application_class E proto_id), F_INT (ucast (content_class s))])"

text \<open>The part for the application, on the rest of the message.\<close>

definition print_app :: "dpi_env \<Rightarrow> stacks \<Rightarrow> string \<Rightarrow> nat \<Rightarrow> dpi_session \<Rightarrow> session_stat \<Rightarrow> (string \<times> nat \<times> session_stat) cres" where
  "print_app E st message message_size dpi s =
     (case app_type s of
        APP_IP \<Rightarrow> Inr (message, 0, s)
      | APP_WEB \<Rightarrow> print_web_report message message_size dpi s
      | APP_SSL \<Rightarrow> print_ssl_report message message_size dpi s
      | APP_RTP \<Rightarrow> print_rtp_report E message message_size s
      | APP_GTP \<Rightarrow> print_gtp_report E (st_ips st) message message_size s
      | APP_FTP \<Rightarrow> Inr (message, 0, s))"

definition append_app :: "dpi_env \<Rightarrow> stacks \<Rightarrow> string \<Rightarrow> nat \<Rightarrow> dpi_session \<Rightarrow> session_stat \<Rightarrow> (string \<times> session_stat) cres" where
  "append_app E st message valid dpi s =
     (if app_type s = APP_IP then Inr (message, s)
      else bindE (store message valid CHR '','') (\<lambda>message.
           let valid = valid + 1 in
           bindE (print_app E st (drop valid message) (MAX_LENGTH_REPORT_MESSAGE - valid) dpi s) (\<lambda>(rest, n, s).
           let message = take valid message @ rest in
           bindE (store message (valid + n) NUL) (\<lambda>message. Inr (message, s)))))"

text \<open>The counters are remembered and the round-trip times start again.\<close>

definition remember :: "dpi_session \<Rightarrow> session_stat \<Rightarrow> session_stat" where
  "remember dpi s =
     (let now = dpi_counters dpi in
      s\<lparr>volumes := k_volumes now, s_payload := k_payload now, s_packets := k_packets now,
        s_rtt := \<lparr>rtt_sum = [0, 0], rtt_max = [0, 0], rtt_min = [0, 0], rtt_counter = [0, 0]\<rparr>, retransmission := [0, 0]\<rparr>)"

text \<open>No new packets since the last report.\<close>

definition is_idle :: "dpi_session \<Rightarrow> session_stat \<Rightarrow> bool" where
  "is_idle dpi s \<longleftrightarrow> flow_total (k_packets (dpi_counters dpi)) = flow_total (s_packets s)"

definition write_behaviour :: "stacks \<Rightarrow> dpi_session \<Rightarrow> u32 \<Rightarrow> session_stat \<Rightarrow> dpi_context \<Rightarrow> fs \<Rightarrow> (dpi_context \<times> fs) cres" where
  "write_behaviour st dpi proto_id s ctx fs =
     (case behaviour_output ctx of None \<Rightarrow> Inr (ctx, fs)
      | Some f \<Rightarrow>
          bindE (deref (input (c_config ctx))) (\<lambda>inp.
          bindE (deref (in_source inp)) (\<lambda>src.
          bindE (write_behaviour_report (st_behaviour st) (probe_id (c_config ctx)) src (d_last_activity_time dpi) proto_id
                   (ip_string (ip_src s)) (ip_string (ip_dst s))
                   (ul_cap_byte_count dpi - upload (volumes s)) (dl_cap_byte_count dpi - download (volumes s)) f fs) (\<lambda>(f, fs).
            Inr (ctx\<lparr>behaviour_output := Some f\<rparr>, fs)))))"

definition print_ip_session_report ::
  "dpi_env \<Rightarrow> chan_api \<Rightarrow> stacks \<Rightarrow> dpi_session \<Rightarrow> session_stat \<Rightarrow> dpi_context \<Rightarrow> fs
     \<Rightarrow> (session_stat \<times> dpi_context \<times> fs \<times> delivery list) cres" where
  "print_ip_session_report E A st dpi s ctx fs =
     (if is_idle dpi s then Inr (s, ctx, fs, [])
      else
        bindE (dpi_get_proto_id_from_session (d_hierarchy dpi)) (\<lambda>proto_id.
        bindE (dpi_proto_hierarchy_ids_to_str (d_path_ul dpi) (st_path_ul st) 128) (\<lambda>(path_ul, _).
        bindE (dpi_proto_hierarchy_ids_to_str (d_path_dl dpi) (st_path_dl st) 128) (\<lambda>(path_dl, _).
        let (h, a, t, s) = qos_times dpi s in
        bindE (STRING_BUILDER_WITH_SEPARATOR 0 (st_message st) MAX_LENGTH_REPORT_MESSAGE '',''
                 (session_items E ctx dpi proto_id path_ul path_dl (h, a, t) s)) (\<lambda>(message, valid).
        bindE (append_app E st message valid dpi s) (\<lambda>(message, s).
        bindE (deref (session (reports (c_config ctx)))) (\<lambda>conf.
        bindE (output_write_report A (st_output st) (se_output_channels conf) SESSION_REPORT_TYPE (d_last_activity_time dpi)
                 (Some message) (c_output ctx) fs) (\<lambda>(output, fs, ds, _).
        bindE (write_behaviour st dpi proto_id s (ctx\<lparr>c_output := output\<rparr>) fs) (\<lambda>(ctx, fs).
          Inr (remember dpi s, ctx, fs, ds))))))))))"

definition session_report_do_report ::
  "dpi_env \<Rightarrow> chan_api \<Rightarrow> stacks \<Rightarrow> dpi_session \<Rightarrow> session_stat option \<Rightarrow> dpi_context \<Rightarrow> fs
     \<Rightarrow> (session_stat \<times> dpi_context \<times> fs \<times> delivery list) cres" where
  "session_report_do_report E A st dpi stat ctx fs =
     bindE (deref stat) (\<lambda>s. print_ip_session_report E A st dpi s ctx fs)"

section \<open>Callbacks\<close>

text \<open>What the first packet of a session says: the protocol of the session and its attributes, NULL if they are absent.\<close>

datatype session_proto = Over_IP | Over_IPV6 | Over_other

record start_packet =
  sp_proto :: session_proto
  sp_eth_src :: "u8 list option"
  sp_eth_dst :: "u8 list option"
  sp_ip_src :: "u32 option"
  sp_ip_dst :: "u32 option"
  sp_ip6_src :: "u8 list option"
  sp_ip6_dst :: "u8 list option"
  sp_client_port :: "u16 option"
  sp_server_port :: "u16 option"

definition zero_stat :: session_stat where
  "zero_stat = \<lparr>ip_src = zero_addr, ip_dst = zero_addr, port_src = 0, port_dst = 0, mac_src = replicate 6 0, mac_dst = replicate 6 0,
     volumes = \<lparr>upload = 0, download = 0\<rparr>, s_payload = \<lparr>upload = 0, download = 0\<rparr>, s_packets = \<lparr>upload = 0, download = 0\<rparr>,
     content_class = 0, app_type = APP_IP, s_apps = App_null,
     s_rtt = \<lparr>rtt_sum = [0, 0], rtt_max = [0, 0], rtt_min = [0, 0], rtt_counter = [0, 0]\<rparr>, s_tcp_rtt = \<lparr>pkts = []\<rparr>,
     retransmission = [0, 0], tcp_established_ts = zero_ts, latest_tcp_data_pkt_ts = zero_ts,
     is_printed_handshake_time = False, is_printed_app_response_time = False\<rparr>"

definition or_keep :: "'a option \<Rightarrow> 'a \<Rightarrow> 'a" where
  "or_keep new old = (case new of None \<Rightarrow> old | Some x \<Rightarrow> x)"

text \<open>\<^verbatim>\<open>pkt\<close> is \<open>None\<close> when the packet has no session.\<close>

definition session_report_callback_on_starting_session :: "dpi_env \<Rightarrow> start_packet option \<Rightarrow> session_stat option cres" where
  "session_report_callback_on_starting_session E pkt =
     (case pkt of None \<Rightarrow> Inr None
      | Some pkt \<Rightarrow>
          if sp_proto pkt = Over_other then Inr None
          else let s = zero_stat\<lparr>mac_src := or_keep (sp_eth_src pkt) (mac_src zero_stat),
                                 mac_dst := or_keep (sp_eth_dst pkt) (mac_dst zero_stat)\<rparr>;
                   v = (if sp_proto pkt = Over_IP then 4 else 6);
                   src = (if sp_proto pkt = Over_IP then (ip_src s)\<lparr>a_ipv4 := or_keep (sp_ip_src pkt) (a_ipv4 (ip_src s))\<rparr>
                          else (ip_src s)\<lparr>a_ipv6 := or_keep (sp_ip6_src pkt) (a_ipv6 (ip_src s))\<rparr>);
                   dst = (if sp_proto pkt = Over_IP then (ip_dst s)\<lparr>a_ipv4 := or_keep (sp_ip_dst pkt) (a_ipv4 (ip_dst s))\<rparr>
                          else (ip_dst s)\<lparr>a_ipv6 := or_keep (sp_ip6_dst pkt) (a_ipv6 (ip_dst s))\<rparr>)
               in bindE (print_ip E v src (ip_string src)) (\<lambda>src_text.
                  bindE (print_ip E v dst (ip_string dst)) (\<lambda>dst_text.
                    Inr (Some (s\<lparr>ip_src := src\<lparr>ip_string := src_text\<rparr>, ip_dst := dst\<lparr>ip_string := dst_text\<rparr>,
                       port_src := or_keep (sp_client_port pkt) (port_src s), port_dst := or_keep (sp_server_port pkt) (port_dst s),
                       s_tcp_rtt := tcp_rtt_init\<rparr>)))))"

definition session_report_callback_on_ending_session :: "session_stat option \<Rightarrow> unit cres" where
  "session_report_callback_on_ending_session stat =
     (case stat of None \<Rightarrow> Inr () | Some s \<Rightarrow> tcp_rtt_release (Some (s_tcp_rtt s)))"

text \<open>The index of a protocol in the path, from the one of the session on; \<^verbatim>\<open>-1\<close> is \<open>None\<close>.\<close>

fun find_proto :: "u32 \<Rightarrow> nat \<Rightarrow> u32 list \<Rightarrow> nat option" where
  "find_proto proto_id i [] = None"
| "find_proto proto_id i (p # ps) = (if p = proto_id then Some i else find_proto proto_id (i + 1) ps)"

definition get_protocol_index_after_session :: "u32 \<Rightarrow> dpi_session option \<Rightarrow> nat option" where
  "get_protocol_index_after_session proto_id dpi =
     (case dpi of None \<Rightarrow> None
      | Some dpi \<Rightarrow> find_proto proto_id (d_protocol_index dpi)
          (drop (d_protocol_index dpi) (take (ph_len (d_hierarchy dpi)) (proto_path (d_hierarchy dpi)))))"

text \<open>The TCP attributes of a packet.\<close>

record tcp_packet =
  pk_ts :: timeval
  pk_retransmission :: "u32 option"
  pk_tsval :: "u32 option"
  pk_tsecr :: "u32 option"
  pk_ack_nb :: "u32 option"
  pk_seq_nb :: "u32 option"
  pk_payload_len :: "u32 option"
  pk_established :: bool

text \<open>The sequence number, acknowledgement number and length by the configured base of round-trip times.\<close>

definition rtt_numbers :: "int \<Rightarrow> tcp_packet \<Rightarrow> u32 \<times> u32 \<times> u32" where
  "rtt_numbers base pkt =
     (let sender = (base = 1 \<or> base = 3);
          seq1 = (if sender then or_keep (pk_tsval pkt) 0 else 0);
          ack1 = (if sender then or_keep (map_option (\<lambda>v. v + 1) (pk_tsecr pkt)) 0 else 0)
      in if base = 2 \<or> base = 3
         then let captor = (base = 2)
              in (if captor \<or> seq1 = 0 then or_keep (pk_seq_nb pkt) seq1 else seq1,
                  if captor \<or> ack1 = 0 then or_keep (pk_ack_nb pkt) ack1 else ack1,
                  if captor then or_keep (pk_payload_len pkt) 0 else 0)
         else (seq1, ack1, 0))"

definition rtt_update :: "nat \<Rightarrow> u32 \<Rightarrow> u64 \<Rightarrow> rtt_stat \<Rightarrow> rtt_stat" where
  "rtt_update d counter usec r =
     r\<lparr>rtt_counter := (rtt_counter r)[d := rtt_counter r ! d + ucast counter],
       rtt_sum := (rtt_sum r)[d := rtt_sum r ! d + usec * ucast counter],
       rtt_max := (rtt_max r)[d := if rtt_max r ! d < usec then usec else rtt_max r ! d],
       rtt_min := (rtt_min r)[d := if rtt_min r ! d = 0 \<or> rtt_min r ! d > usec then usec else rtt_min r ! d]\<rparr>"

definition calculate_rtt :: "int \<Rightarrow> nat \<Rightarrow> tcp_packet \<Rightarrow> session_stat \<Rightarrow> session_stat cres" where
  "calculate_rtt base d pkt s =
     (case rtt_numbers base pkt of (seq_n, ack_n, len) \<Rightarrow>
        if ack_n \<noteq> 0 \<and> seq_n \<noteq> 0
        then bindE (tcp_rtt_add_packet (of_nat d) ack_n seq_n (ucast len) (pk_ts pkt) 0 (s_tcp_rtt s)) (\<lambda>(rtt, counter, usec).
               let s = s\<lparr>s_tcp_rtt := rtt\<rparr>
               in Inr (if counter \<noteq> 0 then s\<lparr>s_rtt := rtt_update (if d = 0 then 1 else 0) counter usec (s_rtt s)\<rparr> else s))
        else Inr s)"

definition note_times :: "tcp_packet \<Rightarrow> session_stat \<Rightarrow> session_stat" where
  "note_times pkt s =
     (if is_zero_timestamp (tcp_established_ts s)
      then (if pk_established pkt then s\<lparr>tcp_established_ts := pk_ts pkt\<rparr> else s)
      else if is_zero_timestamp (latest_tcp_data_pkt_ts s)
      then (if is_after (tcp_established_ts s) (pk_ts pkt) then s\<lparr>latest_tcp_data_pkt_ts := pk_ts pkt\<rparr> else s)
      else s)"

text \<open>The statistics are dereferenced without a test once TCP was found.\<close>

definition session_report_callback_on_receiving_packet ::
  "dpi_env \<Rightarrow> dpi_context \<Rightarrow> dpi_session option \<Rightarrow> tcp_packet \<Rightarrow> session_stat option \<Rightarrow> session_stat option cres" where
  "session_report_callback_on_receiving_packet E ctx dpi pkt stat =
     (case get_protocol_index_after_session (PROTO_TCP E) dpi of
        None \<Rightarrow> Inr stat
      | Some _ \<Rightarrow>
          bindE (deref stat) (\<lambda>s.
          bindE (deref dpi) (\<lambda>dpi.
          bindE (deref (session (reports (c_config ctx)))) (\<lambda>conf.
          let d = (if d_last_direction dpi then 1 else 0 :: nat);
              s = (case pk_retransmission pkt of None \<Rightarrow> s
                   | Some n \<Rightarrow> s\<lparr>retransmission := (retransmission s)[d := retransmission s ! d + ucast n]\<rparr>)
          in bindE (calculate_rtt (rtt_base conf) d pkt s) (\<lambda>s. Inr (Some (note_times pkt s)))))))"

text \<open>\<^verbatim>\<open>_web_method_handle\<close>: a new request in a connection first reports the previous one.\<close>

definition web_method_handle ::
  "dpi_env \<Rightarrow> chan_api \<Rightarrow> stacks \<Rightarrow> dpi_session \<Rightarrow> timeval \<Rightarrow> mmt_header_line option \<Rightarrow> web_stat \<Rightarrow> session_stat option \<Rightarrow> dpi_context \<Rightarrow> fs
     \<Rightarrow> (session_stat option \<times> dpi_context \<times> fs \<times> delivery list) cres" where
  "web_method_handle E A st dpi ts data fresh stat ctx fs =
     bindE (get_packet_session_web fresh stat) (\<lambda>r.
       case r of None \<Rightarrow> Inr (stat, ctx, fs, [])
       | Some (s, web) \<Rightarrow>
           bindE (if has_string (w_hostname web)
                  then bindE (session_report_do_report E A st dpi (Some s) ctx fs) (\<lambda>(s, ctx, fs, ds).
                       case s_apps s of App_web web \<Rightarrow> Inr (s, reset_web web, ctx, fs, ds) | _ \<Rightarrow> Inl OutOfBounds)
                  else Inr (s, web, ctx, fs, [])) (\<lambda>(s, web, ctx, fs, ds).
           let web = web\<lparr>request_nb := request_nb web + 1, transaction_indicator := 1\<rparr> in
           bindE (dpi_copy_string_value (w_method web) 10 data) (\<lambda>(a, _).
           let web = web\<lparr>w_method := a, w_request_time := ts\<rparr>;
               web = (if request_nb web = 1 then web\<lparr>w_first_request_time := ts\<rparr> else web)
           in Inr (Some (s\<lparr>s_apps := App_web web\<rparr>), ctx, fs, ds))))"

section \<open>Reports add up\<close>

definition minus_flow :: "flow_stat_data \<Rightarrow> flow_stat_data \<Rightarrow> flow_stat_data" where
  "minus_flow a b = \<lparr>upload = upload a - upload b, download = download a - download b\<rparr>"

text \<open>The differences that a report prints.\<close>

definition session_delta :: "dpi_session \<Rightarrow> session_stat \<Rightarrow> counters" where
  "session_delta dpi s =
     \<lparr>k_volumes = minus_flow (k_volumes (dpi_counters dpi)) (volumes s),
      k_payload = minus_flow (k_payload (dpi_counters dpi)) (s_payload s),
      k_packets = minus_flow (k_packets (dpi_counters dpi)) (s_packets s)\<rparr>"

lemma session_items_delta:
  "map (nth (session_items E ctx dpi proto_id path_ul path_dl qos s)) [5..<14]
   = (let d = session_delta dpi s in
      [F_INT (flow_total (k_volumes d)), F_INT (flow_total (k_payload d)), F_INT (flow_total (k_packets d)),
       F_INT (upload (k_volumes d)), F_INT (upload (k_payload d)), F_INT (upload (k_packets d)),
       F_INT (download (k_volumes d)), F_INT (download (k_payload d)), F_INT (download (k_packets d))])"
  by (simp add: session_items_def session_delta_def minus_flow_def stat_counters_def flow_total_def Let_def upt_rec)

text \<open>A sequence of reports of a session, with the state of MMT-DPI at each; the differences printed by those that are not idle.\<close>

fun do_reports ::
  "dpi_env \<Rightarrow> chan_api \<Rightarrow> (stacks \<times> dpi_session) list \<Rightarrow> session_stat \<Rightarrow> dpi_context \<Rightarrow> fs
     \<Rightarrow> (session_stat \<times> dpi_context \<times> fs \<times> counters list) cres" where
  "do_reports E A [] s ctx fs = Inr (s, ctx, fs, [])"
| "do_reports E A ((st, dpi) # rs) s ctx fs =
     bindE (session_report_do_report E A st dpi (Some s) ctx fs) (\<lambda>(s', ctx, fs, _).
     bindE (do_reports E A rs s' ctx fs) (\<lambda>(s', ctx, fs, ds).
       Inr (s', ctx, fs, (if is_idle dpi s then [] else [session_delta dpi s]) @ ds)))"

definition sum_of :: "(counters \<Rightarrow> u64) \<Rightarrow> counters list \<Rightarrow> u64" where
  "sum_of f ds = sum_list (map f ds)"

lemma report_result:
  assumes "print_ip_session_report E A st dpi s ctx fs = Inr (s', ctx', fs', ds)"
  shows "if is_idle dpi s then s' = s else stat_counters s' = dpi_counters dpi"
proof (cases "is_idle dpi s")
  case False
  then obtain s1 where "s' = remember dpi s1"
    using assms unfolding print_ip_session_report_def Let_def
    by (simp only: if_False) (clarsimp simp only: bindE_eq_Inr split: prod.splits, auto)
  then show ?thesis using False by (simp add: remember_def stat_counters_def dpi_counters_def Let_def)
qed (use assms in \<open>simp add: print_ip_session_report_def\<close>)

definition additive :: "(counters \<Rightarrow> u64) \<Rightarrow> bool" where
  "additive f \<longleftrightarrow> (\<forall>dpi s. f (session_delta dpi s) = f (dpi_counters dpi) - f (stat_counters s))"

lemma additive_fields:
  "additive (\<lambda>k. upload (k_volumes k))" "additive (\<lambda>k. download (k_volumes k))"
  "additive (\<lambda>k. upload (k_payload k))" "additive (\<lambda>k. download (k_payload k))"
  "additive (\<lambda>k. upload (k_packets k))" "additive (\<lambda>k. download (k_packets k))" "additive (\<lambda>k. flow_total (k_packets k))"
  by (simp_all add: additive_def session_delta_def minus_flow_def stat_counters_def flow_total_def)

lemma do_reports_telescope:
  assumes "additive f" "do_reports E A rs s ctx fs = Inr (s', ctx', fs', ds)"
  shows "sum_of f ds = f (stat_counters s') - f (stat_counters s)"
  using assms(2)
proof (induction E A rs s ctx fs arbitrary: s' ctx' fs' ds rule: do_reports.induct)
  case (1 E A s ctx fs)
  then show ?case by (simp add: sum_of_def)
next
  case (2 E A st dpi rs s ctx fs)
  obtain s1 c1 fs1 x where r: "session_report_do_report E A st dpi (Some s) ctx fs = Inr (s1, c1, fs1, x)"
    using 2(2) by (cases "session_report_do_report E A st dpi (Some s) ctx fs") auto
  obtain ds1 where d: "do_reports E A rs s1 c1 fs1 = Inr (s', ctx', fs', ds1)"
    "ds = (if is_idle dpi s then [] else [session_delta dpi s]) @ ds1"
    using 2(2) r by (cases "do_reports E A rs s1 c1 fs1") auto
  have ih: "sum_of f ds1 = f (stat_counters s') - f (stat_counters s1)" using 2(1) [OF d(1)] .
  have "if is_idle dpi s then s1 = s else stat_counters s1 = dpi_counters dpi"
    using report_result r by (simp add: session_report_do_report_def deref_def)
  then show ?case using ih d(2) assms(1) by (auto simp: sum_of_def additive_def split: if_splits)
qed

lemma do_reports_current:
  assumes "do_reports E A rs s ctx fs = Inr (s', ctx', fs', ds)" "rs \<noteq> []"
  shows "flow_total (s_packets s') = flow_total (k_packets (dpi_counters (snd (last rs))))"
  using assms
proof (induction E A rs s ctx fs arbitrary: s' ctx' fs' ds rule: do_reports.induct)
  case (2 E A st dpi rs s ctx fs)
  obtain s1 c1 fs1 x where r: "session_report_do_report E A st dpi (Some s) ctx fs = Inr (s1, c1, fs1, x)"
    using 2(2) by (cases "session_report_do_report E A st dpi (Some s) ctx fs") auto
  obtain ds1 where d: "do_reports E A rs s1 c1 fs1 = Inr (s', ctx', fs', ds1)"
    using 2(2) r by (cases "do_reports E A rs s1 c1 fs1") auto
  show ?case
  proof (cases "rs = []")
    case True
    have "if is_idle dpi s then s1 = s else stat_counters s1 = dpi_counters dpi"
      using report_result r by (simp add: session_report_do_report_def deref_def)
    then have "flow_total (s_packets s1) = flow_total (k_packets (dpi_counters dpi))"
      by (cases "is_idle dpi s") (auto simp: is_idle_def stat_counters_def dpi_counters_def)
    then show ?thesis using d True by simp
  next
    case False
    then show ?thesis using 2(1) [OF d] by simp
  qed
qed simp

section \<open>A report of an IP session\<close>

lemma print_ip_session_report_ok:
  assumes "\<not> is_idle dpi s" "app_type s = APP_IP" "behaviour_output ctx = None" "session (reports (c_config ctx)) = Some conf"
    and "dpi_get_proto_id_from_session (d_hierarchy dpi) = Inr proto_id"
    and "dpi_proto_hierarchy_ids_to_str (d_path_ul dpi) (st_path_ul st) 128 = Inr (path_ul, n1)"
    and "dpi_proto_hierarchy_ids_to_str (d_path_dl dpi) (st_path_dl st) 128 = Inr (path_dl, n2)"
    and q: "qos_times dpi s = (h, a, t, s1)" "app_type s1 = APP_IP"
    and "length (st_message st) = 3000"
    and ok: "list_all item_ok (session_items E ctx dpi proto_id path_ul path_dl (h, a, t) s1)"
    and m: "message = blit (st_message st) 0 (render '','' 2999 (session_items E ctx dpi proto_id path_ul path_dl (h, a, t) s1) @ [NUL])"
    and out: "output_write_report A (st_output st) (se_output_channels conf) SESSION_REPORT_TYPE (d_last_activity_time dpi)
        (Some message) (c_output ctx) fs = Inr (output, fs', ds, n)"
  shows "print_ip_session_report E A st dpi s ctx fs = Inr (remember dpi s1, ctx\<lparr>c_output := output\<rparr>, fs', ds)"
proof -
  define items where "items = session_items E ctx dpi proto_id path_ul path_dl (h, a, t) s1"
  have sb: "STRING_BUILDER_WITH_SEPARATOR 0 (st_message st) MAX_LENGTH_REPORT_MESSAGE '','' items
      = Inr (message, length (render '','' 2999 items))"
    using builder_separated [OF ok [folded items_def], of 0 3000 "st_message st" "render '','' 2999 items" "'',''"] assms(10)
    by (simp add: MAX_LENGTH_REPORT_MESSAGE_def m items_def del: render.simps)
  show ?thesis
    unfolding print_ip_session_report_def assms(5-7) bindE_Inr prod.case q(1) Let_def items_def [symmetric] sb
    using assms(1-4) q(2) out by (simp add: append_app_def deref_def write_behaviour_def)
qed

lemma qos_times_app: "qos_times dpi s = (h, a, t, s1) \<Longrightarrow> app_type s1 = app_type s \<and> stat_counters s1 = stat_counters s"
  by (auto simp: qos_times_def Let_def stat_counters_def split: if_splits)

section \<open>Round-trip times between two reports\<close>

definition zero_rtt :: rtt_stat where
  "zero_rtt = \<lparr>rtt_sum = [0, 0], rtt_max = [0, 0], rtt_min = [0, 0], rtt_counter = [0, 0]\<rparr>"

text \<open>The measurements of one direction: how many segments were acknowledged, and the time.\<close>

definition rtt_run :: "nat \<Rightarrow> (u32 \<times> u64) list \<Rightarrow> rtt_stat" where
  "rtt_run d hs = foldl (\<lambda>r (c, u). rtt_update d c u r) zero_rtt hs"

definition rtt_segments :: "(u32 \<times> u64) list \<Rightarrow> nat" where
  "rtt_segments hs = sum_list (map (\<lambda>(c, u). unat c) hs)"

definition rtt_time :: "(u32 \<times> u64) list \<Rightarrow> nat" where
  "rtt_time hs = sum_list (map (\<lambda>(c, u). unat u * unat c) hs)"

lemma rtt_run_snoc: "rtt_run d (hs @ [(c, u)]) = rtt_update d c u (rtt_run d hs)"
  by (simp add: rtt_run_def)

lemma rtt_run_length:
  "length (rtt_counter (rtt_run d hs)) = 2" "length (rtt_sum (rtt_run d hs)) = 2"
  "length (rtt_max (rtt_run d hs)) = 2" "length (rtt_min (rtt_run d hs)) = 2"
  by (induction hs rule: rev_induct) (auto simp: rtt_run_snoc rtt_update_def, simp_all add: rtt_run_def zero_rtt_def)

lemma rtt_sums_snoc [simp]:
  "rtt_segments (hs @ [(c, u)]) = rtt_segments hs + unat c" "rtt_time (hs @ [(c, u)]) = rtt_time hs + unat u * unat c"
  by (simp_all add: rtt_segments_def rtt_time_def)

lemma unat_add_small: "unat (x :: u64) + unat y < 2 ^ 64 \<Longrightarrow> unat (x + y) = unat x + unat y"
  by (simp add: unat_word_ariths)

lemma unat_mult_small: "unat (x :: u64) * unat y < 2 ^ 64 \<Longrightarrow> unat (x * y) = unat x * unat y"
  by (simp add: unat_word_ariths)

lemma unat_ucast_32 [simp]: "unat (ucast (c :: u32) :: u64) = unat c"
proof -
  have "unat c < 2 ^ 64" using unsigned_less [of c, where 'a = nat] by simp
  then show ?thesis by (simp add: unsigned_ucast_eq take_bit_nat_eq_self_iff)
qed

lemma rtt_run_sums:
  assumes "d < 2"
  shows "rtt_segments hs < 2 ^ 64 \<Longrightarrow> unat (rtt_counter (rtt_run d hs) ! d) = rtt_segments hs"
    and "rtt_time hs < 2 ^ 64 \<Longrightarrow> unat (rtt_sum (rtt_run d hs) ! d) = rtt_time hs"
proof (induction hs rule: rev_induct)
  case Nil
  { case 1 show ?case using assms by (auto simp: rtt_run_def zero_rtt_def rtt_segments_def less_2_cases_iff) }
  { case 2 show ?case using assms by (auto simp: rtt_run_def zero_rtt_def rtt_time_def less_2_cases_iff) }
next
  case (snoc x hs)
  obtain c u where x: "x = (c, u)" by fastforce
  { case 1
    then have "unat (rtt_counter (rtt_run d hs) ! d) = rtt_segments hs" using snoc(1) x by simp
    then show ?case using 1 assms x unat_add_small [of "rtt_counter (rtt_run d hs) ! d" "ucast c"]
      by (simp add: rtt_run_snoc rtt_update_def rtt_run_length) }
  { case 2
    then have "unat (rtt_sum (rtt_run d hs) ! d) = rtt_time hs" "unat (u * ucast c) = unat u * unat c"
      using snoc(2) x unat_mult_small [of u "ucast c"] by simp_all
    then show ?case using 2 assms x unat_add_small [of "rtt_sum (rtt_run d hs) ! d" "u * ucast c"]
      by (simp add: rtt_run_snoc rtt_update_def rtt_run_length) }
qed

lemma keep_max: "(if a < u then u else a) = max u (a :: u64)"
  by (cases a u rule: linorder_cases) auto

lemma keep_min: "(if u < a then u else a) = min u (a :: u64)"
  by (cases a u rule: linorder_cases) auto

lemma rtt_run_extremes:
  assumes "d < 2" "\<forall>(c, u) \<in> set hs. u \<noteq> 0" "hs \<noteq> []"
  shows "rtt_max (rtt_run d hs) ! d = Max (snd ` set hs)" "rtt_min (rtt_run d hs) ! d = Min (snd ` set hs)"
proof -
  have "rtt_max (rtt_run d hs) ! d = Max (snd ` set hs) \<and> rtt_min (rtt_run d hs) ! d = Min (snd ` set hs)"
    using assms(2,3)
  proof (induction hs rule: rev_induct)
    case (snoc x hs)
    obtain c u where x: "x = (c, u)" by fastforce
    show ?case
    proof (cases "hs = []")
      case True
      have z: "rtt_max zero_rtt ! d = 0" "rtt_min zero_rtt ! d = 0" "length (rtt_max zero_rtt) = 2" "length (rtt_min zero_rtt) = 2"
        using assms(1) by (auto simp: zero_rtt_def less_2_cases_iff)
      then show ?thesis using True x snoc.prems assms(1) by (auto simp: rtt_run_def rtt_update_def word_less_nat_alt unat_eq_zero)
    next
      case False
      then have ih: "rtt_max (rtt_run d hs) ! d = Max (snd ` set hs)" "rtt_min (rtt_run d hs) ! d = Min (snd ` set hs)"
        using snoc by auto
      have ne: "snd ` set hs \<noteq> {}" using False by simp
      have "Min (snd ` set hs) \<in> snd ` set hs" using ne by (intro Min_in) auto
      then have nz: "Min (snd ` set hs) \<noteq> 0" using snoc.prems by auto
      have "snd ` set (hs @ [x]) = insert u (snd ` set hs)" using x by simp
      then have e: "Max (snd ` set (hs @ [x])) = max u (Max (snd ` set hs))" "Min (snd ` set (hs @ [x])) = min u (Min (snd ` set hs))"
        using ne by simp_all
      have "rtt_max (rtt_run d (hs @ [x])) ! d = (if Max (snd ` set hs) < u then u else Max (snd ` set hs))"
        "rtt_min (rtt_run d (hs @ [x])) ! d = (if Min (snd ` set hs) > u then u else Min (snd ` set hs))"
        unfolding ih [symmetric] x rtt_run_snoc rtt_update_def using assms(1) nz ih by (simp_all add: rtt_run_length)
      then show ?thesis unfolding e keep_max keep_min by blast
    qed
  qed simp
  then show "rtt_max (rtt_run d hs) ! d = Max (snd ` set hs)" "rtt_min (rtt_run d hs) ! d = Min (snd ` set hs)" by auto
qed

lemma rtt_time_between:
  assumes "\<forall>(c, u) \<in> set hs. lo \<le> unat u \<and> unat u \<le> hi"
  shows "lo * rtt_segments hs \<le> rtt_time hs" "rtt_time hs \<le> hi * rtt_segments hs"
  using assms by (induction hs) (auto simp: rtt_time_def rtt_segments_def algebra_simps intro: add_mono mult_le_mono)

section \<open>A sample session\<close>

definition sample_hierarchy :: proto_hierarchy where
  "sample_hierarchy = \<lparr>ph_len = 4, proto_path = [0, 99, 178, 354]\<rparr>"

definition sample_dpi :: dpi_session where
  "sample_dpi = \<lparr>ul_cap_packet_count = 3, dl_cap_packet_count = 2, ul_cap_byte_count = 300, dl_cap_byte_count = 2000,
     ul_data_byte_count = 100, dl_data_byte_count = 1800, d_hierarchy = sample_hierarchy, d_path_ul = sample_hierarchy,
     d_path_dl = sample_hierarchy, d_protocol_index = 1, d_last_activity_time = sample_time 9, d_init_time = sample_time 5,
     d_rtt = zero_ts, d_session_id = 1, d_active_sessions = 1, d_content_cdn = False, d_content_class = 0, d_last_direction = False\<rparr>"

definition sample_env_dpi :: dpi_env where
  "sample_env_dpi = \<lparr>inet_ntop6 = (\<lambda>_. ''::''), fmt3 = (\<lambda>_ _. ''0.000''), application_class = (\<lambda>_. 0), PROTO_TCP = 354\<rparr>"

definition sample_stacks :: stacks where
  "sample_stacks = \<lparr>st_path_ul = replicate 128 NUL, st_path_dl = replicate 128 NUL, st_message = replicate 3000 NUL,
     st_ips = (replicate 46 NUL, replicate 46 NUL), st_output = (replicate 3000 NUL, replicate 3000 NUL), st_behaviour = replicate 3000 NUL\<rparr>"

definition sample_context :: dpi_context where
  "sample_context = \<lparr>c_worker_index = 0, c_config = sample_conf, c_output = Some (sample_output\<lparr>t_config := outputs sample_conf\<rparr>),
     behaviour_output = None, stat_periods_index = 1\<rparr>"

lemma sample_print_runs:
  assumes "\<not> is_idle sample_dpi s" "app_type s = APP_IP" "is_zero_timestamp (tcp_established_ts s)" "6 \<le> length (mac_src s)" "6 \<le> length (mac_dst s)"
  shows "print_ip_session_report sample_env_dpi sample_api sample_stacks sample_dpi s sample_context []
      = Inr (remember sample_dpi s, sample_context, [], [])"
proof -
  have len: "2 \<le> ph_len sample_hierarchy" "ph_len sample_hierarchy \<le> length (proto_path sample_hierarchy)"
    by (simp_all add: sample_hierarchy_def)
  have short: "length (tl (path_tail (take (ph_len sample_hierarchy - 1) (tl (proto_path sample_hierarchy))))) < 128" by code_simp
  obtain path n where path: "dpi_proto_hierarchy_ids_to_str sample_hierarchy (replicate 128 NUL) 128 = Inr (path, n)"
    using hierarchy_text [OF len _ refl short, of "replicate 128 NUL"] by simp
  have proto: "dpi_get_proto_id_from_session (d_hierarchy sample_dpi) = Inr 354" by code_simp
  have q: "qos_times sample_dpi s = (0, 0, 0, s)" using assms(3) by (simp add: qos_times_def)
  let ?items = "session_items sample_env_dpi sample_context sample_dpi 354 path path (0, 0, 0) s"
  have ok: "list_all item_ok ?items"
    using assms(4,5) by (simp add: session_items_def sample_dpi_def sample_time_def Let_def)
  obtain conf where conf: "session (reports (c_config sample_context)) = Some conf" by (simp add: sample_context_def sample_conf_def)
  have out: "output_write_report sample_api arrs channels ty ts body (c_output sample_context) [] = Inr (c_output sample_context, [], [], 0)"
    for arrs channels ty ts body
    by (simp add: output_write_report_def sample_context_def sample_conf_def)
  have ul: "dpi_proto_hierarchy_ids_to_str (d_path_ul sample_dpi) (st_path_ul sample_stacks) 128 = Inr (path, n)"
    and dl: "dpi_proto_hierarchy_ids_to_str (d_path_dl sample_dpi) (st_path_dl sample_stacks) 128 = Inr (path, n)"
    using path by (simp_all add: sample_dpi_def sample_stacks_def)
  have fields: "behaviour_output sample_context = None" "length (st_message sample_stacks) = 3000"
    by (simp_all add: sample_context_def sample_stacks_def)
  from print_ip_session_report_ok [OF assms(1,2) fields(1) conf proto ul dl q assms(2) fields(2) ok refl out]
  show ?thesis by simp
qed

lemma sample_report_runs:
  "\<exists>s' ctx' fs'. do_reports sample_env_dpi sample_api [(sample_stacks, sample_dpi)] sample_stat sample_context []
     = Inr (s', ctx', fs', [session_delta sample_dpi sample_stat])"
proof -
  have idle: "\<not> is_idle sample_dpi sample_stat" by code_simp
  have "print_ip_session_report sample_env_dpi sample_api sample_stacks sample_dpi sample_stat sample_context []
      = Inr (remember sample_dpi sample_stat, sample_context, [], [])"
    by (rule sample_print_runs [OF idle]) (simp_all add: sample_stat_def is_zero_timestamp_def)
  then show ?thesis using idle by (simp add: session_report_do_report_def deref_def)
qed

section \<open>Properties\<close>

text \<open>
  The reports of a session add up. After any sequence of reports, whatever MMT-DPI counted at each of them, the packets,
  bytes and payload bytes that the reports printed, in each direction, sum up to the difference between the counters
  remembered at the end and at the beginning (modulo the width of the counters), and the remembered number of packets is the one MMT-DPI had at the last
  report: nothing is reported twice and nothing that was counted before the last report is missing.
\<close>

theorem session_reports_add_up:
  assumes "do_reports E A rs s ctx fs = Inr (s', ctx', fs', ds)" "rs \<noteq> []"
  shows "sum_of (\<lambda>k. upload (k_volumes k)) ds = upload (volumes s') - upload (volumes s)
     \<and> sum_of (\<lambda>k. download (k_volumes k)) ds = download (volumes s') - download (volumes s)
     \<and> sum_of (\<lambda>k. upload (k_payload k)) ds = upload (s_payload s') - upload (s_payload s)
     \<and> sum_of (\<lambda>k. download (k_payload k)) ds = download (s_payload s') - download (s_payload s)
     \<and> sum_of (\<lambda>k. flow_total (k_packets k)) ds = flow_total (s_packets s') - flow_total (s_packets s)
     \<and> flow_total (s_packets s') = flow_total (k_packets (dpi_counters (snd (last rs))))"
  using do_reports_telescope [OF additive_fields(1) assms(1)] do_reports_telescope [OF additive_fields(2) assms(1)]
    do_reports_telescope [OF additive_fields(3) assms(1)] do_reports_telescope [OF additive_fields(4) assms(1)]
    do_reports_telescope [OF additive_fields(7) assms(1)] do_reports_current [OF assms]
  by (simp add: stat_counters_def)

theorem session_reports_add_up_witness:
  "\<exists>s' ctx' fs'. do_reports sample_env_dpi sample_api [(sample_stacks, sample_dpi)] sample_stat sample_context []
     = Inr (s', ctx', fs', [session_delta sample_dpi sample_stat])
     \<and> sum_of (\<lambda>k. upload (k_volumes k)) [session_delta sample_dpi sample_stat] = upload (volumes s') - upload (volumes sample_stat)"
  using sample_report_runs session_reports_add_up by blast

text \<open>
  The printed round-trip times are exact. For the measurements of a direction since the last report, none of them zero
  and their sums below the width of the counters, the fields are the number of segments, the total time, the greatest
  and the smallest measurement, and the printed average lies between these two.
\<close>

theorem rtt_statistics_exact:
  assumes "d < 2" "hs \<noteq> []" "\<forall>(c, u) \<in> set hs. c \<noteq> 0 \<and> u \<noteq> 0" "rtt_time hs < 2 ^ 64" "rtt_segments hs < 2 ^ 64"
    and r: "r = rtt_run d hs"
  shows "unat (rtt_counter r ! d) = rtt_segments hs \<and> unat (rtt_sum r ! d) = rtt_time hs
     \<and> rtt_max r ! d = Max (snd ` set hs) \<and> rtt_min r ! d = Min (snd ` set hs)
     \<and> rtt_min r ! d \<le> div0 (rtt_sum r ! d) (rtt_counter r ! d) \<and> div0 (rtt_sum r ! d) (rtt_counter r ! d) \<le> rtt_max r ! d"
proof -
  have sums: "unat (rtt_counter r ! d) = rtt_segments hs" "unat (rtt_sum r ! d) = rtt_time hs"
    using rtt_run_sums [OF assms(1)] assms(4,5) r by simp_all
  have ext: "rtt_max r ! d = Max (snd ` set hs)" "rtt_min r ! d = Min (snd ` set hs)"
    unfolding r by (rule rtt_run_extremes [OF assms(1) _ assms(2)]; use assms(3) in blast)+
  have "Min (snd ` set hs) \<le> u \<and> u \<le> Max (snd ` set hs)" if "(c, u) \<in> set hs" for c u
    using that by (force intro: Min_le Max_ge)
  then have "\<forall>(c, u) \<in> set hs. unat (rtt_min r ! d) \<le> unat u \<and> unat u \<le> unat (rtt_max r ! d)"
    unfolding ext by (auto simp: word_le_nat_alt)
  note between = rtt_time_between [OF this]
  have pos: "rtt_segments hs > 0"
    using assms(2,3) by (cases hs) (auto simp: rtt_segments_def unat_gt_0)
  have "unat (div0 (rtt_sum r ! d) (rtt_counter r ! d)) = rtt_time hs div rtt_segments hs"
    using pos sums by (auto simp: div0_def unat_div)
  moreover have "unat (rtt_min r ! d) \<le> rtt_time hs div rtt_segments hs" "rtt_time hs div rtt_segments hs \<le> unat (rtt_max r ! d)"
    using between pos div_le_mono [OF between(2), of "rtt_segments hs"] by (simp_all add: less_eq_div_iff_mult_less_eq)
  ultimately show ?thesis using sums ext by (simp add: word_le_nat_alt)
qed

theorem rtt_statistics_exact_witness:
  "unat (rtt_sum (rtt_run 1 [(2, 30), (1, 60)]) ! 1) = 120 \<and> rtt_max (rtt_run 1 [(2, 30), (1, 60)]) ! 1 = 60
     \<and> rtt_min (rtt_run 1 [(2, 30), (1, 60)]) ! 1 = 30"
  using rtt_statistics_exact [of 1 "[(2, 30), (1, 60)]" "rtt_run 1 [(2, 30), (1, 60)]"]
  by (simp add: rtt_time_def rtt_segments_def)

end
