(* ===== verification/Micro_Flow.thy ===== *)
theory Micro_Flow
  imports Session_Report
begin

text \<open>
  Micro flows, \<^verbatim>\<open>src/src/modules/dpi/report/micro_flow_report.[ch]\<close>: small sessions are not reported one by one but summed up per
  application; the sums are reported when they exceed a limit and at the end. The counters have 32 bits and wrap.
  What MMT-DPI knows of the session that ends is an input. The number of applications (\<^verbatim>\<open>PROTO_MAX_IDENTIFIER\<close>)
  is the length of the array.
\<close>

section \<open>Definitions\<close>

record micro_flow_stats =
  mf_last_time :: timeval
  application_id :: u32
  flows_nb :: u32
  dl_pcount :: u32
  ul_pcount :: u32
  dl_bcount :: u32
  ul_bcount :: u32

record micro_context =
  m_config :: micro_flow_conf
  m_output :: "output_t option"
  m_stats :: "micro_flow_stats list"

text \<open>A session at its end.\<close>

record ended_session =
  e_hierarchy :: proto_hierarchy
  e_dl_packet_count :: u64
  e_ul_packet_count :: u64
  e_dl_byte_count :: u64
  e_ul_byte_count :: u64
  e_packet_count :: u64
  e_byte_count :: u64
  e_last_activity_time :: timeval

definition zero_stats :: micro_flow_stats where
  "zero_stats = \<lparr>mf_last_time = zero_ts, application_id = 0, flows_nb = 0, dl_pcount = 0, ul_pcount = 0, dl_bcount = 0, ul_bcount = 0\<rparr>"

definition micro_flow_report_alloc_init :: "nat \<Rightarrow> micro_flow_conf \<Rightarrow> output_t option \<Rightarrow> micro_context option" where
  "micro_flow_report_alloc_init max_proto config output =
     (if \<not> mf_is_enable config then None
      else Some \<lparr>m_config = config, m_output = output, m_stats = replicate max_proto zero_stats\<rparr>)"

definition is_micro_flow :: "micro_context \<Rightarrow> ended_session \<Rightarrow> bool" where
  "is_micro_flow mf e \<longleftrightarrow>
     byte_threshold (m_config mf) \<ge> unat (e_byte_count e) \<or> packet_threshold (m_config mf) \<ge> unat (e_packet_count e)"

definition MICRO_FLOW_REPORT_TYPE :: nat where
  "MICRO_FLOW_REPORT_TYPE = 8"

text \<open>\<open>arrs\<close>: the local arrays of the function and of the output.\<close>

definition print_micro_flow_report ::
  "chan_api \<Rightarrow> string \<times> string \<times> string \<Rightarrow> micro_flow_stats \<Rightarrow> output_t option \<Rightarrow> nat \<Rightarrow> fs \<Rightarrow> (output_t option \<times> fs \<times> delivery list) cres" where
  "print_micro_flow_report A arrs stat output channel fs =
     bindE (STRING_BUILDER_WITH_SEPARATOR 0 (fst arrs) MAX_LENGTH_REPORT_MESSAGE '',''
              [F_INT (ucast (application_id stat)), F_INT (ucast (flows_nb stat)), F_INT (ucast (dl_pcount stat)),
               F_INT (ucast (ul_pcount stat)), F_INT (ucast (dl_bcount stat)), F_INT (ucast (ul_bcount stat))]) (\<lambda>(message, _).
     bindE (output_write_report A (snd arrs) channel MICRO_FLOW_REPORT_TYPE (mf_last_time stat) (Some message) output fs) (\<lambda>(output, fs, ds, _).
       Inr (output, fs, ds)))"

definition add_session :: "ended_session \<Rightarrow> micro_flow_stats \<Rightarrow> micro_flow_stats" where
  "add_session e stat =
     stat\<lparr>dl_pcount := dl_pcount stat + ucast (e_dl_packet_count e), dl_bcount := dl_bcount stat + ucast (e_dl_byte_count e),
          ul_pcount := ul_pcount stat + ucast (e_ul_packet_count e), ul_bcount := ul_bcount stat + ucast (e_ul_byte_count e),
          mf_last_time := e_last_activity_time e, flows_nb := flows_nb stat + 1\<rparr>"

text \<open>The test for a report; the packets of the download are added to themselves.\<close>

definition is_over_limit :: "micro_flow_conf \<Rightarrow> micro_flow_stats \<Rightarrow> bool" where
  "is_over_limit config stat \<longleftrightarrow>
     unat (dl_bcount stat + ul_bcount stat) > report_bytes_count config
     \<or> unat (dl_pcount stat + dl_pcount stat) > report_packets_count config
     \<or> unat (flows_nb stat) > report_flows_count config"

definition reset_stats :: "micro_flow_stats \<Rightarrow> micro_flow_stats" where
  "reset_stats stat = stat\<lparr>dl_pcount := 0, dl_bcount := 0, ul_pcount := 0, ul_bcount := 0, flows_nb := 0\<rparr>"

definition micro_flow_report__update ::
  "chan_api \<Rightarrow> string \<times> string \<times> string \<Rightarrow> ended_session \<Rightarrow> micro_context \<Rightarrow> fs \<Rightarrow> (micro_context \<times> fs \<times> delivery list) cres" where
  "micro_flow_report__update A arrs e mf fs =
     bindE (dpi_get_proto_id_from_session (e_hierarchy e)) (\<lambda>proto.
     let app_id = unat proto in
     if app_id \<ge> length (m_stats mf) then Inl OutOfBounds
     else let stat = add_session e (m_stats mf ! app_id);
              mf = mf\<lparr>m_stats := (m_stats mf)[app_id := stat]\<rparr>
          in if is_over_limit (m_config mf) stat
             then bindE (print_micro_flow_report A arrs stat (m_output mf) (mf_output_channels (m_config mf)) fs) (\<lambda>(output, fs, ds).
                    Inr (mf\<lparr>m_output := output, m_stats := (m_stats mf)[app_id := reset_stats stat]\<rparr>, fs, ds))
             else Inr (mf, fs, []))"

fun report_rest ::
  "chan_api \<Rightarrow> string \<times> string \<times> string \<Rightarrow> micro_flow_stats list \<Rightarrow> nat \<Rightarrow> output_t option \<Rightarrow> fs \<Rightarrow> (output_t option \<times> fs \<times> delivery list) cres" where
  "report_rest A arrs [] channel output fs = Inr (output, fs, [])"
| "report_rest A arrs (stat # ss) channel output fs =
     bindE (if flows_nb stat > 0 then print_micro_flow_report A arrs stat output channel fs else Inr (output, fs, [])) (\<lambda>(output, fs, ds).
     bindE (report_rest A arrs ss channel output fs) (\<lambda>(output, fs, ds'). Inr (output, fs, ds @ ds')))"

definition micro_flow_report_release ::
  "chan_api \<Rightarrow> string \<times> string \<times> string \<Rightarrow> micro_context option \<Rightarrow> fs \<Rightarrow> (fs \<times> delivery list) cres" where
  "micro_flow_report_release A arrs mf fs =
     (case mf of None \<Rightarrow> Inr (fs, [])
      | Some mf \<Rightarrow> bindE (report_rest A arrs (m_stats mf) (mf_output_channels (m_config mf)) (m_output mf) fs) (\<lambda>(_, fs, ds). Inr (fs, ds)))"

section \<open>Histories\<close>

text \<open>The sessions that end one after the other, and the sums that were reported with the application they belong to.\<close>

fun run_updates ::
  "chan_api \<Rightarrow> string \<times> string \<times> string \<Rightarrow> ended_session list \<Rightarrow> micro_context \<Rightarrow> fs
     \<Rightarrow> (micro_context \<times> fs \<times> (nat \<times> micro_flow_stats) list) cres" where
  "run_updates A arrs [] mf fs = Inr (mf, fs, [])"
| "run_updates A arrs (e # es) mf fs =
     bindE (dpi_get_proto_id_from_session (e_hierarchy e)) (\<lambda>proto.
     bindE (micro_flow_report__update A arrs e mf fs) (\<lambda>(mf', fs', _).
     let stat = add_session e (m_stats mf ! unat proto)
     in bindE (run_updates A arrs es mf' fs') (\<lambda>(mf', fs', rs).
          Inr (mf', fs', (if is_over_limit (m_config mf) stat then [(unat proto, stat)] else []) @ rs))))"

definition sessions_of :: "nat \<Rightarrow> ended_session list \<Rightarrow> ended_session list" where
  "sessions_of i es = filter (\<lambda>e. case dpi_get_proto_id_from_session (e_hierarchy e) of Inl _ \<Rightarrow> False | Inr p \<Rightarrow> unat p = i) es"

definition reports_of :: "nat \<Rightarrow> (nat \<times> micro_flow_stats) list \<Rightarrow> micro_flow_stats list" where
  "reports_of i rs = map snd (filter (\<lambda>(j, _). j = i) rs)"

section \<open>Lemmas\<close>

text \<open>A field that a session adds to and a report resets.\<close>

definition summed :: "(micro_flow_stats \<Rightarrow> u32) \<Rightarrow> (ended_session \<Rightarrow> u32) \<Rightarrow> bool" where
  "summed f g \<longleftrightarrow> (\<forall>e stat. f (add_session e stat) = f stat + g e \<and> f (reset_stats stat) = 0)"

lemma summed_fields:
  "summed dl_pcount (\<lambda>e. ucast (e_dl_packet_count e))" "summed ul_pcount (\<lambda>e. ucast (e_ul_packet_count e))"
  "summed dl_bcount (\<lambda>e. ucast (e_dl_byte_count e))" "summed ul_bcount (\<lambda>e. ucast (e_ul_byte_count e))"
  "summed flows_nb (\<lambda>_. 1)"
  by (simp_all add: summed_def add_session_def reset_stats_def)

lemma update_result:
  assumes "micro_flow_report__update A arrs e mf fs = Inr (mf', fs', ds)" "dpi_get_proto_id_from_session (e_hierarchy e) = Inr proto"
    and stat: "stat = add_session e (m_stats mf ! unat proto)"
  shows "unat proto < length (m_stats mf)" "m_config mf' = m_config mf"
    "m_stats mf' = (m_stats mf)[unat proto := if is_over_limit (m_config mf) stat then reset_stats stat else stat]"
  using assms(1,2) unfolding micro_flow_report__update_def stat
  by (auto simp: Let_def bindE_eq_Inr split: if_splits)

lemma run_updates_sum:
  assumes "summed f g" "run_updates A arrs es mf fs = Inr (mf', fs', rs)" "i < length (m_stats mf)"
  shows "sum_list (map f (reports_of i rs)) + f (m_stats mf' ! i) = f (m_stats mf ! i) + sum_list (map g (sessions_of i es))"
  using assms(2,3)
proof (induction A arrs es mf fs arbitrary: mf' fs' rs rule: run_updates.induct)
  case (1 A arrs mf fs)
  then show ?case by (simp add: reports_of_def sessions_of_def)
next
  case (2 A arrs e es mf fs)
  obtain proto where p: "dpi_get_proto_id_from_session (e_hierarchy e) = Inr proto"
    using 2(2) by (cases "dpi_get_proto_id_from_session (e_hierarchy e)") auto
  obtain mf1 fs1 d where u: "micro_flow_report__update A arrs e mf fs = Inr (mf1, fs1, d)"
    using 2(2) p by (cases "micro_flow_report__update A arrs e mf fs") auto
  define stat where "stat = add_session e (m_stats mf ! unat proto)"
  obtain rs1 where r: "run_updates A arrs es mf1 fs1 = Inr (mf', fs', rs1)"
    "rs = (if is_over_limit (m_config mf) stat then [(unat proto, stat)] else []) @ rs1"
    using 2(2) p u by (cases "run_updates A arrs es mf1 fs1") (auto simp: stat_def Let_def)
  note st = update_result [OF u p stat_def]
  have ih: "sum_list (map f (reports_of i rs1)) + f (m_stats mf' ! i)
      = f (m_stats mf1 ! i) + sum_list (map g (sessions_of i es))"
    using 2(1) [OF stat_def r(1)] 2(3) st(3) by simp
  have f: "f stat = f (m_stats mf ! unat proto) + g e" "f (reset_stats stat) = 0"
    using assms(1) by (simp_all add: summed_def stat_def)
  show ?case
  proof (cases "unat proto = i")
    case True
    then show ?thesis using ih f r(2) p st(1) by (auto simp: reports_of_def sessions_of_def st(3) algebra_simps)
  next
    case False
    then show ?thesis using ih r(2) p by (auto simp: reports_of_def sessions_of_def st(3))
  qed
qed

text \<open>The application is never written to the sums, so every report names application 0.\<close>

lemma reports_name_no_application:
  assumes "run_updates A arrs es mf fs = Inr (mf', fs', rs)" "\<forall>stat \<in> set (m_stats mf). application_id stat = 0"
  shows "\<forall>(i, stat) \<in> set rs. application_id stat = 0"
  using assms
proof (induction A arrs es mf fs arbitrary: mf' fs' rs rule: run_updates.induct)
  case (2 A arrs e es mf fs)
  obtain proto where p: "dpi_get_proto_id_from_session (e_hierarchy e) = Inr proto"
    using 2(2) by (cases "dpi_get_proto_id_from_session (e_hierarchy e)") auto
  obtain mf1 fs1 d where u: "micro_flow_report__update A arrs e mf fs = Inr (mf1, fs1, d)"
    using 2(2) p by (cases "micro_flow_report__update A arrs e mf fs") auto
  define stat where "stat = add_session e (m_stats mf ! unat proto)"
  obtain rs1 where r: "run_updates A arrs es mf1 fs1 = Inr (mf', fs', rs1)"
    "rs = (if is_over_limit (m_config mf) stat then [(unat proto, stat)] else []) @ rs1"
    using 2(2) p u by (cases "run_updates A arrs es mf1 fs1") (auto simp: stat_def Let_def)
  note st = update_result [OF u p stat_def]
  have z: "application_id stat = 0" using 2(3) st(1) by (simp add: stat_def add_session_def)
  then have "\<forall>x \<in> set (m_stats mf1). application_id x = 0"
    using 2(3) unfolding st(3) by (auto simp: reset_stats_def dest!: set_update_subset_insert [THEN subsetD] split: if_splits)
  then show ?case using 2(1) [OF stat_def r(1)] z r(2) by auto
qed simp

section \<open>Properties\<close>

text \<open>A small session of application 2 of three.\<close>

definition sample_ended :: ended_session where
  "sample_ended = \<lparr>e_hierarchy = \<lparr>ph_len = 1, proto_path = [2]\<rparr>, e_dl_packet_count = 2, e_ul_packet_count = 1, e_dl_byte_count = 200,
     e_ul_byte_count = 60, e_packet_count = 3, e_byte_count = 260, e_last_activity_time = sample_time 9\<rparr>"

definition sample_micro_conf :: micro_flow_conf where
  "sample_micro_conf = \<lparr>mf_is_enable = True, packet_threshold = 5, byte_threshold = 1000, report_packets_count = 1000,
     report_bytes_count = 1000, report_flows_count = 10, mf_output_channels = 1\<rparr>"



end
