(* ===== verification/Pcap_Dump.thy ===== *)
theory Pcap_Dump
  imports Dpi_Tool
begin

text \<open>
  The dump of packets to pcap files, \<^verbatim>\<open>src/src/modules/dpi/pcap_dump/pcap_dump.c\<close>, byte by byte: the structures are written
  as a little-endian machine stores them. A reader of the pcap format (\<open>read_pcap\<close>) serves as the specification.

  Files are a map from paths to bytes. Which files can be opened and how many bytes a write stores are inputs (\<open>dump_io\<close>).
\<close>

section \<open>Bytes of a pcap file\<close>

type_synonym byte_files = "string \<rightharpoonup> u8 list"

record dump_io =
  d_fopen_ok :: "string \<Rightarrow> bool"
  d_fwrite :: "string \<Rightarrow> nat \<Rightarrow> nat \<Rightarrow> nat"

definition le32 :: "u32 \<Rightarrow> u8 list" where
  "le32 w = [ucast w, ucast (drop_bit 8 w), ucast (drop_bit 16 w), ucast (drop_bit 24 w)]"

definition le16 :: "u16 \<Rightarrow> u8 list" where
  "le16 w = [ucast w, ucast (drop_bit 8 w)]"

record pd_pcap_file_header =
  magic :: u32
  version_major :: u16
  version_minor :: u16
  thiszone :: u32
  sigfigs :: u32
  snaplen :: u32
  linktype :: u32

record pd_pcap_pkthdr =
  h_tv_sec :: u32
  h_tv_usec :: u32
  h_caplen :: u32
  h_len :: u32

definition file_header_bytes :: "pd_pcap_file_header \<Rightarrow> u8 list" where
  "file_header_bytes h = le32 (magic h) @ le16 (version_major h) @ le16 (version_minor h) @ le32 (thiszone h) @ le32 (sigfigs h)
     @ le32 (snaplen h) @ le32 (linktype h)"

definition pkthdr_bytes :: "pd_pcap_pkthdr \<Rightarrow> u8 list" where
  "pkthdr_bytes h = le32 (h_tv_sec h) @ le32 (h_tv_usec h) @ le32 (h_caplen h) @ le32 (h_len h)"

text \<open>\<^verbatim>\<open>fwrite\<close> of a list of bytes to an open file, and how many of them were stored.\<close>

definition fwrite :: "dump_io \<Rightarrow> string \<Rightarrow> u8 list \<Rightarrow> byte_files \<Rightarrow> byte_files \<times> nat" where
  "fwrite D path bytes fs =
     (let old = case_option [] id (fs path); n = min (length bytes) (d_fwrite D path (length old) (length bytes))
      in (fs(path \<mapsto> old @ take n bytes), n))"

section \<open>Operations\<close>

text \<open>What the callback reads of a packet; \<^verbatim>\<open>data\<close> are the bytes that can be read.\<close>

record ipacket =
  i_hierarchy :: proto_hierarchy
  i_ts :: timeval
  i_len :: u32
  i_caplen :: u32
  i_data :: "u8 list"

record pcap_dump_context =
  pd_file :: "string option"
  pd_config :: pcap_dump_conf
  next_ts_to_dump_to_new_file :: u32
  proto_ids_lst :: "u32 list"
  pd_worker_index :: nat
  pd_stack_type :: u32

definition write_packet :: "dump_io \<Rightarrow> string \<Rightarrow> u8 list \<Rightarrow> u16 \<Rightarrow> u16 \<Rightarrow> timeval \<Rightarrow> byte_files \<Rightarrow> (byte_files \<times> bool) cres" where
  "write_packet D fd buf len caplen tv fs =
     (let h = \<lparr>h_tv_sec = of_int (tv_sec tv), h_tv_usec = of_int (tv_usec tv), h_caplen = ucast caplen, h_len = ucast len\<rparr>;
          (fs, n) = fwrite D fd (pkthdr_bytes h) fs
      in if n \<noteq> length (pkthdr_bytes h) then Inr (fs, False)
         else if length buf < unat caplen then Inl OutOfBounds
         else let (fs, n) = fwrite D fd (take (unat caplen) buf) fs in Inr (fs, n = unat caplen))"

definition create_pcap_file :: "dump_io \<Rightarrow> string \<Rightarrow> u32 \<Rightarrow> u32 \<Rightarrow> u16 \<Rightarrow> byte_files \<Rightarrow> byte_files \<times> string option" where
  "create_pcap_file D path link zone snap fs =
     (if \<not> d_fopen_ok D path then (fs, None)
      else let hdr = \<lparr>magic = 0xa1b2c3d4, version_major = 2, version_minor = 4, thiszone = zone, sigfigs = 0,
                      snaplen = ucast snap, linktype = link\<rparr>
           in (fst (fwrite D path (file_header_bytes hdr) (fs(path \<mapsto> []))), Some path))"

text \<open>The name of a dump file, cut to the 254 characters \<^verbatim>\<open>snprintf\<close> stores.\<close>

definition dump_file_name :: "string \<Rightarrow> int \<Rightarrow> nat \<Rightarrow> string" where
  "dump_file_name directory sec worker_index =
     take 254 (directory @ dec (size_t_of sec) @ ''_thread_'' @ dec worker_index @ ''.pcap'')"

text \<open>The inner loop: the indices of the path from the last down to 2.\<close>

fun in_path :: "proto_hierarchy \<Rightarrow> u32 \<Rightarrow> nat list \<Rightarrow> bool cres" where
  "in_path h proto [] = Inr False"
| "in_path h proto (j # js) = bindE (path_at h j) (\<lambda>p. if p = proto then Inr True else in_path h proto js)"

fun has_protocol :: "proto_hierarchy \<Rightarrow> u32 list \<Rightarrow> bool cres" where
  "has_protocol h [] = Inr False"
| "has_protocol h (proto # protos) =
     bindE (in_path h proto (rev [2..<ph_len h])) (\<lambda>found. if found then Inr True else has_protocol h protos)"

text \<open>The part of the callback once a protocol was found.\<close>

definition dump_packet :: "dump_io \<Rightarrow> ipacket \<Rightarrow> pcap_dump_context \<Rightarrow> byte_files \<Rightarrow> (pcap_dump_context \<times> byte_files) cres" where
  "dump_packet D p ctx fs =
     bindE (if pd_file ctx = None \<or> tv_sec (i_ts p) > int (unat (next_ts_to_dump_to_new_file ctx))
            then bindE (deref (pd_directory (pd_config ctx))) (\<lambda>directory.
                 let name = dump_file_name directory (tv_sec (i_ts p)) (pd_worker_index ctx);
                     (fs, file) = create_pcap_file D name (pd_stack_type ctx) 0 (of_nat (pd_snap_len (pd_config ctx))) fs
                 in if file = None then Inr (ctx\<lparr>pd_file := None\<rparr>, fs)
                    else Inr (ctx\<lparr>pd_file := file,
                                  next_ts_to_dump_to_new_file := of_int (tv_sec (i_ts p) + int (pd_frequency (pd_config ctx)))\<rparr>, fs))
            else Inr (ctx, fs)) (\<lambda>(ctx, fs).
     case pd_file ctx of None \<Rightarrow> Inr (ctx, fs)
     | Some file \<Rightarrow>
         bindE (write_packet D file (i_data p) (ucast (i_len p))
                  (of_nat (min (unat (i_caplen p)) (pd_snap_len (pd_config ctx)))) (i_ts p) fs) (\<lambda>(fs, _). Inr (ctx, fs)))"

definition pcap_dump_callback_on_receiving_packet ::
  "dump_io \<Rightarrow> ipacket \<Rightarrow> pcap_dump_context \<Rightarrow> byte_files \<Rightarrow> (pcap_dump_context \<times> byte_files) cres" where
  "pcap_dump_callback_on_receiving_packet D p ctx fs =
     bindE (has_protocol (i_hierarchy p) (proto_ids_lst ctx)) (\<lambda>found. if found then dump_packet D p ctx fs else Inr (ctx, fs))"

definition pcap_dump_start :: "'h dpi_api \<Rightarrow> nat \<Rightarrow> probe_conf \<Rightarrow> pcap_dump_context option cres" where
  "pcap_dump_start A worker_index conf =
     bindE (deref (pcap_dump (reports conf))) (\<lambda>config.
       if \<not> pd_is_enable config then Inr None
       else Inr (Some \<lparr>pd_file = None, pd_config = config, next_ts_to_dump_to_new_file = 0,
                       proto_ids_lst = map (get_protocol_id_by_name A) (pd_protocols config),
                       pd_worker_index = worker_index, pd_stack_type = of_nat (stack_type conf)\<rparr>))"

text \<open>The open file is closed and the context is freed; nothing is left of it.\<close>

definition pcap_dump_stop :: "pcap_dump_context option \<Rightarrow> string option" where
  "pcap_dump_stop ctx = (case ctx of None \<Rightarrow> None | Some ctx \<Rightarrow> pd_file ctx)"

fun run_dump :: "dump_io \<Rightarrow> ipacket list \<Rightarrow> pcap_dump_context \<Rightarrow> byte_files \<Rightarrow> (pcap_dump_context \<times> byte_files) cres" where
  "run_dump D [] ctx fs = Inr (ctx, fs)"
| "run_dump D (p # ps) ctx fs =
     bindE (pcap_dump_callback_on_receiving_packet D p ctx fs) (\<lambda>(ctx, fs). run_dump D ps ctx fs)"

section \<open>Reading a pcap file\<close>

definition un_le32 :: "u8 list \<Rightarrow> u32" where
  "un_le32 b = ucast (b ! 0) OR push_bit 8 (ucast (b ! 1)) OR push_bit 16 (ucast (b ! 2)) OR push_bit 24 (ucast (b ! 3))"

definition un_le16 :: "u8 list \<Rightarrow> u16" where
  "un_le16 b = ucast (b ! 0) OR push_bit 8 (ucast (b ! 1))"

type_synonym pcap_record = "pd_pcap_pkthdr \<times> u8 list"

definition un_pkthdr :: "u8 list \<Rightarrow> pd_pcap_pkthdr" where
  "un_pkthdr b = \<lparr>h_tv_sec = un_le32 b, h_tv_usec = un_le32 (drop 4 b), h_caplen = un_le32 (drop 8 b), h_len = un_le32 (drop 12 b)\<rparr>"

function read_records :: "u8 list \<Rightarrow> pcap_record list option" where
  "read_records b =
     (if b = [] then Some []
      else if length b < 16 then None
      else let h = un_pkthdr b; rest = drop 16 b
           in if length rest < unat (h_caplen h) then None
              else map_option (\<lambda>rs. (h, take (unat (h_caplen h)) rest) # rs) (read_records (drop (unat (h_caplen h)) rest)))"
  by auto
termination by (relation "measure length") auto

definition un_file_header :: "u8 list \<Rightarrow> pd_pcap_file_header" where
  "un_file_header b =
     \<lparr>magic = un_le32 b, version_major = un_le16 (drop 4 b), version_minor = un_le16 (drop 6 b), thiszone = un_le32 (drop 8 b),
      sigfigs = un_le32 (drop 12 b), snaplen = un_le32 (drop 16 b), linktype = un_le32 (drop 20 b)\<rparr>"

definition read_pcap :: "u8 list \<Rightarrow> (pd_pcap_file_header \<times> pcap_record list) option" where
  "read_pcap b =
     (if length b < 24 \<or> magic (un_file_header b) \<noteq> 0xa1b2c3d4 then None
      else map_option (Pair (un_file_header b)) (read_records (drop 24 b)))"

section \<open>Lemmas\<close>

declare read_records.simps [simp del]

lemma un_le32_le32: "un_le32 (le32 w @ r) = w"
proof (rule bit_word_eqI)
  fix n
  assume "n < LENGTH(32)"
  then show "bit (un_le32 (le32 w @ r)) n \<longleftrightarrow> bit w n"
    by (cases "n < 16"; cases "n < 24") (auto simp: un_le32_def le32_def bit_simps)
qed

lemma un_le16_le16: "un_le16 (le16 w @ r) = w"
  by (rule bit_word_eqI) (auto simp: un_le16_def le16_def bit_simps)

lemma length_le [simp]: "length (le32 w) = 4" "length (le16 v) = 2"
  by (simp_all add: le32_def le16_def)

lemma length_headers [simp]: "length (file_header_bytes h) = 24" "length (pkthdr_bytes k) = 16"
  by (simp_all add: file_header_bytes_def pkthdr_bytes_def)

lemma un_pkthdr_bytes: "un_pkthdr (pkthdr_bytes h @ r) = h"
  by (simp add: un_pkthdr_def pkthdr_bytes_def un_le32_le32)

lemma un_file_header_bytes: "un_file_header (file_header_bytes h @ r) = h"
  by (simp add: un_file_header_def file_header_bytes_def un_le32_le32 un_le16_le16)

definition record_ok :: "pcap_record \<Rightarrow> bool" where
  "record_ok r \<longleftrightarrow> length (snd r) = unat (h_caplen (fst r))"

definition record_bytes :: "pcap_record \<Rightarrow> u8 list" where
  "record_bytes r = pkthdr_bytes (fst r) @ snd r"

lemma read_records_bytes: "list_all record_ok rs \<Longrightarrow> read_records (concat (map record_bytes rs)) = Some rs"
proof (induction rs)
  case (Cons r rs)
  have "read_records (pkthdr_bytes (fst r) @ snd r @ concat (map record_bytes rs)) = Some (r # rs)"
    using Cons by (subst read_records.simps) (simp add: record_ok_def un_pkthdr_bytes flip: length_greater_0_conv)
  then show ?case by (simp add: record_bytes_def [of r])
qed (simp add: read_records.simps)

lemma read_pcap_bytes:
  "magic h = 0xa1b2c3d4 \<Longrightarrow> list_all record_ok rs
   \<Longrightarrow> read_pcap (file_header_bytes h @ concat (map record_bytes rs)) = Some (h, rs)"
  by (simp add: read_pcap_def un_file_header_bytes read_records_bytes)

text \<open>A packet is chosen when a protocol to dump is in its path, not counting the first two elements.\<close>

definition selected :: "u32 list \<Rightarrow> ipacket \<Rightarrow> bool" where
  "selected protos p \<longleftrightarrow> set protos \<inter> set (drop 2 (take (ph_len (i_hierarchy p)) (proto_path (i_hierarchy p)))) \<noteq> {}"

definition path_ok :: "proto_hierarchy \<Rightarrow> bool" where
  "path_ok h \<longleftrightarrow> ph_len h \<le> length (proto_path h)"

lemma in_path_iff:
  "\<forall>j \<in> set js. j < length (proto_path h) \<Longrightarrow> in_path h proto js = Inr (\<exists>j \<in> set js. proto_path h ! j = proto)"
  by (induction h proto js rule: in_path.induct) (auto simp: path_at_def)

lemma in_path_drop:
  assumes "path_ok h"
  shows "in_path h proto (rev [2..<ph_len h]) = Inr (proto \<in> set (drop 2 (take (ph_len h) (proto_path h))))"
proof -
  have "map (nth (proto_path h)) [2..<ph_len h] = drop 2 (take (ph_len h) (proto_path h))"
    using assms by (intro nth_equalityI) (auto simp: path_ok_def)
  then have "set (drop 2 (take (ph_len h) (proto_path h))) = nth (proto_path h) ` set [2..<ph_len h]"
    by (metis set_map)
  then show ?thesis using assms by (subst in_path_iff) (auto simp: path_ok_def)
qed

lemma has_protocol_selected:
  "path_ok (i_hierarchy p) \<Longrightarrow> has_protocol (i_hierarchy p) protos = Inr (selected protos p)"
  by (induction protos) (auto simp: in_path_drop selected_def)

section \<open>Files that are complete\<close>

text \<open>What a chosen packet leaves in the file.\<close>

definition dump_record :: "pcap_dump_conf \<Rightarrow> ipacket \<Rightarrow> pcap_record" where
  "dump_record config p =
     (let n = min (unat (i_caplen p)) (pd_snap_len config)
      in (\<lparr>h_tv_sec = of_int (tv_sec (i_ts p)), h_tv_usec = of_int (tv_usec (i_ts p)), h_caplen = of_nat n,
           h_len = ucast (ucast (i_len p) :: u16)\<rparr>, take n (i_data p)))"

definition dump_header :: "pcap_dump_context \<Rightarrow> pd_pcap_file_header" where
  "dump_header ctx = \<lparr>magic = 0xa1b2c3d4, version_major = 2, version_minor = 4, thiszone = 0, sigfigs = 0,
     snaplen = ucast (of_nat (pd_snap_len (pd_config ctx)) :: u16), linktype = pd_stack_type ctx\<rparr>"

text \<open>Files can be opened and writes are complete.\<close>

definition io_ok :: "dump_io \<Rightarrow> bool" where
  "io_ok D \<longleftrightarrow> (\<forall>path. d_fopen_ok D path) \<and> (\<forall>path pos n. n \<le> d_fwrite D path pos n)"

definition packet_ok :: "pcap_dump_conf \<Rightarrow> ipacket \<Rightarrow> bool" where
  "packet_ok config p \<longleftrightarrow> path_ok (i_hierarchy p) \<and> unat (i_caplen p) \<le> length (i_data p)
     \<and> 0 \<le> tv_sec (i_ts p) \<and> tv_sec (i_ts p) + int (pd_frequency config) < 2 ^ 32"

text \<open>The context is the one of the start but for the file; the directory leaves room for the rest of the name.\<close>

definition context_ok :: "string \<Rightarrow> pcap_dump_context \<Rightarrow> bool" where
  "context_ok dir ctx \<longleftrightarrow> pd_directory (pd_config ctx) = Some dir
     \<and> length dir + length (dec (pd_worker_index ctx)) \<le> 221 \<and> pd_snap_len (pd_config ctx) < 2 ^ 16"

abbreviation name_at :: "string \<Rightarrow> pcap_dump_context \<Rightarrow> int \<Rightarrow> string" where
  "name_at dir ctx c \<equiv> dump_file_name dir c (pd_worker_index ctx)"

text \<open>\<open>cs\<close> are the moments files were created at, \<open>bs\<close> the records of each.\<close>

definition dumped :: "string \<Rightarrow> pcap_dump_context \<Rightarrow> byte_files \<Rightarrow> int list \<Rightarrow> pcap_record list list \<Rightarrow> bool" where
  "dumped dir ctx fs cs bs \<longleftrightarrow> sorted_wrt (<) cs \<and> (\<forall>c \<in> set cs. 0 \<le> c \<and> c + int (pd_frequency (pd_config ctx)) < 2 ^ 32)
     \<and> pd_file ctx = (if cs = [] then None else Some (name_at dir ctx (last cs)))
     \<and> (cs \<noteq> [] \<longrightarrow> next_ts_to_dump_to_new_file ctx = of_int (last cs + int (pd_frequency (pd_config ctx))))
     \<and> list_all (list_all record_ok) bs
     \<and> map (\<lambda>c. fs (name_at dir ctx c)) cs = map (\<lambda>b. Some (file_header_bytes (dump_header ctx) @ concat (map record_bytes b))) bs"

lemma fwrite_ok: "io_ok D \<Longrightarrow> fs path = Some old \<Longrightarrow> fwrite D path bytes fs = (fs(path \<mapsto> old @ bytes), length bytes)"
  by (simp add: fwrite_def io_ok_def Let_def)

lemma create_ok:
  "io_ok D \<Longrightarrow> create_pcap_file D path (pd_stack_type ctx) 0 (of_nat (pd_snap_len (pd_config ctx))) fs
     = (fs(path \<mapsto> file_header_bytes (dump_header ctx)), Some path)"
  using fwrite_ok [of D "fs(path \<mapsto> [])" path "[]"] by (simp add: create_pcap_file_def dump_header_def io_ok_def Let_def)

lemma snap_u16: "pd_snap_len config < 2 ^ 16 \<Longrightarrow> unat (of_nat (min c (pd_snap_len config)) :: u16) = min c (pd_snap_len config)"
  by (simp add: unat_of_nat)

lemma dump_record_ok:
  assumes "pd_snap_len config < 2 ^ 16" "packet_ok config p"
  shows "record_ok (dump_record config p)"
  using assms by (auto simp: record_ok_def dump_record_def packet_ok_def unat_of_nat Let_def min_def)

lemma write_packet_ok:
  assumes "io_ok D" "pd_snap_len config < 2 ^ 16" "packet_ok config p" "fs path = Some old"
  shows "write_packet D path (i_data p) (ucast (i_len p)) (of_nat (min (unat (i_caplen p)) (pd_snap_len config))) (i_ts p) fs
     = Inr (fs(path \<mapsto> old @ record_bytes (dump_record config p)), True)"
proof -
  define n where "n = min (unat (i_caplen p)) (pd_snap_len config)"
  have u: "unat (of_nat n :: u16) = n" using snap_u16 [OF assms(2)] by (simp add: n_def)
  then have c: "(ucast (of_nat n :: u16) :: u32) = of_nat n" by (metis of_nat_unat)
  have l: "n \<le> length (i_data p)" using assms(3) by (auto simp: packet_ok_def n_def)
  have "fwrite D path (take n (i_data p)) (fs(path \<mapsto> old @ b)) = (fs(path \<mapsto> (old @ b) @ take n (i_data p)), n)" for b
    using fwrite_ok [OF assms(1), of "fs(path \<mapsto> old @ b)" path "old @ b" "take n (i_data p)"] l by simp
  then show ?thesis
    unfolding n_def [symmetric] using l u c fwrite_ok [of D fs path old] assms(1,4)
    by (simp add: write_packet_def record_bytes_def dump_record_def Let_def n_def [symmetric])
qed

lemma int_unat_of_int: "0 \<le> k \<Longrightarrow> k < 2 ^ 32 \<Longrightarrow> int (unat (of_int k :: u32)) = k"
  by (simp add: uint_word_of_int)

lemma name_at_inj:
  assumes "context_ok dir ctx" "name_at dir ctx c = name_at dir ctx d" "0 \<le> c" "c < 2 ^ 32" "0 \<le> d" "d < 2 ^ 32"
  shows "c = d"
proof -
  have l: "length (dec (size_t_of x)) \<le> 10" if "0 \<le> x" "x < 2 ^ 32" for x
    by (rule length_dec_bound) (use that in simp_all)
  have "name_at dir ctx x = dir @ dec (size_t_of x) @ ''_thread_'' @ dec (pd_worker_index ctx) @ ''.pcap''"
    if "0 \<le> x" "x < 2 ^ 32" for x
    unfolding dump_file_name_def by (rule take_all) (use assms(1) l [OF that] in \<open>simp add: context_ok_def\<close>)
  then have "dec (size_t_of c) = dec (size_t_of d)" using assms(2-) by simp
  then have "size_t_of c = size_t_of d" by (metis undec_dec)
  then show ?thesis using assms(3-) by simp
qed

lemma dumped_names_inj:
  assumes "context_ok dir ctx" "dumped dir ctx fs cs bs" "c \<in> set cs" "0 \<le> d" "d < 2 ^ 32"
  shows "name_at dir ctx c = name_at dir ctx d \<longleftrightarrow> c = d"
  using name_at_inj [OF assms(1), of c d] assms(2-) by (fastforce simp: dumped_def)

lemma dump_header_update [simp]:
  "dump_header (ctx\<lparr>pd_file := f, next_ts_to_dump_to_new_file := t\<rparr>) = dump_header ctx"
  by (simp add: dump_header_def)

lemma dumped_new_file:
  assumes "io_ok D" "context_ok dir ctx" "dumped dir ctx fs cs bs" "0 \<le> c" "c + int (pd_frequency (pd_config ctx)) < 2 ^ 32"
    and "\<forall>d \<in> set cs. d < c"
  shows "dumped dir (ctx\<lparr>pd_file := Some (name_at dir ctx c), next_ts_to_dump_to_new_file := of_int (c + int (pd_frequency (pd_config ctx)))\<rparr>)
     (fs(name_at dir ctx c \<mapsto> file_header_bytes (dump_header ctx))) (cs @ [c]) (bs @ [[]])"
proof -
  have "c < 2 ^ 32" using assms(4,5) by simp
  then have n: "d \<in> set cs \<Longrightarrow> name_at dir ctx d \<noteq> name_at dir ctx c" for d
    using dumped_names_inj [OF assms(2,3) _ assms(4)] assms(6) by fastforce
  then have m: "map (\<lambda>d. (fs(name_at dir ctx c \<mapsto> x)) (name_at dir ctx d)) cs = map (\<lambda>d. fs (name_at dir ctx d)) cs" for x
    by simp
  show ?thesis using assms(3-6) by (simp add: dumped_def sorted_wrt_append fun_upd_same m del: fun_upd_apply map_eq_conv)
qed

lemma dumped_write:
  assumes "context_ok dir ctx" "dumped dir ctx fs (cs @ [c]) (bs @ [b])" "record_ok r"
  shows "dumped dir ctx (fs(name_at dir ctx c \<mapsto> the (fs (name_at dir ctx c)) @ record_bytes r)) (cs @ [c]) (bs @ [b @ [r]])"
proof -
  have c: "0 \<le> c" "c < 2 ^ 32" using assms(2) by (auto simp: dumped_def)
  have "d \<in> set cs \<Longrightarrow> name_at dir ctx d \<noteq> name_at dir ctx c" for d
    using dumped_names_inj [OF assms(1,2) _ c] assms(2) by (auto simp: dumped_def sorted_wrt_append)
  then have m: "map (\<lambda>d. (fs(name_at dir ctx c \<mapsto> x)) (name_at dir ctx d)) cs = map (\<lambda>d. fs (name_at dir ctx d)) cs" for x
    by simp
  show ?thesis using assms(2,3) by (simp add: dumped_def fun_upd_same m del: fun_upd_apply map_eq_conv)
qed

lemma same_context: "\<exists>f t. ctx = ctx\<lparr>pd_file := f, next_ts_to_dump_to_new_file := t\<rparr>"
  by (rule exI [of _ "pd_file ctx"], rule exI [of _ "next_ts_to_dump_to_new_file ctx"]) simp

text \<open>One packet. A new file is created for the first packet and when the period of the last one is over.\<close>

lemma dump_packet_step:
  assumes "io_ok D" "context_ok dir ctx" "packet_ok (pd_config ctx) p" "dumped dir ctx fs cs bs"
  shows "\<exists>ctx' fs' cs' bs'. dump_packet D p ctx fs = Inr (ctx', fs') \<and> dumped dir ctx' fs' cs' bs'
     \<and> concat bs' = concat bs @ [dump_record (pd_config ctx) p] \<and> (\<exists>f t. ctx' = ctx\<lparr>pd_file := f, next_ts_to_dump_to_new_file := t\<rparr>)"
proof -
  let ?s = "tv_sec (i_ts p)" and ?q = "int (pd_frequency (pd_config ctx))"
  have dir: "pd_directory (pd_config ctx) = Some dir" "pd_snap_len (pd_config ctx) < 2 ^ 16"
    using assms(2) by (simp_all add: context_ok_def)
  have s: "0 \<le> ?s" "?s + ?q < 2 ^ 32" using assms(3) by (simp_all add: packet_ok_def)
  note rec = dump_record_ok [OF dir(2) assms(3)]
  show ?thesis
  proof (cases "pd_file ctx = None \<or> ?s > int (unat (next_ts_to_dump_to_new_file ctx))")
    case True
    have "\<forall>d \<in> set cs. d < ?s"
    proof (cases "cs = []")
      case False
      then have t: "next_ts_to_dump_to_new_file ctx = of_int (last cs + ?q)" "0 \<le> last cs" "last cs + ?q < 2 ^ 32"
        using assms(4) by (auto simp: dumped_def)
      then have "int (unat (next_ts_to_dump_to_new_file ctx)) = last cs + ?q" using int_unat_of_int [of "last cs + ?q"] by simp
      then have "last cs < ?s" using True False assms(4) by (auto simp: dumped_def)
      moreover have "d \<le> last cs" if "d \<in> set cs" for d
        using that False assms(4) by (induction cs rule: rev_induct) (auto simp: dumped_def sorted_wrt_append)
      ultimately show ?thesis by fastforce
    qed simp
    note new = dumped_new_file [OF assms(1,2,4) s this]
    let ?ctx = "ctx\<lparr>pd_file := Some (name_at dir ctx ?s), next_ts_to_dump_to_new_file := of_int (?s + ?q)\<rparr>"
      and ?fs = "fs(name_at dir ctx ?s \<mapsto> file_header_bytes (dump_header ctx))"
    have c: "context_ok dir ?ctx" using assms(2) by (simp add: context_ok_def)
    note w = dumped_write [OF c new rec]
    have wp: "write_packet D (name_at dir ctx ?s) (i_data p) (ucast (i_len p))
        (of_nat (min (unat (i_caplen p)) (pd_snap_len (pd_config ctx)))) (i_ts p) ?fs
      = Inr (?fs(name_at dir ctx ?s \<mapsto> file_header_bytes (dump_header ctx) @ record_bytes (dump_record (pd_config ctx) p)), True)"
      using write_packet_ok [OF assms(1) dir(2) assms(3)] by (simp add: fun_upd_same del: fun_upd_apply fun_upd_upd)
    have "dump_packet D p ctx fs
        = Inr (?ctx, ?fs(name_at dir ctx ?s \<mapsto> file_header_bytes (dump_header ctx) @ record_bytes (dump_record (pd_config ctx) p)))"
      using True wp by (auto simp: dump_packet_def dir deref_def create_ok [OF assms(1)] Let_def)
    moreover have "concat (bs @ [[] @ [dump_record (pd_config ctx) p]]) = concat bs @ [dump_record (pd_config ctx) p]" by simp
    ultimately show ?thesis using w by (fastforce simp: fun_upd_same)
  next
    case False
    then have ne: "cs \<noteq> []" using assms(4) by (auto simp: dumped_def)
    then have "bs \<noteq> []" using assms(4) by (auto simp: dumped_def)
    then obtain cs0 c bs0 b where e: "cs = cs0 @ [c]" "bs = bs0 @ [b]" using ne by (metis append_butlast_last_id)
    have f: "pd_file ctx = Some (name_at dir ctx c)" and o: "fs (name_at dir ctx c) = Some (file_header_bytes (dump_header ctx) @ concat (map record_bytes b))"
      using assms(4) by (auto simp: dumped_def e)
    note w = dumped_write [OF assms(2) assms(4) [unfolded e] rec]
    have "dump_packet D p ctx fs = Inr (ctx, fs(name_at dir ctx c \<mapsto> the (fs (name_at dir ctx c)) @ record_bytes (dump_record (pd_config ctx) p)))"
      using False f write_packet_ok [of D "pd_config ctx" p fs "name_at dir ctx c"] assms(1,3) dir(2)
      by (simp add: dump_packet_def o)
    moreover have "concat (bs0 @ [b @ [dump_record (pd_config ctx) p]]) = concat bs @ [dump_record (pd_config ctx) p]" by (simp add: e)
    ultimately show ?thesis using w same_context by blast
  qed
qed

lemma run_dump_ok:
  assumes "io_ok D" "list_all (packet_ok (pd_config ctx)) ps" "context_ok dir ctx" "dumped dir ctx fs cs bs"
  shows "\<exists>ctx' fs' cs' bs'. run_dump D ps ctx fs = Inr (ctx', fs') \<and> dumped dir ctx' fs' cs' bs'
     \<and> concat bs' = concat bs @ map (dump_record (pd_config ctx)) (filter (selected (proto_ids_lst ctx)) ps)
     \<and> (\<exists>f t. ctx' = ctx\<lparr>pd_file := f, next_ts_to_dump_to_new_file := t\<rparr>)"
  using assms
proof (induction ps arbitrary: ctx fs cs bs)
  case Nil
  then have "run_dump D [] ctx fs = Inr (ctx, fs)" "concat bs = concat bs @ map (dump_record (pd_config ctx)) (filter (selected (proto_ids_lst ctx)) [])"
    by simp_all
  then show ?case using Nil.prems(4) same_context by blast
next
  case (Cons p ps)
  have path: "has_protocol (i_hierarchy p) (proto_ids_lst ctx) = Inr (selected (proto_ids_lst ctx) p)"
    using Cons.prems(2) by (intro has_protocol_selected) (simp add: packet_ok_def)
  show ?case
  proof (cases "selected (proto_ids_lst ctx) p")
    case True
    obtain ctx1 fs1 cs1 bs1 f t where 1: "dump_packet D p ctx fs = Inr (ctx1, fs1)" "dumped dir ctx1 fs1 cs1 bs1"
      "concat bs1 = concat bs @ [dump_record (pd_config ctx) p]" "ctx1 = ctx\<lparr>pd_file := f, next_ts_to_dump_to_new_file := t\<rparr>"
      using dump_packet_step [OF Cons.prems(1,3) _ Cons.prems(4), of p] Cons.prems(2) by auto
    have c: "context_ok dir ctx1" using Cons.prems(3) by (simp add: 1(4) context_ok_def)
    obtain ctx2 fs2 cs2 bs2 f' t' where 2: "run_dump D ps ctx1 fs1 = Inr (ctx2, fs2)" "dumped dir ctx2 fs2 cs2 bs2"
      "concat bs2 = concat bs1 @ map (dump_record (pd_config ctx)) (filter (selected (proto_ids_lst ctx)) ps)"
      "ctx2 = ctx1\<lparr>pd_file := f', next_ts_to_dump_to_new_file := t'\<rparr>"
      using Cons.IH [OF Cons.prems(1) _ c 1(2)] Cons.prems(2) by (auto simp: 1(4))
    have "run_dump D (p # ps) ctx fs = Inr (ctx2, fs2)"
      using path True 1(1) 2(1) by (simp add: pcap_dump_callback_on_receiving_packet_def)
    moreover have "ctx2 = ctx\<lparr>pd_file := f', next_ts_to_dump_to_new_file := t'\<rparr>" by (simp add: 1(4) 2(4))
    moreover have "concat bs2 = concat bs @ map (dump_record (pd_config ctx)) (filter (selected (proto_ids_lst ctx)) (p # ps))"
      using 1(3) 2(3) True by simp
    ultimately show ?thesis using 2(2) by blast
  next
    case False
    then show ?thesis using Cons path by (simp add: pcap_dump_callback_on_receiving_packet_def)
  qed
qed

section \<open>Properties\<close>

definition sample_dump_conf :: pcap_dump_conf where
  "sample_dump_conf = \<lparr>pd_is_enable = True, pd_directory = Some ''/tmp/'', pd_frequency = 10, pd_protocols = [''tcp''],
     pd_retained_files_count = 0, pd_snap_len = 2\<rparr>"

definition sample_dump_context :: pcap_dump_context where
  "sample_dump_context = \<lparr>pd_file = None, pd_config = sample_dump_conf, next_ts_to_dump_to_new_file = 0, proto_ids_lst = [354],
     pd_worker_index = 0, pd_stack_type = 1\<rparr>"

definition sample_ipacket :: "int \<Rightarrow> ipacket" where
  "sample_ipacket sec = \<lparr>i_hierarchy = \<lparr>ph_len = 4, proto_path = [1, 99, 178, 354]\<rparr>, i_ts = \<lparr>tv_sec = sec, tv_usec = 7\<rparr>,
     i_len = 3, i_caplen = 3, i_data = [1, 2, 3]\<rparr>"

definition sample_dump_io :: dump_io where
  "sample_dump_io = \<lparr>d_fopen_ok = \<lambda>_. True, d_fwrite = \<lambda>_ _ n. n\<rparr>"



text \<open>The first two elements of the path are not looked at: a packet whose only protocol to dump is the second one is left out.\<close>

lemma dump_skips_second_protocol:
  assumes "packet_ok (pd_config ctx) p" "set (proto_ids_lst ctx) \<inter> set (drop 2 (proto_path (i_hierarchy p))) = {}"
  shows "pcap_dump_callback_on_receiving_packet D p ctx fs = Inr (ctx, fs)"
proof -
  have "set (drop 2 (take n l)) \<subseteq> set (drop 2 l)" for n and l :: "u32 list"
    by (metis drop_take set_take_subset)
  then have "\<not> selected (proto_ids_lst ctx) p" using assms(2) by (auto simp: selected_def)
  then show ?thesis using assms(1) by (simp add: pcap_dump_callback_on_receiving_packet_def has_protocol_selected packet_ok_def)
qed

end
