(* ===== verification/Http_Decode.thy ===== *)
theory Http_Decode
  imports Tools
begin

text \<open>
  Decoding of HTTP bodies, \<^verbatim>\<open>src/src/modules/dpi/reconstruct/http/decode.c\<close>: the chunked transfer encoding, and the loop around
  zlib for gzip. Input data is a pointer with all bytes that can be read from there, of which the first \<^verbatim>\<open>data_len\<close> are the payload of a packet;
  reading behind the readable bytes is a fault. Payloads are far shorter than 4 GiB, so indices are natural numbers.
\<close>

section \<open>Chunked encoding\<close>

lemma bindE_cong [fundef_cong]:
  "r = r' \<Longrightarrow> (\<And>x. r' = Inr x \<Longrightarrow> f x = g x) \<Longrightarrow> bindE r f = bindE r' g"
  by (cases r') auto

definition read_at :: "string \<Rightarrow> nat \<Rightarrow> char cres" where
  "read_at s i = (if i < length s then Inr (s ! i) else Inl OutOfBounds)"

definition read_range :: "string \<Rightarrow> nat \<Rightarrow> nat \<Rightarrow> string cres" where
  "read_range s i n = (if i + n \<le> length s then Inr (take n (drop i s)) else Inl OutOfBounds)"

definition is_xdigit :: "char \<Rightarrow> bool" where
  "is_xdigit c \<longleftrightarrow> (let k = of_char c :: nat in is_digit c \<or> 65 \<le> k \<and> k \<le> 70 \<or> 97 \<le> k \<and> k \<le> 102)"

definition xdigit_val :: "char \<Rightarrow> nat" where
  "xdigit_val c = (let k = of_char c :: nat in if k \<le> 57 then k - 48 else if k \<le> 70 then k - 55 else k - 87)"

definition unhex :: "string \<Rightarrow> nat" where
  "unhex s = foldl (\<lambda>a c. 16 * a + xdigit_val c) 0 s"

text \<open>The number of characters at the front that satisfy a predicate; the one behind them is read, too.\<close>

fun span :: "(char \<Rightarrow> bool) \<Rightarrow> string \<Rightarrow> nat cres" where
  "span p [] = Inl OutOfBounds"
| "span p (c # s) = (if p c then bindE (span p s) (\<lambda>n. Inr (n + 1)) else Inr 0)"

text \<open>Length of a prefix \<^verbatim>\<open>0x\<close>, which counts only before a hexadecimal digit.\<close>

definition hex_prefix :: "string \<Rightarrow> nat cres" where
  "hex_prefix s =
     bindE (read_at s 0) (\<lambda>a. if a \<noteq> CHR ''0'' then Inr 0 else
     bindE (read_at s 1) (\<lambda>b. if b \<noteq> CHR ''x'' \<and> b \<noteq> CHR ''X'' then Inr 0 else
     bindE (read_at s 2) (\<lambda>c. Inr (if is_xdigit c then 2 else 0))))"

text \<open>\<^verbatim>\<open>strtol\<close> with base 16: the value and how many characters were used, 0 if there is no number.\<close>

definition strtol16 :: "string \<Rightarrow> (int \<times> nat) cres" where
  "strtol16 s =
     bindE (span is_space s) (\<lambda>w.
     bindE (read_at s w) (\<lambda>c.
     let g = (if c = CHR ''-'' \<or> c = CHR ''+'' then 1 else 0) in
     bindE (hex_prefix (drop (w + g) s)) (\<lambda>x.
     bindE (span is_xdigit (drop (w + g + x) s)) (\<lambda>d.
     let v = int (unhex (take d (drop (w + g + x) s)))
     in Inr (if d = 0 then (0, 0) else (clamp_long (if c = CHR ''-'' then - v else v), w + g + x + d))))))"

definition is_new_line :: "string \<Rightarrow> nat \<Rightarrow> bool cres" where
  "is_new_line data i =
     bindE (read_at data i) (\<lambda>a. if a \<noteq> CHR 0x0D then Inr False else bindE (read_at data (i + 1)) (\<lambda>b. Inr (b = CHR 0x0A)))"

definition get_chunk_size :: "string \<Rightarrow> nat \<Rightarrow> (nat \<times> nat) cres" where
  "get_chunk_size data j = bindE (strtol16 (drop j data)) (\<lambda>(val, n). Inr (unat (of_int val :: u32), n))"

text \<open>The loop of \<^verbatim>\<open>chunk_decode\<close>: the buffer and the number of bytes returned, 0 for a bad format.\<close>

function chunk_loop :: "string \<Rightarrow> nat \<Rightarrow> nat \<Rightarrow> string \<Rightarrow> nat \<Rightarrow> (string \<times> nat) cres" where
  "chunk_loop data data_len j buffer index =
     (if \<not> j < data_len then Inr (buffer, index)
      else bindE (get_chunk_size data j) (\<lambda>r.
           let chunk_size = fst r; j1 = j + snd r in
           if chunk_size = 0 then Inr (buffer, index)
           else if j1 + 2 > data_len then Inr (buffer, 0)
           else bindE (is_new_line data j1) (\<lambda>crlf.
                if \<not> crlf then Inr (buffer, 0)
                else let j2 = j1 + 2; chunk_size = min chunk_size (data_len - j2) in
                     bindE (read_range data j2 chunk_size) (\<lambda>bytes.
                     bindE (memcpy buffer index bytes) (\<lambda>buffer.
                     let index = index + chunk_size; j3 = j2 + chunk_size in
                     if j3 + 2 > data_len then Inr (buffer, index)
                     else bindE (is_new_line data j3) (\<lambda>crlf.
                          if \<not> crlf then Inr (buffer, index)
                          else chunk_loop data data_len (j3 + 2) buffer index))))))"
  by pat_completeness auto
termination by (relation "measure (\<lambda>(_, data_len, j, _). data_len - j)") auto

definition chunk_decode :: "string \<Rightarrow> string \<Rightarrow> nat \<Rightarrow> (string \<times> nat) cres" where
  "chunk_decode buffer data data_len = chunk_loop data data_len 0 buffer 0"

declare chunk_loop.simps [simp del]

section \<open>gzip\<close>

text \<open>
  The interface of zlib: \<open>inflate\<close> uses the rest of the input in the state, stores at most \<^verbatim>\<open>CHUNK\<close> bytes and
  returns a status, of which the code distinguishes whether it is one of \<^verbatim>\<open>Z_OK\<close>, \<^verbatim>\<open>Z_STREAM_END\<close>, \<^verbatim>\<open>Z_BUF_ERROR\<close>.
\<close>

record 'z zlib =
  inflateInit2 :: "'z option"
  set_input :: "string \<Rightarrow> 'z \<Rightarrow> 'z"
  inflate :: "'z \<Rightarrow> 'z \<times> string \<times> bool"

definition CHUNK :: nat where
  "CHUNK = 0x4000"

text \<open>The inner loop; it runs as long as the output buffer is filled. \<open>None\<close>: it does not end; \<open>Some None\<close>: a bad status.\<close>

partial_function (option) inflate_loop :: "'z zlib \<Rightarrow> 'z \<Rightarrow> string \<Rightarrow> ('z \<times> string) option option" where
  "inflate_loop Z z acc =
     (case inflate Z z of (z, out, ok) \<Rightarrow>
        if \<not> ok then Some None
        else if length out = CHUNK then inflate_loop Z z (acc @ out)
        else Some (Some (z, acc @ out)))"

text \<open>The outer loop reads blocks of the input file; \<^verbatim>\<open>feof\<close> holds after a read of less than a block.\<close>

function unzip_loop :: "'z zlib \<Rightarrow> string \<Rightarrow> 'z \<Rightarrow> string \<Rightarrow> string option option" where
  "unzip_loop Z content z acc =
     (case inflate_loop Z (set_input Z (take CHUNK content) z) acc of
        None \<Rightarrow> None
      | Some None \<Rightarrow> Some None
      | Some (Some (z, acc)) \<Rightarrow>
          if length content < CHUNK then Some (Some acc) else unzip_loop Z (drop CHUNK content) z acc)"
  by pat_completeness auto
termination by (relation "measure (\<lambda>(_, content, _). length content)") (auto simp: CHUNK_def)

declare unzip_loop.simps [simp del]

text \<open>\<open>can_open\<close> are the files that can be opened; a read error is \<open>read_ok\<close> being false. The result is the files and the size of the output, 0 for a failure.\<close>

definition zip_decode ::
  "'z zlib \<Rightarrow> (string \<Rightarrow> bool) \<Rightarrow> bool \<Rightarrow> string \<Rightarrow> string \<Rightarrow> files \<Rightarrow> (files \<times> u32) option" where
  "zip_decode Z can_open read_ok output_file input_file fs =
     (let failed = (\<lambda>fs. (fs(output_file := None), 0)) in
      case inflateInit2 Z of None \<Rightarrow> Some (failed fs)
      | Some z \<Rightarrow>
          (case fs input_file of None \<Rightarrow> Some (failed fs)
           | Some content \<Rightarrow>
               if \<not> can_open input_file \<or> \<not> can_open output_file then Some (failed fs)
               else if \<not> read_ok then Some (failed fs)
               else case unzip_loop Z content z [] of
                      None \<Rightarrow> None
                    | Some None \<Rightarrow> Some (failed fs)
                    | Some (Some out) \<Rightarrow> Some (fs(output_file \<mapsto> out), of_nat (length out))))"

section \<open>Lemmas\<close>

lemma span_takeWhile: "\<exists>c \<in> set s. \<not> p c \<Longrightarrow> span p s = Inr (length (takeWhile p s))"
  by (induction p s rule: span.induct) auto

lemma span_stops: "m < length s \<Longrightarrow> \<not> p (s ! m) \<Longrightarrow> \<exists>n. span p s = Inr n \<and> n \<le> m"
proof (induction s arbitrary: m)
  case (Cons c s)
  show ?case
  proof (cases "p c \<and> m > 0")
    case True
    then obtain k where "m = Suc k" by (cases m) auto
    then show ?thesis using True Cons.IH [of k] Cons.prems by auto
  qed (use Cons.prems in auto)
qed simp

lemma span_append: "list_all p s \<Longrightarrow> \<not> p c \<Longrightarrow> span p (s @ c # r) = Inr (length s)"
  by (induction s) auto

lemma NUL_class [simp]: "\<not> is_space NUL" "\<not> is_xdigit NUL"
  by code_simp+

text \<open>With a NUL behind the payload, reading a number stops there.\<close>

lemma hex_prefix_bound:
  assumes "m < length s" "s ! m = NUL"
  shows "\<exists>x. hex_prefix s = Inr x \<and> x \<le> m"
proof (cases m)
  case 0
  then show ?thesis using assms by (simp add: hex_prefix_def read_at_def)
next
  case (Suc k)
  show ?thesis
  proof (cases k)
    case 0
    then show ?thesis using assms Suc by (auto simp: hex_prefix_def read_at_def)
  next
    case (Suc i)
    then show ?thesis using assms \<open>m = Suc k\<close> by (auto simp: hex_prefix_def read_at_def)
  qed
qed

lemma strtol16_bound:
  assumes "m < length s" "s ! m = NUL"
  shows "\<exists>v n. strtol16 s = Inr (v, n) \<and> n \<le> m"
proof -
  obtain w where w: "span is_space s = Inr w" "w \<le> m"
    using span_stops [OF assms(1), of is_space] assms(2) by auto
  define g where "g = (if s ! w = CHR ''-'' \<or> s ! w = CHR ''+'' then 1 else 0 :: nat)"
  have g: "w + g \<le> m" using w(2) assms(2) by (cases "w = m") (auto simp: g_def)
  obtain x where x: "hex_prefix (drop (w + g) s) = Inr x" "x \<le> m - (w + g)"
    using hex_prefix_bound [of "m - (w + g)" "drop (w + g) s"] assms g diff_less_mono [of m "length s" "w + g"] by auto
  then have "drop (w + g + x) s ! (m - (w + g + x)) = NUL" "m - (w + g + x) < length (drop (w + g + x) s)"
    using assms g by auto
  then obtain d where "span is_xdigit (drop (w + g + x) s) = Inr d" "d \<le> m - (w + g + x)"
    using span_stops NUL_class(2) by metis
  then show ?thesis using w x g assms(1) by (auto simp: strtol16_def read_at_def Let_def g_def [symmetric])
qed

text \<open>One turn of the loop when a chunk begins as it should.\<close>

lemma chunk_loop_step:
  assumes "j < data_len" "get_chunk_size data j = Inr (sz, n)" "sz \<noteq> 0" "is_new_line data (j + n) = Inr True"
    and j2: "j2 = j + n + 2" and "j2 \<le> data_len" and k: "k = min sz (data_len - j2)"
    and "data_len \<le> length data" "index + k \<le> length buffer"
  shows "chunk_loop data data_len j buffer index =
     (if j2 + k + 2 > data_len then Inr (blit buffer index (take k (drop j2 data)), index + k)
      else bindE (is_new_line data (j2 + k)) (\<lambda>crlf.
           if \<not> crlf then Inr (blit buffer index (take k (drop j2 data)), index + k)
           else chunk_loop data data_len (j2 + k + 2) (blit buffer index (take k (drop j2 data))) (index + k)))"
proof -
  have 1: "(data_len < j2) = False" "(j < data_len) = True" "(sz = 0) = False" using assms by auto
  have 2: "read_range data j2 k = Inr (take k (drop j2 data))" using assms(6-8) by (simp add: read_range_def)
  have 3: "memcpy buffer index (take k (drop j2 data)) = Inr (blit buffer index (take k (drop j2 data)))"
    using assms(6-9) by simp
  show ?thesis
    by (subst chunk_loop.simps) (simp only: assms(2,4) 1 2 3 bindE_Inr Let_def fst_conv snd_conv j2 [symmetric] k [symmetric]
        not_True_eq_False if_False if_True)
qed

lemma chunk_loop_safe:
  assumes "data_len < length data" "data ! data_len = NUL" "data_len \<le> length buffer" "index \<le> j" "j \<le> data_len"
  shows "\<exists>buffer' n. chunk_loop data data_len j buffer index = Inr (buffer', n) \<and> n \<le> data_len \<and> length buffer' = length buffer"
  using assms(3-)
proof (induction "data_len - j" arbitrary: j buffer index rule: less_induct)
  case less
  show ?case
  proof (cases "j < data_len")
    case True
    obtain v n where st: "strtol16 (drop j data) = Inr (v, n)" "n \<le> data_len - j"
      using strtol16_bound [of "data_len - j" "drop j data"] assms(1,2) True by (auto simp: diff_less_mono)
    define sz where "sz = unat (of_int v :: u32)"
    have nl: "\<exists>b. is_new_line data i = Inr b" if "i + 2 \<le> data_len" for i
      using that assms(1) by (auto simp: is_new_line_def read_at_def)
    let ?j = "j + n + 2"
    let ?k = "min sz (data_len - ?j)"
    show ?thesis
    proof (cases "sz = 0 \<or> j + n + 2 > data_len \<or> is_new_line data (j + n) = Inr False")
      case True
      then show ?thesis using less.prems st sz_def
        by (subst chunk_loop.simps) (auto simp: get_chunk_size_def Let_def)
    next
      case False
      then have nz: "sz \<noteq> 0" and j: "?j \<le> data_len" and l: "is_new_line data (j + n) = Inr True" using nl [of "j + n"] by auto
      have len: "index + ?k \<le> length buffer" "length (take ?k (drop ?j data)) = ?k" using less.prems j assms(1) by auto
      define buffer1 where "buffer1 = blit buffer index (take ?k (drop ?j data))"
      have mc: "length buffer1 = length buffer" using len by (simp add: buffer1_def)
      have gs: "get_chunk_size data j = Inr (sz, n)" using st by (simp add: get_chunk_size_def sz_def)
      note eq = chunk_loop_step [OF True gs nz l refl j refl _ len(1), folded buffer1_def]
      show ?thesis
      proof (cases "?j + ?k + 2 > data_len \<or> is_new_line data (?j + ?k) = Inr False")
        case True
        then show ?thesis using eq mc assms(1) less.prems j nl [of "?j + ?k"] by auto
      next
        case False
        then have "is_new_line data (?j + ?k) = Inr True" using nl [of "?j + ?k"] by auto
        then show ?thesis using eq assms(1) False less.hyps [of "?j + ?k + 2" buffer1 "index + ?k"] mc less.prems True by auto
      qed
    qed
  qed (use less.prems in \<open>simp add: chunk_loop.simps\<close>)
qed

section \<open>Encoding\<close>

text \<open>The reference: a body as a server sends it. A size is printed in hexadecimal, without leading zeros.\<close>

definition xdigit :: "nat \<Rightarrow> char" where
  "xdigit d = ''0123456789abcdef'' ! d"

fun hexs :: "nat \<Rightarrow> string" where
  "hexs n = (if n < 16 then [xdigit n] else hexs (n div 16) @ [xdigit (n mod 16)])"

declare hexs.simps [simp del]

abbreviation CRLF :: string where
  "CRLF \<equiv> [CHR 0x0D, CHR 0x0A]"

definition chunk :: "string \<Rightarrow> string" where
  "chunk c = hexs (length c) @ CRLF @ c @ CRLF"

lemma xdigit_props:
  assumes "d < 16"
  shows "xdigit_val (xdigit d) = d" "is_xdigit (xdigit d)" "\<not> is_space (xdigit d)" "xdigit d \<noteq> CHR ''-''" "xdigit d \<noteq> CHR ''+''"
    "xdigit d = CHR ''0'' \<Longrightarrow> d = 0"
proof -
  have "\<forall>d \<in> set [0..<16]. xdigit_val (xdigit d) = d \<and> is_xdigit (xdigit d) \<and> \<not> is_space (xdigit d)
      \<and> xdigit d \<noteq> CHR ''-'' \<and> xdigit d \<noteq> CHR ''+'' \<and> (xdigit d = CHR ''0'' \<longrightarrow> d = 0)"
    by code_simp
  then show "xdigit_val (xdigit d) = d" "is_xdigit (xdigit d)" "\<not> is_space (xdigit d)" "xdigit d \<noteq> CHR ''-''" "xdigit d \<noteq> CHR ''+''"
    "xdigit d = CHR ''0'' \<Longrightarrow> d = 0" using assms by auto
qed

lemma hexs_digits: "list_all is_xdigit (hexs n) \<and> unhex (hexs n) = n"
proof (induction n rule: hexs.induct)
  case (1 n)
  show ?case
  proof (cases "n < 16")
    case True
    then show ?thesis by (subst (1 2) hexs.simps) (simp add: xdigit_props unhex_def)
  next
    case False
    then show ?thesis using 1 xdigit_props(1,2) [of "n mod 16"] by (subst (1 2) hexs.simps) (simp add: unhex_def)
  qed
qed

text \<open>The first digit, which is not 0 for a positive number.\<close>

lemma hexs_first: "\<exists>d r. hexs n = xdigit d # r \<and> d < 16 \<and> (n > 0 \<longrightarrow> d > 0)"
proof (induction n rule: hexs.induct)
  case (1 n)
  show ?case
  proof (cases "n < 16")
    case False
    then obtain d r where "hexs (n div 16) = xdigit d # r" "d < 16" "d > 0" using 1 by auto
    then show ?thesis using False by (subst hexs.simps) auto
  qed (auto simp: hexs.simps)
qed

lemma strtol16_hexs:
  assumes "0 < n" "n < 2 ^ 63" "\<not> is_xdigit c"
  shows "strtol16 (hexs n @ c # r) = Inr (int n, length (hexs n))"
proof -
  obtain d t where d: "hexs n = xdigit d # t" "d < 16" "d > 0" using hexs_first [of n] assms(1) by auto
  then have ne: "hexs n \<noteq> []" by simp
  note x = xdigit_props [OF d(2)]
  have 1: "span is_space (hexs n @ c # r) = Inr 0" using d(1) x(3) by simp
  have 2: "read_at (hexs n @ c # r) 0 = Inr (xdigit d)" using d(1) by (simp add: read_at_def)
  have 3: "hex_prefix (hexs n @ c # r) = Inr 0" using d x(6) by (auto simp: hex_prefix_def read_at_def)
  have 4: "span is_xdigit (hexs n @ c # r) = Inr (length (hexs n))"
    using span_append [of is_xdigit "hexs n" c r] assms(3) hexs_digits [of n] by blast
  show ?thesis
    using x(4,5) hexs_digits [of n] assms(2) ne
    by (simp add: strtol16_def 1 2 3 4 clamp_long_def del: span.simps)
qed

lemma chunk_size_hexs:
  assumes "0 < n" "n < 2 ^ 32"
  shows "get_chunk_size (pre @ hexs n @ CHR 0x0D # r) (length pre) = Inr (n, length (hexs n))"
proof -
  have "\<not> is_xdigit CHR 0x0D" by code_simp
  then show ?thesis using strtol16_hexs [OF assms(1)] assms(2) by (simp add: get_chunk_size_def unat_of_nat)
qed

lemma is_new_line_CRLF: "is_new_line (pre @ CRLF @ r) (length pre) = Inr True"
  by (simp add: is_new_line_def read_at_def nth_append)

text \<open>A turn over a whole chunk that is followed by more data.\<close>

lemma chunk_loop_chunk:
  assumes "c \<noteq> []" "length c < 2 ^ 32" "data = pre @ chunk c @ r" "length (pre @ chunk c) \<le> data_len" "data_len \<le> length data"
    and "index + length c \<le> length buffer"
  shows "chunk_loop data data_len (length pre) buffer index
     = chunk_loop data data_len (length (pre @ chunk c)) (blit buffer index c) (index + length c)"
proof -
  let ?n = "length (hexs (length c))" and ?j = "length pre + length (hexs (length c)) + 2"
  have nz: "length c \<noteq> 0" using assms(1) by simp
  have gs: "get_chunk_size data (length pre) = Inr (length c, ?n)"
    using chunk_size_hexs [of "length c" pre] assms(1-3) by (simp add: chunk_def)
  have n1: "is_new_line data (length pre + ?n) = Inr True"
    using is_new_line_CRLF [of "pre @ hexs (length c)"] assms(3) by (simp add: chunk_def)
  have n2: "is_new_line data (?j + length c) = Inr True"
    using is_new_line_CRLF [of "pre @ hexs (length c) @ CRLF @ c"] assms(3) by (simp add: chunk_def add_ac)
  have j: "length pre < data_len" "?j \<le> data_len" "length c = min (length c) (data_len - ?j)" "\<not> data_len < ?j + length c + 2"
    using assms(4) by (auto simp: chunk_def)
  have t: "take (length c) (drop ?j data) = c" by (simp add: assms(3) chunk_def)
  have e: "?j + length c + 2 = length (pre @ chunk c)" by (simp add: chunk_def)
  show ?thesis
    unfolding chunk_loop_step [OF j(1) gs nz n1 refl j(2,3) assms(5,6), unfolded t n2 e bindE_Inr] using assms(4) by simp
qed

text \<open>A last turn over a chunk of which only the beginning has arrived.\<close>

lemma chunk_loop_partial:
  assumes "0 < n" "n < 2 ^ 32" "data = pre @ hexs n @ CRLF @ part @ r" "data_len = length (pre @ hexs n @ CRLF @ part)" "length part \<le> n"
    and "index + length part \<le> length buffer"
  shows "chunk_loop data data_len (length pre) buffer index = Inr (blit buffer index part, index + length part)"
proof -
  let ?j = "length pre + length (hexs n) + 2"
  have nz: "n \<noteq> 0" using assms(1) by simp
  have gs: "get_chunk_size data (length pre) = Inr (n, length (hexs n))"
    using chunk_size_hexs [OF assms(1,2), of pre] assms(3) by simp
  have n1: "is_new_line data (length pre + length (hexs n)) = Inr True"
    using is_new_line_CRLF [of "pre @ hexs n"] assms(3) by simp
  have j: "length pre < data_len" "?j \<le> data_len" "length part = min n (data_len - ?j)" "data_len < ?j + length part + 2" "data_len \<le> length data"
    using assms(3-5) by auto
  have t: "take (length part) (drop ?j data) = part" by (simp add: assms(3))
  show ?thesis
    unfolding chunk_loop_step [OF j(1) gs nz n1 refl j(2,3,5) assms(6), unfolded t] using j(4) by simp
qed

lemma chunk_loop_last: "data = pre @ ''0'' @ CRLF @ r \<Longrightarrow> length pre < data_len \<Longrightarrow> chunk_loop data data_len (length pre) buffer index = Inr (buffer, index)"
proof -
  assume d: "data = pre @ ''0'' @ CRLF @ r" "length pre < data_len"
  have c: "\<not> is_xdigit CHR 0x0D" "is_xdigit CHR ''0''" "\<not> is_space CHR ''0''" "xdigit_val CHR ''0'' = 0" by code_simp+
  then have "get_chunk_size data (length pre) = Inr (0, 1)"
    by (simp add: d(1) get_chunk_size_def strtol16_def hex_prefix_def read_at_def unhex_def clamp_long_def Let_def)
  then show ?thesis using d(2) by (subst chunk_loop.simps) simp
qed

lemma chunk_loop_chunks:
  assumes "\<forall>c \<in> set cs. c \<noteq> [] \<and> length c < 2 ^ 32" "data = pre @ concat (map chunk cs) @ r"
    and "length (pre @ concat (map chunk cs)) \<le> data_len" "data_len \<le> length data" "index + length (concat cs) \<le> length buffer"
  shows "chunk_loop data data_len (length pre) buffer index
     = chunk_loop data data_len (length (pre @ concat (map chunk cs))) (blit buffer index (concat cs)) (index + length (concat cs))"
  using assms
proof (induction cs arbitrary: pre buffer index)
  case (Cons c cs)
  have "chunk_loop data data_len (length pre) buffer index
      = chunk_loop data data_len (length (pre @ chunk c)) (blit buffer index c) (index + length c)"
    by (rule chunk_loop_chunk [where r = "concat (map chunk cs) @ r"]) (use Cons.prems in auto)
  also have "\<dots> = chunk_loop data data_len (length ((pre @ chunk c) @ concat (map chunk cs)))
      (blit (blit buffer index c) (index + length c) (concat cs)) (index + length c + length (concat cs))"
    by (rule Cons.IH) (use Cons.prems in auto)
  finally show ?case using Cons.prems blit_append [of index c "concat cs" buffer] by (simp add: add_ac)
qed simp

lemma length_chunks: "length (concat cs) \<le> length (concat (map chunk cs))"
  by (induction cs) (auto simp: chunk_def)

lemma chunk_decode_whole:
  assumes "\<forall>c \<in> set cs. c \<noteq> [] \<and> length c < 2 ^ 32" "data_len = length (concat (map chunk cs) @ ''0'' @ CRLF @ CRLF)" "data_len \<le> length buffer"
  shows "chunk_decode buffer (concat (map chunk cs) @ ''0'' @ CRLF @ CRLF @ r) data_len = Inr (blit buffer 0 (concat cs), length (concat cs))"
proof -
  let ?data = "concat (map chunk cs) @ ''0'' @ CRLF @ CRLF @ r"
  have "chunk_loop ?data data_len 0 buffer 0
      = chunk_loop ?data data_len (length (concat (map chunk cs))) (blit buffer 0 (concat cs)) (length (concat cs))"
    using chunk_loop_chunks [OF assms(1), of ?data "[]" "''0'' @ CRLF @ CRLF @ r" data_len 0 buffer] length_chunks [of cs] assms(2,3) by simp
  also have "\<dots> = Inr (blit buffer 0 (concat cs), length (concat cs))"
    by (rule chunk_loop_last [where r = "CRLF @ r"]) (use assms(2) in simp_all)
  finally show ?thesis by (simp only: chunk_decode_def)
qed

lemma chunk_decode_part:
  assumes "\<forall>c \<in> set cs. c \<noteq> [] \<and> length c < 2 ^ 32" "0 < n" "n < 2 ^ 32" "length part \<le> n"
    and "data_len = length (concat (map chunk cs) @ hexs n @ CRLF @ part)" "data_len \<le> length buffer"
  shows "chunk_decode buffer (concat (map chunk cs) @ hexs n @ CRLF @ part @ r) data_len
     = Inr (blit buffer 0 (concat cs @ part), length (concat cs @ part))"
proof -
  let ?data = "concat (map chunk cs) @ hexs n @ CRLF @ part @ r"
  have f: "length (concat cs) + length part \<le> length buffer" using length_chunks [of cs] assms(5,6) by simp
  have "chunk_loop ?data data_len 0 buffer 0
      = chunk_loop ?data data_len (length (concat (map chunk cs))) (blit buffer 0 (concat cs)) (length (concat cs))"
    using chunk_loop_chunks [OF assms(1), of ?data "[]" "hexs n @ CRLF @ part @ r" data_len 0 buffer] length_chunks [of cs] assms(5,6) by simp
  also have "\<dots> = Inr (blit (blit buffer 0 (concat cs)) (length (concat cs)) part, length (concat cs) + length part)"
    by (rule chunk_loop_partial [OF assms(2,3)]) (use assms(4,5) f in simp_all)
  finally show ?thesis using blit_append [of 0 "concat cs" part buffer] f by (simp only: chunk_decode_def) simp
qed

text \<open>The outcome of the inner loop of \<^verbatim>\<open>zip_decode\<close> when \<^verbatim>\<open>inflate\<close> does not fill the buffer for ever: \<open>m\<close> bounds how often it still does.\<close>

lemma inflate_loop_ends:
  assumes "\<And>z z' out. inflate Z z = (z', out, True) \<Longrightarrow> length out = CHUNK \<Longrightarrow> m z' < (m z :: nat)"
  shows "\<exists>r. inflate_loop Z z acc = Some r"
proof (induction "m z" arbitrary: z acc rule: less_induct)
  case less
  obtain z' out ok where i: "inflate Z z = (z', out, ok)" by (metis prod_cases3)
  show ?case
  proof (cases "ok \<and> length out = CHUNK")
    case True
    then show ?thesis using i less [of z' "acc @ out"] assms [of z z' out] by (subst inflate_loop.simps) auto
  qed (subst inflate_loop.simps, auto simp: i)
qed

lemma zip_decode_ends:
  assumes "\<And>z z' out. inflate Z z = (z', out, True) \<Longrightarrow> length out = CHUNK \<Longrightarrow> m z' < (m z :: nat)"
  shows "\<exists>fs' n. zip_decode Z can_open read_ok output_file input_file fs = Some (fs', n)"
proof -
  have "\<exists>r. unzip_loop Z content z acc = Some r" for content z acc
  proof (induction content arbitrary: z acc rule: measure_induct_rule [where f = length])
    case (less content)
    obtain r where r: "inflate_loop Z (set_input Z (take CHUNK content) z) acc = Some r" using inflate_loop_ends [of Z m] assms by blast
    have "CHUNK \<le> length content \<Longrightarrow> length (drop CHUNK content) < length content" by (simp add: CHUNK_def)
    then show ?case
      using less [of "drop CHUNK content"] by (subst unzip_loop.simps) (auto simp: r split: option.split)
  qed
  then show ?thesis by (auto simp: zip_decode_def Let_def split: option.split) (metis option.distinct(1))+
qed

section \<open>Properties\<close>

text \<open>
  C20: decoding a chunked body inverts its encoding. On a payload that holds whole chunks and the final empty chunk the result is
  the body; when the payload ends within a chunk, of \<open>n\<close> bytes, the result is the whole chunks and the beginning that has arrived.
  Either way the data is at the front of the buffer, and a buffer as long as the payload is enough.
\<close>

theorem chunk_decode_inverts:
  assumes "\<forall>c \<in> set cs. c \<noteq> [] \<and> length c < 2 ^ 32" "0 < n" "n < 2 ^ 32" "length part \<le> n"
    and "length (concat (map chunk cs) @ ''0'' @ CRLF @ CRLF) \<le> length buffer" "length (concat (map chunk cs) @ hexs n @ CRLF @ part) \<le> length buffer"
  shows "chunk_decode buffer (concat (map chunk cs) @ ''0'' @ CRLF @ CRLF @ r) (length (concat (map chunk cs) @ ''0'' @ CRLF @ CRLF))
       = Inr (blit buffer 0 (concat cs), length (concat cs))
     \<and> chunk_decode buffer (concat (map chunk cs) @ hexs n @ CRLF @ part @ r) (length (concat (map chunk cs) @ hexs n @ CRLF @ part))
       = Inr (blit buffer 0 (concat cs @ part), length (concat cs @ part))"
  using chunk_decode_whole [OF assms(1) refl assms(5)] chunk_decode_part [OF assms(1-4) refl assms(6)] by blast

theorem chunk_decode_inverts_witness:
  "chunk_decode (replicate 30 NUL) (concat (map chunk [''Wiki'', ''pedia'']) @ ''0'' @ CRLF @ CRLF @ [])
     (length (concat (map chunk [''Wiki'', ''pedia'']) @ ''0'' @ CRLF @ CRLF)) = Inr (blit (replicate 30 NUL) 0 ''Wikipedia'', 9)"
  using chunk_decode_inverts [of "[''Wiki'', ''pedia'']" 10 "''abc''" "replicate 30 NUL" "[]"] by (simp add: chunk_def hexs.simps)



text \<open>Without the NUL a number at the end of the payload is read on behind it.\<close>

lemma chunk_size_overread: "chunk_decode buffer ''5'' 1 = Inl OutOfBounds"
proof -
  have "is_xdigit CHR ''5''" "\<not> is_space CHR ''5''" by code_simp+
  then show ?thesis
    by (simp add: chunk_decode_def chunk_loop.simps [of "''5''"] get_chunk_size_def strtol16_def hex_prefix_def read_at_def Let_def)
qed

end
