(* ===== verification/Http_Tables.thy ===== *)
theory Http_Tables
  imports Http_Decode
begin

text \<open>
  The tables of HTTP names that \<^verbatim>\<open>gperf\<close> compiled to perfect hash functions: \<^verbatim>\<open>content_encoding.h\<close>,
  \<^verbatim>\<open>transfer_encoding.h\<close> and \<^verbatim>\<open>file_extension_from_content_type.h\<close> under \<^verbatim>\<open>src/src/modules/dpi/reconstruct/http\<close>. The locale \<open>gperf\<close>
  holds what makes such a function right; each table is an instance, so that its lookup equals a search through the list of names.
\<close>

section \<open>Comparison\<close>

definition gperf_downcase :: "u8 \<Rightarrow> u8" where
  "gperf_downcase c = (if 65 \<le> c \<and> c \<le> 90 then c + 32 else c)"

abbreviation low :: "char \<Rightarrow> u8" where
  "low c \<equiv> gperf_downcase (of_char c)"

fun gperf_case_strncmp :: "string \<Rightarrow> string \<Rightarrow> nat \<Rightarrow> int cres" where
  "gperf_case_strncmp s1 s2 0 = Inr 0"
| "gperf_case_strncmp (c1 # s1) (c2 # s2) (Suc n) =
     (if low c1 \<noteq> 0 \<and> low c1 = low c2 then gperf_case_strncmp s1 s2 n else Inr (uint (low c1) - uint (low c2)))"
| "gperf_case_strncmp _ _ (Suc n) = Inl OutOfBounds"

text \<open>The body that all lookup functions have; \<open>None\<close> in a word list stands for the missing second field of an empty slot.\<close>

definition gperf_lookup ::
  "(string \<Rightarrow> nat \<Rightarrow> nat cres) \<Rightarrow> (string \<times> 'v option) list \<Rightarrow> nat \<Rightarrow> nat \<Rightarrow> nat \<Rightarrow> string \<Rightarrow> nat \<Rightarrow> (string \<times> 'v option) option cres" where
  "gperf_lookup hash wordlist MIN_WORD_LENGTH MAX_WORD_LENGTH MAX_HASH_VALUE str len =
     (if len \<le> MAX_WORD_LENGTH \<and> len \<ge> MIN_WORD_LENGTH
      then bindE (hash str len) (\<lambda>key.
           if key \<le> MAX_HASH_VALUE
           then let s = fst (wordlist ! key) @ [NUL] in
                bindE (read_at str 0) (\<lambda>a.
                if (of_char a XOR of_char (s ! 0) :: u8) AND NOT 32 \<noteq> 0 then Inr None
                else bindE (gperf_case_strncmp str s len) (\<lambda>d.
                     if d \<noteq> 0 then Inr None
                     else bindE (read_at s len) (\<lambda>e. Inr (if e = NUL then Some (wordlist ! key) else None))))
           else Inr None)
      else Inr None)"

section \<open>The tables\<close>

datatype content_encoding = CONTENT_ENCODING_GZIP | CONTENT_ENCODING_COMPRESS | CONTENT_ENCODING_DEFLATE
  | CONTENT_ENCODING_IDENTITY | CONTENT_ENCODING_BR

definition content_asso :: "u8 \<Rightarrow> nat" where
  "content_asso c = (case map_of [
      (66, 0), (67, 5), (68, 0), (71, 0), (73, 0), (98, 0), (99, 5), (100, 0), (103, 0), (105, 0)] (unat c) of None \<Rightarrow> 14 | Some v \<Rightarrow> v)"

definition get_content_encoding_hash :: "string \<Rightarrow> nat \<Rightarrow> nat cres" where
  "get_content_encoding_hash str len = bindE (read_at str 0) (\<lambda>c. Inr (len + content_asso (of_char c)))"

definition content_words :: "(string \<times> content_encoding option) list" where
  "content_words = [
      ([], None), ([], None), (''br'', Some CONTENT_ENCODING_BR), ([], None), (''gzip'', Some CONTENT_ENCODING_GZIP), ([], None), ([], None),
      (''deflate'', Some CONTENT_ENCODING_DEFLATE), (''identity'', Some CONTENT_ENCODING_IDENTITY), ([], None), ([], None), ([], None), ([], None),
      (''compress'', Some CONTENT_ENCODING_COMPRESS)]"

definition get_content_encoding :: "string \<Rightarrow> nat \<Rightarrow> (string \<times> content_encoding option) option cres" where
  "get_content_encoding = gperf_lookup get_content_encoding_hash content_words 2 8 13"

datatype transfer_encoding = TRANSFER_ENCODING_CHUNKED | TRANSFER_ENCODING_COMPRESS | TRANSFER_ENCODING_DEFLATE
  | TRANSFER_ENCODING_GZIP | TRANSFER_ENCODING_IDENTITY

definition transfer_asso :: "u8 \<Rightarrow> nat" where
  "transfer_asso c = (case map_of [
      (67, 5), (68, 0), (71, 0), (73, 0), (99, 5), (100, 0), (103, 0), (105, 0)] (unat c) of None \<Rightarrow> 14 | Some v \<Rightarrow> v)"

definition get_transfer_encoding_hash :: "string \<Rightarrow> nat \<Rightarrow> nat cres" where
  "get_transfer_encoding_hash str len = bindE (read_at str 0) (\<lambda>c. Inr (len + transfer_asso (of_char c)))"

definition transfer_words :: "(string \<times> transfer_encoding option) list" where
  "transfer_words = [
      ([], None), ([], None), ([], None), ([], None), (''gzip'', Some TRANSFER_ENCODING_GZIP), ([], None), ([], None),
      (''deflate'', Some TRANSFER_ENCODING_DEFLATE), (''identity'', Some TRANSFER_ENCODING_IDENTITY), ([], None), ([], None), ([], None),
      (''chunked'', Some TRANSFER_ENCODING_CHUNKED), (''compress'', Some TRANSFER_ENCODING_COMPRESS)]"

definition get_transfer_encoding :: "string \<Rightarrow> nat \<Rightarrow> (string \<times> transfer_encoding option) option cres" where
  "get_transfer_encoding = gperf_lookup get_transfer_encoding_hash transfer_words 4 8 13"

definition type_asso :: "u8 \<Rightarrow> nat" where
  "type_asso c = (case map_of [
      (45, 0), (47, 35), (50, 5), (51, 0), (52, 35), (65, 0), (68, 20), (69, 0), (70, 0), (71, 5), (72, 45), (74, 30), (75, 5), (76, 0), (77, 25),
      (78, 25), (79, 0), (80, 45), (83, 30), (84, 15), (86, 5), (88, 15), (89, 0), (97, 0), (100, 20), (101, 0), (102, 0), (103, 5), (104, 45),
      (106, 30), (107, 5), (108, 0), (109, 25), (110, 25), (111, 0), (112, 45), (115, 30), (116, 15), (118, 5), (120, 15), (121, 0)] (unat c) of None \<Rightarrow> 80 | Some v \<Rightarrow> v)"

definition get_content_type_hash :: "string \<Rightarrow> nat \<Rightarrow> nat cres" where
  "get_content_type_hash str len =
     bindE (if len < 3 \<or> len > 6 then bindE (read_at str 6) (\<lambda>c. Inr (len + type_asso (of_char c))) else Inr len) (\<lambda>hval.
     bindE (read_at str (len - 1)) (\<lambda>c. Inr (hval + type_asso (of_char c))))"

definition type_words :: "(string \<times> string option) list" where
  "type_words = [
      ([], None), ([], None), ([], None), (''mp3'', Some ''mp3''), ([], None), ([], None), ([], None), ([], None), ([], None),
      (''font/woff'', Some ''woff''), ([], None), ([], None), ([], None), ([], None), (''image/gif'', Some ''gif''),
      (''application/xml'', Some ''xml''), ([], None), (''application/x-amf'', Some ''amf''), (''application/x-woff'', Some ''woff''),
      (''application/rss+xml'', Some ''xml''), (''application/atom+xml'', Some ''xml''), (''application/xhtml+xml'', Some ''html''),
      (''application/x-font-ttf'', Some ''tff''), (''application/x-font-woff'', Some ''woff''), (''text/html'', Some ''html''),
      (''application/ocsp-response'', Some ''ocsp''), (''text/x-cross-domain-policy'', Some ''txt''), (''application/font-woff2'', Some ''woff''),
      (''application/x-debian-package'', Some ''deb''), (''video/x-ms-asf'', Some ''asf''), (''text/javascript'', Some ''js''),
      (''video/x-flv'', Some ''flv''), ([], None), (''text/xml'', Some ''xml''), (''application/x-unknown-content-type'', Some ''dat''),
      (''text/plain'', Some ''txt''), ([], None), (''application/javascript'', Some ''js''), (''mp4'', Some ''mp4''),
      (''application/x-javascript'', Some ''js''), ([], None), (''application/json'', Some ''json''),
      (''application/vnd.google.safebrowsing-update'', Some ''dat''), (''image/svg+xml'', Some ''svg''), (''image/jpg'', Some ''jpg''),
      (''image/jpeg'', Some ''jpg''), (''application/vnd.google.safebrowsing-chunk'', Some ''dat''), (''application/x-fcs'', Some ''fcs''),
      (''zip'', Some ''zip''), (''application/octet-stream'', Some ''dat''), (''video/MP2T'', Some ''mp4''), ([], None),
      (''image/x-icon'', Some ''icon''), (''application/x-www-form-urlencoded'', Some ''dat''), (''image/vnd.microsoft.icon'', Some ''icon''),
      ([], None), ([], None), ([], None), ([], None), (''image/png'', Some ''png''), (''application/zip'', Some ''zip''), ([], None), ([], None),
      ([], None), (''text/json'', Some ''json''), ([], None), ([], None), ([], None), (''text/css'', Some ''css''), (''audio/mp4'', Some ''mp4''),
      ([], None), ([], None), ([], None), ([], None), (''application/x-shockwave-flash'', Some ''swf''), ([], None), ([], None), ([], None),
      ([], None), (''binary/octet-stream'', Some ''dat'')]"

definition get_file_extension_from_content_type :: "string \<Rightarrow> nat \<Rightarrow> (string \<times> string option) option cres" where
  "get_file_extension_from_content_type = gperf_lookup get_content_type_hash type_words 3 42 79"

section \<open>Perfect hashing\<close>

text \<open>The reference: a search through the names, without regard to case.\<close>

definition search :: "(string \<times> 'v option) list \<Rightarrow> string \<Rightarrow> (string \<times> 'v option) option" where
  "search wordlist s = find (\<lambda>(w, _). w \<noteq> [] \<and> map low w = map low s) wordlist"

lemma all_u8: "list_all P (map of_nat [0..<256]) \<Longrightarrow> P (x :: u8)"
proof -
  assume p: "list_all P (map of_nat [0..<256])"
  have "unat x < 256" using unsigned_less [of x, where 'a = nat] by simp
  then show ?thesis using p by (auto simp: list_all_iff dest: bspec [of _ _ "unat x"])
qed

lemma unat_of_char: "unat (of_char c :: u8) = of_char c"
proof -
  have "unat (of_nat (of_char c :: nat) :: u8) = (of_char c :: nat) mod 256" by (simp add: unat_of_nat)
  then show ?thesis by (simp only: of_nat_of_char of_char_mod_256)
qed

lemma low_NUL: "low c = 0 \<longleftrightarrow> c = NUL"
proof
  assume a: "low c = 0"
  have "list_all (\<lambda>x :: u8. gperf_downcase x = 0 \<longrightarrow> x = 0) (map of_nat [0..<256])" by code_simp
  from all_u8 [OF this] have "(of_char c :: u8) = 0" using a by blast
  then have "of_char c = (0 :: nat)" using unat_of_char [of c] by simp
  then show "c = NUL" using of_char_eqI [of c NUL, where 'a = nat] by simp
qed (simp add: gperf_downcase_def)

lemma low_first:
  assumes "low a = low b"
  shows "(of_char a XOR of_char b :: u8) AND NOT 32 = 0"
proof -
  have "list_all (\<lambda>x :: u8. (x XOR gperf_downcase x) AND NOT 32 = 0) (map of_nat [0..<256])" by code_simp
  from all_u8 [OF this] have z: "(x XOR gperf_downcase x) AND NOT 32 = 0" for x .
  have d: "(u XOR v) AND m = (u AND m) XOR (v AND m)" for u v m :: u8 by (rule bit_word_eqI) (auto simp: bit_simps)
  have "(of_char a XOR of_char b :: u8) = (of_char a XOR low a) XOR (of_char b XOR low b)"
    using assms by (simp add: ac_simps xor.left_commute)
  then show ?thesis using z [of "of_char a"] z [of "of_char b"] d by simp
qed

lemma strncmp_zero:
  assumes "n \<le> length s1" "NUL \<notin> set (take n s1)"
  shows "\<exists>d. gperf_case_strncmp s1 (s2 @ [NUL]) n = Inr d \<and> (d = 0 \<longleftrightarrow> n \<le> length s2 \<and> map low (take n s1) = map low (take n s2))"
  using assms
proof (induction n arbitrary: s1 s2)
  case (Suc n)
  then obtain c t where s1: "s1 = c # t" "NUL \<notin> set (take n t)" "c \<noteq> NUL" "n \<le> length t" by (cases s1) auto
  then have c: "low c \<noteq> 0" by (simp add: low_NUL)
  show ?case
  proof (cases s2)
    case Nil
    then show ?thesis using c by (simp add: s1(1) gperf_downcase_def [of 0] uint_0_iff)
  next
    case (Cons e u)
    then show ?thesis using Suc.IH [OF s1(4,2), of u] c by (auto simp: s1(1) word_uint_eq_iff)
  qed
qed simp

locale gperf =
  fixes hash :: "string \<Rightarrow> nat \<Rightarrow> nat cres"
    and hash_low :: "u8 list \<Rightarrow> nat"
    and wordlist :: "(string \<times> 'v option) list"
    and min_len max_len max_hash :: nat
  assumes min_positive: "0 < min_len"
    and hash_of_low: "min_len \<le> len \<Longrightarrow> len \<le> length str \<Longrightarrow> hash str len = Inr (hash_low (map low (take len str)))"
    and size_of_list: "length wordlist = max_hash + 1"
    and no_NUL: "list_all (\<lambda>(w, _). NUL \<notin> set w) wordlist"
    and perfect: "list_all (\<lambda>i. fst (wordlist ! i) = [] \<or> hash_low (map low (fst (wordlist ! i))) = i
                     \<and> min_len \<le> length (fst (wordlist ! i)) \<and> length (fst (wordlist ! i)) \<le> max_len) [0..<max_hash + 1]"
begin

lemma slot:
  assumes "i < length wordlist" "fst (wordlist ! i) \<noteq> []"
  shows "hash_low (map low (fst (wordlist ! i))) = i" "min_len \<le> length (fst (wordlist ! i))" "length (fst (wordlist ! i)) \<le> max_len"
  using perfect assms by (auto simp: list_all_iff size_of_list less_Suc_eq_le)

lemma search_slot:
  assumes "i < length wordlist" "fst (wordlist ! i) \<noteq> []" "map low (fst (wordlist ! i)) = map low s"
  shows "search wordlist s = Some (wordlist ! i)"
  unfolding search_def find_Some_iff
proof (intro exI [of _ i] conjI allI impI)
  fix j
  assume "j < i"
  then show "\<not> (case wordlist ! j of (w, _) \<Rightarrow> w \<noteq> [] \<and> map low w = map low s)"
    using slot(1) [of i] slot(1) [of j] assms by (auto simp: case_prod_beta)
qed (use assms in \<open>auto simp: case_prod_beta\<close>)

lemma search_None:
  "(\<And>i. i < length wordlist \<Longrightarrow> fst (wordlist ! i) \<noteq> [] \<Longrightarrow> map low (fst (wordlist ! i)) \<noteq> map low s) \<Longrightarrow> search wordlist s = None"
  unfolding search_def find_None_iff by (fastforce simp: in_set_conv_nth)

theorem lookup_is_search:
  assumes "len \<le> length str" "NUL \<notin> set (take len str)"
  shows "gperf_lookup hash wordlist min_len max_len max_hash str len = Inr (search wordlist (take len str))"
proof (cases "min_len \<le> len \<and> len \<le> max_len")
  case False
  have "search wordlist (take len str) = None"
  proof (rule search_None)
    fix i
    assume "i < length wordlist" "fst (wordlist ! i) \<noteq> []"
    from slot(2,3) [OF this] show "map low (fst (wordlist ! i)) \<noteq> map low (take len str)"
      using False assms(1) by (auto dest!: arg_cong [where f = length])
  qed
  then show ?thesis using False by (auto simp: gperf_lookup_def)
next
  case True
  let ?k = "map low (take len str)"
  have h: "hash str len = Inr (hash_low ?k)" using hash_of_low True assms(1) by blast
  have len: "0 < len" using True min_positive by simp
  then obtain a t where str: "str = a # t" using assms(1) by (cases str) auto
  then have a: "read_at str 0 = Inr a" by (simp add: read_at_def)
  show ?thesis
  proof (cases "hash_low ?k \<le> max_hash")
    case False
    then have "search wordlist (take len str) = None"
      using slot(1) size_of_list by (intro search_None) fastforce
    then show ?thesis using True False h by (simp add: gperf_lookup_def)
  next
    case in_range: True
    define w where "w = fst (wordlist ! hash_low ?k)"
    have i: "hash_low ?k < length wordlist" using in_range size_of_list by simp
    have wn: "NUL \<notin> set w" using no_NUL i by (auto simp: w_def list_all_iff case_prod_beta)
    obtain d where d: "gperf_case_strncmp str (w @ [NUL]) len = Inr d" "d = 0 \<longleftrightarrow> len \<le> length w \<and> ?k = map low (take len w)"
      using strncmp_zero [OF assms] by blast
    have rd: "d = 0 \<Longrightarrow> read_at (w @ [NUL]) len = Inr (if len = length w then NUL else w ! len)"
      using d(2) by (auto simp: read_at_def nth_append)
    have match: "map low w = ?k \<longleftrightarrow> d = 0 \<and> len = length w"
    proof
      assume m: "map low w = ?k"
      from arg_cong [OF this, of length] assms(1) have "length w = len" by simp
      then show "d = 0 \<and> len = length w" using d(2) m [symmetric] by simp
    qed (use d(2) in auto)
    have first: "(of_char a XOR of_char ((w @ [NUL]) ! 0) :: u8) AND NOT 32 = 0" if "map low w = ?k"
      using that low_first [of a "w ! 0"] len str by (cases w; cases len) auto
    have other: "d = 0 \<Longrightarrow> len \<noteq> length w \<Longrightarrow> w ! len \<noteq> NUL" using wn d(2) by (metis le_neq_implies_less nth_mem)
    have eq: "gperf_lookup hash wordlist min_len max_len max_hash str len
        = Inr (if map low w = ?k then Some (wordlist ! hash_low ?k) else None)"
      using True in_range first other match rd
      by (cases "d = 0") (auto simp: gperf_lookup_def h a d(1) w_def [symmetric] Let_def)
    show ?thesis
    proof (cases "map low w = ?k")
      case m: True
      then have "w \<noteq> []" using len str by auto
      then show ?thesis using eq m search_slot [OF i] by (simp add: w_def)
    next
      case False
      then have "search wordlist (take len str) = None" using slot(1) w_def by (intro search_None) fastforce
      then show ?thesis using eq False by simp
    qed
  qed
qed

end

section \<open>The tables are perfect\<close>

definition content_hash_low :: "u8 list \<Rightarrow> nat" where
  "content_hash_low k = length k + content_asso (k ! 0)"

definition transfer_hash_low :: "u8 list \<Rightarrow> nat" where
  "transfer_hash_low k = length k + transfer_asso (k ! 0)"

definition type_hash_low :: "u8 list \<Rightarrow> nat" where
  "type_hash_low k = length k + (if length k > 6 then type_asso (k ! 6) else 0) + type_asso (k ! (length k - 1))"

lemma asso_low:
  "content_asso (gperf_downcase x) = content_asso x" "transfer_asso (gperf_downcase x) = transfer_asso x"
  "type_asso (gperf_downcase x) = type_asso x"
proof -
  let ?P = "\<lambda>n. content_asso (of_nat (n + 32)) = content_asso (of_nat n) \<and> transfer_asso (of_nat (n + 32)) = transfer_asso (of_nat n)
      \<and> type_asso (of_nat (n + 32)) = type_asso (of_nat n)"
  have c: "list_all ?P [65..<91]" by (simp add: upt_rec content_asso_def transfer_asso_def type_asso_def)
  have "?P (unat x)" if "65 \<le> x" "x \<le> 90"
  proof -
    have "unat x \<in> set [65..<91]" using that unfolding set_upt atLeastLessThan_iff word_le_nat_alt by simp
    with c show ?thesis unfolding list_all_iff by blast
  qed
  then show "content_asso (gperf_downcase x) = content_asso x" "transfer_asso (gperf_downcase x) = transfer_asso x"
    "type_asso (gperf_downcase x) = type_asso x" by (auto simp: gperf_downcase_def)
qed

interpretation content: gperf get_content_encoding_hash content_hash_low content_words 2 8 13
proof
  fix len :: nat and str :: string
  assume l: "2 \<le> len" "len \<le> length str"
  then have "map low (take len str) ! 0 = low (str ! 0)" "str \<noteq> []" by auto
  then show "get_content_encoding_hash str len = Inr (content_hash_low (map low (take len str)))"
    using l by (simp add: get_content_encoding_hash_def content_hash_low_def read_at_def asso_low)
qed code_simp+

interpretation transfer: gperf get_transfer_encoding_hash transfer_hash_low transfer_words 4 8 13
proof
  fix len :: nat and str :: string
  assume l: "4 \<le> len" "len \<le> length str"
  then have "map low (take len str) ! 0 = low (str ! 0)" "str \<noteq> []" by auto
  then show "get_transfer_encoding_hash str len = Inr (transfer_hash_low (map low (take len str)))"
    using l by (simp add: get_transfer_encoding_hash_def transfer_hash_low_def read_at_def asso_low)
qed code_simp+

interpretation type: gperf get_content_type_hash type_hash_low type_words 3 42 79
proof
  fix len :: nat and str :: string
  assume l: "3 \<le> len" "len \<le> length str"
  then have "i < len \<Longrightarrow> map low (take len str) ! i = low (str ! i)" for i by simp
  then show "get_content_type_hash str len = Inr (type_hash_low (map low (take len str)))"
    using l by (auto simp: get_content_type_hash_def type_hash_low_def read_at_def asso_low)
qed code_simp+

section \<open>Properties\<close>

text \<open>
  C35: the compiled tables are what they were compiled from. For every header value without NUL, each of the three lookups returns
  exactly what a search through the list of names without regard to case returns, and does not read outside the value or the list.
\<close>

theorem gperf_tables_are_searches:
  assumes "len \<le> length str" "NUL \<notin> set (take len str)"
  shows "get_content_encoding str len = Inr (search content_words (take len str))
     \<and> get_transfer_encoding str len = Inr (search transfer_words (take len str))
     \<and> get_file_extension_from_content_type str len = Inr (search type_words (take len str))"
  unfolding get_content_encoding_def get_transfer_encoding_def get_file_extension_from_content_type_def
  using content.lookup_is_search [OF assms] transfer.lookup_is_search [OF assms] type.lookup_is_search [OF assms] by blast

theorem gperf_tables_are_searches_witness:
  "get_content_encoding ''GZip, br'' 4 = Inr (search content_words ''GZip'')
   \<and> get_transfer_encoding ''GZip, br'' 4 = Inr (search transfer_words ''GZip'')
   \<and> get_file_extension_from_content_type ''GZip, br'' 4 = Inr (search type_words ''GZip'')"
  using gperf_tables_are_searches [of 4 "''GZip, br''"] by simp

text \<open>A value that begins with a NUL can match an empty slot, whose one-byte string is then read behind its end.\<close>

lemma lookup_NUL_overread: "get_file_extension_from_content_type (replicate 6 NUL @ ''-a'') 8 = Inl OutOfBounds"
  by code_simp

end
