(* ===== verification/Http_Reconstruct.thy ===== *)
theory Http_Reconstruct
  imports Http_Tables Output Dpi_Tool
begin

text \<open>
  Reconstruction of files from HTTP traffic, \<^verbatim>\<open>src/src/modules/dpi/reconstruct/http/http_reconstruct.c\<close>. MMT-DPI calls one handler
  for a request, one for a response, one for each piece of a body and one for the end of a message; the state they share is the
  \<^verbatim>\<open>http_session\<close> of the TCP session. Reconstructed files (\<open>files\<close>) are kept apart from the files of the reports (\<open>fs\<close>).
\<close>

section \<open>State\<close>

record http_session =
  hs_file_name :: "string option"
  hs_content_encoding :: "(string \<times> content_encoding option) option"
  hs_transfer_encoding :: "(string \<times> transfer_encoding option) option"
  tcp_port_source :: u16
  content_length :: u32
  current_data_length :: u32
  hs_ts :: timeval
  hs_file :: "string option"

text \<open>What the handlers ask MMT-DPI about a packet; NULL is \<open>None\<close>.\<close>

record http_packet =
  hp_ts :: timeval
  hp_session_id :: u64
  hp_uri :: "mmt_header_line option"
  hp_host :: "mmt_header_line option"
  hp_content_type :: "mmt_header_line option"
  hp_content_encoding :: "mmt_header_line option"
  hp_transfer_encoding :: "mmt_header_line option"
  hp_content_len :: "mmt_header_line option"
  hp_src_port :: "u16 option"
  hp_payload :: "string option"
  hp_payload_len :: "u32 option"

text \<open>The context and the world outside: files that can be opened, zlib, the channels of the output; and the initial content of local arrays.\<close>

record 'z http_env =
  he_config :: reconstruct_data_conf
  he_can_open :: "string \<Rightarrow> bool"
  he_zlib :: "'z zlib"
  he_read_ok :: bool
  he_api :: chan_api
  he_name :: string
  he_src_name :: string
  he_message :: string
  he_output :: "string \<times> string"
  he_buffer :: "nat \<Rightarrow> string"

record http_world =
  w_files :: files
  w_output :: "output_t option"
  w_fs :: fs
  w_sent :: "delivery list"

section \<open>Header fields\<close>

text \<open>The length of the content type up to a semicolon or a space.\<close>

fun type_len :: "string \<Rightarrow> nat \<Rightarrow> nat cres" where
  "type_len ptr 0 = Inr 0"
| "type_len [] (Suc n) = Inl OutOfBounds"
| "type_len (c # ptr) (Suc n) = (if c \<noteq> CHR '';'' \<and> c \<noteq> CHR '' '' then bindE (type_len ptr n) (\<lambda>l. Inr (l + 1)) else Inr 0)"

definition get_extension_from_content_type :: "http_packet \<Rightarrow> string cres" where
  "get_extension_from_content_type pkt =
     (case hp_content_type pkt of None \<Rightarrow> Inr ''unk''
      | Some h \<Rightarrow>
          if hl_len h = 0 then Inr ''unk''
          else bindE (type_len (hl_ptr h) (hl_len h)) (\<lambda>len.
               bindE (get_file_extension_from_content_type (hl_ptr h) len) (\<lambda>ext.
               case ext of None \<Rightarrow> Inr ''unk'' | Some (_, e) \<Rightarrow> deref e)))"

definition get_content_encoding_of :: "http_packet \<Rightarrow> (string \<times> content_encoding option) option cres" where
  "get_content_encoding_of pkt =
     (case hp_content_encoding pkt of None \<Rightarrow> Inr None
      | Some h \<Rightarrow> if hl_len h = 0 then Inr None else get_content_encoding (hl_ptr h) (hl_len h))"

definition get_tranfer_encoding :: "http_packet \<Rightarrow> (string \<times> transfer_encoding option) option cres" where
  "get_tranfer_encoding pkt =
     (case hp_transfer_encoding pkt of None \<Rightarrow> Inr None
      | Some h \<Rightarrow> if hl_len h = 0 then Inr None else get_transfer_encoding (hl_ptr h) (hl_len h))"

definition get_content_length :: "http_packet \<Rightarrow> u32 cres" where
  "get_content_length pkt =
     (case hp_content_len pkt of None \<Rightarrow> Inr 0
      | Some h \<Rightarrow>
          if hl_len h = 0 then Inr 0
          else bindE (read_range (hl_ptr h) 0 (hl_len h)) (\<lambda>tmp. Inr (of_int (strtol10 tmp))))"

section \<open>Files\<close>

definition append_data :: "string \<Rightarrow> http_session \<Rightarrow> files \<Rightarrow> http_session \<times> files \<times> bool" where
  "append_data bytes s fs =
     (case hs_file s of None \<Rightarrow> (s, fs, False)
      | Some path \<Rightarrow>
          (s\<lparr>current_data_length := current_data_length s + of_nat (length bytes)\<rparr>,
           fs(path \<mapsto> case_option [] id (fs path) @ bytes), True))"

text \<open>The extension of a compressed file, which is removed after decoding.\<close>

definition encoding_suffix :: "http_session \<Rightarrow> item list" where
  "encoding_suffix s =
     (case hs_content_encoding s of
        Some (ident, Some CONTENT_ENCODING_COMPRESS) \<Rightarrow> [F_CHAR CHR ''.'', F_ARR ident]
      | Some (ident, Some CONTENT_ENCODING_GZIP) \<Rightarrow> [F_CHAR CHR ''.'', F_ARR ident]
      | Some (ident, Some CONTENT_ENCODING_DEFLATE) \<Rightarrow> [F_CHAR CHR ''.'', F_ARR ident]
      | _ \<Rightarrow> [])"

text \<open>The part of \<^verbatim>\<open>_create_file\<close> that builds the names: the one the session remembers and the path to open.\<close>

definition name_file :: "'z http_env \<Rightarrow> http_session \<Rightarrow> string \<Rightarrow> (http_session \<times> string) cres" where
  "name_file H s file_extension =
     bindE (deref (rd_directory (he_config H))) (\<lambda>directory.
     bindE (deref (hs_file_name s)) (\<lambda>fname.
     bindE (STRING_BUILDER 0 (he_name H) MAX_LENGTH_FULL_PATH_FILE_NAME [F_ARR directory, F_ARR ''mmt-'', F_ARR fname]) (\<lambda>(name, valid).
     bindE (if valid \<ge> MAX_LENGTH_FULL_PATH_FILE_NAME then Inr (MAX_LENGTH_FULL_PATH_FILE_NAME - 20, True)
            else if valid < length file_extension then Inl OutOfBounds
            else Inr (valid, take (length file_extension) (drop (valid - length file_extension) name) \<noteq> file_extension)) (\<lambda>(valid, need).
     bindE (if need then STRING_BUILDER valid name (MAX_LENGTH_FULL_PATH_FILE_NAME - valid) [F_CHAR CHR ''.'', F_ARR file_extension]
            else Inr (name, valid)) (\<lambda>(name, valid).
     bindE (if encoding_suffix s = [] then Inr (name, valid)
            else STRING_BUILDER valid name MAX_LENGTH_FULL_PATH_FILE_NAME (encoding_suffix s)) (\<lambda>(path, _).
     Inr (s\<lparr>hs_file_name := Some (cstr (take (valid + 1) name))\<rparr>, cstr path)))))))"

definition create_file :: "'z http_env \<Rightarrow> http_session \<Rightarrow> string \<Rightarrow> files \<Rightarrow> (http_session \<times> files) cres" where
  "create_file H s file_extension fs =
     bindE (name_file H s file_extension) (\<lambda>(s, path).
       Inr (if he_can_open H path then (s\<lparr>hs_file := Some path\<rparr>, fs(path \<mapsto> [])) else (s\<lparr>hs_file := None\<rparr>, fs)))"

datatype http_reconstruct_status = HTTP_RECONSTRUCT_SUCCESS | HTTP_RECONSTRUCT_INCOMPLETE_CHUNK
  | HTTP_RECONSTRUCT_FILE_CORRUPTED | HTTP_RECONSTRUCT_UNSUPPORT_ENCODING

fun status_id :: "http_reconstruct_status \<Rightarrow> u64" where
  "status_id HTTP_RECONSTRUCT_SUCCESS = 0"
| "status_id HTTP_RECONSTRUCT_INCOMPLETE_CHUNK = 1"
| "status_id HTTP_RECONSTRUCT_FILE_CORRUPTED = 2"
| "status_id HTTP_RECONSTRUCT_UNSUPPORT_ENCODING = 3"

fun content_encoding_id :: "content_encoding \<Rightarrow> u64" where
  "content_encoding_id CONTENT_ENCODING_GZIP = 0"
| "content_encoding_id CONTENT_ENCODING_COMPRESS = 1"
| "content_encoding_id CONTENT_ENCODING_DEFLATE = 2"
| "content_encoding_id CONTENT_ENCODING_IDENTITY = 3"
| "content_encoding_id CONTENT_ENCODING_BR = 4"

fun transfer_encoding_id :: "transfer_encoding \<Rightarrow> u64" where
  "transfer_encoding_id TRANSFER_ENCODING_CHUNKED = 0"
| "transfer_encoding_id TRANSFER_ENCODING_COMPRESS = 1"
| "transfer_encoding_id TRANSFER_ENCODING_DEFLATE = 2"
| "transfer_encoding_id TRANSFER_ENCODING_GZIP = 3"
| "transfer_encoding_id TRANSFER_ENCODING_IDENTITY = 4"

definition ident_number :: "('e \<Rightarrow> u64) \<Rightarrow> (string \<times> 'e option) option \<Rightarrow> u64" where
  "ident_number f e = (case e of Some (_, Some x) \<Rightarrow> f x | _ \<Rightarrow> 0)"

definition HTTP_RECONSTRUCT_REPORT_TYPE :: nat where
  "HTTP_RECONSTRUCT_REPORT_TYPE = 301"

text \<open>Decoding of a complete file by its content encoding.\<close>

definition uncompress :: "'z http_env \<Rightarrow> http_session \<Rightarrow> files \<Rightarrow> (http_reconstruct_status \<times> files) cres" where
  "uncompress H s fs =
     (case hs_content_encoding s of None \<Rightarrow> Inr (HTTP_RECONSTRUCT_SUCCESS, fs)
      | Some (ident, enc) \<Rightarrow>
          bindE (deref (hs_file_name s)) (\<lambda>fname.
          bindE (STRING_BUILDER 0 (he_src_name H) MAX_LENGTH_FULL_PATH_FILE_NAME [F_ARR fname, F_CHAR CHR ''.'', F_ARR ident]) (\<lambda>(src, _).
          if enc = Some CONTENT_ENCODING_GZIP
          then (case zip_decode (he_zlib H) (he_can_open H) (he_read_ok H) fname (cstr src) fs of
                  None \<Rightarrow> Inl Diverges
                | Some (fs, ret) \<Rightarrow>
                    Inr (if ret \<noteq> 0 then (HTTP_RECONSTRUCT_SUCCESS, fs(cstr src := None)) else (HTTP_RECONSTRUCT_FILE_CORRUPTED, fs)))
          else Inr (HTTP_RECONSTRUCT_UNSUPPORT_ENCODING, fs))))"

definition http_reconstruct_flush_session_to_file_and_free :: "'z http_env \<Rightarrow> http_session option \<Rightarrow> http_world \<Rightarrow> http_world cres" where
  "http_reconstruct_flush_session_to_file_and_free H sess w =
     (case sess of None \<Rightarrow> Inr w
      | Some s \<Rightarrow>
          if hs_file s = None then Inr w
          else bindE (if current_data_length s = 0 then Inr (HTTP_RECONSTRUCT_INCOMPLETE_CHUNK, w_files w)
                      else if \<not> (content_length s = 0 \<or> current_data_length s = content_length s)
                      then Inr (HTTP_RECONSTRUCT_INCOMPLETE_CHUNK, w_files w)
                      else uncompress H s (w_files w)) (\<lambda>(status, files).
               bindE (deref (hs_file_name s)) (\<lambda>fname.
               bindE (STRING_BUILDER_WITH_SEPARATOR 0 (he_message H) MAX_LENGTH_REPORT_MESSAGE '',''
                        [F_INT (status_id status), F_INT (ucast (content_length s)), F_INT (ucast (current_data_length s)),
                         F_INT (ident_number content_encoding_id (hs_content_encoding s)),
                         F_INT (ident_number transfer_encoding_id (hs_transfer_encoding s)), F_STR fname]) (\<lambda>(message, _).
               bindE (output_write_report (he_api H) (he_output H) (rd_output_channels (he_config H)) HTTP_RECONSTRUCT_REPORT_TYPE
                        (hs_ts s) (Some message) (w_output w) (w_fs w)) (\<lambda>(output, fs, ds, _).
                 Inr (w\<lparr>w_files := files, w_output := output, w_fs := fs, w_sent := w_sent w @ ds\<rparr>))))))"

section \<open>Handlers\<close>

text \<open>A part of a header field is copied to the name and cleaned.\<close>

definition append_field :: "string \<Rightarrow> string \<Rightarrow> nat \<Rightarrow> (string \<times> nat) cres" where
  "append_field bytes name valid =
     bindE (store name valid CHR ''-'') (\<lambda>name.
     let valid = valid + 1 in
     bindE (memcpy name valid bytes) (\<lambda>name.
     let (rest, n) = string_format_file_name (drop valid name) (length bytes) in Inr (take valid name @ rest, valid + n)))"

definition http_method_handle :: "'z http_env \<Rightarrow> http_packet \<Rightarrow> http_session option \<Rightarrow> http_world \<Rightarrow> (http_session option \<times> http_world) cres" where
  "http_method_handle H pkt sess w =
     bindE (http_reconstruct_flush_session_to_file_and_free H sess w) (\<lambda>w.
     bindE (append_number (of_int (int32_of (uint (hp_session_id pkt)))) (he_name H) 0 MAX_LENGTH_FULL_PATH_FILE_NAME) (\<lambda>(name, valid).
     bindE (case hp_host pkt of None \<Rightarrow> Inr (name, valid)
            | Some h \<Rightarrow>
                if hl_len h = 0 then Inr (name, valid)
                else bindE (read_range (hl_ptr h) 0 (min (hl_len h) 50)) (\<lambda>bytes. append_field bytes name valid)) (\<lambda>(name, valid).
     bindE (case hp_uri pkt of None \<Rightarrow> Inr (name, valid)
            | Some h \<Rightarrow>
                if hl_len h = 0 then Inr (name, valid)
                else let n = min (hl_len h) 100
                     in bindE (read_range (hl_ptr h) (hl_len h - n) n) (\<lambda>bytes. append_field bytes name valid)) (\<lambda>(name, valid).
     bindE (store name valid NUL) (\<lambda>name.
       Inr (Some \<lparr>hs_file_name = Some (cstr (take (valid + 1) name)), hs_content_encoding = None, hs_transfer_encoding = None,
                  tcp_port_source = 0, content_length = 0, current_data_length = 0, hs_ts = hp_ts pkt, hs_file = None\<rparr>, w))))))"

text \<open>The index of the carriage return of the empty line; the code compares the byte before it twice.\<close>

function find_body :: "string \<Rightarrow> nat \<Rightarrow> nat \<Rightarrow> nat cres" where
  "find_body payload data_len i =
     (if \<not> i < data_len then Inr i
      else bindE (read_at payload i) (\<lambda>a. bindE (read_at payload (i - 1)) (\<lambda>b.
           if a = CHR 0x0D \<and> b = CHR 0x0A then Inr i else find_body payload data_len (i + 1))))"
  by pat_completeness auto
termination by (relation "measure (\<lambda>(_, data_len, i). data_len - i)") auto

declare find_body.simps [simp del]

text \<open>The first part of the body, in the packet of the response: decoded when it is chunked and well-formed.\<close>

definition first_data :: "'z http_env \<Rightarrow> http_session \<Rightarrow> string \<Rightarrow> nat \<Rightarrow> string option cres" where
  "first_data H s payload data_len =
     bindE (find_body payload data_len 3) (\<lambda>i.
     let i = i + 2 in
     if i \<ge> data_len then Inr None
     else let n = data_len - i in
          bindE (read_range payload i n) (\<lambda>body.
          if ident_number transfer_encoding_id (hs_transfer_encoding s) = 0 \<and> hs_transfer_encoding s \<noteq> None
          then bindE (chunk_decode (he_buffer H n) (drop i payload) n) (\<lambda>(buffer, ret).
               Inr (Some (if ret \<noteq> 0 then take ret buffer else body)))
          else Inr (Some body)))"

text \<open>Once the file is there: the port of the server and the first part of the body.\<close>

definition store_first_data :: "'z http_env \<Rightarrow> http_packet \<Rightarrow> http_session \<Rightarrow> http_world \<Rightarrow> (http_session option \<times> http_world) cres" where
  "store_first_data H pkt s w =
     bindE (deref (hp_src_port pkt)) (\<lambda>port.
     let s = s\<lparr>tcp_port_source := port\<rparr> in
     case (hp_payload pkt, hp_payload_len pkt) of
       (Some payload, Some n) \<Rightarrow>
         bindE (first_data H s payload (unat n)) (\<lambda>bytes.
         case bytes of None \<Rightarrow> Inr (Some s, w)
         | Some bytes \<Rightarrow> let (s, files, _) = append_data bytes s (w_files w) in Inr (Some s, w\<lparr>w_files := files\<rparr>))
     | _ \<Rightarrow> Inr (Some s, w))"

text \<open>
  \<^verbatim>\<open>response\<close> is the text of the attribute. If the session had no file name, \<^verbatim>\<open>_http_method_handle\<close> would be called, which frees
  the session that is used afterwards: a fault.
\<close>

definition http_response_handle ::
  "'z http_env \<Rightarrow> mmt_header_line \<Rightarrow> http_packet \<Rightarrow> http_session option \<Rightarrow> http_world \<Rightarrow> (http_session option \<times> http_world) cres" where
  "http_response_handle H response pkt sess w =
     bindE (get_content_length pkt) (\<lambda>len.
     if take (hl_len response) (cstr (hl_ptr response)) \<noteq> take (hl_len response) ''200 OK'' then Inr (sess, w)
     else case sess of None \<Rightarrow> Inr (None, w)
     | Some s \<Rightarrow>
         if hs_file s \<noteq> None then Inr (Some s, w)
         else if hs_file_name s = None then Inl OutOfBounds
         else bindE (get_content_encoding_of pkt) (\<lambda>ce.
              bindE (get_tranfer_encoding pkt) (\<lambda>te.
              bindE (get_extension_from_content_type pkt) (\<lambda>ext.
              bindE (create_file H (s\<lparr>hs_content_encoding := ce, content_length := len, hs_transfer_encoding := te\<rparr>) ext (w_files w)) (\<lambda>(s, files).
              if hs_file s = None then Inr (Some s, w\<lparr>w_files := files\<rparr>)
              else store_first_data H pkt s (w\<lparr>w_files := files\<rparr>))))))"

definition http_data_handle ::
  "mmt_header_line \<Rightarrow> http_packet \<Rightarrow> http_session option \<Rightarrow> http_world \<Rightarrow> (http_session option \<times> http_world) cres" where
  "http_data_handle body pkt sess w =
     (case sess of None \<Rightarrow> Inr (None, w)
      | Some s \<Rightarrow>
          if hs_file s = None then Inr (Some s, w)
          else if hp_src_port pkt \<noteq> Some (tcp_port_source s) then Inr (Some s, w)
          else bindE (read_range (hl_ptr body) 0 (hl_len body)) (\<lambda>bytes.
               let (s, files, _) = append_data bytes s (w_files w) in Inr (Some s, w\<lparr>w_files := files\<rparr>)))"

definition http_end_message_handle :: "'z http_env \<Rightarrow> http_session option \<Rightarrow> http_world \<Rightarrow> (http_session option \<times> http_world) cres" where
  "http_end_message_handle H sess w =
     (case sess of None \<Rightarrow> Inr (None, w)
      | Some s \<Rightarrow>
          if hs_file s = None then Inr (Some s, w)
          else bindE (http_reconstruct_flush_session_to_file_and_free H (Some s) w) (\<lambda>w. Inr (None, w)))"

text \<open>Start and end: the table of handlers, whose identifiers are constants of MMT-DPI, is registered and unregistered.\<close>

definition http_reconstruct_init :: "'h dpi_api \<Rightarrow> 'h conditional_handler list \<Rightarrow> reconstruct_data_conf \<Rightarrow> 'h dpi_call list option" where
  "http_reconstruct_init A handlers config =
     (if \<not> rd_is_enable config then None else Some (fst (dpi_register_conditional_handler A handlers)))"

definition http_reconstruct_close :: "'h dpi_api \<Rightarrow> 'h conditional_handler list \<Rightarrow> 'c option \<Rightarrow> 'h dpi_call list" where
  "http_reconstruct_close A handlers context =
     (case context of None \<Rightarrow> [] | Some _ \<Rightarrow> fst (dpi_unregister_conditional_handler A handlers))"

text \<open>
  What MMT-DPI calls for one TCP session, in any order; \<open>Session_end\<close> is the call of \<^verbatim>\<open>_ending_session_handler\<close>. The handlers abort when
  the packet has no session of the probe (\<^verbatim>\<open>MY_MISTAKE\<close>), which \<^verbatim>\<open>_packet_handler\<close> excludes.
\<close>

datatype http_event = Http_method http_packet | Http_response mmt_header_line http_packet | Http_data mmt_header_line http_packet
  | Http_end | Session_end

fun http_step :: "'z http_env \<Rightarrow> http_event \<Rightarrow> http_session option \<times> http_world \<Rightarrow> (http_session option \<times> http_world) cres" where
  "http_step H (Http_method pkt) (sess, w) = http_method_handle H pkt sess w"
| "http_step H (Http_response r pkt) (sess, w) = http_response_handle H r pkt sess w"
| "http_step H (Http_data d pkt) (sess, w) = http_data_handle d pkt sess w"
| "http_step H Http_end (sess, w) = http_end_message_handle H sess w"
| "http_step H Session_end (sess, w) = bindE (http_reconstruct_flush_session_to_file_and_free H sess w) (\<lambda>w. Inr (None, w))"

fun http_run :: "'z http_env \<Rightarrow> http_event list \<Rightarrow> http_session option \<times> http_world \<Rightarrow> (http_session option \<times> http_world) cres" where
  "http_run H [] st = Inr st"
| "http_run H (e # es) st = bindE (http_step H e st) (http_run H es)"

section \<open>Lemmas\<close>

text \<open>
  A session has a name from the beginning, and the length it counts is the size of its file: the branch of the response handler that
  would use a freed session is dead.
\<close>

definition http_inv :: "http_session option \<times> http_world \<Rightarrow> bool" where
  "http_inv st \<longleftrightarrow> (case fst st of None \<Rightarrow> True
     | Some s \<Rightarrow> hs_file_name s \<noteq> None
         \<and> (case hs_file s of None \<Rightarrow> current_data_length s = 0
            | Some path \<Rightarrow> \<exists>c. w_files (snd st) path = Some c \<and> current_data_length s = of_nat (length c)))"

lemma append_data_file:
  assumes "append_data bytes s fs = (s', fs', ok)" "hs_file s = Some path" "fs path = Some c" "current_data_length s = of_nat (length c)"
  shows "fs' = fs(path \<mapsto> c @ bytes)" "s' = s\<lparr>current_data_length := of_nat (length (c @ bytes))\<rparr>"
  using assms by (auto simp: append_data_def)

lemma name_file_result: "name_file H s ext = Inr (s', path) \<Longrightarrow> \<exists>n. s' = s\<lparr>hs_file_name := Some n\<rparr>"
  by (clarsimp simp: name_file_def bindE_eq_Inr) blast

lemma create_file_result:
  assumes "create_file H s ext fs = Inr (s', fs')"
  shows "\<exists>n f. s' = s\<lparr>hs_file_name := Some n, hs_file := f\<rparr> \<and> (f = None \<and> fs' = fs \<or> (\<exists>path. f = Some path \<and> fs' = fs(path \<mapsto> [])))"
proof -
  obtain s1 path where n: "name_file H s ext = Inr (s1, path)"
    "(if he_can_open H path then (s1\<lparr>hs_file := Some path\<rparr>, fs(path \<mapsto> [])) else (s1\<lparr>hs_file := None\<rparr>, fs)) = (s', fs')"
    using assms by (auto simp: create_file_def bindE_eq_Inr)
  obtain n where "s1 = s\<lparr>hs_file_name := Some n\<rparr>" using name_file_result [OF n(1)] by blast
  then show ?thesis using n(2) by (intro exI [of _ n]) (auto split: if_splits)
qed

lemma http_method_inv: "http_method_handle H pkt sess w = Inr st \<Longrightarrow> http_inv st"
  by (auto simp: http_method_handle_def bindE_eq_Inr http_inv_def)

lemma http_data_inv:
  assumes "http_data_handle body pkt sess w = Inr st" "http_inv (sess, w)"
  shows "http_inv st"
proof (cases "\<exists>s path. sess = Some s \<and> hs_file s = Some path \<and> hp_src_port pkt = Some (tcp_port_source s)")
  case True
  then obtain s path where s: "sess = Some s" "hs_file s = Some path" "hp_src_port pkt = Some (tcp_port_source s)" by blast
  then obtain c where c: "w_files w path = Some c" "current_data_length s = of_nat (length c)" "hs_file_name s \<noteq> None"
    using assms(2) by (auto simp: http_inv_def)
  show ?thesis
    using assms(1) s c by (auto simp: http_data_handle_def bindE_eq_Inr http_inv_def append_data_def Let_def)
next
  case False
  then have "st = (sess, w)" using assms(1) by (auto simp: http_data_handle_def split: option.splits if_splits)
  then show ?thesis using assms(2) by simp
qed

lemma store_first_data_result:
  assumes "store_first_data H pkt s w = Inr st" "hs_file s = Some path" "w_files w path = Some []" "current_data_length s = 0"
  shows "\<exists>port bytes. hp_src_port pkt = Some port
     \<and> st = (Some (s\<lparr>tcp_port_source := port, current_data_length := of_nat (length bytes)\<rparr>), w\<lparr>w_files := (w_files w)(path \<mapsto> bytes)\<rparr>)
     \<and> (\<forall>p n. hp_payload pkt = Some p \<longrightarrow> hp_payload_len pkt = Some n \<longrightarrow>
           (case first_data H (s\<lparr>tcp_port_source := port\<rparr>) p (unat n) of Inr (Some b) \<Rightarrow> bytes = b | _ \<Rightarrow> bytes = []))"
proof -
  obtain port where port: "hp_src_port pkt = Some port" using assms(1) by (auto simp: store_first_data_def bindE_eq_Inr deref_def split: option.splits)
  have same: "(Some (s\<lparr>tcp_port_source := port, current_data_length := of_nat (length ([] :: string))\<rparr>), w\<lparr>w_files := (w_files w)(path \<mapsto> [])\<rparr>)
      = (Some (s\<lparr>tcp_port_source := port\<rparr>), w)"
    using assms(3,4) by (simp add: fun_upd_idem)
  show ?thesis
  proof (cases "hp_payload pkt = None \<or> hp_payload_len pkt = None")
    case True
    then have "st = (Some (s\<lparr>tcp_port_source := port\<rparr>), w)"
      using assms(1) port by (auto simp: store_first_data_def deref_def Let_def split: option.splits)
    then show ?thesis using True port same by (intro exI [of _ port] exI [of _ "[]"]) auto
  next
    case False
    then obtain p n where p: "hp_payload pkt = Some p" "hp_payload_len pkt = Some n" by auto
    obtain b where b: "first_data H (s\<lparr>tcp_port_source := port\<rparr>) p (unat n) = Inr b"
      using assms(1) port p by (auto simp: store_first_data_def deref_def bindE_eq_Inr Let_def)
    show ?thesis
    proof (cases b)
      case None
      then have "st = (Some (s\<lparr>tcp_port_source := port\<rparr>), w)"
        using assms(1) port p b by (simp add: store_first_data_def deref_def)
      then show ?thesis using p port same b None by (intro exI [of _ port] exI [of _ "[]"]) auto
    next
      case (Some bytes)
      then show ?thesis using assms port p b
        by (intro exI [of _ port] exI [of _ bytes]) (auto simp: store_first_data_def deref_def append_data_def)
    qed
  qed
qed

text \<open>A response changes nothing, or opens the file of the session and stores the first part of the body.\<close>

lemma http_response_result:
  assumes "http_response_handle H r pkt sess w = Inr st" "http_inv (sess, w)"
  shows "st = (sess, w) \<or> (\<exists>s s1 files. sess = Some s \<and> hs_file s = None \<and> current_data_length s1 = 0 \<and> hs_file_name s1 \<noteq> None
     \<and> get_tranfer_encoding pkt = Inr (hs_transfer_encoding s1)
     \<and> (st = (Some s1, w\<lparr>w_files := files\<rparr>) \<and> hs_file s1 = None
        \<or> (\<exists>path. hs_file s1 = Some path \<and> files path = Some [] \<and> store_first_data H pkt s1 (w\<lparr>w_files := files\<rparr>) = Inr st)))"
proof (cases "\<exists>s. sess = Some s \<and> hs_file s = None \<and> take (hl_len r) (cstr (hl_ptr r)) = take (hl_len r) ''200 OK''")
  case True
  then obtain s where s: "sess = Some s" "hs_file s = None" and ok: "take (hl_len r) (cstr (hl_ptr r)) = take (hl_len r) ''200 OK''" by blast
  have inv: "hs_file_name s \<noteq> None" "current_data_length s = 0" using assms(2) s by (auto simp: http_inv_def)
  obtain len ce te ext s1 files where r: "get_tranfer_encoding pkt = Inr te"
    "create_file H (s\<lparr>hs_content_encoding := ce, content_length := len, hs_transfer_encoding := te\<rparr>) ext (w_files w) = Inr (s1, files)"
    "(if hs_file s1 = None then Inr (Some s1, w\<lparr>w_files := files\<rparr>) else store_first_data H pkt s1 (w\<lparr>w_files := files\<rparr>)) = Inr st"
    using assms(1) s ok inv by (auto simp: http_response_handle_def bindE_eq_Inr)
  from create_file_result [OF r(2)] obtain n f where c: "s1 = s\<lparr>hs_content_encoding := ce, content_length := len, hs_transfer_encoding := te,
      hs_file_name := Some n, hs_file := f\<rparr>" "f = None \<and> files = w_files w \<or> (\<exists>path. f = Some path \<and> files = (w_files w)(path \<mapsto> []))" by auto
  show ?thesis using r(1,3) c inv s by (intro disjI2 exI [of _ s] exI [of _ s1] exI [of _ files]) (auto split: if_splits)
next
  case False
  then show ?thesis using assms by (auto simp: http_response_handle_def bindE_eq_Inr http_inv_def split: option.splits if_splits)
qed

lemma http_response_inv:
  assumes "http_response_handle H r pkt sess w = Inr st" "http_inv (sess, w)"
  shows "http_inv st"
  using http_response_result [OF assms] assms(2)
proof (elim disjE exE conjE)
  fix s s1 files path
  assume s1: "hs_file s1 = Some path" "files path = Some []" "current_data_length s1 = 0" "hs_file_name s1 \<noteq> None"
    and st: "store_first_data H pkt s1 (w\<lparr>w_files := files\<rparr>) = Inr st"
  from store_first_data_result [OF st s1(1) _ s1(3)] s1(2) obtain port bytes where
    "st = (Some (s1\<lparr>tcp_port_source := port, current_data_length := of_nat (length bytes)\<rparr>), w\<lparr>w_files := files(path \<mapsto> bytes)\<rparr>)" by auto
  then show ?thesis using s1 by (simp add: http_inv_def)
qed (auto simp: http_inv_def)

lemma http_step_inv: "http_step H e (sess, w) = Inr st \<Longrightarrow> http_inv (sess, w) \<Longrightarrow> http_inv st"
proof (cases e)
  case Http_end
  then show "http_step H e (sess, w) = Inr st \<Longrightarrow> http_inv (sess, w) \<Longrightarrow> http_inv st"
    by (auto simp: http_end_message_handle_def bindE_eq_Inr split: option.splits if_splits) (auto simp: http_inv_def)
next
  case Session_end
  then show "http_step H e (sess, w) = Inr st \<Longrightarrow> http_inv (sess, w) \<Longrightarrow> http_inv st"
    by (auto simp: bindE_eq_Inr) (simp add: http_inv_def)
qed (auto intro: http_method_inv http_response_inv http_data_inv)

lemma http_run_inv: "http_run H es st = Inr st' \<Longrightarrow> http_inv st \<Longrightarrow> http_inv st'"
proof (induction es arbitrary: st)
  case (Cons e es)
  obtain st1 where 1: "http_step H e st = Inr st1" "http_run H es st1 = Inr st'" using Cons.prems(1) by (auto simp: bindE_eq_Inr)
  have "http_inv st1" using 1(1) Cons.prems(2) http_step_inv [of H e "fst st" "snd st"] by simp
  then show ?case using Cons.IH [OF 1(2)] by blast
qed simp

section \<open>The body of a response\<close>

text \<open>The empty line is found where it is: a header has no line feed that is followed by a carriage return.\<close>

definition no_empty_line :: "string \<Rightarrow> bool" where
  "no_empty_line h \<longleftrightarrow> (\<forall>i < length h. 0 < i \<longrightarrow> \<not> (h ! i = CHR 0x0D \<and> h ! (i - 1) = CHR 0x0A))"

lemma find_body_at:
  assumes "no_empty_line (h @ CRLF)" "payload = h @ CRLF @ CRLF @ r" "length h + 2 < data_len" "0 < i" "i \<le> length h + 2"
  shows "find_body payload data_len i = Inr (length h + 2)"
  using assms(4,5)
proof (induction "length h + 2 - i" arbitrary: i)
  case 0
  then have "i = length h + 2" by simp
  then show ?case using assms(2,3) by (subst find_body.simps) (simp add: read_at_def nth_append)
next
  case (Suc k)
  then have i: "i < length (h @ CRLF)" "i < data_len" using assms(3) by auto
  have p: "payload ! i = (h @ CRLF) ! i" "payload ! (i - 1) = (h @ CRLF) ! (i - 1)" "i < length payload"
    using i assms(2) nth_append_left [of i "h @ CRLF" "CRLF @ r"] nth_append_left [of "i - 1" "h @ CRLF" "CRLF @ r"] by auto
  have "\<not> ((h @ CRLF) ! i = CHR 0x0D \<and> (h @ CRLF) ! (i - 1) = CHR 0x0A)"
    using assms(1) i(1) Suc.prems(1) unfolding no_empty_line_def by blast
  moreover have "find_body payload data_len (i + 1) = Inr (length h + 2)" using Suc by auto
  ultimately show ?case using p i(2) Suc.prems(1) by (subst find_body.simps) (auto simp: read_at_def simp del: nth_append_length)
qed

lemma first_data_body:
  assumes "no_empty_line (h @ CRLF)" "h \<noteq> []" "body \<noteq> []" "hs_transfer_encoding s = None"
    and "data_len = length (h @ CRLF @ CRLF @ body)"
  shows "first_data H s (h @ CRLF @ CRLF @ body @ r) data_len = Inr (Some body)"
proof -
  have l: "Suc 0 \<le> length h" using assms(2) by (cases h) auto
  have "find_body (h @ CRLF @ CRLF @ body @ r) data_len 3 = Inr (length h + 2)"
    using find_body_at [OF assms(1) refl, of data_len 3 "body @ r"] assms(5) l by simp
  then show ?thesis
    using assms(3-5) by (cases body) (simp_all add: first_data_def read_range_def Let_def)
qed

text \<open>Pieces of a body from the server are appended, others are ignored.\<close>

definition from_server :: "http_session \<Rightarrow> mmt_header_line \<times> http_packet \<Rightarrow> bool" where
  "from_server s d \<longleftrightarrow> hp_src_port (snd d) = Some (tcp_port_source s)"

definition piece :: "mmt_header_line \<times> http_packet \<Rightarrow> string" where
  "piece d = take (hl_len (fst d)) (hl_ptr (fst d))"

lemma from_server_update: "from_server (s\<lparr>current_data_length := n\<rparr>) = from_server s"
  by (rule ext) (simp add: from_server_def)

lemma http_data_run:
  assumes "list_all (\<lambda>d. hl_len (fst d) \<le> length (hl_ptr (fst d))) ds" "hs_file s = Some path" "w_files w path = Some c"
    and "current_data_length s = of_nat (length c)" "c' = c @ concat (map piece (filter (from_server s) ds))"
  shows "http_run H (map (\<lambda>(d, p). Http_data d p) ds) (Some s, w)
     = Inr (Some (s\<lparr>current_data_length := of_nat (length c')\<rparr>), w\<lparr>w_files := (w_files w)(path \<mapsto> c')\<rparr>)"
  using assms
proof (induction ds arbitrary: s w c)
  case Nil
  then have "w\<lparr>w_files := (w_files w)(path \<mapsto> c)\<rparr> = w" by (simp add: fun_upd_idem)
  moreover have "s\<lparr>current_data_length := of_nat (length c)\<rparr> = s" using Nil(4) [symmetric] by simp
  ultimately show ?case using Nil by (simp del: fun_upd_apply)
next
  case (Cons d ds)
  obtain b p where d: "d = (b, p)" by fastforce
  have b: "read_range (hl_ptr b) 0 (hl_len b) = Inr (piece d)" using Cons.prems(1) d by (simp add: read_range_def piece_def)
  show ?case
  proof (cases "from_server s d")
    case True
    let ?s = "s\<lparr>current_data_length := of_nat (length (c @ piece d))\<rparr>" and ?w = "w\<lparr>w_files := (w_files w)(path \<mapsto> c @ piece d)\<rparr>"
    have 1: "http_data_handle b p (Some s) w = Inr (Some ?s, ?w)"
      using True b Cons.prems(2-4) d by (simp add: http_data_handle_def from_server_def append_data_def)
    have 2: "http_run H (map (\<lambda>(d, p). Http_data d p) ds) (Some ?s, ?w)
        = Inr (Some (?s\<lparr>current_data_length := of_nat (length c')\<rparr>), ?w\<lparr>w_files := (w_files ?w)(path \<mapsto> c')\<rparr>)"
    proof (rule Cons.IH)
      show "list_all (\<lambda>d. hl_len (fst d) \<le> length (hl_ptr (fst d))) ds" using Cons.prems(1) by simp
      show "c' = (c @ piece d) @ concat (map piece (filter (from_server ?s) ds))"
        using Cons.prems(5) True by (simp add: from_server_update)
    qed (use Cons.prems(2) in simp_all)
    show ?thesis using 1 2 by (simp add: d del: fun_upd_apply)
  next
    case False
    then have "http_data_handle b p (Some s) w = Inr (Some s, w)"
      using Cons.prems(2) d by (simp add: http_data_handle_def from_server_def)
    then show ?thesis using Cons False d by simp
  qed
qed

section \<open>Properties\<close>

definition sample_packet :: http_packet where
  "sample_packet = \<lparr>hp_ts = \<lparr>tv_sec = 5, tv_usec = 0\<rparr>, hp_session_id = 7, hp_uri = Some \<lparr>hl_ptr = ''/a.txt'', hl_len = 6\<rparr>,
     hp_host = None, hp_content_type = Some \<lparr>hl_ptr = ''text/plain'', hl_len = 10\<rparr>, hp_content_encoding = None,
     hp_transfer_encoding = None, hp_content_len = None, hp_src_port = Some 80,
     hp_payload = Some (''H'' @ CRLF @ CRLF @ ''ab''), hp_payload_len = Some 7\<rparr>"

definition sample_http_env :: "unit http_env" where
  "sample_http_env = \<lparr>he_config = \<lparr>rd_is_enable = True, rd_directory = Some ''/d/'', rd_output_channels = 0\<rparr>,
     he_can_open = \<lambda>_. True, he_zlib = \<lparr>inflateInit2 = None, set_input = \<lambda>_ z. z, inflate = \<lambda>z. (z, [], False)\<rparr>, he_read_ok = True,
     he_api = sample_api, he_name = replicate 255 NUL, he_src_name = replicate 255 NUL, he_message = replicate 3000 NUL,
     he_output = ([], []), he_buffer = \<lambda>n. replicate n NUL\<rparr>"

definition sample_world :: http_world where
  "sample_world = \<lparr>w_files = Map.empty, w_output = None, w_fs = [], w_sent = []\<rparr>"

definition sample_session :: http_session where
  "sample_session = \<lparr>hs_file_name = Some ''7-=a.txt'', hs_content_encoding = None, hs_transfer_encoding = None, tcp_port_source = 0,
     content_length = 0, current_data_length = 0, hs_ts = \<lparr>tv_sec = 5, tv_usec = 0\<rparr>, hs_file = None\<rparr>"

definition sample_pieces :: "(mmt_header_line \<times> http_packet) list" where
  "sample_pieces = [(\<lparr>hl_ptr = ''cd'', hl_len = 2\<rparr>, sample_packet), (\<lparr>hl_ptr = ''no'', hl_len = 2\<rparr>, sample_packet\<lparr>hp_src_port := Some 4000\<rparr>),
     (\<lparr>hl_ptr = ''ef'', hl_len = 2\<rparr>, sample_packet)]"

text \<open>
  Whatever calls MMT-DPI makes for a TCP session, the session of the reconstruction has a file name as soon as it exists, so the
  branch of the response handler that would go on with a freed session is never taken; and while a file is open, the length that
  is compared with the announced one and reported is the size of the file (modulo 32 bits).
\<close>

theorem http_session_consistent:
  assumes "http_run H es (None, w) = Inr (Some s, w')"
  shows "hs_file_name s \<noteq> None \<and> (case hs_file s of None \<Rightarrow> current_data_length s = 0
     | Some path \<Rightarrow> \<exists>c. w_files w' path = Some c \<and> current_data_length s = of_nat (length c))"
proof -
  have "http_inv (None, w)" by (simp add: http_inv_def)
  from http_run_inv [OF assms this] show ?thesis by (cases "hs_file s") (simp_all add: http_inv_def)
qed

theorem http_session_consistent_witness:
  "\<exists>s w'. http_run sample_http_env [Http_method sample_packet, Http_response \<lparr>hl_ptr = ''200 OK'', hl_len = 6\<rparr> sample_packet] (None, sample_world)
       = Inr (Some s, w') \<and> hs_file_name s \<noteq> None"
proof -
  have "case http_run sample_http_env [Http_method sample_packet, Http_response \<lparr>hl_ptr = ''200 OK'', hl_len = 6\<rparr> sample_packet] (None, sample_world)
      of Inr (Some s, w') \<Rightarrow> True | _ \<Rightarrow> False" by code_simp
  then obtain s w' where "http_run sample_http_env [Http_method sample_packet, Http_response \<lparr>hl_ptr = ''200 OK'', hl_len = 6\<rparr> sample_packet]
      (None, sample_world) = Inr (Some s, w')" by (auto split: sum.splits option.splits)
  with http_session_consistent [OF this] show ?thesis by blast
qed

text \<open>
  C27: the file of a response is its body. When the first packet of a response without transfer encoding is a header, the empty line and the beginning
  of the body, and a file is opened for it, then after any further pieces the file holds that beginning followed by the pieces that come from
  the server, in their order, and the length of the session is the number of these bytes.
\<close>

theorem http_file_is_body:
  assumes "http_run H (Http_response r pkt # map (\<lambda>(d, p). Http_data d p) ds) (Some s, w) = Inr (Some s2, w2)"
    and "hs_file_name s \<noteq> None" "hs_file s = None" "current_data_length s = 0" "hs_file s2 = Some path"
    and "hp_transfer_encoding pkt = None" "hp_payload pkt = Some (h @ CRLF @ CRLF @ body @ rest)" "hp_payload_len pkt = Some n"
    and "unat n = length (h @ CRLF @ CRLF @ body)" "no_empty_line (h @ CRLF)" "h \<noteq> []" "body \<noteq> []"
    and "list_all (\<lambda>d. hl_len (fst d) \<le> length (hl_ptr (fst d))) ds"
    and c: "c = body @ concat (map piece (filter (\<lambda>d. hp_src_port (snd d) = hp_src_port pkt) ds))"
  shows "w_files w2 path = Some c \<and> current_data_length s2 = of_nat (length c)"
proof -
  obtain st where st: "http_response_handle H r pkt (Some s) w = Inr st" "http_run H (map (\<lambda>(d, p). Http_data d p) ds) st = Inr (Some s2, w2)"
    using assms(1) by (auto simp: bindE_eq_Inr)
  have inv: "http_inv (Some s, w)" using assms(2-4) by (simp add: http_inv_def)
  have no_file: "hs_file s2 = None" if "st = (Some s1, w1)" "hs_file s1 = None" for s1 w1
  proof -
    have "http_run H (map (\<lambda>(d, p). Http_data d p) ds) (Some s1, w1) = Inr (Some s1, w1)"
      by (induction ds) (auto simp: http_data_handle_def that(2))
    then show ?thesis using st(2) that by simp
  qed
  then obtain s1 files p where s1: "current_data_length s1 = 0" "get_tranfer_encoding pkt = Inr (hs_transfer_encoding s1)" "hs_file s1 = Some p"
    "files p = Some []" "store_first_data H pkt s1 (w\<lparr>w_files := files\<rparr>) = Inr st"
    using http_response_result [OF st(1) inv] assms(3,5) by auto
  have te: "hs_transfer_encoding s1 = None" using s1(2) assms(6) by (simp add: get_tranfer_encoding_def)
  obtain port bytes where p: "hp_src_port pkt = Some port"
    "st = (Some (s1\<lparr>tcp_port_source := port, current_data_length := of_nat (length bytes)\<rparr>), w\<lparr>w_files := files(p \<mapsto> bytes)\<rparr>)"
    "case first_data H (s1\<lparr>tcp_port_source := port\<rparr>) (h @ CRLF @ CRLF @ body @ rest) (unat n) of Inr (Some b) \<Rightarrow> bytes = b | _ \<Rightarrow> bytes = []"
    using store_first_data_result [OF s1(5,3) _ s1(1)] s1(4) assms(7,8) by auto
  have "first_data H (s1\<lparr>tcp_port_source := port\<rparr>) (h @ CRLF @ CRLF @ body @ rest) (unat n) = Inr (Some body)"
    by (rule first_data_body [OF assms(10-12) _ assms(9)]) (simp add: te)
  then have b: "bytes = body" using p(3) by simp
  let ?s = "s1\<lparr>tcp_port_source := port, current_data_length := of_nat (length body)\<rparr>" and ?w = "w\<lparr>w_files := files(p \<mapsto> body)\<rparr>"
  have "from_server ?s = (\<lambda>d. hp_src_port (snd d) = hp_src_port pkt)" by (rule ext) (simp add: from_server_def p(1))
  then have "http_run H (map (\<lambda>(d, p). Http_data d p) ds) (Some ?s, ?w)
      = Inr (Some (?s\<lparr>current_data_length := of_nat (length c)\<rparr>), ?w\<lparr>w_files := (w_files ?w)(p \<mapsto> c)\<rparr>)"
    using s1(3) by (intro http_data_run [OF assms(13)]) (simp_all add: c)
  then have "s2 = ?s\<lparr>current_data_length := of_nat (length c)\<rparr>" "w2 = ?w\<lparr>w_files := (w_files ?w)(p \<mapsto> c)\<rparr>"
    using st(2) p(2) b by simp_all
  then show ?thesis using assms(5) s1(3) by simp
qed

theorem http_file_is_body_witness:
  "\<exists>s2 w2. http_run sample_http_env (Http_response \<lparr>hl_ptr = ''200 OK'', hl_len = 6\<rparr> sample_packet # map (\<lambda>(d, p). Http_data d p) sample_pieces)
       (Some sample_session, sample_world) = Inr (Some s2, w2)
     \<and> hs_file s2 = Some ''/d/mmt-7-=a.txt'' \<and> w_files w2 ''/d/mmt-7-=a.txt'' = Some ''abcdef'' \<and> current_data_length s2 = 6"
proof -
  have "case http_run sample_http_env (Http_response \<lparr>hl_ptr = ''200 OK'', hl_len = 6\<rparr> sample_packet # map (\<lambda>(d, p). Http_data d p) sample_pieces)
       (Some sample_session, sample_world) of Inr (Some s2, w2) \<Rightarrow> hs_file s2 = Some ''/d/mmt-7-=a.txt'' | _ \<Rightarrow> False" by code_simp
  then obtain s2 w2 where r: "http_run sample_http_env (Http_response \<lparr>hl_ptr = ''200 OK'', hl_len = 6\<rparr> sample_packet # map (\<lambda>(d, p). Http_data d p) sample_pieces)
       (Some sample_session, sample_world) = Inr (Some s2, w2)" "hs_file s2 = Some ''/d/mmt-7-=a.txt''" by (auto split: sum.splits option.splits)
  have l: "no_empty_line (''H'' @ CRLF)" by (auto simp: no_empty_line_def less_Suc_eq)
  have "w_files w2 ''/d/mmt-7-=a.txt'' = Some ''abcdef'' \<and> current_data_length s2 = of_nat (length ''abcdef'')"
    by (rule http_file_is_body [OF r(1) _ _ _ r(2), where h = "''H''" and body = "''ab''" and rest = "[]" and n = 7])
      (simp_all add: sample_session_def sample_packet_def sample_pieces_def piece_def l [simplified])
  then show ?thesis using r by auto
qed

text \<open>
  The name with its extension is built with the room that is left given as the total size, so a name of 127 or more characters gets no extension.
\<close>

lemma long_name_without_extension:
  assumes "127 \<le> valid" "valid < 255" "length name = 255"
  shows "STRING_BUILDER valid name (MAX_LENGTH_FULL_PATH_FILE_NAME - valid) [F_CHAR CHR ''.'', F_ARR ext] = Inr (blit name valid [NUL], valid)"
  using assms by (simp add: STRING_BUILDER_def MAX_LENGTH_FULL_PATH_FILE_NAME_def BUILDER_def EMPTY_def)

end
