(* ===== verification/Dpi.thy ===== *)
theory Dpi
  imports Micro_Flow Pcap_Dump Http_Reconstruct Dpi_Reports
begin

text \<open>
  The callbacks of \<^verbatim>\<open>src/src/modules/dpi/dpi.c\<close>: what happens when a session starts, when a packet arrives, when a statistic period is over
  and when a session ends. They compose the packet dump, the session reports, the micro flows, the reports without session and the
  reconstruction of HTTP. All modules are compiled in (and \<^verbatim>\<open>SIMPLE_REPORT\<close> is not defined).

  MMT-DPI is an input: the view of a session is what its functions return for it at the moment of the call.
  The user context that is attached to a session is kept in a map over the identifiers of the sessions.
\<close>

section \<open>State\<close>

record packet_session =
  session_id :: u64
  ps_stat :: "session_stat option"
  ps_http :: "http_session option"

text \<open>\<open>x_log\<close> is no member of the program: it records for which session a line was printed, with the differences in it, and which sessions were
  given to the micro flows.\<close>

datatype entry = Line counters | Micro ended_session

record dpi_state =
  x_ctx :: dpi_context
  x_micro :: "micro_context option"
  x_no_session :: "no_session_context option"
  x_pcap :: "pcap_dump_context option"
  x_sessions :: "u64 \<rightharpoonup> packet_session"
  x_fs :: fs
  x_bytes :: byte_files
  x_files :: files
  x_sent :: "delivery list"
  x_log :: "(u64 \<times> entry) list"

text \<open>What is outside: MMT-DPI, the channels, zlib, the disk and the content of the local arrays.\<close>

record 'z outside =
  v_dpi :: dpi_env
  v_chan :: chan_api
  v_http :: "'z http_env"
  v_dump :: dump_io
  v_stacks :: stacks
  v_arrs :: arrays

type_synonym session_view = "dpi_session \<times> ended_session"

definition sid :: "session_view \<Rightarrow> u64" where
  "sid v = d_session_id (fst v)"

text \<open>A packet: what the dump needs, and when it belongs to a session the view of the session and its attributes.\<close>

record dpi_packet =
  dp_raw :: ipacket
  dp_session :: "(dpi_session \<times> start_packet \<times> tcp_packet) option"

section \<open>Handlers\<close>

definition create_session :: "'z outside \<Rightarrow> u64 \<Rightarrow> start_packet \<Rightarrow> dpi_state \<Rightarrow> (packet_session \<times> dpi_state) cres" where
  "create_session V i pkt w =
     bindE (session_report_callback_on_starting_session (v_dpi V) (Some pkt)) (\<lambda>stat.
     let s = \<lparr>session_id = i, ps_stat = stat, ps_http = None\<rparr> in Inr (s, w\<lparr>x_sessions := (x_sessions w)(i \<mapsto> s)\<rparr>))"

definition starting_session_handler :: "'z outside \<Rightarrow> u64 \<Rightarrow> start_packet \<Rightarrow> dpi_state \<Rightarrow> dpi_state cres" where
  "starting_session_handler V i pkt w =
     (case x_sessions w i of Some _ \<Rightarrow> Inr w | None \<Rightarrow> bindE (create_session V i pkt w) (\<lambda>(_, w). Inr w))"

text \<open>The configuration of the session reports, \<^verbatim>\<open>context->probe_config->reports.session\<close>.\<close>

definition session_conf :: "dpi_state \<Rightarrow> session_report_conf cres" where
  "session_conf w = deref (session (reports (c_config (x_ctx w))))"

definition set_stat :: "u64 \<Rightarrow> packet_session \<Rightarrow> session_stat option \<Rightarrow> dpi_state \<Rightarrow> dpi_state" where
  "set_stat i s stat w = w\<lparr>x_sessions := (x_sessions w)(i \<mapsto> s\<lparr>ps_stat := stat\<rparr>)\<rparr>"

text \<open>A session report; \<^verbatim>\<open>session_report_do_report\<close> on the state. It prints a line unless the session is idle.\<close>

definition line_for :: "session_view \<Rightarrow> packet_session \<Rightarrow> (u64 \<times> entry) list" where
  "line_for v s = (case ps_stat s of None \<Rightarrow> [] | Some st \<Rightarrow> if is_idle (fst v) st then [] else [(sid v, Line (session_delta (fst v) st))])"

definition report_session :: "'z outside \<Rightarrow> session_view \<Rightarrow> packet_session \<Rightarrow> dpi_state \<Rightarrow> dpi_state cres" where
  "report_session V v s w =
     bindE (session_report_do_report (v_dpi V) (v_chan V) (v_stacks V) (fst v) (ps_stat s) (x_ctx w) (x_fs w)) (\<lambda>(stat, ctx, fs, ds).
       Inr (set_stat (sid v) s (Some stat) (w\<lparr>x_ctx := ctx, x_fs := fs, x_sent := x_sent w @ ds, x_log := x_log w @ line_for v s\<rparr>)))"

definition dump_received :: "'z outside \<Rightarrow> ipacket \<Rightarrow> dpi_state \<Rightarrow> dpi_state cres" where
  "dump_received V p w =
     (case x_pcap w of None \<Rightarrow> Inr w
      | Some c \<Rightarrow> bindE (pcap_dump_callback_on_receiving_packet (v_dump V) p c (x_bytes w)) (\<lambda>(c, bytes).
                    Inr (w\<lparr>x_pcap := Some c, x_bytes := bytes\<rparr>)))"

definition get_or_create_session :: "'z outside \<Rightarrow> u64 \<Rightarrow> start_packet \<Rightarrow> dpi_state \<Rightarrow> (packet_session \<times> dpi_state) cres" where
  "get_or_create_session V i pkt w = (case x_sessions w i of Some s \<Rightarrow> Inr (s, w) | None \<Rightarrow> create_session V i pkt w)"

definition session_receives :: "'z outside \<Rightarrow> dpi_session \<Rightarrow> tcp_packet \<Rightarrow> packet_session \<Rightarrow> dpi_state \<Rightarrow> dpi_state cres" where
  "session_receives V dpi tcp s w =
     bindE (session_conf w) (\<lambda>conf.
       if se_is_enable conf
       then bindE (session_report_callback_on_receiving_packet (v_dpi V) (x_ctx w) (Some dpi) tcp (ps_stat s)) (\<lambda>stat.
              Inr (set_stat (d_session_id dpi) s stat w))
       else Inr w)"

definition packet_handler :: "'z outside \<Rightarrow> dpi_packet \<Rightarrow> dpi_state \<Rightarrow> dpi_state cres" where
  "packet_handler V p w =
     bindE (dump_received V (dp_raw p) w) (\<lambda>w.
       case dp_session p of None \<Rightarrow> Inr w
       | Some (dpi, first, tcp) \<Rightarrow>
           bindE (get_or_create_session V (d_session_id dpi) first w) (\<lambda>(s, w). session_receives V dpi tcp s w))"

definition is_micro :: "dpi_state \<Rightarrow> session_view \<Rightarrow> bool" where
  "is_micro w v = (case x_micro w of None \<Rightarrow> False | Some mf \<Rightarrow> is_micro_flow mf (snd v))"

text \<open>The micro flows write to the output of the context.\<close>

definition add_to_micro :: "'z outside \<Rightarrow> session_view \<Rightarrow> dpi_state \<Rightarrow> dpi_state cres" where
  "add_to_micro V v w =
     (case x_micro w of None \<Rightarrow> Inr w
      | Some mf \<Rightarrow>
          bindE (micro_flow_report__update (v_chan V) (v_arrs V) (snd v) (mf\<lparr>m_output := c_output (x_ctx w)\<rparr>) (x_fs w)) (\<lambda>(mf, fs, ds).
            Inr (w\<lparr>x_micro := Some mf, x_ctx := (x_ctx w)\<lparr>c_output := m_output mf\<rparr>, x_fs := fs, x_sent := x_sent w @ ds,
                    x_log := x_log w @ [(sid v, Micro (snd v))]\<rparr>)))"

definition flush_http :: "'z outside \<Rightarrow> packet_session \<Rightarrow> dpi_state \<Rightarrow> dpi_state cres" where
  "flush_http V s w =
     bindE (http_reconstruct_flush_session_to_file_and_free (v_http V) (ps_http s)
              \<lparr>w_files = x_files w, w_output = c_output (x_ctx w), w_fs = x_fs w, w_sent = []\<rparr>) (\<lambda>h.
       Inr (w\<lparr>x_files := w_files h, x_ctx := (x_ctx w)\<lparr>c_output := w_output h\<rparr>, x_fs := w_fs h, x_sent := x_sent w @ w_sent h\<rparr>))"

definition ending_session_handler :: "'z outside \<Rightarrow> session_view \<Rightarrow> dpi_state \<Rightarrow> dpi_state cres" where
  "ending_session_handler V v w =
     bindE (deref (x_sessions w (sid v))) (\<lambda>s.
     bindE (flush_http V s w) (\<lambda>w.
     let s = s\<lparr>ps_http := None\<rparr>; micro = is_micro w v in
     bindE (if micro then add_to_micro V v w else Inr w) (\<lambda>w.
     bindE (session_conf w) (\<lambda>conf.
     bindE (if se_is_enable conf
            then bindE (if \<not> micro then report_session V v s w else Inr w) (\<lambda>w.
                 bindE (deref (x_sessions w (sid v))) (\<lambda>s.
                 bindE (session_report_callback_on_ending_session (ps_stat s)) (\<lambda>_. Inr w)))
            else Inr w) (\<lambda>w.
       Inr (w\<lparr>x_sessions := (x_sessions w)(sid v := None)\<rparr>))))))"

definition period_session_report :: "'z outside \<Rightarrow> session_view \<Rightarrow> dpi_state \<Rightarrow> dpi_state cres" where
  "period_session_report V v w =
     bindE (deref (x_sessions w (sid v))) (\<lambda>s.
       if ps_stat s = None \<or> is_micro w v then Inr w else report_session V v s w)"

text \<open>MMT-DPI calls \<^verbatim>\<open>_period_session_report\<close> for each of its sessions.\<close>

fun process_session_timer_handler :: "'z outside \<Rightarrow> session_view list \<Rightarrow> dpi_state \<Rightarrow> dpi_state cres" where
  "process_session_timer_handler V [] w = Inr w"
| "process_session_timer_handler V (v # vs) w = bindE (period_session_report V v w) (process_session_timer_handler V vs)"

text \<open>The protocols without sessions, which MMT-DPI knows: the statistics of IP and those of each protocol.\<close>

record protocols =
  pr_arp :: u32
  pr_reset :: "proto_stats \<Rightarrow> proto_stats"
  pr_path :: string
  pr_ip_stats :: "proto_stats list"
  pr_protos :: "(u32 \<times> proto_stats list) list"

text \<open>The number of the period has 64 bits here and 32 in the report.\<close>

definition dpi_callback_on_stat_period ::
  "'z outside \<Rightarrow> session_view list \<Rightarrow> protocols \<Rightarrow> dpi_state \<Rightarrow> (protocols \<times> dpi_state) cres" where
  "dpi_callback_on_stat_period V vs P w =
     (let n = stat_periods_index (x_ctx w) + 1; w = w\<lparr>x_ctx := (x_ctx w)\<lparr>stat_periods_index := n\<rparr>\<rparr> in
      bindE (no_session_report (pr_arp P) (pr_reset P) (v_chan V) (pr_path P) (v_arrs V) (x_no_session w) (ucast n)
               (pr_ip_stats P) (pr_protos P) (c_output (x_ctx w)) (x_fs w)) (\<lambda>(c, ip_stats, protos, out, fs, ds).
      let P = P\<lparr>pr_ip_stats := ip_stats, pr_protos := protos\<rparr>;
          w = w\<lparr>x_no_session := c, x_ctx := (x_ctx w)\<lparr>c_output := out\<rparr>, x_fs := fs, x_sent := x_sent w @ ds\<rparr> in
      bindE (session_conf w) (\<lambda>conf.
      bindE (if se_is_enable conf then process_session_timer_handler V vs w else Inr w) (\<lambda>w. Inr (P, w)))))"

text \<open>The end of the worker: the pending micro flows are reported, the outputs are closed. Freed contexts are \<open>None\<close>.\<close>

definition dpi_release :: "'z outside \<Rightarrow> fs_env \<Rightarrow> string \<Rightarrow> dpi_state \<Rightarrow> (fs \<times> delivery list) cres" where
  "dpi_release V F stack w =
     bindE (micro_flow_report_release (v_chan V) (v_arrs V)
              (map_option (\<lambda>mf. mf\<lparr>m_output := c_output (x_ctx w)\<rparr>) (x_micro w)) (x_fs w)) (\<lambda>(fs, ds).
     bindE (case behaviour_output (x_ctx w) of None \<Rightarrow> Inr fs | Some f \<Rightarrow> file_output_release F stack f fs) (\<lambda>fs.
       Inr (fs, x_sent w @ ds)))"

section \<open>Registration of the session reports\<close>

text \<open>The tables of attributes and handlers; their identifiers are constants of MMT-DPI.\<close>

record 'h session_tables =
  basic_attributes :: "(u32 \<times> u32) list"
  web_handlers :: "'h conditional_handler list"
  ssl_handlers :: "'h conditional_handler list"
  rtp_handlers :: "'h conditional_handler list"
  gtp_handlers :: "'h conditional_handler list"

definition register_protocols :: "'h dpi_api \<Rightarrow> (u32 \<times> u32) list \<Rightarrow> 'h dpi_call list \<times> bool" where
  "register_protocols A atts =
     (let calls = map (\<lambda>(p, a). Extraction p a) atts in (filter (register_ok A) calls, list_all (register_ok A) calls))"

definition session_handlers :: "'h session_tables \<Rightarrow> session_report_conf \<Rightarrow> 'h conditional_handler list list" where
  "session_handlers T conf =
     (if is_http conf then [web_handlers T] else []) @ (if is_ssl conf then [ssl_handlers T] else [])
     @ (if is_rtp conf then [rtp_handlers T] else []) @ (if is_gtp conf then [gtp_handlers T] else [])"

definition session_report_register :: "'h dpi_api \<Rightarrow> 'h session_tables \<Rightarrow> session_report_conf \<Rightarrow> 'h dpi_call list \<times> bool" where
  "session_report_register A T conf =
     (if \<not> se_is_enable conf then ([], False)
      else (fst (register_protocols A (basic_attributes T))
              @ concat (map (\<lambda>hs. fst (dpi_register_conditional_handler A hs)) (session_handlers T conf)), True))"

definition session_report_unregister :: "'h dpi_api \<Rightarrow> 'h session_tables \<Rightarrow> session_report_conf \<Rightarrow> 'h dpi_call list \<times> bool" where
  "session_report_unregister A T conf =
     (if \<not> se_is_enable conf then ([], False)
      else (concat (map (\<lambda>hs. fst (dpi_unregister_conditional_handler A hs)) (session_handlers T conf)), True))"

section \<open>Histories\<close>

text \<open>The calls MMT-DPI makes, one after the other, for any number of sessions.\<close>

datatype event = Start u64 start_packet | Packet dpi_packet | Period session_view | Ending session_view

fun step :: "'z outside \<Rightarrow> event \<Rightarrow> dpi_state \<Rightarrow> dpi_state cres" where
  "step V (Start i pkt) w = starting_session_handler V i pkt w"
| "step V (Packet p) w = packet_handler V p w"
| "step V (Period v) w = period_session_report V v w"
| "step V (Ending v) w = ending_session_handler V v w"

fun run :: "'z outside \<Rightarrow> event list \<Rightarrow> dpi_state \<Rightarrow> dpi_state cres" where
  "run V [] w = Inr w"
| "run V (e # es) w = bindE (step V e w) (run V es)"

text \<open>What a call adds to the log, as a function of the state before it, and a run that collects this.\<close>

definition line_of :: "dpi_state \<Rightarrow> session_view \<Rightarrow> (u64 \<times> entry) list" where
  "line_of w v = (case x_sessions w (sid v) of None \<Rightarrow> [] | Some s \<Rightarrow> line_for v s)"

fun entries :: "event \<Rightarrow> dpi_state \<Rightarrow> (u64 \<times> entry) list" where
  "entries (Start i pkt) w = []"
| "entries (Packet p) w = []"
| "entries (Period v) w = (if is_micro w v then [] else line_of w v)"
| "entries (Ending v) w = (if is_micro w v then [(sid v, Micro (snd v))] else line_of w v)"

fun steps :: "'z outside \<Rightarrow> event list \<Rightarrow> dpi_state \<Rightarrow> (dpi_state \<times> (u64 \<times> entry) list) cres" where
  "steps V [] w = Inr (w, [])"
| "steps V (e # es) w = bindE (step V e w) (\<lambda>w'. bindE (steps V es w') (\<lambda>(w', log). Inr (w', entries e w @ log)))"

lemma steps_run: "run V es w = Inr w' \<Longrightarrow> \<exists>log. steps V es w = Inr (w', log)"
  by (induction es arbitrary: w) (auto simp: bindE_eq_Inr)

definition of_session :: "u64 \<Rightarrow> (u64 \<times> entry) list \<Rightarrow> entry list" where
  "of_session i log = map snd (filter (\<lambda>(j, _). j = i) log)"

fun ends :: "u64 \<Rightarrow> event \<Rightarrow> bool" where
  "ends i (Ending v) \<longleftrightarrow> sid v = i"
| "ends i _ \<longleftrightarrow> False"

fun view_of :: "u64 \<Rightarrow> event \<Rightarrow> session_view list" where
  "view_of i (Period v) = (if sid v = i then [v] else [])"
| "view_of i (Ending v) = (if sid v = i then [v] else [])"
| "view_of i _ = []"

definition views :: "u64 \<Rightarrow> event list \<Rightarrow> session_view list" where
  "views i es = concat (map (view_of i) es)"

lemma of_session_simps [simp]:
  "of_session i [] = []" "of_session i (a @ b) = of_session i a @ of_session i b"
  "of_session i ((j, x) # log) = (if j = i then x # of_session i log else of_session i log)"
  by (simp_all add: of_session_def)

lemma views_simps [simp]: "views i [] = []" "views i (e # es) = view_of i e @ views i es" "views i (a @ b) = views i a @ views i b"
  by (simp_all add: views_def)

lemma bindE_right_Inr: "bindE r Inr = r"
  by (cases r) simp_all

lemma steps_append:
  "steps V (a @ b) w = bindE (steps V a w) (\<lambda>(w, log). bindE (steps V b w) (\<lambda>(w, log'). Inr (w, log @ log')))"
  by (induction a arbitrary: w) (simp_all add: bindE_assoc split_def bindE_right_Inr)

text \<open>A statistic period is one call per session.\<close>

lemma timer_handler_run: "process_session_timer_handler V vs = run V (map Period vs)"
  by (induction vs) auto

section \<open>What the calls keep\<close>

text \<open>The thresholds for micro flows and the configuration never change.\<close>

definition settings :: "dpi_state \<Rightarrow> micro_flow_conf option \<times> probe_conf" where
  "settings w = (map_option m_config (x_micro w), c_config (x_ctx w))"

lemma is_micro_settings: "settings w' = settings w \<Longrightarrow> is_micro w' v = is_micro w v"
  by (auto simp: is_micro_def settings_def is_micro_flow_def split: option.splits)

lemma session_conf_settings: "settings w' = settings w \<Longrightarrow> session_conf w' = session_conf w"
  by (simp add: session_conf_def settings_def)

lemma write_behaviour_config:
  "write_behaviour st dpi proto_id s ctx fs = Inr (ctx', fs') \<Longrightarrow> c_config ctx' = c_config ctx"
  by (auto simp: write_behaviour_def bindE_eq_Inr split: option.splits)

lemma print_report_config:
  assumes "print_ip_session_report E A st dpi s ctx fs = Inr (s', ctx', fs', ds)"
  shows "c_config ctx' = c_config ctx"
proof (cases "is_idle dpi s")
  case False
  then obtain ctx1 fs1 p s1 out where "write_behaviour st dpi p s1 (ctx\<lparr>c_output := out\<rparr>) fs1 = Inr (ctx', fs')"
    using assms unfolding print_ip_session_report_def Let_def
    by (simp only: if_False) (clarsimp simp only: bindE_eq_Inr split: prod.splits, auto)
  then show ?thesis by (auto dest: write_behaviour_config)
qed (use assms in \<open>simp add: print_ip_session_report_def\<close>)

lemma report_session_result:
  assumes "report_session V v s w = Inr w'"
  obtains st st' where "ps_stat s = Some st" "x_sessions w' = (x_sessions w)(sid v \<mapsto> s\<lparr>ps_stat := Some st'\<rparr>)"
    "if is_idle (fst v) st then st' = st else stat_counters st' = dpi_counters (fst v)" "settings w' = settings w"
proof -
  from assms obtain st st' ctx fs ds where *: "ps_stat s = Some st"
    "print_ip_session_report (v_dpi V) (v_chan V) (v_stacks V) (fst v) st (x_ctx w) (x_fs w) = Inr (st', ctx, fs, ds)"
    "w' = set_stat (sid v) s (Some st') (w\<lparr>x_ctx := ctx, x_fs := fs, x_sent := x_sent w @ ds, x_log := x_log w @ line_for v s\<rparr>)"
    by (auto simp: report_session_def session_report_do_report_def deref_def bindE_eq_Inr split: option.splits)
  show thesis
    by (rule that [OF *(1) _ report_result [OF *(2)]]) (use * print_report_config [OF *(2)] in \<open>simp_all add: set_stat_def settings_def\<close>)
qed

lemma dump_received_keeps:
  "dump_received V p w = Inr w' \<Longrightarrow> x_sessions w' = x_sessions w \<and> settings w' = settings w"
  by (auto simp: dump_received_def settings_def bindE_eq_Inr split: option.splits)

lemma flush_http_keeps:
  "flush_http V s w = Inr w' \<Longrightarrow> x_sessions w' = x_sessions w \<and> settings w' = settings w"
  by (auto simp: flush_http_def settings_def bindE_eq_Inr)

lemma micro_update_config:
  "micro_flow_report__update A arrs e mf fs = Inr (mf', fs', ds) \<Longrightarrow> m_config mf' = m_config mf"
  by (auto simp: micro_flow_report__update_def Let_def bindE_eq_Inr split: if_splits)

lemma add_to_micro_keeps:
  "add_to_micro V v w = Inr w' \<Longrightarrow> x_sessions w' = x_sessions w \<and> settings w' = settings w"
  by (auto simp: add_to_micro_def settings_def bindE_eq_Inr split: option.splits dest: micro_update_config)

lemma create_session_result:
  assumes "create_session V i pkt w = Inr (s, w')"
  shows "x_sessions w' = (x_sessions w)(i \<mapsto> s) \<and> settings w' = settings w
     \<and> session_report_callback_on_starting_session (v_dpi V) (Some pkt) = Inr (ps_stat s)"
  using assms by (auto simp: create_session_def settings_def Let_def bindE_eq_Inr simp del: fun_upd_apply)

text \<open>The counters of a session that the reports have printed so far.\<close>

definition zero_counters :: counters where
  "zero_counters = stat_counters zero_stat"

definition reported :: "dpi_state \<Rightarrow> u64 \<Rightarrow> counters" where
  "reported w i = (case Option.bind (x_sessions w i) ps_stat of None \<Rightarrow> zero_counters | Some st \<Rightarrow> stat_counters st)"

lemma starting_zero:
  "session_report_callback_on_starting_session E pkt = Inr (Some st) \<Longrightarrow> stat_counters st = zero_counters"
  by (auto simp: session_report_callback_on_starting_session_def zero_counters_def stat_counters_def Let_def bindE_eq_Inr
      split: option.splits if_splits)

lemma calculate_rtt_counters: "calculate_rtt base d pkt s = Inr s' \<Longrightarrow> stat_counters s' = stat_counters s"
  by (auto simp: calculate_rtt_def stat_counters_def bindE_eq_Inr Let_def split: prod.splits option.splits if_splits)

lemma note_times_counters: "stat_counters (note_times pkt s) = stat_counters s"
  by (simp add: note_times_def stat_counters_def Let_def split: option.splits)

lemma receiving_counters:
  assumes "session_report_callback_on_receiving_packet E ctx dpi pkt stat = Inr stat'"
  shows "map_option stat_counters stat' = map_option stat_counters stat"
proof -
  have r: "stat_counters (s\<lparr>retransmission := n\<rparr>) = stat_counters s" for s n
    by (simp add: stat_counters_def)
  show ?thesis
    using assms
    by (auto simp: session_report_callback_on_receiving_packet_def deref_def Let_def bindE_eq_Inr note_times_counters r
        split: option.splits dest!: calculate_rtt_counters)
qed

lemma reported_cong: "x_sessions w' i = x_sessions w i \<Longrightarrow> reported w' i = reported w i"
  by (simp add: reported_def)

lemma create_session_reported:
  assumes "create_session V j pkt w = Inr (s, w')" "x_sessions w j = None"
  shows "reported w' i = reported w i"
proof (cases "i = j")
  case True
  have c: "x_sessions w' j = Some s" "session_report_callback_on_starting_session (v_dpi V) (Some pkt) = Inr (ps_stat s)"
    using create_session_result [OF assms(1)] by simp_all
  then show ?thesis using assms(2) True starting_zero by (cases "ps_stat s") (auto simp: reported_def)
qed (use create_session_result [OF assms(1)] in \<open>simp add: reported_def\<close>)

lemma starting_keeps:
  assumes "starting_session_handler V j pkt w = Inr w'"
  shows "reported w' i = reported w i \<and> settings w' = settings w"
  using assms
  by (auto simp: starting_session_handler_def bindE_eq_Inr split: option.splits dest: create_session_reported create_session_result)

lemma set_stat_reported:
  assumes "x_sessions w j = Some s" "map_option stat_counters stat = map_option stat_counters (ps_stat s)"
  shows "reported (set_stat j s stat w) i = reported w i"
  using assms by (cases stat; cases "ps_stat s") (auto simp: set_stat_def reported_def)

lemma get_or_create_keeps:
  assumes "get_or_create_session V j pkt w = Inr (s, w')"
  shows "x_sessions w' j = Some s \<and> reported w' i = reported w i \<and> settings w' = settings w"
proof (cases "x_sessions w j")
  case None
  then have c: "create_session V j pkt w = Inr (s, w')" using assms by (simp add: get_or_create_session_def)
  show ?thesis using create_session_result [OF c] create_session_reported [OF c None] by simp
qed (use assms in \<open>simp add: get_or_create_session_def\<close>)

lemma session_receives_keeps:
  assumes "session_receives V dpi tcp s w = Inr w'" "x_sessions w (d_session_id dpi) = Some s"
  shows "reported w' i = reported w i \<and> settings w' = settings w"
proof -
  consider "w' = w" | stat where
    "session_report_callback_on_receiving_packet (v_dpi V) (x_ctx w) (Some dpi) tcp (ps_stat s) = Inr stat" "w' = set_stat (d_session_id dpi) s stat w"
    using assms(1) by (auto simp: session_receives_def bindE_eq_Inr split: if_splits)
  then show ?thesis
  proof cases
    case 2
    then show ?thesis
      using set_stat_reported [OF assms(2) receiving_counters [OF 2(1)]] by (simp add: set_stat_def settings_def)
  qed simp
qed

lemma packet_keeps:
  assumes "packet_handler V p w = Inr w'"
  shows "reported w' i = reported w i \<and> settings w' = settings w"
proof -
  from assms obtain w1 where d: "dump_received V (dp_raw p) w = Inr w1" by (auto simp: packet_handler_def bindE_eq_Inr)
  have k: "reported w1 i = reported w i" "settings w1 = settings w" using dump_received_keeps [OF d] by (simp_all add: reported_def)
  show ?thesis
  proof (cases "dp_session p")
    case (Some q)
    then obtain dpi first tcp s w2 where *: "get_or_create_session V (d_session_id dpi) first w1 = Inr (s, w2)"
      "session_receives V dpi tcp s w2 = Inr w'"
      using assms d by (cases q) (auto simp: packet_handler_def bindE_eq_Inr)
    show ?thesis using get_or_create_keeps [OF *(1), of i] session_receives_keeps [OF *(2), of i] k by simp
  qed (use assms d k in \<open>simp add: packet_handler_def\<close>)
qed

lemma line_of_bind:
  "line_of w v = (case Option.bind (x_sessions w (sid v)) ps_stat of None \<Rightarrow> []
     | Some st \<Rightarrow> if is_idle (fst v) st then [] else [(sid v, Line (session_delta (fst v) st))])"
  by (simp add: line_of_def line_for_def split: option.splits)

lemma line_of_result:
  assumes "report_session V v s w = Inr w'" "Option.bind (x_sessions w (sid v)) ps_stat = ps_stat s"
  shows "\<exists>ks. of_session (sid v) (line_of w v) = map Line ks \<and> (\<forall>f. additive f \<longrightarrow> sum_of f ks = f (reported w' (sid v)) - f (reported w (sid v)))
     \<and> (reported w' (sid v) = reported w (sid v) \<or> reported w' (sid v) = dpi_counters (fst v))
     \<and> flow_total (k_packets (reported w' (sid v))) = flow_total (k_packets (dpi_counters (fst v)))"
proof -
  obtain st st' where *: "ps_stat s = Some st" "x_sessions w' = (x_sessions w)(sid v \<mapsto> s\<lparr>ps_stat := Some st'\<rparr>)"
    "if is_idle (fst v) st then st' = st else stat_counters st' = dpi_counters (fst v)"
    by (rule report_session_result [OF assms(1)])
  have r: "reported w (sid v) = stat_counters st" "reported w' (sid v) = stat_counters st'"
    using * assms(2) by (simp_all add: reported_def)
  show ?thesis
  proof (cases "is_idle (fst v) st")
    case True
    then have "line_of w v = []" "flow_total (k_packets (stat_counters st)) = flow_total (k_packets (dpi_counters (fst v)))"
      using *(1) assms(2) by (simp_all add: line_of_bind is_idle_def stat_counters_def)
    then show ?thesis using True * r by (auto simp: sum_of_def intro: exI [of _ "[]"])
  next
    case False
    then have "line_of w v = [(sid v, Line (session_delta (fst v) st))]" using * assms(2) by (simp add: line_of_bind)
    then show ?thesis using False * r by (auto simp: sum_of_def additive_def intro!: exI [of _ "[session_delta (fst v) st]"])
  qed
qed

lemma line_of_other: "i \<noteq> sid v \<Longrightarrow> of_session i (line_of w v) = []"
  by (simp add: line_of_bind split: option.splits)

lemma report_session_other:
  assumes "report_session V v s w = Inr w'" "i \<noteq> sid v"
  shows "reported w' i = reported w i"
  by (rule report_session_result [OF assms(1)]) (use assms(2) in \<open>simp add: reported_def\<close>)

text \<open>A call other than the end of session \<open>i\<close>: its lines account for what is newly reported.\<close>

definition accounts :: "u64 \<Rightarrow> session_view list \<Rightarrow> entry list \<Rightarrow> dpi_state \<Rightarrow> dpi_state \<Rightarrow> bool" where
  "accounts i vs log w w' \<longleftrightarrow>
     (\<exists>ks. log = map Line ks \<and> (\<forall>f. additive f \<longrightarrow> sum_of f ks = f (reported w' i) - f (reported w i)))
     \<and> (reported w' i = reported w i \<or> (\<exists>v \<in> set vs. reported w' i = dpi_counters (fst v)))"

lemma accounts_none: "reported w' i = reported w i \<Longrightarrow> accounts i vs [] w w'"
  by (auto simp: accounts_def sum_of_def intro: exI [of _ "[]"])

lemma accounts_trans:
  assumes "accounts i vs log w w1" "accounts i vs' log' w1 w2"
  shows "accounts i (vs @ vs') (log @ log') w w2"
proof -
  obtain ks where k: "log = map Line ks" "\<And>f. additive f \<Longrightarrow> sum_of f ks = f (reported w1 i) - f (reported w i)"
    using assms(1) by (auto simp: accounts_def)
  obtain ks' where k': "log' = map Line ks'" "\<And>f. additive f \<Longrightarrow> sum_of f ks' = f (reported w2 i) - f (reported w1 i)"
    using assms(2) by (auto simp: accounts_def)
  have "log @ log' = map Line (ks @ ks')" "\<And>f. additive f \<Longrightarrow> sum_of f (ks @ ks') = f (reported w2 i) - f (reported w i)"
    using k k' by (simp_all add: sum_of_def)
  moreover have "reported w2 i = reported w i \<or> (\<exists>v \<in> set (vs @ vs'). reported w2 i = dpi_counters (fst v))"
    using assms unfolding accounts_def set_append by (metis UnI1 UnI2)
  ultimately show ?thesis unfolding accounts_def by blast
qed

lemma period_accounts:
  assumes "period_session_report V v w = Inr w'"
  shows "accounts i (view_of i (Period v)) (of_session i (entries (Period v) w)) w w' \<and> settings w' = settings w"
proof -
  obtain s where s: "x_sessions w (sid v) = Some s" using assms by (auto simp: period_session_report_def deref_def split: option.splits)
  show ?thesis
  proof (cases "ps_stat s = None \<or> is_micro w v")
    case True
    then have "w' = w" "entries (Period v) w = []" using assms s by (auto simp: period_session_report_def deref_def line_of_bind)
    then show ?thesis by (simp add: accounts_none)
  next
    case False
    then have r: "report_session V v s w = Inr w'" using assms s by (auto simp: period_session_report_def deref_def)
    have e: "entries (Period v) w = line_of w v" using False by simp
    have a: "accounts i (view_of i (Period v)) (of_session i (line_of w v)) w w'"
    proof (cases "i = sid v")
      case True
      have "Option.bind (x_sessions w (sid v)) ps_stat = ps_stat s" using s by simp
      from line_of_result [OF r this] show ?thesis unfolding accounts_def True by auto
    next
      case False
      then show ?thesis using report_session_other [OF r False] by (simp add: line_of_other accounts_none)
    qed
    have "settings w' = settings w" by (rule report_session_result [OF r])
    then show ?thesis using a e by simp
  qed
qed

text \<open>The end of a session.\<close>

lemma ending_result:
  assumes "ending_session_handler V v w = Inr w'" "session_conf w = Inr conf" "se_is_enable conf"
  obtains s w1 w2 where "x_sessions w (sid v) = Some s" "x_sessions w1 = x_sessions w" "settings w1 = settings w"
    "if is_micro w v then w2 = w1 else report_session V v (s\<lparr>ps_http := None\<rparr>) w1 = Inr w2"
    "w' = w2\<lparr>x_sessions := (x_sessions w2)(sid v := None)\<rparr>"
proof -
  obtain s w1 where s: "x_sessions w (sid v) = Some s" and f: "flush_http V s w = Inr w1"
    using assms(1) by (auto simp: ending_session_handler_def deref_def bindE_eq_Inr split: option.splits)
  note f' = flush_http_keeps [OF f]
  have m: "is_micro w1 v = is_micro w v" using f' is_micro_settings by blast
  obtain w2 where a: "(if is_micro w v then add_to_micro V v w1 else Inr w1) = Inr w2"
    using assms(1) s f m by (auto simp: ending_session_handler_def deref_def bindE_eq_Inr Let_def)
  have a': "x_sessions w2 = x_sessions w \<and> settings w2 = settings w"
    using a f' by (auto split: if_splits dest: add_to_micro_keeps)
  have c: "session_conf w2 = Inr conf" using a' assms(2) session_conf_settings by metis
  obtain w3 where w3: "(if \<not> is_micro w v then report_session V v (s\<lparr>ps_http := None\<rparr>) w2 else Inr w2) = Inr w3"
    "w' = w3\<lparr>x_sessions := (x_sessions w3)(sid v := None)\<rparr>"
    using assms(1,3) s f m a c by (auto simp: ending_session_handler_def deref_def bindE_eq_Inr Let_def split: if_splits)
  show thesis
    by (rule that [OF s, of w2 w3]) (use a' w3 in \<open>auto split: if_splits\<close>)
qed

lemma ending_settings:
  assumes "ending_session_handler V v w = Inr w'" "session_conf w = Inr conf" "se_is_enable conf"
  shows "settings w' = settings w"
proof -
  obtain s w1 w2 where *: "settings w1 = settings w" "w' = w2\<lparr>x_sessions := (x_sessions w2)(sid v := None)\<rparr>"
    "if is_micro w v then w2 = w1 else report_session V v (s\<lparr>ps_http := None\<rparr>) w1 = Inr w2"
    by (rule ending_result [OF assms])
  have "settings w2 = settings w1" using *(3) by (auto elim: report_session_result split: if_splits)
  then show ?thesis using * by (simp add: settings_def)
qed

lemma ending_other:
  assumes "ending_session_handler V v w = Inr w'" "session_conf w = Inr conf" "se_is_enable conf" "i \<noteq> sid v"
  shows "reported w' i = reported w i"
proof -
  obtain s w1 w2 where *: "x_sessions w1 = x_sessions w" "w' = w2\<lparr>x_sessions := (x_sessions w2)(sid v := None)\<rparr>"
    "if is_micro w v then w2 = w1 else report_session V v (s\<lparr>ps_http := None\<rparr>) w1 = Inr w2"
    by (rule ending_result [OF assms(1-3)])
  have "reported w2 i = reported w1 i"
    using *(3) report_session_other [OF _ assms(4)] by (cases "is_micro w v") (auto simp del: split_paired_All)
  then show ?thesis using * assms(4) by (simp add: reported_def)
qed

lemma step_accounts:
  assumes "step V e w = Inr w'" "\<not> ends i e" "session_conf w = Inr conf" "se_is_enable conf"
  shows "accounts i (view_of i e) (of_session i (entries e w)) w w' \<and> settings w' = settings w"
proof (cases e)
  case (Period v)
  then have "period_session_report V v w = Inr w'" using assms(1) by simp
  from period_accounts [OF this, of i] show ?thesis using Period by simp
next
  case (Ending v)
  then have e: "ending_session_handler V v w = Inr w'" "i \<noteq> sid v" using assms by auto
  then have "of_session i (entries e w) = []" using Ending by (simp add: line_of_other)
  then show ?thesis
    using ending_settings [OF e(1) assms(3,4)] ending_other [OF e(1) assms(3,4) e(2)] by (simp add: accounts_none)
next
  case (Start j pkt)
  then show ?thesis using starting_keeps [of V j pkt w w' i] assms(1) by (simp add: accounts_none)
next
  case (Packet p)
  then show ?thesis using packet_keeps [of V p w w' i] assms(1) by (simp add: accounts_none)
qed

lemma steps_accounts:
  assumes "steps V es w = Inr (w', log)" "\<forall>e \<in> set es. \<not> ends i e" "session_conf w = Inr conf" "se_is_enable conf"
  shows "accounts i (views i es) (of_session i log) w w' \<and> settings w' = settings w"
  using assms(1-3)
proof (induction es arbitrary: w log)
  case Nil
  then show ?case by (simp add: accounts_none)
next
  case (Cons e es)
  obtain w1 log' where 1: "step V e w = Inr w1" and 2: "steps V es w1 = Inr (w', log')" and l: "log = entries e w @ log'"
    using Cons.prems(1) by (auto simp: bindE_eq_Inr)
  have s: "accounts i (view_of i e) (of_session i (entries e w)) w w1" "settings w1 = settings w"
    using step_accounts [OF 1 _ Cons.prems(3) assms(4), of i] Cons.prems(2) by simp_all
  have "session_conf w1 = Inr conf" using Cons.prems(3) session_conf_settings [OF s(2)] by simp
  then show ?case using Cons.IH [OF 2] Cons.prems(2) s accounts_trans [OF s(1)] l by simp
qed

lemma steps_micro:
  assumes "steps V es w = Inr (w', log)" "\<forall>e \<in> set es. \<not> ends i e" "session_conf w = Inr conf" "se_is_enable conf"
    and "\<forall>v \<in> set (views i es). is_micro w v"
  shows "of_session i log = []"
  using assms(1-3,5)
proof (induction es arbitrary: w log)
  case (Cons e es)
  obtain w1 log' where 1: "step V e w = Inr w1" and 2: "steps V es w1 = Inr (w', log')" and l: "log = entries e w @ log'"
    using Cons.prems(1) by (auto simp: bindE_eq_Inr)
  have s: "settings w1 = settings w"
    using step_accounts [OF 1 _ Cons.prems(3) assms(4), of i] Cons.prems(2) by simp
  have "of_session i (entries e w) = []"
  proof (cases e)
    case (Period v)
    then show ?thesis using Cons.prems(4) line_of_other [of i v w] by (cases "sid v = i") simp_all
  next
    case (Ending v)
    then show ?thesis using Cons.prems(2) line_of_other [of i v w] by auto
  qed simp_all
  moreover have "session_conf w1 = Inr conf" "\<forall>v \<in> set (views i es). is_micro w1 v"
    using Cons.prems(3,4) session_conf_settings [OF s] is_micro_settings [OF s] by simp_all
  ultimately show ?case using Cons.IH [OF 2] Cons.prems(2) l by simp
qed simp

text \<open>Without statistics (the session is neither over IPv4 nor over IPv6) the end of a session that is not a micro flow dereferences NULL.\<close>

lemma ending_without_stat:
  assumes "x_sessions w (sid v) = Some s" "ps_stat s = None" "ps_http s = None" "\<not> is_micro w v" "session_conf w = Inr conf" "se_is_enable conf"
  shows "ending_session_handler V v w = Inl OutOfBounds"
  using assms
  by (simp add: ending_session_handler_def deref_def flush_http_def http_reconstruct_flush_session_to_file_and_free_def report_session_def
      session_report_do_report_def Let_def is_micro_def session_conf_def split: option.splits)

text \<open>A second request on an HTTP connection prints a line whatever the size of the session: the thresholds of the micro flows are not an argument.\<close>

lemma web_request_reports:
  assumes "get_packet_session_web fresh stat = Inr (Some (s, web))" "has_string (w_hostname web)" "\<not> is_idle dpi s"
    and "web_method_handle E A st dpi ts data fresh stat ctx fs = Inr (stat', ctx', fs', ds)"
  shows "\<exists>s'. stat' = Some s' \<and> stat_counters s' = dpi_counters dpi"
proof -
  obtain s1 ctx1 fs1 ds1 where r: "print_ip_session_report E A st dpi s ctx fs = Inr (s1, ctx1, fs1, ds1)"
    using assms(1,2,4) by (auto simp: web_method_handle_def session_report_do_report_def deref_def bindE_eq_Inr)
  have "stat_counters s1 = dpi_counters dpi" using report_result [OF r] assms(3) by simp
  then show ?thesis
    using assms(1,2,4) r
    by (auto simp: web_method_handle_def session_report_do_report_def deref_def bindE_eq_Inr Let_def stat_counters_def split: apps.splits)
qed

text \<open>The log is what \<open>entries\<close> says.\<close>

lemma report_session_log: "report_session V v s w = Inr w' \<Longrightarrow> x_log w' = x_log w @ line_for v s"
  by (auto simp: report_session_def set_stat_def bindE_eq_Inr)

lemma add_to_micro_log:
  "add_to_micro V v w = Inr w' \<Longrightarrow> is_micro w v \<Longrightarrow> x_log w' = x_log w @ [(sid v, Micro (snd v))]"
  by (auto simp: add_to_micro_def is_micro_def bindE_eq_Inr split: option.splits)

lemma ending_log:
  assumes "ending_session_handler V v w = Inr w'" "session_conf w = Inr conf" "se_is_enable conf"
  shows "x_log w' = x_log w @ entries (Ending v) w"
proof -
  obtain s w1 where s: "x_sessions w (sid v) = Some s" and f: "flush_http V s w = Inr w1"
    using assms(1) by (auto simp: ending_session_handler_def deref_def bindE_eq_Inr split: option.splits)
  note f' = flush_http_keeps [OF f]
  have l1: "x_log w1 = x_log w" using f by (auto simp: flush_http_def bindE_eq_Inr)
  have m: "is_micro w1 v = is_micro w v" using f' is_micro_settings by blast
  obtain w2 where a: "(if is_micro w v then add_to_micro V v w1 else Inr w1) = Inr w2"
    using assms(1) s f m by (auto simp: ending_session_handler_def deref_def bindE_eq_Inr Let_def)
  have "settings w2 = settings w" using a f' by (auto split: if_splits dest: add_to_micro_keeps)
  then have c: "session_conf w2 = Inr conf" using assms(2) session_conf_settings by metis
  obtain w3 where w3: "(if \<not> is_micro w v then report_session V v (s\<lparr>ps_http := None\<rparr>) w2 else Inr w2) = Inr w3"
    "w' = w3\<lparr>x_sessions := (x_sessions w3)(sid v := None)\<rparr>"
    using assms(1,3) s f m a c by (auto simp: ending_session_handler_def deref_def bindE_eq_Inr Let_def split: if_splits)
  show ?thesis
  proof (cases "is_micro w v")
    case True
    then show ?thesis using a w3 l1 m add_to_micro_log [of V v w1 w2] by simp
  next
    case False
    then have "x_log w3 = x_log w @ line_for v (s\<lparr>ps_http := None\<rparr>)" using a w3(1) l1 report_session_log [of V v "s\<lparr>ps_http := None\<rparr>" w2 w3] by simp
    then show ?thesis using False w3(2) s by (simp add: line_of_def line_for_def)
  qed
qed

lemma period_log: "period_session_report V v w = Inr w' \<Longrightarrow> x_log w' = x_log w @ entries (Period v) w"
  by (auto simp: period_session_report_def deref_def line_of_def line_for_def bindE_eq_Inr split: option.splits if_splits dest!: report_session_log)

lemma packet_log:
  assumes "packet_handler V p w = Inr w'"
  shows "x_log w' = x_log w"
proof -
  have "dump_received V q w = Inr w1 \<Longrightarrow> x_log w1 = x_log w" for q w w1
    by (auto simp: dump_received_def bindE_eq_Inr split: option.splits)
  moreover have "get_or_create_session V i q w = Inr (s, w1) \<Longrightarrow> x_log w1 = x_log w" for i q w s w1
    by (auto simp: get_or_create_session_def create_session_def Let_def bindE_eq_Inr split: option.splits)
  moreover have "session_receives V d t s w = Inr w1 \<Longrightarrow> x_log w1 = x_log w" for d t s w w1
    by (auto simp: session_receives_def set_stat_def bindE_eq_Inr split: if_splits)
  ultimately show ?thesis using assms by (fastforce simp: packet_handler_def bindE_eq_Inr split: option.splits)
qed

lemma starting_log: "starting_session_handler V i pkt w = Inr w' \<Longrightarrow> x_log w' = x_log w"
  by (auto simp: starting_session_handler_def create_session_def Let_def bindE_eq_Inr split: option.splits)

lemma steps_log:
  assumes "steps V es w = Inr (w', log)" "session_conf w = Inr conf" "se_is_enable conf"
  shows "x_log w' = x_log w @ log"
  using assms(1,2)
proof (induction es arbitrary: w log)
  case (Cons e es)
  obtain w1 log' where 1: "step V e w = Inr w1" and 2: "steps V es w1 = Inr (w', log')" and l: "log = entries e w @ log'"
    using Cons.prems(1) by (auto simp: bindE_eq_Inr)
  have "\<exists>i. \<not> ends i e"
  proof (cases e)
    case (Ending v)
    then show ?thesis by (auto intro: exI [of _ "sid v + 1"])
  qed simp_all
  then obtain i where "\<not> ends i e" by blast
  then have "settings w1 = settings w" using step_accounts [OF 1 _ Cons.prems(2) assms(3)] by blast
  then have c: "session_conf w1 = Inr conf" using Cons.prems(2) session_conf_settings by metis
  have "x_log w1 = x_log w @ entries e w"
  proof (cases e)
    case (Ending v)
    then have "ending_session_handler V v w = Inr w1" using 1 by simp
    from ending_log [OF this Cons.prems(2) assms(3)] show ?thesis using Ending by (simp only:)
  next
    case (Period v)
    then have "period_session_report V v w = Inr w1" using 1 by simp
    from period_log [OF this] show ?thesis using Period by (simp only:)
  qed (use 1 packet_log starting_log in simp_all)
  then show ?case using Cons.IH [OF 2 c] l by simp
qed simp

text \<open>A session that is small at its end was small before: the counters of MMT-DPI do not decrease.\<close>

definition grows :: "session_view list \<Rightarrow> bool" where
  "grows = sorted_wrt (\<lambda>a b. e_byte_count (snd a) \<le> e_byte_count (snd b) \<and> e_packet_count (snd a) \<le> e_packet_count (snd b))"

lemma is_micro_before:
  assumes "grows (vs @ [v])" "is_micro w v" "a \<in> set vs"
  shows "is_micro w a"
  using assms by (auto simp: grows_def sorted_wrt_append is_micro_def is_micro_flow_def word_le_nat_alt split: option.splits)

section \<open>Properties\<close>


definition sample_outside :: "unit outside" where
  "sample_outside = \<lparr>v_dpi = sample_env_dpi, v_chan = sample_api, v_http = sample_http_env, v_dump = sample_dump_io, v_stacks = sample_stacks,
     v_arrs = (replicate 3000 NUL, replicate 3000 NUL, replicate 3000 NUL)\<rparr>"

definition sample_start :: start_packet where
  "sample_start = \<lparr>sp_proto = Over_IP, sp_eth_src = None, sp_eth_dst = None, sp_ip_src = Some 0x0100000A, sp_ip_dst = Some 0x0200000A,
     sp_ip6_src = None, sp_ip6_dst = None, sp_client_port = Some 4000, sp_server_port = Some 80\<rparr>"

definition sample_state :: "nat \<Rightarrow> dpi_state" where
  "sample_state threshold =
     \<lparr>x_ctx = sample_context,
      x_micro = micro_flow_report_alloc_init 400 (sample_micro_conf\<lparr>packet_threshold := threshold, byte_threshold := 0\<rparr>) None,
      x_no_session = None, x_pcap = None, x_sessions = Map.empty, x_fs = [], x_bytes = Map.empty, x_files = Map.empty, x_sent = [], x_log = []\<rparr>"

definition sample_view :: session_view where
  "sample_view = (sample_dpi, sample_ended\<lparr>e_packet_count := 5, e_byte_count := 2300\<rparr>)"

lemma sample_starts:
  "case session_report_callback_on_starting_session sample_env_dpi (Some sample_start) of
     Inr (Some st) \<Rightarrow> app_type st = APP_IP \<and> is_zero_timestamp (tcp_established_ts st) \<and> length (mac_src st) = 6 \<and> length (mac_dst st) = 6
       \<and> \<not> is_idle sample_dpi st \<and> tcp_rtt_release (Some (s_tcp_rtt (remember sample_dpi st))) = Inr ()
   | _ \<Rightarrow> False"
  by code_simp

lemma sample_steps:
  "\<exists>w'. run sample_outside ([Start 1 sample_start] @ [Ending sample_view]) (sample_state 2) = Inr w'"
proof -
  obtain st where st: "session_report_callback_on_starting_session sample_env_dpi (Some sample_start) = Inr (Some st)"
    "app_type st = APP_IP" "is_zero_timestamp (tcp_established_ts st)" "length (mac_src st) = 6" "length (mac_dst st) = 6"
    "\<not> is_idle sample_dpi st" "tcp_rtt_release (Some (s_tcp_rtt (remember sample_dpi st))) = Inr ()"
    using sample_starts by (auto split: sum.splits option.splits)
  have p: "print_ip_session_report sample_env_dpi sample_api sample_stacks sample_dpi st sample_context []
      = Inr (remember sample_dpi st, sample_context, [], [])"
    by (rule sample_print_runs) (use st in simp_all)
  define s where "s = \<lparr>session_id = 1, ps_stat = Some st, ps_http = None\<rparr>"
  define w where "w = (sample_state 2)\<lparr>x_sessions := Map.empty(1 \<mapsto> s)\<rparr>"
  have 1: "starting_session_handler sample_outside 1 sample_start (sample_state 2) = Inr w"
    using st(1) by (simp add: starting_session_handler_def create_session_def sample_state_def sample_outside_def w_def s_def Let_def)
  have v: "sid sample_view = 1" "fst sample_view = sample_dpi" by (simp_all add: sample_view_def sid_def sample_dpi_def)
  have f: "flush_http sample_outside s w = Inr w"
    by (simp add: flush_http_def s_def http_reconstruct_flush_session_to_file_and_free_def w_def sample_state_def)
  have m: "\<not> is_micro w sample_view"
    by (simp add: is_micro_def w_def sample_state_def micro_flow_report_alloc_init_def is_micro_flow_def sample_view_def sample_micro_conf_def)
  obtain conf where c: "session_conf w = Inr conf" by (simp add: session_conf_def w_def sample_state_def sample_context_def sample_conf_def deref_def)
  let ?w = "set_stat 1 (s\<lparr>ps_http := None\<rparr>) (Some (remember sample_dpi st)) (w\<lparr>x_ctx := sample_context, x_fs := [], x_sent := x_sent w @ [],
      x_log := x_log w @ line_for sample_view (s\<lparr>ps_http := None\<rparr>)\<rparr>)"
  have r: "report_session sample_outside sample_view (s\<lparr>ps_http := None\<rparr>) w = Inr ?w"
    using p by (simp add: report_session_def session_report_do_report_def deref_def v s_def w_def sample_state_def sample_outside_def)
  have x: "x_sessions w 1 = Some s" "x_sessions ?w 1 = Some (s\<lparr>ps_http := None, ps_stat := Some (remember sample_dpi st)\<rparr>)"
    by (simp_all add: w_def set_stat_def)
  have "\<exists>w'. ending_session_handler sample_outside sample_view w = Inr w'"
    using f m c r x st(7)
    by (simp add: ending_session_handler_def v deref_def Let_def session_report_callback_on_ending_session_def)
  then show ?thesis using 1 by auto
qed


end
