(* ===== verification/Worker.thy ===== *)
theory Worker
  imports License Lte_Reports Dpi
begin

text \<open>
  What a worker does besides processing packets, \<^verbatim>\<open>src/src/worker.c\<close>, the report of the traffic in \<^verbatim>\<open>src/src/context.h\<close> and \<^verbatim>\<open>dpi_close\<close> of
  \<^verbatim>\<open>src/src/modules/dpi/dpi.c\<close>: the license check and the report at the start, the two timers, the end. The texts of the versions are inputs, and so are the views
  that MMT-DPI has of its sessions.
\<close>

section \<open>Traffic\<close>

record stat_num =
  st_receive :: u64
  st_drop :: u64

record traffic =
  t_nic :: stat_num
  t_packets :: stat_num
  t_bytes :: stat_num

definition DUMMY_REPORT_TYPE :: nat where "DUMMY_REPORT_TYPE = 200"

definition START_UP_REPORT_TYPE :: nat where "START_UP_REPORT_TYPE = 1"

text \<open>The report and the flush; the line in the log is left out.\<close>

definition context_print_traffic_stat ::
  "chan_api \<Rightarrow> arrays \<Rightarrow> fs_env \<Rightarrow> string \<Rightarrow> timeval \<Rightarrow> timeval \<Rightarrow> traffic \<Rightarrow> output_t option \<Rightarrow> fs \<Rightarrow> (output_t option \<times> fs \<times> delivery list) cres" where
  "context_print_traffic_stat C arrs E stack t tv T out fs =
     bindE (STRING_BUILDER_WITH_SEPARATOR 0 (fst arrs) MAX_LENGTH_REPORT_MESSAGE '',''
              [F_INT (st_receive (t_nic T)), F_INT (st_drop (t_nic T)), F_INT (st_receive (t_packets T)), F_INT (st_drop (t_packets T)),
               F_INT (st_receive (t_bytes T)), F_INT (st_drop (t_bytes T))]) (\<lambda>(message, _).
     bindE (write_report C arrs CHANNEL_ALL DUMMY_REPORT_TYPE tv message out fs) (\<lambda>(out, fs, ds).
     bindE (output_flush E t stack out fs) (\<lambda>(out, fs, ds'). Inr (out, fs, ds @ ds'))))"

section \<open>Start\<close>

text \<open>\<^verbatim>\<open>worker_alloc_init\<close>: MMT-DPI gives a handler, or the process ends.\<close>

definition worker_alloc_init :: "'a option \<Rightarrow> 'a cres" where
  "worker_alloc_init dpi_handler = (case dpi_handler of Some h \<Rightarrow> Inr h | None \<Rightarrow> Inl Aborted)"

text \<open>The versions in quotes; the third one is there when the security module is compiled in.\<close>

definition version_text :: "string list \<Rightarrow> string" where
  "version_text vs = join CHR '','' (map (\<lambda>v. [CHR 0x22] @ v @ [CHR 0x22]) vs)"

definition send_version_information :: "chan_api \<Rightarrow> arrays \<Rightarrow> timeval \<Rightarrow> string list \<Rightarrow> output_t option \<Rightarrow> fs \<Rightarrow> (output_t option \<times> fs \<times> delivery list) cres" where
  "send_version_information C arrs tv versions out fs =
     bindE (output_write_report_with_format C (snd arrs) CHANNEL_ALL START_UP_REPORT_TYPE tv (Some (version_text versions)) out fs)
       (\<lambda>(out, fs, ds, _). Inr (out, fs, ds))"

text \<open>The end of \<^verbatim>\<open>worker_on_start\<close>, after its output and the context of MMT-DPI were created: the first worker checks the license and announces the probe.\<close>

definition worker_announce ::
  "chan_api \<Rightarrow> arrays \<Rightarrow> license_env \<Rightarrow> license_arrays \<Rightarrow> string option \<Rightarrow> timeval \<Rightarrow> string list \<Rightarrow> nat \<Rightarrow> output_t option \<Rightarrow> fs
     \<Rightarrow> (output_t option \<times> fs \<times> delivery list) cres" where
  "worker_announce C arrs E M lf tv versions index out fs =
     (if index \<noteq> 0 then Inr (out, fs, [])
      else bindE (license_check_expiry C (snd arrs) E M lf out fs) (\<lambda>(ok, out, fs, ds).
           if \<not> ok then Inl Aborted
           else if out = None then Inr (out, fs, ds)
           else bindE (send_version_information C arrs tv versions out fs) (\<lambda>(out, fs, ds'). Inr (out, fs, ds @ ds'))))"

section \<open>Timers and end\<close>

definition worker_on_timer_stat_period ::
  "'z outside \<Rightarrow> session_view list \<Rightarrow> protocols \<Rightarrow> dpi_state \<Rightarrow> (protocols \<times> dpi_state) cres" where
  "worker_on_timer_stat_period V vs P w = dpi_callback_on_stat_period V vs P w"

definition worker_on_timer_sample_file_period :: "fs_env \<Rightarrow> timeval \<Rightarrow> string \<Rightarrow> dpi_state \<Rightarrow> dpi_state cres" where
  "worker_on_timer_sample_file_period E t stack w =
     bindE (output_flush E t stack (c_output (x_ctx w)) (x_fs w)) (\<lambda>(out, fs, ds).
     let w = w\<lparr>x_ctx := (x_ctx w)\<lparr>c_output := out\<rparr>, x_sent := x_sent w @ ds\<rparr> in
     case behaviour_output (x_ctx w) of None \<Rightarrow> Inr (w\<lparr>x_fs := fs\<rparr>)
     | Some f \<Rightarrow> bindE (file_output_flush E t stack f fs) (\<lambda>(f, fs).
                   Inr (w\<lparr>x_ctx := (x_ctx w)\<lparr>behaviour_output := Some f\<rparr>, x_fs := fs\<rparr>)))"

text \<open>What \<^verbatim>\<open>dpi_close\<close> does to the reports; its other calls take handlers away from MMT-DPI.\<close>

definition dpi_close :: "'z outside \<Rightarrow> session_view list \<Rightarrow> protocols \<Rightarrow> dpi_state \<Rightarrow> (protocols \<times> dpi_state) cres" where
  "dpi_close V vs P w = dpi_callback_on_stat_period V vs P w"

text \<open>\<^verbatim>\<open>worker_release\<close>: closing MMT-DPI ends its sessions, which calls \<^verbatim>\<open>_ending_session_handler\<close> for each.\<close>

definition worker_release :: "'z outside \<Rightarrow> fs_env \<Rightarrow> string \<Rightarrow> session_view list \<Rightarrow> dpi_state \<Rightarrow> (fs \<times> delivery list) cres" where
  "worker_release V E stack vs w =
     bindE (run V (map Ending vs) w) (\<lambda>w.
     bindE (dpi_release V E stack w) (\<lambda>(fs, ds).
     bindE (output_release E stack (c_output (x_ctx w)) fs) (\<lambda>(fs, ds'). Inr (fs, ds @ ds'))))"

section \<open>TCP reassembly\<close>

text \<open>\<^verbatim>\<open>src/src/modules/dpi/reassembly/tcp_reassembly.c\<close>: whether MMT-DPI is told to reassemble, which is also whether there is a context.\<close>

definition tcp_reassembly_alloc_init :: "bool \<Rightarrow> 'f option \<Rightarrow> 'f option" where
  "tcp_reassembly_alloc_init is_enable callback = (if \<not> is_enable \<or> callback = None then None else callback)"

section \<open>Lemmas\<close>

text \<open>The report of the traffic has the six numbers, whatever they are.\<close>

lemma traffic_message:
  fixes T
  defines "ns \<equiv> [st_receive (t_nic T), st_drop (t_nic T), st_receive (t_packets T), st_drop (t_packets T), st_receive (t_bytes T), st_drop (t_bytes T)]"
  assumes "length (fst arrs) = 3000"
  shows "\<exists>m. cstr m = joined '','' (map F_INT ns) \<and> context_print_traffic_stat C arrs E stack t tv T out fs =
     bindE (write_report C arrs CHANNEL_ALL DUMMY_REPORT_TYPE tv m out fs) (\<lambda>(out, fs, ds).
     bindE (output_flush E t stack out fs) (\<lambda>(out, fs, ds'). Inr (out, fs, ds @ ds')))"
proof -
  obtain m n where "STRING_BUILDER_WITH_SEPARATOR 0 (fst arrs) MAX_LENGTH_REPORT_MESSAGE '','' (map F_INT ns) = Inr (m, n)"
      "cstr m = joined '','' (map F_INT ns)"
    using numbers_report [OF assms(2), of ns] by (auto simp: ns_def)
  then show ?thesis by (intro exI [of _ m]) (simp add: context_print_traffic_stat_def ns_def)
qed

text \<open>Without a valid license the first worker ends the process; the other workers do not look at it.\<close>

lemma announce_needs_license:
  assumes "worker_announce C arrs E M lf tv versions 0 out fs = Inr r"
  shows "\<exists>out' fs' ds. license_check_expiry C (snd arrs) E M lf out fs = Inr (True, out', fs', ds)"
  using assms by (auto simp: worker_announce_def bindE_eq_Inr split: if_splits)

lemma announce_without_license:
  assumes "license_check_expiry C (snd arrs) E M lf out fs = Inr (False, out', fs', ds)"
  shows "worker_announce C arrs E M lf tv versions 0 out fs = Inl Aborted"
  using assms by (simp add: worker_announce_def)

end
