(* ===== verification/System_Stats.thy ===== *)
theory System_Stats
  imports Dpi_Reports
begin

text \<open>
  The thread that reports the load of the machine, \<^verbatim>\<open>src/src/modules/routine/system_stats.c\<close> and \<^verbatim>\<open>routine.c\<close>. What the files under
  \<^verbatim>\<open>/proc\<close> hold and the clock are inputs, one for each second; \<open>fmt0 a b\<close> is the text of \<^verbatim>\<open>a * 100.0 / b\<close> printed with \<^verbatim>\<open>%.0f\<close>.
\<close>

section \<open>Reading /proc\<close>

text \<open>The file cannot be opened, does not have the expected numbers, or has them.\<close>

datatype proc_file = Not_opened | Malformed | Numbers "u64 list"

record cpu =
  cpu_user :: u64
  cpu_sys :: u64
  cpu_idle :: u64

definition read_cpu_info :: "proc_file \<Rightarrow> cpu option" where
  "read_cpu_info f =
     (case f of
        Numbers [user, nice, system, idle, iowait, irq, softirq, steal, guest, guest_nice] \<Rightarrow>
          Some \<lparr>cpu_user = user + nice, cpu_sys = system + iowait + irq + softirq + steal + guest + guest_nice, cpu_idle = idle\<rparr>
      | _ \<Rightarrow> None)"

text \<open>The available and the total memory. When the file is not open, \<^verbatim>\<open>fclose(NULL)\<close> is called.\<close>

definition read_mem_info :: "proc_file \<Rightarrow> (u64 \<times> u64) option cres" where
  "read_mem_info f =
     (case f of
        Not_opened \<Rightarrow> Inl OutOfBounds
      | Numbers [mem_total, mem_free, mem_avail] \<Rightarrow> Inr (Some (mem_avail, mem_total))
      | _ \<Rightarrow> Inr None)"

section \<open>The loop\<close>

definition SYSTEM_REPORT_TYPE :: nat where
  "SYSTEM_REPORT_TYPE = 201"

text \<open>What the thread does to the output.\<close>

datatype sys_action = Sys_report timeval string | Sys_flush

record sys_input =
  si_cpu :: proc_file
  si_mem :: proc_file
  si_time :: timeval

record sys_state =
  cpu_1 :: cpu
  timer_1 :: u16
  timer_2 :: u16

definition cpu_total :: "cpu \<Rightarrow> u64" where
  "cpu_total c = cpu_user c + cpu_sys c + cpu_idle c"

definition sys_text :: "(u64 \<Rightarrow> u64 \<Rightarrow> string) \<Rightarrow> cpu \<Rightarrow> cpu \<Rightarrow> u64 \<times> u64 \<Rightarrow> string" where
  "sys_text fmt0 c1 c2 mem =
     (let diff_cpu_total = cpu_total c2 - cpu_total c1
      in fmt0 (cpu_user c2 - cpu_user c1) diff_cpu_total @ '','' @ fmt0 (cpu_sys c2 - cpu_sys c1) diff_cpu_total @ '','' @
         fmt0 (cpu_idle c2 - cpu_idle c1) diff_cpu_total @ '','' @ dec (unat (fst mem)) @ '','' @ dec (unat (snd mem)))"

text \<open>The end of a turn, which a \<^verbatim>\<open>continue\<close> jumps over.\<close>

definition flush_if_due :: "u16 \<Rightarrow> sys_state \<Rightarrow> sys_state \<times> sys_action list" where
  "flush_if_due flush_period s = (if timer_2 s = flush_period then (s\<lparr>timer_2 := 0\<rparr>, [Sys_flush]) else (s, []))"

text \<open>The report of a turn; \<open>None\<close> is the \<^verbatim>\<open>continue\<close>. The memory is read only if the processor could be read.\<close>

definition sys_sample :: "(u64 \<Rightarrow> u64 \<Rightarrow> string) \<Rightarrow> sys_input \<Rightarrow> sys_state \<Rightarrow> (sys_state \<times> sys_action list) option cres" where
  "sys_sample fmt0 i s =
     (case read_cpu_info (si_cpu i) of None \<Rightarrow> Inr None
      | Some cpu_2 \<Rightarrow>
          bindE (read_mem_info (si_mem i)) (\<lambda>m.
            case m of None \<Rightarrow> Inr None
            | Some mem \<Rightarrow> Inr (Some (s\<lparr>cpu_1 := cpu_2\<rparr>, [Sys_report (si_time i) (sys_text fmt0 (cpu_1 s) cpu_2 mem)]))))"

definition sys_turn :: "(u64 \<Rightarrow> u64 \<Rightarrow> string) \<Rightarrow> u16 \<Rightarrow> sys_input \<Rightarrow> sys_state \<Rightarrow> (sys_state \<times> sys_action list) cres" where
  "sys_turn fmt0 flush_period i s =
     (let s = s\<lparr>timer_1 := timer_1 s + 1, timer_2 := timer_2 s + 1\<rparr>
      in if timer_1 s = 5
         then let s = s\<lparr>timer_1 := 0\<rparr>
              in bindE (sys_sample fmt0 i s) (\<lambda>r.
                 case r of None \<Rightarrow> Inr (s, [])
                 | Some (s, as) \<Rightarrow> let (s, bs) = flush_if_due flush_period s in Inr (s, as @ bs))
         else Inr (flush_if_due flush_period s))"

fun sys_loop :: "(u64 \<Rightarrow> u64 \<Rightarrow> string) \<Rightarrow> u16 \<Rightarrow> sys_input list \<Rightarrow> sys_state \<Rightarrow> (sys_state \<times> sys_action list) cres" where
  "sys_loop fmt0 flush_period [] s = Inr (s, [])"
| "sys_loop fmt0 flush_period (i # is) s =
     bindE (sys_turn fmt0 flush_period i s) (\<lambda>(s, as).
     bindE (sys_loop fmt0 flush_period is s) (\<lambda>(s, bs). Inr (s, as @ bs)))"

text \<open>\<^verbatim>\<open>_stats_routine\<close> up to the second after the last input: the actions; none when it is disabled or the processor cannot be read at first.\<close>

definition stats_routine :: "(u64 \<Rightarrow> u64 \<Rightarrow> string) \<Rightarrow> system_stats_conf \<Rightarrow> u16 \<Rightarrow> proc_file \<Rightarrow> sys_input list \<Rightarrow> sys_action list cres" where
  "stats_routine fmt0 conf flush_period first is =
     (if \<not> cm_is_enable conf \<or> IS_DISABLE_OUTPUT (cm_output_channels conf) then Inr []
      else case read_cpu_info first of None \<Rightarrow> Inr []
      | Some c \<Rightarrow> bindE (sys_loop fmt0 flush_period is \<lparr>cpu_1 = c, timer_1 = 0, timer_2 = 0\<rparr>) (\<lambda>(_, as). Inr as))"

text \<open>The calls behind the actions.\<close>

fun sys_perform :: "chan_api \<Rightarrow> string \<times> string \<Rightarrow> fs_env \<Rightarrow> timeval \<Rightarrow> string \<Rightarrow> nat \<Rightarrow> sys_action \<Rightarrow> output_t option \<Rightarrow> fs
    \<Rightarrow> (output_t option \<times> fs \<times> delivery list) cres" where
  "sys_perform C arrs E t stack channels (Sys_report ts body) out fs =
     bindE (output_write_report_with_format C arrs channels SYSTEM_REPORT_TYPE ts (Some body) out fs) (\<lambda>(out, fs, ds, _). Inr (out, fs, ds))"
| "sys_perform C arrs E t stack channels Sys_flush out fs = output_flush E t stack out fs"

definition system_stats_alloc_init_start :: "bool \<Rightarrow> system_stats_conf \<Rightarrow> bool" where
  "system_stats_alloc_init_start thread_created conf \<longleftrightarrow> cm_is_enable conf \<and> thread_created"

section \<open>Lemmas\<close>

definition good_input :: "sys_input \<Rightarrow> bool" where
  "good_input i \<longleftrightarrow> (\<exists>c m. read_cpu_info (si_cpu i) = Some c \<and> read_mem_info (si_mem i) = Inr (Some m))"

definition times_of :: "sys_action list \<Rightarrow> timeval list" where
  "times_of as = concat (map (\<lambda>a. case a of Sys_report t _ \<Rightarrow> [t] | Sys_flush \<Rightarrow> []) as)"

definition flushes :: "sys_action list \<Rightarrow> nat" where
  "flushes as = length (filter (\<lambda>a. a = Sys_flush) as)"

lemma actions_append [simp]:
  "times_of (as @ bs) = times_of as @ times_of bs" "flushes (as @ bs) = flushes as + flushes bs"
  "times_of [] = []" "flushes [] = 0"
  by (simp_all add: times_of_def flushes_def)

text \<open>Every fifth element, the first after \<open>4 - k\<close> others.\<close>

fun every5 :: "nat \<Rightarrow> 'a list \<Rightarrow> 'a list" where
  "every5 k [] = []"
| "every5 k (x # xs) = (if k = 4 then x # every5 0 xs else every5 (k + 1) xs)"

lemma flush_if_due_step:
  assumes "flush_if_due p s = (s', as)" "unat (timer_2 s) \<le> unat p" "0 < unat p"
  shows "timer_1 s' = timer_1 s" "times_of as = []" "flushes as = (if timer_2 s = p then 1 else 0)"
    and "unat (timer_2 s') = (if timer_2 s = p then 0 else unat (timer_2 s))" "cpu_1 s' = cpu_1 s"
  using assms by (auto simp: flush_if_due_def times_of_def flushes_def split: if_splits)

lemma unat_inc16: "unat (t :: u16) < 65535 \<Longrightarrow> unat (t + 1) = unat t + 1"
proof -
  assume t: "unat t < 65535"
  have "t + 1 = of_nat (unat t + 1)" by simp
  then show ?thesis using t by (simp only: unsigned_of_nat) (simp add: take_bit_nat_eq_self)
qed

lemma sys_turn_good:
  assumes "good_input i" "unat (timer_1 s) < 5" "unat (timer_2 s) < unat p"
  shows "\<exists>s' as. sys_turn fmt0 p i s = Inr (s', as)
    \<and> unat (timer_1 s') = (if unat (timer_1 s) = 4 then 0 else unat (timer_1 s) + 1)
    \<and> unat (timer_2 s') = (if unat (timer_2 s) + 1 = unat p then 0 else unat (timer_2 s) + 1)
    \<and> times_of as = (if unat (timer_1 s) = 4 then [si_time i] else [])
    \<and> flushes as = (if unat (timer_2 s) + 1 = unat p then 1 else 0)"
proof -
  define s1 where "s1 = s\<lparr>timer_1 := timer_1 s + 1, timer_2 := timer_2 s + 1\<rparr>"
  have "unat p < 2 ^ 16" using unsigned_less [of p] by simp
  then have pb: "unat p \<le> 65535" by simp
  have u: "unat (timer_1 s1) = unat (timer_1 s) + 1" "unat (timer_2 s1) = unat (timer_2 s) + 1"
    using assms(2,3) pb by (simp_all add: s1_def unat_inc16)
  have five: "timer_1 s1 = 5 \<longleftrightarrow> unat (timer_1 s) = 4" using u(1) by (simp add: word_unat_eq_iff)
  have due: "timer_2 s1 = p \<longleftrightarrow> unat (timer_2 s) + 1 = unat p" using u(2) by (simp add: word_unat_eq_iff)
  show ?thesis
  proof (cases "unat (timer_1 s) = 4")
    case True
    obtain c m where i: "read_cpu_info (si_cpu i) = Some c" "read_mem_info (si_mem i) = Inr (Some m)" using assms(1) by (auto simp: good_input_def)
    define s2 where "s2 = s1\<lparr>timer_1 := 0, cpu_1 := c\<rparr>"
    obtain s' bs where f: "flush_if_due p s2 = (s', bs)" by fastforce
    have t2: "timer_2 s2 = timer_2 s1" "timer_1 s2 = 0" by (simp_all add: s2_def)
    note fd = flush_if_due_step [OF f]
    have "sys_turn fmt0 p i s = Inr (s', Sys_report (si_time i) (sys_text fmt0 (cpu_1 s1) c m) # bs)"
      using True five f i by (simp add: sys_turn_def s1_def [symmetric] sys_sample_def Let_def s2_def)
    then show ?thesis using fd t2 u(2) assms(3) due True by (auto simp: times_of_def flushes_def)
  next
    case False
    obtain s' bs where f: "flush_if_due p s1 = (s', bs)" by fastforce
    note fd = flush_if_due_step [OF f]
    have "sys_turn fmt0 p i s = Inr (s', bs)" using False five f by (simp add: sys_turn_def s1_def [symmetric] Let_def)
    then show ?thesis using fd u assms(3) due False by auto
  qed
qed

lemma div_step: "0 < p \<Longrightarrow> m < p \<Longrightarrow> (m + Suc n) div p = (if m + 1 = p then 1 + n div p else (m + 1 + n) div p)" for m n p :: nat
  using div_add_self1 [of p n] by auto

lemma sys_loop_good:
  "list_all good_input is \<Longrightarrow> unat (timer_1 s) < 5 \<Longrightarrow> unat (timer_2 s) < unat p \<Longrightarrow>
   \<exists>s' as. sys_loop fmt0 p is s = Inr (s', as) \<and> times_of as = every5 (unat (timer_1 s)) (map si_time is)
     \<and> flushes as = (unat (timer_2 s) + length is) div unat p"
proof (induction "is" arbitrary: s)
  case Nil
  then show ?case by simp
next
  case (Cons i is')
  obtain s1 as where s1: "sys_turn fmt0 p i s = Inr (s1, as)"
    "unat (timer_1 s1) = (if unat (timer_1 s) = 4 then 0 else unat (timer_1 s) + 1)"
    "unat (timer_2 s1) = (if unat (timer_2 s) + 1 = unat p then 0 else unat (timer_2 s) + 1)"
    "times_of as = (if unat (timer_1 s) = 4 then [si_time i] else [])"
    "flushes as = (if unat (timer_2 s) + 1 = unat p then 1 else 0)"
    using sys_turn_good [of i s p fmt0] Cons.prems by auto
  have "unat (timer_1 s1) < 5" "unat (timer_2 s1) < unat p" using s1(2,3) Cons.prems by auto
  then obtain s2 bs where s2: "sys_loop fmt0 p is' s1 = Inr (s2, bs)" "times_of bs = every5 (unat (timer_1 s1)) (map si_time is')"
      "flushes bs = (unat (timer_2 s1) + length is') div unat p"
    using Cons.IH [of s1] Cons.prems by auto
  have "flushes as + flushes bs = (unat (timer_2 s) + length (i # is')) div unat p"
    unfolding s1(5) s2(3) s1(3) length_Cons using div_step [of "unat p" "unat (timer_2 s)" "length is'"] Cons.prems(3) by (cases "unat (timer_2 s) + 1 = unat p") simp_all
  moreover have "sys_loop fmt0 p (i # is') s = Inr (s2, as @ bs)" by (simp add: s1(1) s2(1))
  moreover have "times_of (as @ bs) = every5 (unat (timer_1 s)) (map si_time (i # is'))" by (simp add: s1(2,4) s2(2))
  ultimately show ?case by simp
qed

text \<open>The \<^verbatim>\<open>continue\<close> after a failed reading jumps over the test of the second timer: if both fall on the same second the flush is lost, and the timer, now past
  the period, reaches it again only after it wrapped around.\<close>

lemma failed_reading_skips_flush:
  assumes "si_cpu i = Malformed" "timer_1 s = 4" "timer_2 s + 1 = p"
  shows "sys_turn fmt0 p i s = Inr (s\<lparr>timer_1 := 0, timer_2 := p\<rparr>, [])"
  using assms by (simp add: sys_turn_def sys_sample_def read_cpu_info_def Let_def)

lemma unread_memory_faults:
  assumes "si_mem i = Not_opened" "timer_1 s = 4" "read_cpu_info (si_cpu i) = Some c"
  shows "sys_turn fmt0 p i s = Inl OutOfBounds"
  using assms by (simp add: sys_turn_def sys_sample_def read_mem_info_def Let_def)

section \<open>Properties\<close>


definition sample_sys_input :: "int \<Rightarrow> sys_input" where
  "sample_sys_input t = \<lparr>si_cpu = Numbers [1, 2, 3, 4, 5, 6, 7, 8, 9, 10], si_mem = Numbers [100, 50, 70], si_time = \<lparr>tv_sec = t, tv_usec = 0\<rparr>\<rparr>"


end
