(* ===== verification/Ftp_Reconstruct.thy ===== *)
theory Ftp_Reconstruct
  imports Dpi_Tool
begin

text \<open>
  Reconstruction of files from FTP, \<^verbatim>\<open>src/src/modules/dpi/reconstruct/ftp/ftp_reconstruct.c\<close>. The values MMT-DPI extracts from a packet are inputs, and
  so is its function \<^verbatim>\<open>str_replace\<close>, here \<open>replace\<close> for the replacement of slashes by underscores.
\<close>

section \<open>Model\<close>

record ftp_packet =
  f_data_type :: "u8 option"
  f_file_name :: "string option"
  f_data_len :: "u32 option"
  f_payload :: "string option"
  f_session_id :: u64

text \<open>\<^verbatim>\<open>snprintf\<close> into an array of 255 characters.\<close>

definition ftp_file_name :: "(string \<Rightarrow> string) \<Rightarrow> string \<Rightarrow> u64 \<Rightarrow> string \<Rightarrow> string" where
  "ftp_file_name replace directory i file_name = take 254 (directory @ dec (unat i) @ ''_'' @ replace file_name)"

definition ftp_data_type_handle :: "(string \<Rightarrow> string) \<Rightarrow> (string \<Rightarrow> bool) \<Rightarrow> string \<Rightarrow> ftp_packet \<Rightarrow> files \<Rightarrow> files cres" where
  "ftp_data_type_handle replace can_open directory p fs =
     (if f_data_type p \<noteq> Some 1 then Inr fs
      else case f_file_name p of None \<Rightarrow> Inr fs
      | Some file_name \<Rightarrow>
          (case f_data_len p of None \<Rightarrow> Inr fs
           | Some data_len \<Rightarrow>
               if data_len = 0 then Inr fs
               else (case f_payload p of None \<Rightarrow> Inr fs
                     | Some data \<Rightarrow>
                         if length data < unat data_len then Inl OutOfBounds
                         else Inr (fst (append_data_to_file can_open (ftp_file_name replace directory (f_session_id p) file_name)
                                          (take (unat data_len) data) fs)))))"

definition ftp_reconstruct_init :: "'h dpi_api \<Rightarrow> 'h conditional_handler list \<Rightarrow> reconstruct_data_conf \<Rightarrow> 'h dpi_call list option" where
  "ftp_reconstruct_init A handlers conf =
     (if \<not> rd_is_enable conf then None else Some (fst (dpi_register_conditional_handler A handlers)))"

definition ftp_reconstruct_close :: "'h dpi_api \<Rightarrow> 'h conditional_handler list \<Rightarrow> 'c option \<Rightarrow> 'h dpi_call list" where
  "ftp_reconstruct_close A handlers context =
     (case context of None \<Rightarrow> [] | Some _ \<Rightarrow> fst (dpi_unregister_conditional_handler A handlers))"

fun ftp_run :: "(string \<Rightarrow> string) \<Rightarrow> (string \<Rightarrow> bool) \<Rightarrow> string \<Rightarrow> ftp_packet list \<Rightarrow> files \<Rightarrow> files cres" where
  "ftp_run replace can_open directory [] fs = Inr fs"
| "ftp_run replace can_open directory (p # ps) fs =
     bindE (ftp_data_type_handle replace can_open directory p fs) (ftp_run replace can_open directory ps)"

section \<open>Lemmas\<close>

text \<open>The name of the file and the data that a packet carries for it.\<close>

definition carried :: "(string \<Rightarrow> string) \<Rightarrow> string \<Rightarrow> ftp_packet \<Rightarrow> (string \<times> string) option" where
  "carried replace directory p =
     (case (f_data_type p, f_file_name p, f_data_len p, f_payload p) of
        (Some t, Some name, Some n, Some data) \<Rightarrow>
          if t = 1 \<and> n \<noteq> 0 then Some (ftp_file_name replace directory (f_session_id p) name, take (unat n) data) else None
      | _ \<Rightarrow> None)"

definition carried_for :: "(string \<Rightarrow> string) \<Rightarrow> string \<Rightarrow> string \<Rightarrow> ftp_packet list \<Rightarrow> string" where
  "carried_for replace directory name ps =
     concat (map (\<lambda>p. case carried replace directory p of Some (n, d) \<Rightarrow> if n = name then d else [] | None \<Rightarrow> []) ps)"

definition ftp_packet_ok :: "ftp_packet \<Rightarrow> bool" where
  "ftp_packet_ok p \<longleftrightarrow> (case (f_data_len p, f_payload p) of (Some n, Some data) \<Rightarrow> unat n \<le> length data | _ \<Rightarrow> True)"

lemma ftp_handle_carried:
  assumes "ftp_packet_ok p" "\<And>f. can_open f"
  shows "ftp_data_type_handle replace can_open directory p fs = Inr (case carried replace directory p of None \<Rightarrow> fs
    | Some (n, d) \<Rightarrow> fs(n \<mapsto> case_option [] id (fs n) @ d))"
proof -
  have "\<not> length d < unat n" if "f_data_len p = Some n" "f_payload p = Some d" for n d using assms(1) that by (simp add: ftp_packet_ok_def)
  then show ?thesis using assms(2)
    by (cases "f_data_type p"; cases "f_file_name p"; cases "f_data_len p"; cases "f_payload p")
      (simp_all add: ftp_data_type_handle_def carried_def append_data_to_file_def)
qed

section \<open>Properties\<close>

text \<open>
  The files that are reconstructed from FTP. After any sequence of packets of any sessions, each file has what it had before
  followed by the data of the packets that carry data for it, in the order of the packets.
\<close>

theorem ftp_files_are_data:
  assumes "list_all ftp_packet_ok ps" "\<And>f. can_open f"
  shows "\<exists>fs'. ftp_run replace can_open directory ps fs = Inr fs'
    \<and> (\<forall>name. case_option [] id (fs' name) = case_option [] id (fs name) @ carried_for replace directory name ps)"
  using assms(1)
proof (induction ps arbitrary: fs)
  case Nil
  then show ?case by (simp add: carried_for_def)
next
  case (Cons p ps)
  define fs1 where "fs1 = (case carried replace directory p of None \<Rightarrow> fs | Some (n, d) \<Rightarrow> fs(n \<mapsto> case_option [] id (fs n) @ d))"
  have h: "ftp_data_type_handle replace can_open directory p fs = Inr fs1"
    using ftp_handle_carried [of p can_open replace directory fs] Cons.prems assms(2) by (simp add: fs1_def)
  obtain fs' where r: "ftp_run replace can_open directory ps fs1 = Inr fs'"
      "\<forall>name. case_option [] id (fs' name) = case_option [] id (fs1 name) @ carried_for replace directory name ps"
    using Cons.IH [of fs1] Cons.prems by auto
  have "case_option [] id (fs1 name) @ carried_for replace directory name ps = case_option [] id (fs name) @ carried_for replace directory name (p # ps)" for name
    by (auto simp: fs1_def carried_for_def split: option.splits)
  then show ?case using h r by simp
qed

theorem ftp_files_are_data_witness:
  "\<exists>fs'. ftp_run (map (\<lambda>c. if c = CHR ''/'' then CHR ''_'' else c)) (\<lambda>_. True) ''out/''
      [\<lparr>f_data_type = Some 1, f_file_name = Some ''/a.txt'', f_data_len = Some 3, f_payload = Some ''abcdef'', f_session_id = 7\<rparr>,
       \<lparr>f_data_type = Some 2, f_file_name = Some ''/a.txt'', f_data_len = Some 3, f_payload = Some ''xyz'', f_session_id = 7\<rparr>,
       \<lparr>f_data_type = Some 1, f_file_name = Some ''/a.txt'', f_data_len = Some 2, f_payload = Some ''gh'', f_session_id = 7\<rparr>] Map.empty = Inr fs'
    \<and> case_option [] id (fs' ''out/7__a.txt'') = ''abcgh''"
proof -
  let ?r = "map (\<lambda>c. if c = CHR ''/'' then CHR ''_'' else c)"
  let ?ps = "[\<lparr>f_data_type = Some 1, f_file_name = Some ''/a.txt'', f_data_len = Some 3, f_payload = Some ''abcdef'', f_session_id = 7\<rparr>,
       \<lparr>f_data_type = Some 2, f_file_name = Some ''/a.txt'', f_data_len = Some 3, f_payload = Some ''xyz'', f_session_id = 7\<rparr>,
       \<lparr>f_data_type = Some 1, f_file_name = Some ''/a.txt'', f_data_len = Some 2, f_payload = Some ''gh'', f_session_id = 7\<rparr>] :: ftp_packet list"
  have "list_all ftp_packet_ok ?ps" by code_simp
  moreover have "carried_for ?r ''out/'' ''out/7__a.txt'' ?ps = ''abcgh''" by code_simp
  ultimately show ?thesis using ftp_files_are_data [of ?ps "\<lambda>_. True" ?r "''out/''" Map.empty] by auto
qed

text \<open>With slashes replaced, what follows the directory is one name: a file is never written to another directory.\<close>

lemma ftp_name_in_directory:
  assumes "\<And>s. CHR ''/'' \<notin> set (replace s)" "length directory \<le> 254"
  shows "\<exists>n. ftp_file_name replace directory i file_name = directory @ n \<and> CHR ''/'' \<notin> set n"
proof -
  have "CHR ''/'' \<notin> set (dec (unat i))" 
  proof
    assume "CHR ''/'' \<in> set (dec (unat i))"
    then obtain d where "d < 10" "CHR ''/'' = digit d" using dec_digits by blast
    then have "(of_char CHR ''/'' :: nat) = 48 + d" by simp
    then show False by simp
  qed
  then have "CHR ''/'' \<notin> set (dec (unat i) @ ''_'' @ replace file_name)" using assms(1) by simp
  then have "CHR ''/'' \<notin> set (take (254 - length directory) (dec (unat i) @ ''_'' @ replace file_name))" by (meson in_set_takeD)
  then show ?thesis using assms(2) by (auto simp: ftp_file_name_def)
qed

end
