(* ===== verification/L4s_Report.thy ===== *)
theory L4s_Report
  imports Prelude
begin

text \<open>
  The decoding of the L4S queue information that a router writes into the identification field of IPv4
  (\<^verbatim>\<open>src/src/modules/dpi/report/session_report_l4s.c\<close>). The five most significant bits hold the number of drops as a small
  floating-point number, two bits of mantissa and three of exponent; the other eleven bits hold the queuing delay in the
  same style, which the code leaves undecoded. The file is compiled, but its handlers are never registered.

  The lemmas compare the decoder with its value on natural numbers: no shift overflows for the two formats of the code,
  the code is strictly monotone, and the largest number of drops is 448.
\<close>

unbundle bit_operations_syntax

definition DROPS_M :: nat where
  [simp]: "DROPS_M = 2"

definition DROPS_E :: nat where
  [simp]: "DROPS_E = 3"

definition QDELAY_M :: nat where
  [simp]: "QDELAY_M = 7"

definition QDELAY_E :: nat where
  [simp]: "QDELAY_E = 4"

definition fl2int :: "u32 \<Rightarrow> nat \<Rightarrow> nat \<Rightarrow> u32" where
  "fl2int fl0 m_b e_b =
     (let m_max = push_bit m_b 1; fl = fl0 AND (push_bit e_b m_max - 1)
      in if fl < push_bit 1 m_max then fl
         else push_bit (unat (drop_bit m_b fl - 1)) ((fl AND (m_max - 1)) + m_max))"

definition decode_l4s_in_ip_identification :: "u16 \<Rightarrow> u32 \<times> u32" where
  "decode_l4s_in_ip_identification ident =
     (let drops = fl2int (ucast (drop_bit 11 ident)) DROPS_M DROPS_E; delay = ucast (ident AND 2047)
      in (delay, drops))"

section \<open>The value of a code\<close>

definition fl_value :: "nat \<Rightarrow> nat \<Rightarrow> nat" where
  "fl_value m n = (if n < 2 ^ Suc m then n else (n mod 2 ^ m + 2 ^ m) * 2 ^ (n div 2 ^ m - 1))"

lemma fl_value_step: "fl_value m n < fl_value m (Suc n)"
proof (cases "n < 2 ^ Suc m")
  case True
  show ?thesis
  proof (cases "Suc n < 2 ^ Suc m")
    case False
    with True have n: "Suc n = 2 * 2 ^ m" by simp
    then have "fl_value m (Suc n) = 2 * 2 ^ m" by (simp add: fl_value_def)
    then show ?thesis using True n by (simp add: fl_value_def)
  qed (simp add: fl_value_def)
next
  case False
  define q where "q = n div 2 ^ m"
  define r where "r = n mod 2 ^ m"
  have n: "n = q * 2 ^ m + r" unfolding q_def r_def by (rule div_mult_mod_eq [symmetric])
  have r: "r < 2 ^ m" by (simp add: r_def)
  have q: "2 \<le> q" unfolding q_def using False by (simp add: less_eq_div_iff_mult_less_eq)
  show ?thesis
  proof (cases "Suc r = 2 ^ m")
    case True
    then have s: "Suc n = Suc q * 2 ^ m" using n by simp
    have "fl_value m (Suc n) = 2 ^ m * 2 ^ q" using False s by (simp add: fl_value_def)
    moreover have "fl_value m n = (r + 2 ^ m) * 2 ^ (q - 1)"
      using False by (simp add: fl_value_def q_def r_def)
    moreover have "(2::nat) ^ q = 2 * 2 ^ (q - 1)" using q by (cases q) simp_all
    ultimately show ?thesis using r by simp
  next
    case r': False
    then have "Suc n div 2 ^ m = q" "Suc n mod 2 ^ m = Suc r"
      using r by (simp_all add: n div_mult_self3 flip: add_Suc_right)
    then show ?thesis using False by (simp add: fl_value_def q_def r_def)
  qed
qed

lemma fl_value_strict_mono: "strict_mono (fl_value m)"
  by (simp add: strict_mono_Suc_iff fl_value_step)

lemma fl_value_less:
  assumes "n < 2 ^ (m + e)" "0 < e"
  shows "fl_value m n < 2 ^ (m + 2 ^ e - 1)"
proof (cases "n < 2 ^ Suc m")
  case True
  have "Suc m \<le> m + 2 ^ e - 1" 
  proof -
    obtain k where k: "e = Suc k" using assms(2) by (cases e) simp_all
    have "0 < (2::nat) ^ k" by simp
    then show ?thesis unfolding k power_Suc by linarith
  qed
  then have "(2::nat) ^ Suc m \<le> 2 ^ (m + 2 ^ e - 1)" by (rule power_increasing) simp
  then show ?thesis using True by (simp add: fl_value_def)
next
  case False
  have "n div 2 ^ m < 2 ^ e" using assms(1) by (simp add: power_add less_mult_imp_div_less mult.commute)
  moreover have "2 \<le> n div 2 ^ m" using False by (simp add: less_eq_div_iff_mult_less_eq)
  ultimately have le: "Suc m + (n div 2 ^ m - 1) \<le> m + 2 ^ e - 1" by simp
  have "(n mod 2 ^ m + 2 ^ m) * 2 ^ (n div 2 ^ m - 1) < 2 ^ Suc m * 2 ^ (n div 2 ^ m - 1)" by simp
  also have "\<dots> = 2 ^ (Suc m + (n div 2 ^ m - 1))" by (simp only: power_add)
  also have "\<dots> \<le> 2 ^ (m + 2 ^ e - 1)" using le by (rule power_increasing) simp
  finally show ?thesis using False by (simp add: fl_value_def)
qed

section \<open>The decoder computes the value\<close>

lemma unat_take_bit_mod: "unat (take_bit k w) = unat w mod 2 ^ k" for w :: "'a::len word"
  by (simp only: unsigned_take_bit_eq) (simp only: take_bit_eq_mod)

lemma unat_drop_bit_div: "unat (drop_bit k w) = unat w div 2 ^ k" for w :: "'a::len word"
  by (simp only: unat_drop_bit_eq) (simp only: drop_bit_eq_div)

lemma and_push_bit_minus_one: "w AND (push_bit k 1 - 1) = take_bit k w" for w :: "'a::len word"
  by (simp add: take_bit_eq_mask mask_eq_exp_minus_1 push_bit_eq_mult)

lemma fl2int_take_bit:
  "fl2int fl m e =
     (let w = take_bit (m + e) fl
      in if w < push_bit 1 (push_bit m 1) then w
         else push_bit (unat (drop_bit m w - 1)) (take_bit m w + push_bit m 1))"
  by (simp only: fl2int_def Let_def push_bit_push_bit and_push_bit_minus_one add.commute [of e m])

lemma fl2int_value:
  assumes "0 < e" "m + 2 ^ e \<le> 32"
  shows "unat (fl2int fl m e) = fl_value m (unat fl mod 2 ^ (m + e))"
proof -
  define n where "n = unat fl mod 2 ^ (m + e)"
  have "e < 2 ^ e" by simp
  then have me: "m + e < 32" "Suc m < 32" using assms by linarith+
  have pow: "unat (push_bit k 1 :: u32) = 2 ^ k" if "k < 32" for k
    using power_strict_increasing [OF that, of "2::nat"]
    by (simp only: unsigned_push_bit_eq) (simp add: take_bit_eq_mod push_bit_eq_mult)
  have fl: "unat (take_bit (m + e) fl) = n" by (simp add: n_def unat_take_bit_mod)
  have n: "n < 2 ^ (m + e)" by (simp add: n_def)
  have lt: "take_bit (m + e) fl < push_bit 1 (push_bit m 1) \<longleftrightarrow> n < 2 ^ Suc m"
    using pow [OF me(2)] fl by (simp add: word_less_nat_alt mult.commute)
  show ?thesis
  proof (cases "n < 2 ^ Suc m")
    case True
    then show ?thesis using lt fl by (simp only: fl2int_take_bit Let_def n_def [symmetric] fl_value_def if_True)
  next
    case False
    have q: "2 \<le> n div 2 ^ m" using False by (simp add: less_eq_div_iff_mult_less_eq)
    have d: "unat (drop_bit m (take_bit (m + e) fl)) = n div 2 ^ m"
      using fl by (simp add: unat_drop_bit_div)
    have s: "unat (drop_bit m (take_bit (m + e) fl) - 1) = n div 2 ^ m - 1"
      using q d by (simp add: unat_sub word_le_nat_alt)
    have small: "n mod 2 ^ m + 2 ^ m < 2 ^ 32"
    proof -
      have "n mod 2 ^ m + 2 ^ m < 2 ^ Suc m" by simp
      also have "(2::nat) ^ Suc m \<le> 2 ^ 32" using me(2) by (intro power_increasing) simp_all
      finally show ?thesis .
    qed
    have t: "unat (take_bit m (take_bit (m + e) fl)) = n mod 2 ^ m" by (simp only: unat_take_bit_mod n_def)
    have p: "unat (push_bit m 1 :: u32) = 2 ^ m" using me by (intro pow) simp
    have a: "unat (take_bit m (take_bit (m + e) fl) + push_bit m 1) = n mod 2 ^ m + 2 ^ m"
      using small by (simp only: unat_word_ariths t p) simp
    have "fl_value m n < 2 ^ (m + 2 ^ e - 1)" using n assms(1) by (rule fl_value_less)
    also have "(2::nat) ^ (m + 2 ^ e - 1) \<le> 2 ^ 32" using assms(2) by (intro power_increasing) simp_all
    finally have "fl_value m n < 2 ^ 32" .
    then have "unat (push_bit (n div 2 ^ m - 1) (take_bit m (take_bit (m + e) fl) + push_bit m 1)) = fl_value m n"
      using a False by (simp only: unsigned_push_bit_eq) (simp add: fl_value_def push_bit_eq_mult take_bit_eq_mod)
    then show ?thesis using lt False s
      by (simp only: fl2int_take_bit Let_def n_def [symmetric] if_False)
  qed
qed

lemma decode_drops_value:
  "unat (snd (decode_l4s_in_ip_identification ident)) = fl_value DROPS_M (unat ident div 2 ^ 11)"
proof -
  have "unat ident < 2 ^ 16" using unsigned_less [of ident] by simp
  then have b: "unat ident div 2 ^ 11 < 2 ^ 5" by simp
  have "unat (drop_bit 11 ident) = unat ident div 2 ^ 11" by (rule unat_drop_bit_div)
  then have "unat (ucast (drop_bit 11 ident) :: u32) = unat ident div 2 ^ 11"
    using b by (simp only: unsigned_ucast_eq) (simp add: take_bit_eq_mod)
  then show ?thesis using b by (simp add: decode_l4s_in_ip_identification_def Let_def fl2int_value)
qed

lemma decode_drops_bound: "unat (snd (decode_l4s_in_ip_identification ident)) \<le> 448"
proof -
  have "unat ident < 2 ^ 16" using unsigned_less [of ident] by simp
  then have "unat ident div 2 ^ 11 \<le> 31" by simp
  then have "fl_value DROPS_M (unat ident div 2 ^ 11) \<le> fl_value DROPS_M 31"
    by (simp add: strict_mono_less_eq [OF fl_value_strict_mono])
  then show ?thesis by (simp add: decode_drops_value) (simp add: fl_value_def)
qed

lemma decode_delay: "unat (fst (decode_l4s_in_ip_identification ident)) = unat ident mod 2 ^ 11"
proof -
  have "ident AND 2047 = take_bit 11 ident" by (simp add: take_bit_eq_mask mask_eq_exp_minus_1)
  then have "unat (ident AND 2047) = unat ident mod 2 ^ 11" by (simp only: unat_take_bit_mod)
  moreover have "take_bit 32 (unat ident mod 2 ^ 11) = unat ident mod 2 ^ 11" by (simp add: take_bit_nat_eq_self)
  ultimately show ?thesis
    by (simp add: decode_l4s_in_ip_identification_def Let_def unsigned_ucast_eq)
qed

text \<open>Nothing of the field is lost: two identifications with the same delay and the same drops are equal.\<close>

lemma decode_l4s_injective: "inj decode_l4s_in_ip_identification"
proof (rule injI)
  fix a b
  assume eq: "decode_l4s_in_ip_identification a = decode_l4s_in_ip_identification b"
  have "unat a mod 2 ^ 11 = unat b mod 2 ^ 11" using eq decode_delay by metis
  moreover have "fl_value DROPS_M (unat a div 2 ^ 11) = fl_value DROPS_M (unat b div 2 ^ 11)"
    using eq decode_drops_value by metis
  then have "unat a div 2 ^ 11 = unat b div 2 ^ 11" by (simp only: strict_mono_eq [OF fl_value_strict_mono])
  ultimately have "unat a = unat b" by (metis div_mult_mod_eq)
  then show "a = b" by (simp add: word_unat_eq_iff)
qed

end
