(* ===== verification/Forward.thy ===== *)
theory Forward
  imports Config
begin

text \<open>
  Forwarding of packets, \<^verbatim>\<open>src/src/modules/security/forward\<close>: \<^verbatim>\<open>forward_packet.c\<close>, the injectors \<^verbatim>\<open>pcap/inject_packet.c\<close>,
  \<^verbatim>\<open>dpdk/inject_packet.c\<close>, \<^verbatim>\<open>proto/inject_{proto,sctp,udp}.c\<close>. A packet is copied, security rules may change the copy, send it or drop it, and a packet that no rule has
  handled gets the default action.

  What leaves the program is a list of attempts to send, each with the answer of the network (\<open>fwd_env\<close>).
\<close>

section \<open>Injectors\<close>

datatype wire = Wire_pcap "u8 list" | Wire_sctp "u8 list" | Wire_udp "u8 list"

fun wire_bytes :: "wire \<Rightarrow> u8 list" where
  "wire_bytes (Wire_pcap b) = b"
| "wire_bytes (Wire_sctp b) = b"
| "wire_bytes (Wire_udp b) = b"

type_synonym attempts = "(wire \<times> bool) list"

text \<open>\<open>accepts w i\<close>: sending the \<open>i\<close>-th copy returns a positive number. \<open>update_ngap\<close> is the function of MMT-DPI that changes a packet.\<close>

record fwd_packet =
  f_data :: "u8 list"
  f_caplen :: u32
  f_sctp_offset :: "nat option"
  f_udp_offset :: "nat option"

record fwd_env =
  accepts :: "wire \<Rightarrow> nat \<Rightarrow> bool"
  update_ngap_data :: "u8 list \<Rightarrow> u16 \<Rightarrow> fwd_packet \<Rightarrow> u32 \<Rightarrow> u32 \<Rightarrow> u64 \<Rightarrow> u8 list \<times> u32"
  connect_ok :: "forward_packet_target_conf \<Rightarrow> bool"
  pcap_open_ok :: bool

text \<open>The loop over the copies that the three injectors have; the counter has 16 bits.\<close>

fun send_loop :: "fwd_env \<Rightarrow> wire \<Rightarrow> nat list \<Rightarrow> attempts \<times> u16" where
  "send_loop E w [] = ([], 0)"
| "send_loop E w (i # is) =
     (let (ws, nb_pkt_sent) = send_loop E w is
      in ((w, accepts E w i) # ws, if accepts E w i then nb_pkt_sent + 1 else nb_pkt_sent))"

definition inject_packet_send_packet :: "fwd_env \<Rightarrow> u16 \<Rightarrow> u8 list \<Rightarrow> attempts \<times> u16" where
  "inject_packet_send_packet E nb_copies packet_data = send_loop E (Wire_pcap packet_data) [0..<unat nb_copies]"

definition inject_sctp_send_packet :: "fwd_env \<Rightarrow> u16 \<Rightarrow> u8 list \<Rightarrow> attempts \<times> u16" where
  "inject_sctp_send_packet E nb_copies packet_data = send_loop E (Wire_sctp packet_data) [0..<unat nb_copies]"

definition inject_udp_send_packet :: "fwd_env \<Rightarrow> u16 \<Rightarrow> u8 list \<Rightarrow> attempts \<times> u16" where
  "inject_udp_send_packet E nb_copies packet_data = send_loop E (Wire_udp packet_data) [0..<unat nb_copies]"

text \<open>An injector is its number of copies, cut to 16 bits; the ones for protocols are NULL unless a target names them.\<close>

record inject_proto_context =
  ip_sctp :: "u16 option"
  ip_udp :: "u16 option"

definition inject_target_alloc :: "fwd_env \<Rightarrow> forward_packet_target_conf \<Rightarrow> nat \<Rightarrow> u16 cres" where
  "inject_target_alloc E target nb_copies = (if connect_ok E target then Inr (of_nat nb_copies) else Inl Aborted)"

fun inject_proto_alloc :: "fwd_env \<Rightarrow> nat \<Rightarrow> forward_packet_target_conf list \<Rightarrow> inject_proto_context \<Rightarrow> inject_proto_context cres" where
  "inject_proto_alloc E nb_copies [] context = Inr context"
| "inject_proto_alloc E nb_copies (target # ts) context =
     bindE (inject_target_alloc E target nb_copies) (\<lambda>inj.
       inject_proto_alloc E nb_copies ts
         (case t_protocol target of FORWARD_PACKET_PROTO_SCTP \<Rightarrow> context\<lparr>ip_sctp := Some inj\<rparr>
          | FORWARD_PACKET_PROTO_UDP \<Rightarrow> context\<lparr>ip_udp := Some inj\<rparr>))"

definition SCTP_DATAHDR_SIZE :: nat where
  "SCTP_DATAHDR_SIZE = 16"

definition get_sctp_data_offset :: "fwd_packet \<Rightarrow> nat option" where
  "get_sctp_data_offset p = map_option (\<lambda>offset. offset + SCTP_DATAHDR_SIZE) (f_sctp_offset p)"

definition get_udp_data_offset :: "fwd_packet \<Rightarrow> nat option" where
  "get_udp_data_offset p = map_option (\<lambda>offset. offset + 8) (f_udp_offset p)"

text \<open>The bytes \<^verbatim>\<open>packet_data + offset\<close> with the length \<^verbatim>\<open>packet_size - offset\<close> as 16 bits.\<close>

definition payload_at :: "u8 list \<Rightarrow> u16 \<Rightarrow> nat \<Rightarrow> u8 list cres" where
  "payload_at packet_data packet_size offset =
     (let n = unat (packet_size - of_nat offset)
      in if offset + n \<le> length packet_data then Inr (take n (drop offset packet_data)) else Inl OutOfBounds)"

definition inject_via ::
  "(u16 \<Rightarrow> u8 list \<Rightarrow> attempts \<times> u16) \<Rightarrow> u16 option \<Rightarrow> nat option \<Rightarrow> u8 list \<Rightarrow> u16 \<Rightarrow> (attempts \<times> int) cres" where
  "inject_via send injector offset packet_data packet_size =
     (case (injector, offset) of
        (Some n, Some off) \<Rightarrow> bindE (payload_at packet_data packet_size off) (\<lambda>b. let (ws, k) = send n b in Inr (ws, uint k))
      | _ \<Rightarrow> Inr ([], 0))"

definition INJECT_PROTO_NO_AVAIL :: int where
  "INJECT_PROTO_NO_AVAIL = - 1"

definition inject_proto_send_packet ::
  "fwd_env \<Rightarrow> inject_proto_context \<Rightarrow> fwd_packet \<Rightarrow> u8 list \<Rightarrow> u16 \<Rightarrow> (attempts \<times> int) cres" where
  "inject_proto_send_packet E context p packet_data packet_size =
     bindE (inject_via (inject_sctp_send_packet E) (ip_sctp context) (get_sctp_data_offset p) packet_data packet_size) (\<lambda>(ws, k).
     bindE (inject_via (inject_udp_send_packet E) (ip_udp context) (get_udp_data_offset p) packet_data packet_size) (\<lambda>(ws', k').
       Inr (ws @ ws', if k + k' = 0 then INJECT_PROTO_NO_AVAIL else k + k')))"

section \<open>Forwarding\<close>

record forward_stat =
  fs_nb_packets :: u32
  fs_nb_bytes :: u32
  fs_last_time :: int

record forward_context =
  fw_config :: forward_packet_conf
  nb_forwarded_packets :: u64
  nb_dropped_packets :: u64
  fw_packet_data :: "u8 list"
  fw_packet_size :: u16
  has_a_satisfied_rule :: bool
  fw_ipacket :: fwd_packet
  fw_injector :: u16
  fw_proto_injector :: inject_proto_context
  fw_stat :: forward_stat

definition update_stat :: "int \<Rightarrow> u32 \<Rightarrow> forward_context \<Rightarrow> forward_context" where
  "update_stat now nb_packets context =
     (let st = fw_stat context;
          st = st\<lparr>fs_nb_packets := fs_nb_packets st + nb_packets,
                  fs_nb_bytes := fs_nb_bytes st + nb_packets * ucast (fw_packet_size context)\<rparr>
      in context\<lparr>fw_stat := if now \<noteq> fs_last_time st then \<lparr>fs_nb_packets = 0, fs_nb_bytes = 0, fs_last_time = now\<rparr> else st\<rparr>)"

definition send_packet_to_nic :: "fwd_env \<Rightarrow> int \<Rightarrow> forward_context \<Rightarrow> (forward_context \<times> attempts \<times> bool) cres" where
  "send_packet_to_nic E now context =
     bindE (inject_proto_send_packet E (fw_proto_injector context) (fw_ipacket context) (fw_packet_data context) (fw_packet_size context)) (\<lambda>(ws, ret).
     bindE (if ret = INJECT_PROTO_NO_AVAIL
            then bindE (payload_at (fw_packet_data context) (fw_packet_size context) 0) (\<lambda>b.
                 let (ws', k) = inject_packet_send_packet E (fw_injector context) b in Inr (ws @ ws', uint k))
            else Inr (ws, ret)) (\<lambda>(ws, ret).
     Inr (if ret > 0
          then (update_stat now (of_int ret) (context\<lparr>nb_forwarded_packets := nb_forwarded_packets context + of_int ret\<rparr>), ws, True)
          else (context, ws, False))))"

text \<open>\<open>fresh\<close> is the content of the 65535 bytes allocated for the copy.\<close>

definition forward_packet_alloc :: "fwd_env \<Rightarrow> int \<Rightarrow> u8 list \<Rightarrow> fwd_packet \<Rightarrow> probe_conf \<Rightarrow> forward_context option cres" where
  "forward_packet_alloc E now fresh none config =
     bindE (deref (forward_packet config)) (\<lambda>conf.
     if \<not> fp_is_enable conf then Inr None
     else if thread_count (thread config) \<noteq> 0 then Inl Aborted
     else bindE (deref (security (reports config))) (\<lambda>sec.
          if threads_size sec \<noteq> 0 then Inl Aborted
          else bindE (inject_proto_alloc E (fp_nb_copies conf) (fp_targets conf) \<lparr>ip_sctp = None, ip_udp = None\<rparr>) (\<lambda>proto.
               if \<not> pcap_open_ok E then Inl Aborted
               else Inr (Some \<lparr>fw_config = conf, nb_forwarded_packets = 0, nb_dropped_packets = 0, fw_packet_data = fresh, fw_packet_size = 0,
                               has_a_satisfied_rule = False, fw_ipacket = none, fw_injector = of_nat (fp_nb_copies conf),
                               fw_proto_injector = proto,
                               fw_stat = \<lparr>fs_nb_packets = 0, fs_nb_bytes = 0, fs_last_time = now\<rparr>\<rparr>))))"

text \<open>The two counters that are logged at the end.\<close>

definition forward_packet_release :: "forward_context option \<Rightarrow> (u64 \<times> u64) option" where
  "forward_packet_release context = map_option (\<lambda>c. (nb_forwarded_packets c, nb_dropped_packets c)) context"

definition forward_packet_mark_being_satisfied :: "forward_context option \<Rightarrow> forward_context option" where
  "forward_packet_mark_being_satisfied context = map_option (\<lambda>c. c\<lparr>has_a_satisfied_rule := True\<rparr>) context"

text \<open>The copy of the packet; its size is cut to 16 bits, so the buffer of 65535 bytes is large enough.\<close>

definition forward_before :: "fwd_packet \<Rightarrow> forward_context option \<Rightarrow> forward_context option cres" where
  "forward_before p context =
     (case context of None \<Rightarrow> Inr None
      | Some c \<Rightarrow>
          let n = ucast (f_caplen p) :: u16;
              c = c\<lparr>fw_ipacket := p, fw_packet_size := n, has_a_satisfied_rule := False\<rparr>
          in if length (f_data p) < unat n then Inl OutOfBounds
             else bindE (memcpy (fw_packet_data c) 0 (take (unat n) (f_data p))) (\<lambda>m. Inr (Some (c\<lparr>fw_packet_data := m\<rparr>))))"

definition forward_after :: "fwd_env \<Rightarrow> int \<Rightarrow> forward_context option \<Rightarrow> (forward_context option \<times> attempts) cres" where
  "forward_after E now context =
     (case context of None \<Rightarrow> Inr (None, [])
      | Some c \<Rightarrow>
          if has_a_satisfied_rule c then Inr (Some c, [])
          else if fp_default_action (fw_config c) = 1 then Inr (Some (c\<lparr>nb_dropped_packets := nb_dropped_packets c + 1\<rparr>), [])
          else bindE (send_packet_to_nic E now c) (\<lambda>(c, ws, ok).
               Inr (Some (if ok then c else c\<lparr>nb_dropped_packets := nb_dropped_packets c + 1\<rparr>), ws)))"

text \<open>The functions that rules call, on the context in \<^verbatim>\<open>cache\<close>.\<close>

definition mmt_probe_do_not_forward_packet :: "forward_context option \<Rightarrow> forward_context option" where
  "mmt_probe_do_not_forward_packet context = map_option (\<lambda>c. c\<lparr>nb_dropped_packets := nb_dropped_packets c + 1\<rparr>) context"

definition mmt_probe_forward_packet :: "fwd_env \<Rightarrow> int \<Rightarrow> forward_context option \<Rightarrow> (forward_context option \<times> attempts) cres" where
  "mmt_probe_forward_packet E now context =
     (case context of None \<Rightarrow> Inr (None, [])
      | Some c \<Rightarrow> bindE (send_packet_to_nic E now c) (\<lambda>(c, ws, _). Inr (Some c, ws)))"

definition mmt_probe_set_attribute_number_value :: "fwd_env \<Rightarrow> u32 \<Rightarrow> u32 \<Rightarrow> u64 \<Rightarrow> forward_context option \<Rightarrow> forward_context option" where
  "mmt_probe_set_attribute_number_value E proto_id att_id new_val context =
     map_option (\<lambda>c. c\<lparr>fw_packet_data :=
       fst (update_ngap_data E (fw_packet_data c) (fw_packet_size c) (fw_ipacket c) proto_id att_id new_val)\<rparr>) context"

text \<open>What the rules do with one packet, and the calls around them (\<^verbatim>\<open>_security_packet_handler\<close>).\<close>

datatype rule_action = Rule_satisfied | Rule_drop | Rule_forward | Rule_update u32 u32 u64

fun run_rules :: "fwd_env \<Rightarrow> int \<Rightarrow> rule_action list \<Rightarrow> forward_context option \<Rightarrow> (forward_context option \<times> attempts) cres" where
  "run_rules E now [] c = Inr (c, [])"
| "run_rules E now (Rule_satisfied # as) c = run_rules E now as (forward_packet_mark_being_satisfied c)"
| "run_rules E now (Rule_drop # as) c = run_rules E now as (mmt_probe_do_not_forward_packet c)"
| "run_rules E now (Rule_update p a v # as) c = run_rules E now as (mmt_probe_set_attribute_number_value E p a v c)"
| "run_rules E now (Rule_forward # as) c =
     bindE (mmt_probe_forward_packet E now c) (\<lambda>(c, ws). bindE (run_rules E now as c) (\<lambda>(c, ws'). Inr (c, ws @ ws')))"

definition forward_one :: "fwd_env \<Rightarrow> int \<times> rule_action list \<times> fwd_packet \<Rightarrow> forward_context option \<Rightarrow> (forward_context option \<times> attempts) cres" where
  "forward_one E x c =
     (case x of (now, as, p) \<Rightarrow>
        bindE (forward_before p c) (\<lambda>c. bindE (run_rules E now as c) (\<lambda>(c, ws).
        bindE (forward_after E now c) (\<lambda>(c, ws'). Inr (c, ws @ ws')))))"

fun forward_all ::
  "fwd_env \<Rightarrow> (int \<times> rule_action list \<times> fwd_packet) list \<Rightarrow> forward_context option \<Rightarrow> (forward_context option \<times> attempts list) cres" where
  "forward_all E [] c = Inr (c, [])"
| "forward_all E (x # xs) c =
     bindE (forward_one E x c) (\<lambda>(c, ws). bindE (forward_all E xs c) (\<lambda>(c, wss). Inr (c, ws # wss)))"

section \<open>Injection by DPDK\<close>

text \<open>
  Packets are sent in bursts of at most 64; \<open>tx k n\<close> is how many of \<open>n\<close> packets the device takes at the \<open>k\<close>-th call. The inner loop runs until the
  burst is gone.
\<close>

partial_function (option) burst_loop :: "(nat \<Rightarrow> nat \<Rightarrow> nat) \<Rightarrow> nat \<Rightarrow> nat \<Rightarrow> nat \<Rightarrow> nat option" where
  "burst_loop tx max_burst k i =
     (let i = i + min (tx k (max_burst - i)) (max_burst - i)
      in if i < max_burst then burst_loop tx max_burst (k + 1) i else Some k)"

definition MAX_PKT_BURST :: nat where
  "MAX_PKT_BURST = 64"

function dpdk_send :: "(nat \<Rightarrow> nat \<Rightarrow> nat) \<Rightarrow> nat \<Rightarrow> nat \<Rightarrow> nat option" where
  "dpdk_send tx k nb_pkt_to_send =
     (if nb_pkt_to_send = 0 then Some 0
      else let max_burst = min nb_pkt_to_send MAX_PKT_BURST
           in case burst_loop tx max_burst k 0 of None \<Rightarrow> None
              | Some k' \<Rightarrow> map_option (\<lambda>n. max_burst + n) (dpdk_send tx (k' + 1) (nb_pkt_to_send - max_burst)))"
  by pat_completeness auto
termination by (relation "measure (\<lambda>(_, _, n). n)") (auto simp: MAX_PKT_BURST_def)

declare dpdk_send.simps [simp del]

section \<open>Lemmas\<close>

lemma burst_loop_ends:
  assumes "\<And>k n. 0 < n \<Longrightarrow> \<exists>k' \<ge> k. 0 < tx k' n" "i \<le> max_burst"
  shows "\<exists>k'. burst_loop tx max_burst k i = Some k'"
proof (cases "i = max_burst")
  case False
  have "\<exists>k'. burst_loop tx max_burst k j = Some k'" if "j < max_burst" for j
    using that
  proof (induction "max_burst - j" arbitrary: j k rule: less_induct)
    case less
    obtain k1 where k1: "k1 \<ge> k" "0 < tx k1 (max_burst - j)" using assms(1) [of "max_burst - j" k] less.prems by auto
    from k1 show ?case
    proof (induction "k1 - k" arbitrary: k)
      case 0
      define j' where "j' = j + min (tx k (max_burst - j)) (max_burst - j)"
      have "0 < tx k (max_burst - j)" using 0 by simp
      then have "j < j'" using less.prems by (simp add: j'_def)
      then have "\<exists>k'. burst_loop tx max_burst (k + 1) j' = Some k'" if "j' < max_burst"
        using less.hyps [of j' "k + 1"] that less.prems by auto
      then show ?case by (subst burst_loop.simps) (auto simp: Let_def j'_def [symmetric])
    next
      case (Suc d)
      define j' where "j' = j + min (tx k (max_burst - j)) (max_burst - j)"
      have "\<exists>k'. burst_loop tx max_burst (k + 1) j' = Some k'" if "j' < max_burst"
      proof (cases "tx k (max_burst - j) = 0")
        case True
        then show ?thesis using Suc.hyps(1) [of "k + 1"] Suc.hyps(2) Suc.prems by (simp add: j'_def)
      next
        case False
        then have "j < j'" using less.prems by (simp add: j'_def)
        then show ?thesis using less.hyps [of j' "k + 1"] that less.prems by auto
      qed
      then show ?case by (subst burst_loop.simps) (auto simp: Let_def j'_def [symmetric])
    qed
  qed
  then show ?thesis using False assms(2) by simp
next
  case True
  then show ?thesis by (subst burst_loop.simps) (simp add: Let_def)
qed

text \<open>If the device takes packets again and again, all copies are sent.\<close>

lemma dpdk_send_all:
  assumes "\<And>k n. 0 < n \<Longrightarrow> \<exists>k' \<ge> k. 0 < tx k' n"
  shows "dpdk_send tx k n = Some n"
proof (induction n arbitrary: k rule: less_induct)
  case (less n)
  show ?case
  proof (cases "n = 0")
    case False
    obtain k' where "burst_loop tx (min n MAX_PKT_BURST) k 0 = Some k'" using burst_loop_ends [of tx 0 "min n MAX_PKT_BURST" k] assms by auto
    moreover have "n - min n MAX_PKT_BURST < n" using False by (simp add: MAX_PKT_BURST_def)
    ultimately show ?thesis using False less [of "n - min n MAX_PKT_BURST"] by (subst dpdk_send.simps) simp
  qed (simp add: dpdk_send.simps)
qed

text \<open>Which attempts were accepted, and the loop as a count.\<close>

definition accepted :: "attempts \<Rightarrow> nat" where
  "accepted ws = length (filter snd ws)"

lemma accepted_append [simp]: "accepted (ws @ ws') = accepted ws + accepted ws'" "accepted [] = 0"
  by (simp_all add: accepted_def)

lemma send_loop_result:
  assumes "send_loop E w is = (ws, k)" "length is < 2 ^ 16"
  shows "map fst ws = replicate (length is) w" "uint k = int (accepted ws)"
proof -
  have "map fst ws = replicate (length is) w \<and> k = of_nat (accepted ws) \<and> accepted ws \<le> length is"
    using assms(1) by (induction "is" arbitrary: ws k) (auto simp: accepted_def Let_def split: prod.splits if_splits)
  then have m: "map fst ws = replicate (length is) w" and u: "unat k = accepted ws" using assms(2) by (auto simp: unat_of_nat)
  show "map fst ws = replicate (length is) w" by (rule m)
  show "uint k = int (accepted ws)" using u by (simp add: uint_nat)
qed

lemma unat_u16: "unat (n :: u16) < 2 ^ 16"
  using unsigned_less [of n, where 'a = nat] by simp

lemma inject_results:
  "inject_packet_send_packet E n b = (ws, k) \<Longrightarrow> uint k = int (accepted ws) \<and> map fst ws = replicate (unat n) (Wire_pcap b)"
  "inject_sctp_send_packet E n b = (ws, k) \<Longrightarrow> uint k = int (accepted ws) \<and> map fst ws = replicate (unat n) (Wire_sctp b)"
  "inject_udp_send_packet E n b = (ws, k) \<Longrightarrow> uint k = int (accepted ws) \<and> map fst ws = replicate (unat n) (Wire_udp b)"
  using send_loop_result [of E _ "[0..<unat n]" ws k] unat_u16 [of n]
  by (auto simp: inject_packet_send_packet_def inject_sctp_send_packet_def inject_udp_send_packet_def)

text \<open>The bytes of every attempt are the end of the packet, from an offset within it.\<close>

definition carries :: "u8 list \<Rightarrow> attempts \<Rightarrow> bool" where
  "carries b ws \<longleftrightarrow> (\<forall>w \<in> set ws. \<exists>off \<le> length b. wire_bytes (fst w) = drop off b)"

lemma carries_append [simp]: "carries b (ws @ ws') \<longleftrightarrow> carries b ws \<and> carries b ws'" "carries b []"
  by (auto simp: carries_def)

lemma carries_replicate: "map fst ws = replicate n w \<Longrightarrow> off \<le> length b \<Longrightarrow> wire_bytes w = drop off b \<Longrightarrow> carries b ws"
  unfolding carries_def by (metis imageI in_set_replicate list.set_map)

lemma payload_at_ok:
  assumes "off \<le> unat n" "unat n \<le> length m"
  shows "payload_at m n off = Inr (drop off (take (unat n) m))"
proof -
  have "unat (n - of_nat off) = unat n - off"
    using assms(1) unat_u16 [of n] by (simp add: unat_sub unat_of_nat word_le_nat_alt)
  then show ?thesis using assms by (simp add: payload_at_def drop_take Let_def)
qed

definition offset_ok :: "nat option \<Rightarrow> u16 \<Rightarrow> bool" where
  "offset_ok off n \<longleftrightarrow> (case off of None \<Rightarrow> True | Some off \<Rightarrow> off \<le> unat n)"

lemma inject_via_result:
  assumes "\<And>n b ws k. send n b = (ws, k) \<Longrightarrow> uint k = int (accepted ws) \<and> map fst ws = replicate (unat n) (W b)"
    and "\<And>b. wire_bytes (W b) = b" "offset_ok off n" "unat n \<le> length m"
  shows "\<exists>ws. inject_via send injector off m n = Inr (ws, int (accepted ws)) \<and> carries (take (unat n) m) ws"
proof (cases "injector = None \<or> off = None")
  case False
  then obtain c o' where c: "injector = Some c" "off = Some o'" by auto
  then have o: "o' \<le> unat n" using assms(3) by (simp add: offset_ok_def)
  obtain ws k where s: "send c (drop o' (take (unat n) m)) = (ws, k)" by fastforce
  note r = assms(1) [OF s]
  have "carries (take (unat n) m) ws" using r o assms(2,4) by (intro carries_replicate [of ws _ _ o']) auto
  then show ?thesis using r s payload_at_ok [OF o assms(4)] c by (simp add: inject_via_def)
qed (auto simp: inject_via_def split: option.splits)

text \<open>Sending: the result is whether some attempt was accepted, and the counter grows by the accepted attempts.\<close>

lemma send_packet_to_nic_result:
  assumes "offset_ok (get_sctp_data_offset (fw_ipacket c)) (fw_packet_size c)" "offset_ok (get_udp_data_offset (fw_ipacket c)) (fw_packet_size c)"
    and "unat (fw_packet_size c) \<le> length (fw_packet_data c)"
  shows "\<exists>ws st. send_packet_to_nic E now c
       = Inr (c\<lparr>nb_forwarded_packets := nb_forwarded_packets c + of_nat (accepted ws), fw_stat := st\<rparr>, ws, accepted ws > 0)
     \<and> carries (take (unat (fw_packet_size c)) (fw_packet_data c)) ws"
proof -
  let ?n = "fw_packet_size c" and ?m = "fw_packet_data c"
  obtain w1 where w1: "inject_via (inject_sctp_send_packet E) (ip_sctp (fw_proto_injector c)) (get_sctp_data_offset (fw_ipacket c)) ?m ?n
      = Inr (w1, int (accepted w1))" "carries (take (unat ?n) ?m) w1"
    using inject_via_result [of "inject_sctp_send_packet E" Wire_sctp] inject_results(2) assms by fastforce
  obtain w2 where w2: "inject_via (inject_udp_send_packet E) (ip_udp (fw_proto_injector c)) (get_udp_data_offset (fw_ipacket c)) ?m ?n
      = Inr (w2, int (accepted w2))" "carries (take (unat ?n) ?m) w2"
    using inject_via_result [of "inject_udp_send_packet E" Wire_udp] inject_results(3) assms by fastforce
  obtain w3 k where w3: "inject_packet_send_packet E (fw_injector c) (take (unat ?n) ?m) = (w3, k)" by fastforce
  have c3: "carries (take (unat ?n) ?m) w3" "uint k = int (accepted w3)"
    using inject_results(1) [OF w3] carries_replicate [of w3 _ "Wire_pcap (take (unat ?n) ?m)" 0 "take (unat ?n) ?m"] by auto
  have p: "payload_at ?m ?n 0 = Inr (take (unat ?n) ?m)" using payload_at_ok [of 0 ?n ?m] assms(3) by simp
  define ws where "ws = (if accepted (w1 @ w2) = 0 then (w1 @ w2) @ w3 else w1 @ w2)"
  have "inject_proto_send_packet E (fw_proto_injector c) (fw_ipacket c) ?m ?n
      = Inr (w1 @ w2, if accepted (w1 @ w2) = 0 then INJECT_PROTO_NO_AVAIL else int (accepted (w1 @ w2)))"
    by (simp add: inject_proto_send_packet_def w1(1) w2(1))
  then have "send_packet_to_nic E now c
      = Inr (if accepted ws > 0 then (update_stat now (of_nat (accepted ws)) (c\<lparr>nb_forwarded_packets := nb_forwarded_packets c + of_nat (accepted ws)\<rparr>), ws, True)
             else (c, ws, False))"
    by (auto simp: send_packet_to_nic_def INJECT_PROTO_NO_AVAIL_def p w3 c3(2) ws_def Let_def)
  moreover have "carries (take (unat ?n) ?m) ws" using w1(2) w2(2) c3(1) by (simp add: ws_def)
  ultimately show ?thesis
    by (intro exI [of _ ws] exI [of _ "if accepted ws > 0 then fw_stat (update_stat now (of_nat (accepted ws)) c) else fw_stat c"])
      (auto simp: update_stat_def Let_def)
qed

section \<open>Accounting\<close>

text \<open>A context while a packet is processed: the copy fits, and the offsets of MMT-DPI are within the packet.\<close>

definition context_fits :: "forward_context \<Rightarrow> bool" where
  "context_fits c \<longleftrightarrow> length (fw_packet_data c) = 65535 \<and> offset_ok (get_sctp_data_offset (fw_ipacket c)) (fw_packet_size c)
     \<and> offset_ok (get_udp_data_offset (fw_ipacket c)) (fw_packet_size c)"

definition packet_fits :: "fwd_packet \<Rightarrow> bool" where
  "packet_fits p \<longleftrightarrow> unat (ucast (f_caplen p) :: u16) \<le> length (f_data p)
     \<and> offset_ok (get_sctp_data_offset p) (ucast (f_caplen p)) \<and> offset_ok (get_udp_data_offset p) (ucast (f_caplen p))"

text \<open>MMT-DPI changes a packet in place.\<close>

definition keeps_length :: "fwd_env \<Rightarrow> bool" where
  "keeps_length E \<longleftrightarrow> (\<forall>m n p proto att v. length (fst (update_ngap_data E m n p proto att v)) = length m)"

definition same_packet :: "forward_context \<Rightarrow> forward_context \<Rightarrow> bool" where
  "same_packet c d \<longleftrightarrow> fw_config d = fw_config c \<and> fw_ipacket d = fw_ipacket c \<and> fw_packet_size d = fw_packet_size c
     \<and> length (fw_packet_data d) = length (fw_packet_data c)"

lemma size_fits: "context_fits c \<Longrightarrow> unat (fw_packet_size c) \<le> length (fw_packet_data c)"
  using unat_u16 [of "fw_packet_size c"] by (simp add: context_fits_def)

lemma context_fits_same: "context_fits c \<Longrightarrow> same_packet c d \<Longrightarrow> context_fits d"
  by (simp add: context_fits_def same_packet_def)

lemmas send_ok = send_packet_to_nic_result [OF _ _ size_fits]

lemma run_rules_counts:
  assumes "keeps_length E" "context_fits c"
  shows "\<exists>d ws. run_rules E now as (Some c) = Inr (Some d, ws) \<and> same_packet c d
     \<and> nb_forwarded_packets d = nb_forwarded_packets c + of_nat (accepted ws)
     \<and> nb_dropped_packets d = nb_dropped_packets c + of_nat (count_list as Rule_drop)
     \<and> has_a_satisfied_rule d = (has_a_satisfied_rule c \<or> Rule_satisfied \<in> set as)
     \<and> (as = [] \<longrightarrow> d = c \<and> ws = [])"
  using assms(2)
proof (induction as arbitrary: c)
  case (Cons a as)
  have step: ?case
    if d: "same_packet c c1" "nb_forwarded_packets c1 = nb_forwarded_packets c + of_nat (accepted w1)"
      "nb_dropped_packets c1 = nb_dropped_packets c + of_nat (count_list [a] Rule_drop)"
      "has_a_satisfied_rule c1 = (has_a_satisfied_rule c \<or> Rule_satisfied = a)"
      and r: "\<And>d ws. run_rules E now as (Some c1) = Inr (Some d, ws) \<Longrightarrow> run_rules E now (a # as) (Some c) = Inr (Some d, w1 @ ws)" for c1 w1
  proof -
    obtain e ws where e: "run_rules E now as (Some c1) = Inr (Some e, ws)" "same_packet c1 e"
      "nb_forwarded_packets e = nb_forwarded_packets c1 + of_nat (accepted ws)"
      "nb_dropped_packets e = nb_dropped_packets c1 + of_nat (count_list as Rule_drop)"
      "has_a_satisfied_rule e = (has_a_satisfied_rule c1 \<or> Rule_satisfied \<in> set as)"
      using Cons.IH [OF context_fits_same [OF Cons.prems d(1)]] by auto
    show ?thesis using r [OF e(1)] d e(2-)
      by (intro exI [of _ e] exI [of _ "w1 @ ws"]) (auto simp: same_packet_def)
  qed
  show ?case
  proof (cases a)
    case Rule_satisfied
    then show ?thesis
      by (intro step [of "c\<lparr>has_a_satisfied_rule := True\<rparr>" "[]"]) (simp_all add: same_packet_def forward_packet_mark_being_satisfied_def)
  next
    case Rule_drop
    then show ?thesis
      by (intro step [of "c\<lparr>nb_dropped_packets := nb_dropped_packets c + 1\<rparr>" "[]"]) (simp_all add: same_packet_def mmt_probe_do_not_forward_packet_def)
  next
    case (Rule_update p t v)
    then show ?thesis using assms(1)
      by (intro step [of "c\<lparr>fw_packet_data := fst (update_ngap_data E (fw_packet_data c) (fw_packet_size c) (fw_ipacket c) p t v)\<rparr>" "[]"])
        (simp_all add: same_packet_def mmt_probe_set_attribute_number_value_def keeps_length_def)
  next
    case Rule_forward
    obtain w1 st where s: "send_packet_to_nic E now c
        = Inr (c\<lparr>nb_forwarded_packets := nb_forwarded_packets c + of_nat (accepted w1), fw_stat := st\<rparr>, w1, accepted w1 > 0)"
      using send_ok [of c E now] Cons.prems by (auto simp: context_fits_def)
    then show ?thesis using Rule_forward
      by (intro step [of "c\<lparr>nb_forwarded_packets := nb_forwarded_packets c + of_nat (accepted w1), fw_stat := st\<rparr>" w1])
        (simp_all add: same_packet_def mmt_probe_forward_packet_def)
  qed
qed (simp add: same_packet_def)

text \<open>How often one packet is counted as dropped: by the rules, or because no rule has handled it and the default action did not send it.\<close>

definition drops :: "forward_packet_conf \<Rightarrow> rule_action list \<Rightarrow> attempts \<Rightarrow> nat" where
  "drops conf as ws = count_list as Rule_drop
     + (if Rule_satisfied \<in> set as then 0 else if fp_default_action conf = 1 \<or> accepted ws = 0 then 1 else 0)"

definition copy_of :: "fwd_packet \<Rightarrow> u8 list" where
  "copy_of p = take (unat (ucast (f_caplen p) :: u16)) (f_data p)"

lemma forward_before_ok:
  assumes "packet_fits p" "length (fw_packet_data c) = 65535"
  shows "\<exists>m. forward_before p (Some c) = Inr (Some (c\<lparr>fw_ipacket := p, fw_packet_size := ucast (f_caplen p), has_a_satisfied_rule := False,
       fw_packet_data := m\<rparr>)) \<and> length m = 65535 \<and> take (unat (ucast (f_caplen p) :: u16)) m = copy_of p"
proof -
  let ?n = "unat (ucast (f_caplen p) :: u16)"
  have l: "length (take ?n (f_data p)) = ?n" "?n \<le> 65535" using assms(1) unat_u16 [of "ucast (f_caplen p)"] by (auto simp: packet_fits_def)
  then have m: "memcpy (fw_packet_data c) 0 (take ?n (f_data p)) = Inr (blit (fw_packet_data c) 0 (take ?n (f_data p)))"
    using assms(2) by simp
  show ?thesis
    using assms m l take_blit [of 0 "take ?n (f_data p)" "fw_packet_data c"]
    by (intro exI [of _ "blit (fw_packet_data c) 0 (take ?n (f_data p))"]) (simp add: forward_before_def packet_fits_def copy_of_def Let_def)
qed

lemma forward_one_counts:
  assumes "keeps_length E" "packet_fits p" "length (fw_packet_data c) = 65535" "as = [] \<or> Rule_satisfied \<in> set as"
  shows "\<exists>d ws. forward_one E (now, as, p) (Some c) = Inr (Some d, ws) \<and> fw_config d = fw_config c \<and> length (fw_packet_data d) = 65535
     \<and> nb_forwarded_packets d = nb_forwarded_packets c + of_nat (accepted ws)
     \<and> nb_dropped_packets d = nb_dropped_packets c + of_nat (drops (fw_config c) as ws) \<and> (as = [] \<longrightarrow> carries (copy_of p) ws)"
proof -
  obtain m where b: "forward_before p (Some c) = Inr (Some (c\<lparr>fw_ipacket := p, fw_packet_size := ucast (f_caplen p), has_a_satisfied_rule := False,
       fw_packet_data := m\<rparr>))" "length m = 65535" "take (unat (ucast (f_caplen p) :: u16)) m = copy_of p"
    using forward_before_ok [OF assms(2,3)] by blast
  let ?c = "c\<lparr>fw_ipacket := p, fw_packet_size := ucast (f_caplen p), has_a_satisfied_rule := False, fw_packet_data := m\<rparr>"
  have fits: "context_fits ?c" using assms(2) b(2) by (simp add: context_fits_def packet_fits_def)
  obtain d ws where r: "run_rules E now as (Some ?c) = Inr (Some d, ws)" "same_packet ?c d"
    "nb_forwarded_packets d = nb_forwarded_packets c + of_nat (accepted ws)"
    "nb_dropped_packets d = nb_dropped_packets c + of_nat (count_list as Rule_drop)" "has_a_satisfied_rule d = (Rule_satisfied \<in> set as)"
    "as = [] \<longrightarrow> d = ?c \<and> ws = []"
    using run_rules_counts [OF assms(1) fits, of now as] by auto
  have d: "fw_config d = fw_config c" "length (fw_packet_data d) = 65535" using r(2) b(2) by (simp_all add: same_packet_def)
  show ?thesis
  proof (cases "Rule_satisfied \<in> set as")
    case True
    then have "forward_one E (now, as, p) (Some c) = Inr (Some d, ws)" "as \<noteq> []"
      using b(1) r(1,5) by (auto simp: forward_one_def forward_after_def)
    then show ?thesis using True r(3,4) d by (auto simp: drops_def)
  next
    case False
    then have as: "as = []" "d = ?c" "ws = []" using assms(4) r(6) by auto
    obtain w2 st where s: "send_packet_to_nic E now ?c
        = Inr (?c\<lparr>nb_forwarded_packets := nb_forwarded_packets ?c + of_nat (accepted w2), fw_stat := st\<rparr>, w2, accepted w2 > 0)"
      "carries (take (unat (fw_packet_size ?c)) (fw_packet_data ?c)) w2"
      using send_ok [of ?c E now] fits by (auto simp: context_fits_def)
    show ?thesis
    proof (cases "fp_default_action (fw_config c) = 1")
      case True
      then have "forward_one E (now, as, p) (Some c) = Inr (Some (?c\<lparr>nb_dropped_packets := nb_dropped_packets c + 1\<rparr>), [])"
        using b(1) as by (simp add: forward_one_def forward_after_def)
      then show ?thesis using True as(1) b(2) by (auto simp: drops_def)
    next
      case False
      let ?d = "?c\<lparr>nb_forwarded_packets := nb_forwarded_packets c + of_nat (accepted w2), fw_stat := st\<rparr>"
      have "forward_one E (now, as, p) (Some c)
          = Inr (Some (if accepted w2 > 0 then ?d else ?d\<lparr>nb_dropped_packets := nb_dropped_packets c + 1\<rparr>), w2)"
        using b(1) as False s(1) by (simp add: forward_one_def forward_after_def)
      then show ?thesis using False as(1) b(2,3) s(2) by (auto simp: drops_def)
    qed
  qed
qed

section \<open>Properties\<close>

definition sample_fwd_env :: fwd_env where
  "sample_fwd_env = \<lparr>accepts = \<lambda>w i. i < 1, update_ngap_data = \<lambda>m n p proto att v. (m, 0), connect_ok = \<lambda>_. True, pcap_open_ok = True\<rparr>"

definition sample_fwd_packet :: fwd_packet where
  "sample_fwd_packet = \<lparr>f_data = [1, 2, 3], f_caplen = 3, f_sctp_offset = None, f_udp_offset = None\<rparr>"

definition sample_fwd_context :: forward_context where
  "sample_fwd_context = \<lparr>fw_config = \<lparr>fp_is_enable = True, fp_output_nic = None, fp_snap_len = 65535, fp_promisc = 1, fp_nb_copies = 2,
       fp_default_action = 0, fp_targets = []\<rparr>, nb_forwarded_packets = 0, nb_dropped_packets = 0, fw_packet_data = replicate 65535 0,
     fw_packet_size = 0, has_a_satisfied_rule = False, fw_ipacket = sample_fwd_packet, fw_injector = 2,
     fw_proto_injector = \<lparr>ip_sctp = None, ip_udp = None\<rparr>, fw_stat = \<lparr>fs_nb_packets = 0, fs_nb_bytes = 0, fs_last_time = 0\<rparr>\<rparr>"



text \<open>The number of copies is cut to 16 bits: with 65536 copies nothing is sent.\<close>

lemma copies_are_cut: "inject_packet_send_packet E (of_nat 65536) b = ([], 0)"
  by (simp add: inject_packet_send_packet_def)

text \<open>A packet that a rule forwards but the network refuses is neither counted as forwarded nor as dropped.\<close>

lemma refused_by_rule_not_counted:
  assumes "send_packet_to_nic E now c = Inr (c, ws, False)" "has_a_satisfied_rule c"
  shows "bindE (mmt_probe_forward_packet E now (Some c)) (\<lambda>(d, _). forward_after E now d) = Inr (Some c, [])"
  using assms by (simp add: mmt_probe_forward_packet_def forward_after_def)

end
