(* ===== verification/Security.thy ===== *)
theory Security
  imports Forward Output Dpi_Tool
begin

text \<open>
  The adapter to MMT-Security, \<^verbatim>\<open>src/src/modules/security/security.c\<close>: the attributes that the rules need are extracted from each
  packet into a message, the message is checked against the rules, verdicts become reports, and packets are forwarded (\<open>Forward\<close>).

  MMT-DPI and MMT-Security are parameters (\<open>sec_api\<close>): the numbers they give to protocols and attributes, how they fill
  a message, and what checking a message leads to, as a list of events. Checking is synchronous, as it is without security threads.
\<close>

section \<open>Messages\<close>

record message_t =
  elements_count :: nat
  msg_data_index :: nat
  msg_data_length :: nat
  msg_timestamp :: timeval
  msg_counter :: u64
  msg_flow_id :: u64

record sec_packet =
  q_packet :: fwd_packet
  q_hierarchy :: "proto_hierarchy option"
  q_session_id :: u64
  q_packet_id :: u64
  q_ts :: timeval
  q_data :: "u32 \<Rightarrow> u32 \<Rightarrow> u8 list option"
  q_data_at :: "u32 \<Rightarrow> u32 \<Rightarrow> nat \<Rightarrow> u8 list option"
  q_length :: "u32 \<Rightarrow> u32 \<Rightarrow> u32 option"

record rule_info =
  r_id :: u32
  r_type_id :: nat
  r_type_string :: string
  r_description :: string

datatype sec_event = Verdict rule_info string timeval string | Call rule_action

record proto_att =
  pa_proto_id :: u32
  pa_att_id :: u32
  pa_dpi_type :: nat

record sec_api =
  PROTO_TCP :: u32
  PROTO_IP :: u32
  IP_OPTS :: u32
  IP_HEADER_LEN :: u32
  TCP_SESSION_PAYLOAD_UP :: u32
  TCP_SESSION_PAYLOAD_UP_LEN :: u32
  TCP_SESSION_PAYLOAD_DOWN :: u32
  TCP_SESSION_PAYLOAD_DOWN_LEN :: u32
  SIZE_OF_MMT_MEMORY_T :: nat
  MMT_DATA_POINTER :: nat
  create_message :: "nat \<Rightarrow> message_t"
  set_element_data :: "message_t \<Rightarrow> u32 \<Rightarrow> u32 \<Rightarrow> u8 list \<Rightarrow> nat \<Rightarrow> message_t"
  set_void_data :: "message_t \<Rightarrow> u32 \<Rightarrow> u32 \<Rightarrow> u8 list \<Rightarrow> message_t"
  set_dpi_data :: "message_t \<Rightarrow> u32 \<Rightarrow> u32 \<Rightarrow> u8 list \<Rightarrow> nat \<Rightarrow> message_t"
  set_packet_data :: "message_t \<Rightarrow> u32 \<Rightarrow> u32 \<Rightarrow> nat \<Rightarrow> sec_packet \<Rightarrow> message_t"
  is_ignore_remain_flow :: "u64 \<Rightarrow> bool"
  sec_process :: "message_t \<Rightarrow> sec_event list"
  register_extraction :: "u32 \<Rightarrow> u32 \<Rightarrow> bool"

definition get_msg_room :: "sec_api \<Rightarrow> message_t \<Rightarrow> nat" where
  "get_msg_room A msg =
     (let used_room = (elements_count msg * SIZE_OF_MMT_MEMORY_T A + msg_data_index msg + SIZE_OF_MMT_MEMORY_T A) mod 2 ^ 32
      in if msg_data_length msg \<le> used_room then 0 else msg_data_length msg - used_room)"

text \<open>The index of the \<^verbatim>\<open>encap_index\<close>-th occurrence of a protocol, or of the last one; \<^verbatim>\<open>-1\<close> is \<open>None\<close>.\<close>

fun find_loop :: "u32 \<Rightarrow> int \<Rightarrow> int \<Rightarrow> nat option \<Rightarrow> nat \<Rightarrow> u32 list \<Rightarrow> nat option" where
  "find_loop proto_id encap_index proto_order last_i i [] = last_i"
| "find_loop proto_id encap_index proto_order last_i i (p # ps) =
     (if p = proto_id
      then if proto_order + 1 = encap_index then Some i else find_loop proto_id encap_index (proto_order + 1) (Some i) (i + 1) ps
      else find_loop proto_id encap_index proto_order last_i (i + 1) ps)"

definition find_proto_index :: "u32 \<Rightarrow> int \<Rightarrow> proto_hierarchy option \<Rightarrow> nat option cres" where
  "find_proto_index proto_id encap_index hierarchy =
     (case hierarchy of None \<Rightarrow> Inr None
      | Some h \<Rightarrow>
          if ph_len h > length (proto_path h) then Inl OutOfBounds
          else Inr (find_loop proto_id encap_index 0 None 0 (take (ph_len h) (proto_path h))))"

definition CONF_IP_ENCAPSULATION_INDEX_FIRST :: int where
  "CONF_IP_ENCAPSULATION_INDEX_FIRST = 1"

text \<open>The data of a TCP flow, once its length is known.\<close>

definition extract_flow :: "sec_api \<Rightarrow> sec_packet \<Rightarrow> message_t \<Rightarrow> u32 \<Rightarrow> u32 \<Rightarrow> u32 option \<Rightarrow> message_t" where
  "extract_flow A p msg proto_id att_id data_len =
     (case data_len of None \<Rightarrow> msg
      | Some n \<Rightarrow>
          if unat n > get_msg_room A msg then msg
          else case q_data p proto_id att_id of None \<Rightarrow> msg
               | Some bytes \<Rightarrow> set_element_data A msg proto_id att_id bytes (unat n))"

text \<open>The result says whether the attribute needs no more processing.\<close>

definition extract_data_for_specific_attribute ::
  "sec_api \<Rightarrow> security_conf \<Rightarrow> sec_packet \<Rightarrow> nat \<Rightarrow> message_t \<Rightarrow> u32 \<Rightarrow> u32 \<Rightarrow> (message_t \<times> bool) cres" where
  "extract_data_for_specific_attribute A conf p dpi_type msg proto_id att_id =
     (if proto_id = PROTO_TCP A then
        if att_id = TCP_SESSION_PAYLOAD_UP A
        then Inr (extract_flow A p msg proto_id att_id (q_length p (PROTO_TCP A) (TCP_SESSION_PAYLOAD_UP_LEN A)), True)
        else if att_id = TCP_SESSION_PAYLOAD_DOWN A
        then Inr (extract_flow A p msg proto_id att_id (q_length p (PROTO_TCP A) (TCP_SESSION_PAYLOAD_DOWN_LEN A)), True)
        else Inr (msg, False)
      else if proto_id = PROTO_IP A then
        if ip_encapsulation_index conf = CONF_IP_ENCAPSULATION_INDEX_FIRST then Inr (msg, False)
        else bindE (find_proto_index (PROTO_IP A) (ip_encapsulation_index conf) (q_hierarchy p)) (\<lambda>i.
             case i of None \<Rightarrow> Inr (msg, True)
             | Some i \<Rightarrow>
                 (case q_data_at p proto_id att_id i of None \<Rightarrow> Inr (msg, True)
                  | Some bytes \<Rightarrow>
                      Inr (if dpi_type = MMT_DATA_POINTER A then set_void_data A msg proto_id att_id bytes
                           else set_dpi_data A msg proto_id att_id bytes dpi_type, True)))
      else Inr (msg, False))"

fun extract_all :: "sec_api \<Rightarrow> security_conf \<Rightarrow> sec_packet \<Rightarrow> proto_att list \<Rightarrow> message_t \<Rightarrow> message_t cres" where
  "extract_all A conf p [] msg = Inr msg"
| "extract_all A conf p (a # as) msg =
     bindE (extract_data_for_specific_attribute A conf p (pa_dpi_type a) msg (pa_proto_id a) (pa_att_id a)) (\<lambda>(msg, ret).
       extract_all A conf p as
         (if ret then msg else set_packet_data A msg (pa_proto_id a) (pa_att_id a) (pa_dpi_type a) p))"

section \<open>Verdicts\<close>

record security_context =
  sc_config :: security_conf
  sc_proto_atts :: "proto_att list"
  sc_output :: "output_t option"
  sc_forward :: "forward_context option"

definition SECURITY_RULE_TYPE_FORWARD :: nat where
  "SECURITY_RULE_TYPE_FORWARD = 4"

definition SECURITY_REPORT_TYPE :: nat where
  "SECURITY_REPORT_TYPE = 10"

text \<open>
  \<open>verdict\<close> and \<open>trace\<close> are the texts that MMT-Security gives for the verdict and the trace; \<open>arrs\<close> the local arrays.
\<close>

definition print_security_verdict ::
  "chan_api \<Rightarrow> string \<times> string \<times> string \<Rightarrow> rule_info \<Rightarrow> string \<Rightarrow> timeval \<Rightarrow> string \<Rightarrow> security_context \<Rightarrow> fs
     \<Rightarrow> (security_context \<times> fs \<times> delivery list) cres" where
  "print_security_verdict C arrs rule verdict ts exec_trace ctx fs =
     (if r_type_id rule = SECURITY_RULE_TYPE_FORWARD
      then Inr (ctx\<lparr>sc_forward := forward_packet_mark_being_satisfied (sc_forward ctx)\<rparr>, fs, [])
      else let description = (if is_report_rule_description (sc_config ctx) then r_description rule else []) in
           bindE (STRING_BUILDER_WITH_SEPARATOR 0 (fst arrs) MAX_LENGTH_REPORT_MESSAGE '',''
                    [F_INT (ucast (r_id rule)), F_STR verdict, F_STR (r_type_string rule), F_STR description, F_ARR exec_trace]) (\<lambda>(message, _).
           bindE (output_write_report C (snd arrs) (sec_output_channels (sc_config ctx)) SECURITY_REPORT_TYPE ts (Some message)
                    (sc_output ctx) fs) (\<lambda>(output, fs, ds, _). Inr (ctx\<lparr>sc_output := output\<rparr>, fs, ds))))"

text \<open>What happens while a message is checked: verdicts, and calls that forwarding rules make.\<close>

fun run_events ::
  "chan_api \<Rightarrow> string \<times> string \<times> string \<Rightarrow> fwd_env \<Rightarrow> int \<Rightarrow> sec_event list \<Rightarrow> security_context \<Rightarrow> fs
     \<Rightarrow> (security_context \<times> fs \<times> delivery list \<times> attempts) cres" where
  "run_events C arrs E now [] ctx fs = Inr (ctx, fs, [], [])"
| "run_events C arrs E now (Verdict rule verdict ts tr # es) ctx fs =
     bindE (print_security_verdict C arrs rule verdict ts tr ctx fs) (\<lambda>(ctx, fs, ds).
     bindE (run_events C arrs E now es ctx fs) (\<lambda>(ctx, fs, ds', ws). Inr (ctx, fs, ds @ ds', ws)))"
| "run_events C arrs E now (Call a # es) ctx fs =
     bindE (run_rules E now [a] (sc_forward ctx)) (\<lambda>(fwd, ws).
     bindE (run_events C arrs E now es (ctx\<lparr>sc_forward := fwd\<rparr>) fs) (\<lambda>(ctx, fs, ds, ws'). Inr (ctx, fs, ds, ws @ ws')))"

section \<open>The packet handler\<close>

text \<open>The events of one packet: none when the rest of its flow is ignored or when it holds nothing of interest.\<close>

definition packet_events :: "sec_api \<Rightarrow> security_context \<Rightarrow> sec_packet \<Rightarrow> sec_event list cres" where
  "packet_events A ctx p =
     (if ignore_remain_flow (sc_config ctx) \<and> is_ignore_remain_flow A (q_session_id p) then Inr []
      else bindE (extract_all A (sc_config ctx) p (sc_proto_atts ctx) (create_message A (length (sc_proto_atts ctx)))) (\<lambda>msg.
           if elements_count msg = 0 then Inr []
           else let msg = msg\<lparr>msg_timestamp := q_ts p, msg_counter := q_packet_id p\<rparr>;
                    msg = (if ignore_remain_flow (sc_config ctx) then msg\<lparr>msg_flow_id := q_session_id p\<rparr> else msg)
                in Inr (sec_process A msg)))"

definition security_packet_handler ::
  "sec_api \<Rightarrow> chan_api \<Rightarrow> string \<times> string \<times> string \<Rightarrow> fwd_env \<Rightarrow> int \<Rightarrow> sec_packet \<Rightarrow> security_context \<Rightarrow> fs
     \<Rightarrow> (security_context \<times> fs \<times> delivery list \<times> attempts) cres" where
  "security_packet_handler A C arrs E now p ctx fs =
     bindE (forward_before (q_packet p) (sc_forward ctx)) (\<lambda>fwd.
     let ctx = ctx\<lparr>sc_forward := fwd\<rparr> in
     bindE (packet_events A ctx p) (\<lambda>es.
     bindE (run_events C arrs E now es ctx fs) (\<lambda>(ctx, fs, ds, ws).
     bindE (forward_after E now (sc_forward ctx)) (\<lambda>(fwd, ws'). Inr (ctx\<lparr>sc_forward := fwd\<rparr>, fs, ds, ws @ ws')))))"

section \<open>Start and end\<close>

text \<open>An attribute that another one needs: its number and whether it was registered.\<close>

definition register_additional_attributes_if_need :: "sec_api \<Rightarrow> bool \<Rightarrow> u32 \<Rightarrow> u32 \<Rightarrow> u32 option" where
  "register_additional_attributes_if_need A reassembly_module proto_id att_id =
     (let try = (\<lambda>proto att. if register_extraction A proto att then Some att else None) in
      if proto_id = PROTO_IP A \<and> att_id = IP_OPTS A then try (PROTO_IP A) (IP_HEADER_LEN A)
      else if \<not> reassembly_module then None
      else if proto_id = PROTO_TCP A \<and> att_id = TCP_SESSION_PAYLOAD_UP A then try (PROTO_TCP A) (TCP_SESSION_PAYLOAD_UP_LEN A)
      else if proto_id = PROTO_TCP A \<and> att_id = TCP_SESSION_PAYLOAD_DOWN A then try (PROTO_TCP A) (TCP_SESSION_PAYLOAD_DOWN_LEN A)
      else None)"

text \<open>\<^verbatim>\<open>_update_lib_security_param\<close>: the parameters of the library as a function from their numbers.\<close>

definition update_lib_security_param :: "nat \<Rightarrow> nat \<Rightarrow> (nat \<Rightarrow> nat) \<Rightarrow> nat \<Rightarrow> nat" where
  "update_lib_security_param param_id val params =
     (if val = 0 then params else if val = params param_id then params else params(param_id := val))"

text \<open>The attributes that are asked for, with those they need, in order; whether one of them needs reassembly.\<close>

fun register_atts :: "sec_api \<Rightarrow> bool \<Rightarrow> proto_att list \<Rightarrow> (u32 \<times> u32) list \<times> bool" where
  "register_atts A reassembly_module [] = ([], False)"
| "register_atts A reassembly_module (a # as) =
     (let (rs, need) = register_atts A reassembly_module as;
          proto = pa_proto_id a; att = pa_att_id a;
          own = (if register_extraction A proto att then [(proto, att)] else []);
          add = (case register_additional_attributes_if_need A reassembly_module proto att of None \<Rightarrow> [] | Some x \<Rightarrow> [(proto, x)])
      in (own @ add @ rs,
          need \<or> reassembly_module \<and> proto = PROTO_TCP A \<and> (att = TCP_SESSION_PAYLOAD_UP A \<or> att = TCP_SESSION_PAYLOAD_DOWN A)))"

text \<open>The numbers 0, 1 and 2 stand for the three parameters the code sets.\<close>

definition security_worker_alloc_init ::
  "sec_api \<Rightarrow> bool \<Rightarrow> fwd_env \<Rightarrow> int \<Rightarrow> u8 list \<Rightarrow> fwd_packet \<Rightarrow> proto_att list \<Rightarrow> probe_conf \<Rightarrow> output_t option \<Rightarrow> (nat \<Rightarrow> nat)
     \<Rightarrow> (security_context option \<times> (nat \<Rightarrow> nat) \<times> (u32 \<times> u32) list) cres" where
  "security_worker_alloc_init A reassembly_module E now fresh none atts conf output params =
     bindE (deref (security (reports conf))) (\<lambda>config.
       if \<not> sec_is_enable config then Inr (None, params, [])
       else let params = update_lib_security_param 0 (input_max_message_size config) params;
                params = update_lib_security_param 1 (security_max_instances config) params;
                params = update_lib_security_param 2 (security_smp_ring_size config) params
            in bindE (forward_packet_alloc E now fresh none conf) (\<lambda>fwd.
                 Inr (Some \<lparr>sc_config = config, sc_proto_atts = atts, sc_output = output, sc_forward = fwd\<rparr>, params,
                      fst (register_atts A reassembly_module atts))))"

text \<open>\<open>alerts\<close> is what MMT-Security counted.\<close>

definition security_worker_release :: "nat \<Rightarrow> security_context option \<Rightarrow> (u64 \<times> u64) option \<times> nat" where
  "security_worker_release alerts ctx =
     (case ctx of None \<Rightarrow> (None, 0) | Some c \<Rightarrow> (forward_packet_release (sc_forward c), alerts))"

section \<open>Lemmas\<close>

text \<open>The room of a message: what fits according to \<^verbatim>\<open>_get_msg_room\<close> fits behind the data and the descriptions of the elements, one more included.\<close>

lemma room_is_enough:
  assumes "n \<le> get_msg_room A msg" "0 < n"
    and "elements_count msg * SIZE_OF_MMT_MEMORY_T A + msg_data_index msg + SIZE_OF_MMT_MEMORY_T A < 2 ^ 32"
  shows "(elements_count msg + 1) * SIZE_OF_MMT_MEMORY_T A + msg_data_index msg + n \<le> msg_data_length msg"
  using assms by (simp add: get_msg_room_def Let_def split: if_splits)

text \<open>The occurrences of a protocol in a path.\<close>

definition occurrences :: "u32 \<Rightarrow> nat \<Rightarrow> u32 list \<Rightarrow> nat list" where
  "occurrences proto_id i ps = map fst (filter (\<lambda>(j, p). p = proto_id) (zip [i..<i + length ps] ps))"

lemma occurrences_simps [simp]:
  "occurrences proto_id i [] = []"
  "occurrences proto_id i (p # ps) = (if p = proto_id then i # occurrences proto_id (i + 1) ps else occurrences proto_id (i + 1) ps)"
  by (simp_all add: occurrences_def upt_conv_Cons del: upt_Suc)

lemma find_loop_occurrences:
  "find_loop proto_id k c last_i i ps =
     (let os = occurrences proto_id i ps in
      if os = [] then last_i else if c < k \<and> k \<le> c + int (length os) then Some (os ! nat (k - c - 1)) else Some (last os))"
proof (induction proto_id k c last_i i ps rule: find_loop.induct)
  case (2 proto_id k c last_i i p ps)
  show ?case
  proof (cases "p = proto_id \<and> c + 1 \<noteq> k")
    case True
    define os where "os = occurrences proto_id (i + 1) ps"
    have e: "nat (k - c - 1) = Suc (nat (k - (c + 1) - 1))" if "c + 1 < k" using that by simp
    from True 2(1) have "find_loop proto_id k c last_i i (p # ps)
        = (if os = [] then Some i else if c + 1 < k \<and> k \<le> c + 1 + int (length os) then Some (os ! nat (k - (c + 1) - 1)) else Some (last os))"
      by (simp add: os_def Let_def)
    also have "\<dots> = (if c < k \<and> k \<le> c + int (length (i # os)) then Some ((i # os) ! nat (k - c - 1)) else Some (last (i # os)))"
      using True e by (auto simp del: nat_diff_distrib')
    finally show ?thesis using True by (simp add: os_def Let_def)
  qed (use 2 in \<open>auto simp: Let_def\<close>)
qed (simp add: Let_def)

lemma bindE_pair: "bindE r Inr = r"
  by (cases r) auto

lemma run_rules_cons:
  "run_rules E now (a # as) c = bindE (run_rules E now [a] c) (\<lambda>(c, ws). bindE (run_rules E now as c) (\<lambda>(c, ws'). Inr (c, ws @ ws')))"
proof (cases a)
  case Rule_forward
  then show ?thesis by (cases "mmt_probe_forward_packet E now c") (auto simp: bindE_assoc)
qed (simp_all add: bindE_pair)

text \<open>What a list of events means for forwarding.\<close>

fun actions :: "sec_event list \<Rightarrow> rule_action list" where
  "actions [] = []"
| "actions (Verdict rule v ts tr # es) = (if r_type_id rule = SECURITY_RULE_TYPE_FORWARD then Rule_satisfied # actions es else actions es)"
| "actions (Call a # es) = a # actions es"

lemma run_events_actions:
  "run_events C arrs E now es ctx fs = Inr (ctx', fs', ds, ws) \<Longrightarrow>
   run_rules E now (actions es) (sc_forward ctx) = Inr (sc_forward ctx', ws)"
proof (induction C arrs E now es ctx fs arbitrary: ctx' fs' ds ws rule: run_events.induct)
  case (2 C arrs E now rule v ts tr es ctx fs)
  obtain ctx1 fs1 ds1 ds2 where 1: "print_security_verdict C arrs rule v ts tr ctx fs = Inr (ctx1, fs1, ds1)"
    "run_events C arrs E now es ctx1 fs1 = Inr (ctx', fs', ds2, ws)" using 2(2) by (auto simp: bindE_eq_Inr)
  have "sc_forward ctx1 = (if r_type_id rule = SECURITY_RULE_TYPE_FORWARD then forward_packet_mark_being_satisfied (sc_forward ctx) else sc_forward ctx)"
    using 1(1) by (auto simp: print_security_verdict_def bindE_eq_Inr Let_def split: if_splits)
  then show ?case using 2(1) [OF 1(2)] by (simp split: if_splits)
next
  case (3 C arrs E now a es ctx fs)
  obtain fwd ws1 ds1 ws2 where 1: "run_rules E now [a] (sc_forward ctx) = Inr (fwd, ws1)"
    "run_events C arrs E now es (ctx\<lparr>sc_forward := fwd\<rparr>) fs = Inr (ctx', fs', ds1, ws2)" "ws = ws1 @ ws2" using 3(2) by (auto simp: bindE_eq_Inr)
  have "run_rules E now (actions es) fwd = Inr (sc_forward ctx', ws2)" using 3(1) [OF 1(2)] by simp
  then show ?case using 1(1,3) run_rules_cons [of E now a "actions es" "sc_forward ctx"] by simp
qed simp

section \<open>Properties\<close>

definition sample_sec_api :: sec_api where
  "sample_sec_api = \<lparr>PROTO_TCP = 354, PROTO_IP = 178, IP_OPTS = 13, IP_HEADER_LEN = 2, TCP_SESSION_PAYLOAD_UP = 40, TCP_SESSION_PAYLOAD_UP_LEN = 41,
     TCP_SESSION_PAYLOAD_DOWN = 42, TCP_SESSION_PAYLOAD_DOWN_LEN = 43, SIZE_OF_MMT_MEMORY_T = 16, MMT_DATA_POINTER = 6,
     create_message = \<lambda>n. \<lparr>elements_count = 0, msg_data_index = 0, msg_data_length = 1000, msg_timestamp = \<lparr>tv_sec = 0, tv_usec = 0\<rparr>,
        msg_counter = 0, msg_flow_id = 0\<rparr>,
     set_element_data = \<lambda>m p a b n. m\<lparr>elements_count := elements_count m + 1\<rparr>,
     set_void_data = \<lambda>m p a b. m\<lparr>elements_count := elements_count m + 1\<rparr>,
     set_dpi_data = \<lambda>m p a b n. m\<lparr>elements_count := elements_count m + 1\<rparr>,
     set_packet_data = \<lambda>m p a n q. m\<lparr>elements_count := elements_count m + 1\<rparr>, is_ignore_remain_flow = \<lambda>_. False,
     sec_process = \<lambda>m. [Verdict \<lparr>r_id = 1, r_type_id = 4, r_type_string = ''forward'', r_description = []\<rparr> ''detected'' \<lparr>tv_sec = 1, tv_usec = 0\<rparr> ''{}'',
        Call Rule_drop], register_extraction = \<lambda>_ _. True\<rparr>"

definition sample_sec_packet :: sec_packet where
  "sample_sec_packet = \<lparr>q_packet = sample_fwd_packet, q_hierarchy = Some \<lparr>ph_len = 3, proto_path = [1, 99, 178]\<rparr>, q_session_id = 5, q_packet_id = 6,
     q_ts = \<lparr>tv_sec = 1, tv_usec = 0\<rparr>, q_data = \<lambda>_ _. None, q_data_at = \<lambda>_ _ _. None, q_length = \<lambda>_ _. None\<rparr>"

definition sample_sec_context :: security_context where
  "sample_sec_context = \<lparr>sc_config = \<lparr>sec_is_enable = True, is_report_rule_description = False, ignore_remain_flow = False, threads_size = 0,
       excluded_rules = None, rules_mask = None, sec_output_channels = 0, input_max_message_size = 0, security_max_instances = 0,
       security_smp_ring_size = 0, ip_encapsulation_index = 1\<rparr>,
     sc_proto_atts = [\<lparr>pa_proto_id = 178, pa_att_id = 12, pa_dpi_type = 1\<rparr>], sc_output = None, sc_forward = Some sample_fwd_context\<rparr>"



text \<open>
  With nested IP headers the \<open>k\<close>-th one is chosen, or the last one when there are fewer; none is found exactly when the path has no such protocol.
\<close>

theorem find_proto_index_nth:
  assumes "ph_len h \<le> length (proto_path h)" "1 \<le> k"
  shows "find_proto_index proto k (Some h)
     = Inr (let os = occurrences proto 0 (take (ph_len h) (proto_path h))
            in if os = [] then None else Some (if nat k \<le> length os then os ! (nat k - 1) else last os))"
  using assms by (auto simp: find_proto_index_def find_loop_occurrences Let_def nat_diff_distrib nat_le_iff)

theorem find_proto_index_nth_witness:
  "find_proto_index 178 2 (Some \<lparr>ph_len = 5, proto_path = [1, 178, 99, 178, 354]\<rparr>) = Inr (Some 3)"
  using find_proto_index_nth [of "\<lparr>ph_len = 5, proto_path = [1, 178, 99, 178, 354]\<rparr>" 2 178] by (simp add: Let_def)

end
